(* ===== verification/Prelude.thy ===== *)
theory Prelude
  imports Main "HOL-Library.Word" "HOL-Library.Signed_Division"
begin

text \<open>
  Shared vocabulary of the development: the fixed-width types of the Go sources, the
  outcome of a Go call (value, error, panic), the state-passing combinators in which the
  stateful operations are written, big-endian byte strings, and the generic lemmas the
  component theories use.

  A Go function that may fail returns a value and an error; a Go panic unwinds every caller.
  Both leave the state as it was when they happened: nothing is rolled back here (rolling back
  is the EVM's business). Hence an operation is a function from a state to an outcome
  and the state after it, also for the failing outcomes.
\<close>

section \<open>Types\<close>

type_synonym byte = "8 word"
type_synonym bytes = "byte list"
type_synonym u8 = "8 word"
type_synonym u16 = "16 word"
type_synonym u32 = "32 word"
type_synonym u64 = "64 word"
type_synonym hash = "256 word"
type_synonym address = "160 word"

text \<open>
  Signed machine integers (\<open>int64\<close>, \<open>Bips\<close>) and \<open>*big.Int\<close> values are \<open>int\<close>; where a
  signed machine integer can overflow the wrap-around is written out with \<open>wrapS\<close>.
\<close>

section \<open>Outcomes and stateful operations\<close>

datatype error =
    ErrWriteProtection
  | ErrOutOfGas
  | ErrInsufficientBalance
  | ErrInsufficientFunds
  | ErrInvalidTime
  | ErrAlreadyExists
  | ErrNotExist
  | ErrMsg string
  | ErrWrap string error

datatype 'a result = Ok 'a | Err error | Panic string

type_synonym ('s, 'a) op = "'s \<Rightarrow> 'a result \<times> 's"

definition ret :: "'a \<Rightarrow> ('s, 'a) op" where
  "ret x = (\<lambda>s. (Ok x, s))"

definition throw :: "error \<Rightarrow> ('s, 'a) op" where
  "throw e = (\<lambda>s. (Err e, s))"

definition panic :: "string \<Rightarrow> ('s, 'a) op" where
  "panic p = (\<lambda>s. (Panic p, s))"

text \<open>\<open>bnd m f\<close>: run \<open>m\<close>; an error or a panic of \<open>m\<close> is the outcome of the whole, otherwise
  go on with its value. It is Go's \<^verbatim>\<open>x, err := m(); if err != nil { return err }\<close>.\<close>

definition bnd :: "('s, 'a) op \<Rightarrow> ('a \<Rightarrow> ('s, 'b) op) \<Rightarrow> ('s, 'b) op" where
  "bnd m f = (\<lambda>s. case m s of
      (Ok x, s') \<Rightarrow> f x s'
    | (Err e, s') \<Rightarrow> (Err e, s')
    | (Panic p, s') \<Rightarrow> (Panic p, s'))"

text \<open>\<open>or_zero d m\<close>: Go's \<^verbatim>\<open>x, _ := m()\<close>, which drops the error and goes on with the zero
  value \<open>d\<close> that the callee returns beside it. A panic is not dropped.\<close>

definition or_zero :: "'a \<Rightarrow> ('s, 'a) op \<Rightarrow> ('s, 'a) op" where
  "or_zero d m = (\<lambda>s. case m s of
      (Ok x, s') \<Rightarrow> (Ok x, s')
    | (Err e, s') \<Rightarrow> (Ok d, s')
    | (Panic p, s') \<Rightarrow> (Panic p, s'))"

abbreviation ignore :: "('s, unit) op \<Rightarrow> ('s, unit) op" where
  "ignore m \<equiv> or_zero () m"

text \<open>\<open>or_nil m\<close>: \<^verbatim>\<open>x, _ := m()\<close> for a pointer \<open>x\<close> that is used next: the nil beside a dropped error
  is dereferenced.\<close>

definition or_nil :: "('s, 'a) op \<Rightarrow> ('s, 'a) op" where
  "or_nil m = (\<lambda>s. case m s of
      (Ok x, s') \<Rightarrow> (Ok x, s')
    | (Err e, s') \<Rightarrow> (Panic ''invalid memory address or nil pointer dereference'', s')
    | (Panic p, s') \<Rightarrow> (Panic p, s'))"

text \<open>\<open>wrap_err msg m\<close>: an error of \<open>m\<close> is returned as \<^verbatim>\<open>fmt.Errorf("msg: %w", err)\<close>.\<close>

definition wrap_err :: "string \<Rightarrow> ('s, 'a) op \<Rightarrow> ('s, 'a) op" where
  "wrap_err msg m = (\<lambda>s. case m s of
      (Ok x, s') \<Rightarrow> (Ok x, s')
    | (Err e, s') \<Rightarrow> (Err (ErrWrap msg e), s')
    | (Panic p, s') \<Rightarrow> (Panic p, s'))"

text \<open>\<open>for_each xs f\<close>: a Go loop over a range, left at the first error.\<close>

primrec for_each :: "'a list \<Rightarrow> ('a \<Rightarrow> ('s, unit) op) \<Rightarrow> ('s, unit) op" where
  "for_each [] f = ret ()"
| "for_each (x # xs) f = bnd (f x) (\<lambda>_. for_each xs f)"

text \<open>\<open>collect xs f\<close>: a loop that appends one result per element to a slice.\<close>

primrec collect :: "'a list \<Rightarrow> ('a \<Rightarrow> ('s, 'b) op) \<Rightarrow> ('s, 'b list) op" where
  "collect [] f = ret []"
| "collect (x # xs) f = bnd (f x) (\<lambda>y. bnd (collect xs f) (\<lambda>ys. ret (y # ys)))"

text \<open>\<open>fold_op f xs a\<close>: a loop that updates a local variable.\<close>

primrec fold_op :: "('a \<Rightarrow> 'b \<Rightarrow> ('s, 'b) op) \<Rightarrow> 'a list \<Rightarrow> 'b \<Rightarrow> ('s, 'b) op" where
  "fold_op f [] a = ret a"
| "fold_op f (x # xs) a = bnd (f x a) (fold_op f xs)"

primrec repeat_op :: "nat \<Rightarrow> ('s, 'a) op \<Rightarrow> ('s, unit) op" where
  "repeat_op 0 m = ret ()"
| "repeat_op (Suc n) m = bnd m (\<lambda>_. repeat_op n m)"

definition is_ok :: "'a result \<Rightarrow> bool" where
  "is_ok r = (case r of Ok _ \<Rightarrow> True | _ \<Rightarrow> False)"

named_theorems op_simps \<open>evaluation of the state-passing combinators\<close>

lemma ret_run [op_simps]: "ret x s = (Ok x, s)"
  by (simp add: ret_def)

lemma throw_run [op_simps]: "throw e s = (Err e, s)"
  by (simp add: throw_def)

lemma panic_run [op_simps]: "panic p s = (Panic p, s)"
  by (simp add: panic_def)

lemma bnd_run [op_simps]:
  "m s = (Ok x, s') \<Longrightarrow> bnd m f s = f x s'"
  "m s = (Err e, s') \<Longrightarrow> bnd m f s = (Err e, s')"
  "m s = (Panic p, s') \<Longrightarrow> bnd m f s = (Panic p, s')"
  by (simp_all add: bnd_def)

lemma or_zero_run [op_simps]:
  "m s = (Ok x, s') \<Longrightarrow> or_zero d m s = (Ok x, s')"
  "m s = (Err e, s') \<Longrightarrow> or_zero d m s = (Ok d, s')"
  "m s = (Panic p, s') \<Longrightarrow> or_zero d m s = (Panic p, s')"
  by (simp_all add: or_zero_def)

lemma or_nil_run [op_simps]:
  "m s = (Ok x, s') \<Longrightarrow> or_nil m s = (Ok x, s')"
  by (simp add: or_nil_def)

lemma wrap_err_run [op_simps]:
  "m s = (Ok x, s') \<Longrightarrow> wrap_err msg m s = (Ok x, s')"
  "m s = (Err e, s') \<Longrightarrow> wrap_err msg m s = (Err (ErrWrap msg e), s')"
  by (simp_all add: wrap_err_def)

lemma bnd_ret [simp]: "bnd (ret x) f = f x"
  by (rule ext) (simp add: bnd_def ret_def)

lemma bnd_throw [simp]: "bnd (throw e) f = throw e"
  by (rule ext) (simp add: bnd_def throw_def)

lemma bnd_panic [simp]: "bnd (panic p) f = panic p"
  by (rule ext) (simp add: bnd_def panic_def)

lemma bnd_ret_right [simp]: "bnd m ret = m"
  by (rule ext) (simp add: bnd_def ret_def split: prod.splits result.splits)

lemma bnd_assoc: "bnd (bnd m f) g = bnd m (\<lambda>x. bnd (f x) g)"
  by (rule ext) (simp add: bnd_def split: prod.splits result.splits)

lemma bnd_eq_Ok_iff:
  "bnd m f s = (Ok y, t) \<longleftrightarrow> (\<exists>x s'. m s = (Ok x, s') \<and> f x s' = (Ok y, t))"
  by (auto simp: bnd_def split: prod.splits result.splits)

lemma bnd_OkE:
  assumes "bnd m f s = (Ok y, t)"
  obtains x s' where "m s = (Ok x, s')" and "f x s' = (Ok y, t)"
  using assms by (auto simp: bnd_eq_Ok_iff)

lemma for_each_append:
  "for_each (xs @ ys) f = bnd (for_each xs f) (\<lambda>_. for_each ys f)"
  by (induction xs) (simp_all add: bnd_assoc)

lemma fold_op_append:
  "fold_op f (xs @ ys) a = bnd (fold_op f xs a) (fold_op f ys)"
proof (induction xs arbitrary: a)
  case (Cons x xs)
  then have "fold_op f (xs @ ys) = (\<lambda>b. bnd (fold_op f xs b) (fold_op f ys))" by (rule ext)
  then show ?case by (simp add: bnd_assoc)
qed simp

lemma is_ok_simps [simp]: "is_ok (Ok x)" "\<not> is_ok (Err e)" "\<not> is_ok (Panic p)"
  by (simp_all add: is_ok_def)

section \<open>Unsigned machine integers\<close>

lemma unat_lt_pow: "unat (x :: 'a::len word) < 2 ^ LENGTH('a)"
  by (rule unsigned_less)

lemma unat_plus_one: "x \<noteq> - 1 \<Longrightarrow> unat (x + 1 :: 'a::len word) = unat x + 1"
  using unatSuc [of x] by (simp add: add.commute [of x] add_eq_0_iff)

lemma less_unat_Suc: "(i :: 'a::len word) < j \<Longrightarrow> unat (i + 1) = unat i + 1"
  using word_n1_ge [of j] by (intro unat_plus_one) auto

lemma of_nat_unat_id: "of_nat (unat w) = (w :: 'a::len word)"
  by simp

lemma unat_of_nat_u64 [simp]: "i < 2 ^ 64 \<Longrightarrow> unat (of_nat i :: u64) = i"
  unfolding unat_of_nat by simp

lemma of_nat_u64_inject:
  "i < 2 ^ 64 \<Longrightarrow> j < 2 ^ 64 \<Longrightarrow> (of_nat i :: u64) = of_nat j \<longleftrightarrow> i = j"
  by (metis unat_of_nat_u64)

lemma of_nat_u64_eq_0: "i < 2 ^ 64 \<Longrightarrow> (of_nat i :: u64) = 0 \<longleftrightarrow> i = 0"
  by (simp only: word_unat_eq_iff unat_of_nat_u64 unat_0)

lemma unat_all_ones: "unat (- 1 :: 'a::len word) = 2 ^ LENGTH('a) - 1"
  by (simp add: unsigned_minus_1_eq_mask mask_eq_exp_minus_1)

section \<open>Signed machine integers\<close>

definition wrapS :: "nat \<Rightarrow> int \<Rightarrow> int" where
  "wrapS w x = (x + 2 ^ (w - 1)) mod 2 ^ w - 2 ^ (w - 1)"

definition inS :: "nat \<Rightarrow> int \<Rightarrow> bool" where
  "inS w x \<longleftrightarrow> - (2 ^ (w - 1)) \<le> x \<and> x < 2 ^ (w - 1)"

definition clampS :: "nat \<Rightarrow> int \<Rightarrow> int" where
  "clampS w x = (if x < - (2 ^ (w - 1)) then - (2 ^ (w - 1))
                 else if 2 ^ (w - 1) \<le> x then 2 ^ (w - 1) - 1 else x)"

text \<open>Go's \<open>/\<close> on signed integers truncates towards zero and wraps on \<open>min / -1\<close>.\<close>

definition goDivS :: "nat \<Rightarrow> int \<Rightarrow> int \<Rightarrow> int" where
  "goDivS w a b = wrapS w (a sdiv b)"

lemma pow2_double: "0 < w \<Longrightarrow> (2::int) ^ w = 2 * 2 ^ (w - 1)"
  by (cases w) simp_all

lemma wrapS_id: "0 < w \<Longrightarrow> inS w x \<Longrightarrow> wrapS w x = x"
  by (simp add: wrapS_def inS_def pow2_double)

lemma inS_wrapS: "0 < w \<Longrightarrow> inS w (wrapS w x)"
  using pos_mod_bound [of "2 ^ w" "x + 2 ^ (w - 1)"] pos_mod_sign [of "2 ^ w" "x + 2 ^ (w - 1)"]
  by (simp add: wrapS_def inS_def pow2_double)

lemma inS_clampS: "0 < w \<Longrightarrow> inS w (clampS w x)"
  by (auto simp: inS_def clampS_def)

lemma clampS_id: "inS w x \<Longrightarrow> clampS w x = x"
  by (simp add: inS_def clampS_def)

lemma wrapS_plus: "wrapS w (x + 2 ^ w) = wrapS w x"
  by (simp add: wrapS_def add.commute add.left_commute)
    (metis add.assoc add.commute mod_add_self2)

lemma wrapS_over:
  assumes "0 < w" and "2 ^ (w - 1) \<le> x" and "x < 3 * 2 ^ (w - 1)"
  shows "wrapS w x = x - 2 ^ w"
proof -
  have "wrapS w (x - 2 ^ w) = x - 2 ^ w"
    using assms by (intro wrapS_id) (simp_all add: inS_def pow2_double)
  then show ?thesis using wrapS_plus [of w "x - 2 ^ w"] by simp
qed

lemma wrapS_under:
  assumes "0 < w" and "x < - (2 ^ (w - 1))" and "- 3 * 2 ^ (w - 1) \<le> x"
  shows "wrapS w x = x + 2 ^ w"
proof -
  have "wrapS w (x + 2 ^ w) = x + 2 ^ w"
    using assms by (intro wrapS_id) (simp_all add: inS_def pow2_double)
  then show ?thesis by (simp add: wrapS_plus)
qed

section \<open>Big-endian byte strings\<close>

definition be_val :: "bytes \<Rightarrow> nat" where
  "be_val bs = foldl (\<lambda>a b. 256 * a + unat b) 0 bs"

primrec be_bytes :: "nat \<Rightarrow> nat \<Rightarrow> bytes" where
  "be_bytes 0 x = []"
| "be_bytes (Suc n) x = be_bytes n (x div 256) @ [of_nat (x mod 256)]"

lemma length_be_bytes [simp]: "length (be_bytes n x) = n"
  by (induction n arbitrary: x) simp_all

lemma be_val_Nil [simp]: "be_val [] = 0"
  by (simp add: be_val_def)

lemma be_val_snoc [simp]: "be_val (bs @ [b]) = 256 * be_val bs + unat b"
  by (simp add: be_val_def)

lemma unat_byte: "n < 256 \<Longrightarrow> unat (of_nat n :: byte) = n"
  by (simp add: unat_of_nat)

lemma unat_byte_less [simp]: "unat (b :: byte) < 256"
  using unsigned_less [of b, where 'a = nat] by simp

lemma be_val_be_bytes: "be_val (be_bytes n x) = x mod 256 ^ n"
proof (induction n arbitrary: x)
  case 0
  then show ?case by simp
next
  case (Suc n)
  have "be_val (be_bytes (Suc n) x) = 256 * (x div 256 mod 256 ^ n) + x mod 256"
    using Suc [of "x div 256"] by (simp add: unat_byte)
  also have "\<dots> = x mod (256 * 256 ^ n)"
    by (simp add: mod_mult2_eq)
  finally show ?case by simp
qed

lemma be_val_less: "be_val bs < 256 ^ length bs"
proof (induction bs rule: rev_induct)
  case Nil
  then show ?case by simp
next
  case (snoc b bs)
  have "256 * be_val bs + unat b < 256 * be_val bs + 256" by simp
  also have "\<dots> \<le> 256 * 256 ^ length bs" using snoc by simp
  finally show ?case by simp
qed

lemma be_bytes_be_val: "length bs = n \<Longrightarrow> be_bytes n (be_val bs) = bs"
proof (induction bs arbitrary: n rule: rev_induct)
  case Nil
  then show ?case by simp
next
  case (snoc b bs)
  have "(256 * be_val bs + unat b) div 256 = be_val bs"
    using unat_byte_less [of b] by simp
  moreover have "(of_nat ((256 * be_val bs + unat b) mod 256) :: byte) = b"
    using unat_byte_less [of b] by simp
  ultimately show ?case
    using snoc.IH [of "length bs"] snoc.prems by auto
qed

lemma be_val_inject: "length xs = length ys \<Longrightarrow> be_val xs = be_val ys \<longleftrightarrow> xs = ys"
  by (metis be_bytes_be_val)

lemma be_bytes_mod: "be_bytes n (x mod 256 ^ n) = be_bytes n x"
  using be_bytes_be_val [of "be_bytes n x" n] by (simp add: be_val_be_bytes)

lemma be_bytes_inject:
  "x < 256 ^ n \<Longrightarrow> y < 256 ^ n \<Longrightarrow> be_bytes n x = be_bytes n y \<longleftrightarrow> x = y"
  by (metis be_val_be_bytes mod_less)

lemma be_bytes_add:
  "be_bytes (m + n) x = be_bytes m (x div 256 ^ n) @ be_bytes n x"
proof (induction n arbitrary: x)
  case 0
  then show ?case by simp
next
  case (Suc n)
  show ?case
    using Suc [of "x div 256"] by (simp add: div_mult2_eq [symmetric] mult.commute)
qed

lemma be_val_append: "be_val (xs @ ys) = 256 ^ length ys * be_val xs + be_val ys"
  by (induction ys rule: rev_induct)
    (simp_all add: append_assoc [symmetric] algebra_simps del: append_assoc)

end
