(* ===== verification/ArbMath.thy ===== *)
theory ArbMath
  imports Prelude
begin

text \<open>
  The arithmetic library \<^verbatim>\<open>util/arbmath\<close>: saturating operations and casts on machine
  integers (\<^verbatim>\<open>math.go\<close>), basis points (\<^verbatim>\<open>bips.go\<close>), 24-bit integers
  (\<^verbatim>\<open>uint24.go\<close>), byte conversions (\<^verbatim>\<open>bits.go\<close>) and the bisection helpers
  (\<^verbatim>\<open>bold_math.go\<close>).

  Unsigned integers of width \<open>n\<close> are \<open>n word\<close>; the Go generics over unsigned types are
  polymorphic in the width. Signed integers are \<open>int\<close> together with their width
  \<open>w\<close>, wrapping with \<open>wrapS w\<close>. Divisions by zero panic, as in Go.
\<close>

section \<open>Definitions\<close>

subsection \<open>Divisions\<close>

definition goDivU :: "'a::len word \<Rightarrow> 'a word \<Rightarrow> ('s, 'a word) op" where
  "goDivU a b = (if b = 0 then panic ''integer divide by zero'' else ret (a div b))"

definition goDivI64 :: "int \<Rightarrow> int \<Rightarrow> ('s, int) op" where
  "goDivI64 a b = (if b = 0 then panic ''integer divide by zero'' else ret (goDivS 64 a b))"

subsection \<open>Powers of two and comparisons\<close>

fun bit_len :: "nat \<Rightarrow> nat" where
  "bit_len x = (if x = 0 then 0 else Suc (bit_len (x div 2)))"

definition Log2ceil :: "u64 \<Rightarrow> u64" where
  "Log2ceil value = of_nat (bit_len (unat value))"

definition NextPowerOf2 :: "u64 \<Rightarrow> u64" where
  "NextPowerOf2 value = push_bit (unat (Log2ceil value)) 1"

definition NextOrCurrentPowerOf2 :: "u64 \<Rightarrow> u64" where
  "NextOrCurrentPowerOf2 value =
     (let power = NextPowerOf2 value in if power = 2 * value then power div 2 else power)"

definition MinInt :: "'a::linorder \<Rightarrow> 'a \<Rightarrow> 'a" where
  "MinInt value ceiling = (if value > ceiling then ceiling else value)"

definition MaxInt :: "'a::linorder list \<Rightarrow> ('s, 'a) op" where
  "MaxInt values = (case values of
      [] \<Rightarrow> panic ''index out of range''
    | v # vs \<Rightarrow> ret (fold (\<lambda>x m. if x > m then x else m) vs v))"

definition Within :: "'a::len word \<Rightarrow> 'a word \<Rightarrow> 'a word \<Rightarrow> ('s, bool) op" where
  "Within a b bound = bnd (MaxInt [a, b]) (\<lambda>mx. ret (mx - MinInt a b \<le> bound))"

definition WithinRange :: "'a::len word \<Rightarrow> 'a word \<Rightarrow> 'a word \<Rightarrow> bool" where
  "WithinRange value a b \<longleftrightarrow> a \<le> value \<and> value \<le> b"

subsection \<open>Arbitrary-precision integers\<close>

definition UintToBig :: "u64 \<Rightarrow> int" where
  "UintToBig value = uint value"

definition IsUint64 :: "int \<Rightarrow> bool" where
  "IsUint64 v \<longleftrightarrow> 0 \<le> v \<and> v < 2 ^ 64"

definition BigToUintSaturating :: "int \<Rightarrow> u64" where
  "BigToUintSaturating value =
     (if value < 0 then 0 else if \<not> IsUint64 value then - 1 else word_of_int value)"

definition BigToIntSaturating :: "int \<Rightarrow> int" where
  "BigToIntSaturating value =
     (if \<not> inS 64 value then (if value < 0 then - (2 ^ 63) else 2 ^ 63 - 1) else value)"

definition BigToUintOrPanic :: "int \<Rightarrow> ('s, u64) op" where
  "BigToUintOrPanic value =
     (if value < 0 then panic ''big.Int value is less than 0''
      else if \<not> IsUint64 value then panic ''big.Int value exceeds the max Uint64''
      else ret (word_of_int value))"

definition BigLessThan :: "int \<Rightarrow> int \<Rightarrow> bool" where
  "BigLessThan first second \<longleftrightarrow> first < second"

definition BigGreaterThan :: "int \<Rightarrow> int \<Rightarrow> bool" where
  "BigGreaterThan first second \<longleftrightarrow> first > second"

definition BigMin :: "int \<Rightarrow> int \<Rightarrow> int" where
  "BigMin first second = (if BigLessThan first second then first else second)"

definition BigMax :: "int \<Rightarrow> int \<Rightarrow> int" where
  "BigMax first second = (if BigGreaterThan first second then first else second)"

definition BigAdd :: "int \<Rightarrow> int \<Rightarrow> int" where
  "BigAdd augend addend = augend + addend"

definition BigSub :: "int \<Rightarrow> int \<Rightarrow> int" where
  "BigSub minuend subtrahend = minuend - subtrahend"

definition BigMul :: "int \<Rightarrow> int \<Rightarrow> int" where
  "BigMul multiplicand multiplier = multiplicand * multiplier"

text \<open>\<open>big.Int.Div\<close> is Euclidean division: the remainder is never negative.\<close>

definition BigDiv :: "int \<Rightarrow> int \<Rightarrow> ('s, int) op" where
  "BigDiv dividend divisor =
     (if divisor = 0 then panic ''division by zero''
      else ret (sgn divisor * (dividend div \<bar>divisor\<bar>)))"

definition BigAddByUint :: "int \<Rightarrow> u64 \<Rightarrow> int" where
  "BigAddByUint augend addend = augend + UintToBig addend"

definition BigSubByUint :: "int \<Rightarrow> u64 \<Rightarrow> int" where
  "BigSubByUint minuend subtrahend = minuend - UintToBig subtrahend"

definition BigMulByFrac :: "int \<Rightarrow> int \<Rightarrow> int \<Rightarrow> ('s, int) op" where
  "BigMulByFrac value numerator denominator = BigDiv (value * numerator) denominator"

definition BigMulByUFrac :: "int \<Rightarrow> u64 \<Rightarrow> u64 \<Rightarrow> ('s, int) op" where
  "BigMulByUFrac value numerator denominator =
     BigDiv (value * uint numerator) (uint denominator)"

definition BigMulByInt :: "int \<Rightarrow> int \<Rightarrow> int" where
  "BigMulByInt multiplicand multiplier = multiplicand * multiplier"

definition BigMulByUint :: "int \<Rightarrow> u64 \<Rightarrow> int" where
  "BigMulByUint multiplicand multiplier = multiplicand * uint multiplier"

definition BigDivByUint :: "int \<Rightarrow> u64 \<Rightarrow> ('s, int) op" where
  "BigDivByUint dividend divisor = BigDiv dividend (UintToBig divisor)"

definition BigDivByInt :: "int \<Rightarrow> int \<Rightarrow> ('s, int) op" where
  "BigDivByInt dividend divisor = BigDiv dividend divisor"

subsection \<open>Saturating operations\<close>

definition MaxSignedValue :: "nat \<Rightarrow> int" where
  "MaxSignedValue w = 2 ^ (w - 1) - 1"

definition MinSignedValue :: "nat \<Rightarrow> int" where
  "MinSignedValue w = wrapS w (2 ^ (w - 1))"

definition SaturatingAdd :: "nat \<Rightarrow> int \<Rightarrow> int \<Rightarrow> int" where
  "SaturatingAdd w a b =
     (let sum0 = wrapS w (a + b);
          sum1 = (if b > 0 \<and> sum0 < a then MaxSignedValue w else sum0);
          sum2 = (if b < 0 \<and> sum1 > a then MinSignedValue w else sum1)
      in sum2)"

definition SaturatingUAdd :: "'a::len word \<Rightarrow> 'a word \<Rightarrow> 'a word" where
  "SaturatingUAdd a b =
     (let total = a + b in if total < a \<or> total < b then - 1 else total)"

definition SaturatingNeg :: "nat \<Rightarrow> int \<Rightarrow> int" where
  "SaturatingNeg w value =
     (if value < 0 \<and> value = MinSignedValue w then MaxSignedValue w else wrapS w (- value))"

definition SaturatingSub :: "int \<Rightarrow> int \<Rightarrow> int" where
  "SaturatingSub minuend subtrahend =
     (if subtrahend = - (2 ^ 63)
      then SaturatingAdd 64 (SaturatingAdd 64 minuend (2 ^ 63 - 1)) 1
      else SaturatingAdd 64 minuend (SaturatingNeg 64 subtrahend))"

definition SaturatingUSub :: "'a::len word \<Rightarrow> 'a word \<Rightarrow> 'a word" where
  "SaturatingUSub a b = (if b \<ge> a then 0 else a - b)"

definition SaturatingUMul :: "'a::len word \<Rightarrow> 'a word \<Rightarrow> 'a word" where
  "SaturatingUMul a b =
     (let product = a * b in if b \<noteq> 0 \<and> product div b \<noteq> a then - 1 else product)"

definition SaturatingMul :: "nat \<Rightarrow> int \<Rightarrow> int \<Rightarrow> int" where
  "SaturatingMul w a b =
     (let product = wrapS w (a * b)
      in if b \<noteq> 0 \<and> goDivS w product b \<noteq> a
         then (if (a > 0 \<and> b > 0) \<or> (a < 0 \<and> b < 0) then MaxSignedValue w
               else MinSignedValue w)
         else product)"

definition SaturatingCast :: "nat \<Rightarrow> 'a::len word \<Rightarrow> int" where
  "SaturatingCast w value =
     (let tBig = (LENGTH('a) \<ge> w);
          sMax = drop_bit 1 (push_bit w 1 - 1 :: 'a word)
      in if tBig \<and> value > sMax then wrapS w (uint sMax) else wrapS w (uint value))"

definition SaturatingUCast :: "nat \<Rightarrow> int \<Rightarrow> 'a::len word" where
  "SaturatingUCast w value =
     (if value \<le> 0 then 0
      else let tSmall = (LENGTH('a) < w)
           in if tSmall \<and> value \<ge> wrapS w (uint (- 1 :: 'a word)) then - 1
              else word_of_int value)"

definition SaturatingUUCast :: "'a::len word \<Rightarrow> 'b::len word" where
  "SaturatingUUCast value =
     (let tBig = (LENGTH('a) > LENGTH('b))
      in if tBig \<and> value > ucast (- 1 :: 'b word) then - 1 else ucast value)"

definition SaturatingCastToUint :: "int \<Rightarrow> u64" where
  "SaturatingCastToUint value =
     (if value < 0 then 0 else if \<not> IsUint64 value then - 1 else word_of_int value)"

definition DivCeil :: "'a::len word \<Rightarrow> 'a word \<Rightarrow> ('s, 'a word) op" where
  "DivCeil value divisor =
     (if divisor = 0 then panic ''integer divide by zero''
      else if value mod divisor = 0 then ret (value div divisor)
      else ret (value div divisor + 1))"

subsection \<open>Basis points and approximations\<close>

definition OneInBips :: int where
  "OneInBips = 10000"

primrec ApproxExp_loop :: "nat \<Rightarrow> u64 \<Rightarrow> u64 \<Rightarrow> u64 \<Rightarrow> ('s, u64) op" where
  "ApproxExp_loop 0 x b r = ret r"
| "ApproxExp_loop (Suc i) x b r =
     bnd (goDivU (SaturatingUMul r x) (of_nat (Suc i) * b))
       (\<lambda>q. ApproxExp_loop i x b (b + q))"

definition ApproxExpBasisPoints :: "int \<Rightarrow> u64 \<Rightarrow> ('s, int) op" where
  "ApproxExpBasisPoints value accuracy =
     (let negative = (value < 0);
          input = (if negative then wrapS 64 (- value) else value);
          x = (word_of_int input :: u64);
          b = (word_of_int OneInBips :: u64)
      in bnd (goDivU x accuracy) (\<lambda>q.
         bnd (ApproxExp_loop (unat (accuracy - 1)) x b (b + q)) (\<lambda>r.
         if negative then bnd (goDivU (b * b) r) (\<lambda>d. ret (SaturatingCast 64 d))
         else ret (SaturatingCast 64 r))))"

function ApproxSquareRoot_start :: "u64 \<Rightarrow> u64 \<Rightarrow> u64" where
  "ApproxSquareRoot_start value approx =
     (if SaturatingUMul approx approx div 2 > value
      then ApproxSquareRoot_start value (approx div 2) else approx)"
  by pat_completeness auto
termination
proof (relation "measure (\<lambda>(v, a). unat a)")
  fix v approx :: u64
  assume "v < SaturatingUMul approx approx div 2"
  then have "approx \<noteq> 0" by (auto simp: SaturatingUMul_def)
  then have "unat approx \<noteq> 0" by (simp add: unat_eq_0)
  then show "((v, approx div 2), v, approx) \<in> measure (\<lambda>(v, a). unat a)"
    by (simp add: unat_div)
qed simp

definition ApproxSquareRoot_step :: "u64 \<Rightarrow> u64 \<Rightarrow> ('s, u64) op" where
  "ApproxSquareRoot_step value approx =
     bnd (goDivU value approx) (\<lambda>q.
     if approx > q then ret (SaturatingUAdd q ((approx - q) div 2))
     else ret (SaturatingUAdd approx ((q - approx) div 2)))"

definition ApproxSquareRoot :: "u64 \<Rightarrow> ('s, u64) op" where
  "ApproxSquareRoot value =
     (if value = 0 then ret 0
      else fold_op (\<lambda>_ approx. ApproxSquareRoot_step value approx) [0..<4]
             (ApproxSquareRoot_start value value))"

definition SquareUint :: "u64 \<Rightarrow> u64" where
  "SquareUint value = value * value"

definition NaturalToBips :: "int \<Rightarrow> int" where
  "NaturalToBips natural = SaturatingMul 64 natural OneInBips"

definition PercentToBips :: "int \<Rightarrow> int" where
  "PercentToBips percentage = SaturatingMul 64 percentage 100"

definition BigMulByBips :: "int \<Rightarrow> int \<Rightarrow> ('s, int) op" where
  "BigMulByBips value bips = BigMulByFrac value bips OneInBips"

definition BigMulByUBips :: "int \<Rightarrow> u64 \<Rightarrow> ('s, int) op" where
  "BigMulByUBips value bips = BigMulByUFrac value bips 10000"

definition IntMulByBips :: "int \<Rightarrow> int \<Rightarrow> int" where
  "IntMulByBips value bips = goDivS 64 (wrapS 64 (value * bips)) OneInBips"

definition UintMulByBips :: "u64 \<Rightarrow> int \<Rightarrow> u64" where
  "UintMulByBips value bips = value * word_of_int bips div word_of_int OneInBips"

definition UintSaturatingMulByBips :: "u64 \<Rightarrow> int \<Rightarrow> u64" where
  "UintSaturatingMulByBips value bips =
     (if bips \<le> 0 then 0
      else SaturatingUMul value (word_of_int bips) div word_of_int OneInBips)"

definition SaturatingCastToBips :: "u64 \<Rightarrow> int" where
  "SaturatingCastToBips value = SaturatingCast 64 value"

definition BigDivToBips :: "int \<Rightarrow> int \<Rightarrow> ('s, int) op" where
  "BigDivToBips dividend divisor =
     bnd (BigDiv (BigMulByInt dividend OneInBips) divisor) (\<lambda>v. ret (BigToIntSaturating v))"

definition SaturatingBipsAdd :: "int \<Rightarrow> int \<Rightarrow> int" where
  "SaturatingBipsAdd a b = SaturatingAdd 64 a b"

subsection \<open>Byte conversions and 24-bit integers\<close>

definition ConcatByteSlices :: "bytes list \<Rightarrow> bytes" where
  "ConcatByteSlices slices = fold (\<lambda>slice unrolled. unrolled @ slice) slices []"

definition WordsForBytes :: "u64 \<Rightarrow> u64" where
  "WordsForBytes nbytes = (nbytes + 31) div 32"

definition UintToBytes :: "u64 \<Rightarrow> bytes" where
  "UintToBytes value = be_bytes 8 (unat value)"

definition Uint32ToBytes :: "u32 \<Rightarrow> bytes" where
  "Uint32ToBytes value = be_bytes 4 (unat value)"

definition Uint16ToBytes :: "u16 \<Rightarrow> bytes" where
  "Uint16ToBytes value = be_bytes 2 (unat value)"

definition BytesToUint :: "bytes \<Rightarrow> ('s, u64) op" where
  "BytesToUint value =
     (if length value < 8 then panic ''index out of range'' else ret (of_nat (be_val (take 8 value))))"

definition BytesToUint32 :: "bytes \<Rightarrow> ('s, u32) op" where
  "BytesToUint32 value =
     (if length value < 4 then panic ''index out of range'' else ret (of_nat (be_val (take 4 value))))"

definition BytesToUint16 :: "bytes \<Rightarrow> ('s, u16) op" where
  "BytesToUint16 value =
     (if length value < 2 then panic ''index out of range'' else ret (of_nat (be_val (take 2 value))))"

definition MaxUint24 :: int where
  "MaxUint24 = 2 ^ 24 - 1"

text \<open>\<open>Uint24\<close> is a \<open>uint32\<close> kept below \<open>2^24\<close>.\<close>

definition IntToUint24 :: "u64 \<Rightarrow> ('s, u32) op" where
  "IntToUint24 value =
     (if uint value > MaxUint24 then throw (ErrMsg ''value out of range'') else ret (ucast value))"

definition BigToUint24OrPanic :: "int \<Rightarrow> ('s, u32) op" where
  "BigToUint24OrPanic value =
     (if value < 0 then panic ''big.Int value is less than 0''
      else if \<not> IsUint64 value \<or> value > MaxUint24
      then panic ''big.Int value exceeds the max Uint24''
      else ret (word_of_int value))"

definition BytesToUint24 :: "bytes \<Rightarrow> ('s, u32) op" where
  "BytesToUint24 value = BytesToUint32 (ConcatByteSlices [[0], value])"

definition Uint24ToBytes :: "u32 \<Rightarrow> bytes" where
  "Uint24ToBytes value = drop 1 (Uint32ToBytes value)"

subsection \<open>Bisection\<close>

unbundle bit_operations_syntax

definition LeadingZeros64 :: "u64 \<Rightarrow> nat" where
  "LeadingZeros64 x = 64 - bit_len (unat x)"

definition Bisect :: "u64 \<Rightarrow> u64 \<Rightarrow> ('s, u64) op" where
  "Bisect pre post =
     (if pre + 2 > post then throw (ErrMsg ''unable to bisect'')
      else if pre + 2 = post then ret (pre + 1)
      else let matchingBits = LeadingZeros64 ((post - 1) XOR pre);
               mask = push_bit (63 - matchingBits) (- 1 :: u64)
           in ret ((post - 1) AND mask))"

definition Log2Floor :: "u64 \<Rightarrow> ('s, nat) op" where
  "Log2Floor u =
     (if u = 0 then panic ''log2 undefined for non-positive values''
      else ret (bit_len (unat u) - 1))"

definition isPowerOfTwo :: "u64 \<Rightarrow> bool" where
  "isPowerOfTwo u \<longleftrightarrow> u AND (u - 1) = 0"

definition Log2Ceil :: "u64 \<Rightarrow> ('s, nat) op" where
  "Log2Ceil u = bnd (Log2Floor u) (\<lambda>r. if isPowerOfTwo u then ret r else ret (r + 1))"

section \<open>Saturating operations\<close>

lemma SaturatingUAdd_unat:
  "unat (SaturatingUAdd a b) = min (unat a + unat b) (2 ^ LENGTH('a) - 1)"
  for a b :: "'a::len word"
proof (cases "unat a + unat b < 2 ^ LENGTH('a)")
  case True
  then have "unat (a + b) = unat a + unat b" by (simp add: unat_word_ariths)
  with True show ?thesis
    by (simp add: SaturatingUAdd_def Let_def word_less_nat_alt)
next
  case False
  have "unat a < 2 ^ LENGTH('a)" "unat b < 2 ^ LENGTH('a)"
    by (rule unsigned_less)+
  moreover from this False have "unat a + unat b - 2 ^ LENGTH('a) < 2 ^ LENGTH('a)" by linarith
  ultimately have "unat (a + b) = unat a + unat b - 2 ^ LENGTH('a)"
    using False by (simp add: unat_word_ariths le_mod_geq)
  then have "a + b < a"
    using unat_lt_pow [of b] False unfolding word_less_nat_alt by linarith
  with False show ?thesis
    by (simp add: SaturatingUAdd_def Let_def unat_all_ones)
qed

lemma SaturatingUSub_unat: "unat (SaturatingUSub a b) = unat a - unat b"
  for a b :: "'a::len word"
  by (auto simp: SaturatingUSub_def word_le_nat_alt unat_sub)

lemma SaturatingUMul_unat:
  "unat (SaturatingUMul a b) = min (unat a * unat b) (2 ^ LENGTH('a) - 1)"
  for a b :: "'a::len word"
proof (cases "unat a * unat b < 2 ^ LENGTH('a)")
  case True
  then have p: "unat (a * b) = unat a * unat b" by (simp add: unat_word_ariths)
  have "b \<noteq> 0 \<Longrightarrow> (a * b) div b = a"
    by (rule word_unat_eq_iff [THEN iffD2]) (simp add: unat_div p unat_eq_0)
  with True p show ?thesis
    by (auto simp: SaturatingUMul_def Let_def)
next
  case False
  then have "b \<noteq> 0" by auto
  have "(a * b) div b \<noteq> a"
  proof
    assume "(a * b) div b = a"
    then have "unat (a * b) div unat b = unat a" by (metis unat_div)
    then have "unat a * unat b \<le> unat (a * b)" by (metis div_times_less_eq_dividend)
    also have "\<dots> < 2 ^ LENGTH('a)" by (rule unsigned_less)
    finally show False using False by simp
  qed
  with False \<open>b \<noteq> 0\<close> show ?thesis
    by (simp add: SaturatingUMul_def Let_def unat_all_ones)
qed

lemma SaturatingUAdd_ge: "a \<le> SaturatingUAdd a b" "b \<le> SaturatingUAdd a b"
  for a b :: "'a::len word"
  unfolding word_le_nat_alt SaturatingUAdd_unat
  using unat_lt_pow [of a] unat_lt_pow [of b] by linarith+

lemma SaturatingUMul_mono:
  "a \<le> c \<Longrightarrow> b \<le> d \<Longrightarrow> SaturatingUMul a b \<le> SaturatingUMul c d"
  for a b :: "'a::len word"
  by (simp add: word_le_nat_alt SaturatingUMul_unat min_le_iff_disj mult_le_mono)

lemma MinSignedValue_eq: "0 < w \<Longrightarrow> MinSignedValue w = - (2 ^ (w - 1))"
  using wrapS_over [of w "2 ^ (w - 1)"] by (simp add: MinSignedValue_def pow2_double)

lemma SaturatingAdd_clamp:
  assumes "0 < w" and "inS w a" and "inS w b"
  shows "SaturatingAdd w a b = clampS w (a + b)"
proof -
  let ?m = "2 ^ (w - 1) :: int"
  have r: "- ?m \<le> a" "a < ?m" "- ?m \<le> b" "b < ?m"
    using assms by (simp_all add: inS_def)
  have two: "(2::int) ^ w = 2 * ?m" using assms(1) by (rule pow2_double)
  consider (over) "?m \<le> a + b" | (under) "a + b < - ?m" | (fits) "inS w (a + b)"
    unfolding inS_def by linarith
  then show ?thesis
  proof cases
    case over
    then have "wrapS w (a + b) = a + b - 2 ^ w" using r by (intro wrapS_over assms) auto
    with over r two show ?thesis
      by (simp add: SaturatingAdd_def clampS_def MaxSignedValue_def Let_def)
  next
    case under
    then have "wrapS w (a + b) = a + b + 2 ^ w" using r by (intro wrapS_under assms) auto
    with under r two show ?thesis
      by (simp add: SaturatingAdd_def clampS_def MinSignedValue_eq assms(1) Let_def)
  next
    case fits
    then show ?thesis
      using assms(1) by (simp add: SaturatingAdd_def Let_def wrapS_id clampS_id)
  qed
qed

lemma SaturatingNeg_clamp:
  "0 < w \<Longrightarrow> inS w v \<Longrightarrow> SaturatingNeg w v = clampS w (- v)"
  by (auto simp: SaturatingNeg_def MinSignedValue_eq MaxSignedValue_def clampS_def inS_def wrapS_id)

lemma SaturatingSub_clamp:
  assumes "inS 64 a" and "inS 64 b"
  shows "SaturatingSub a b = clampS 64 (a - b)"
proof (cases "b = - (2 ^ 63)")
  case True
  have "inS 64 (2 ^ 63 - 1)" "inS 64 1" by (simp_all add: inS_def)
  then have "SaturatingSub a b = clampS 64 (clampS 64 (a + (2 ^ 63 - 1)) + 1)"
    using assms True by (simp add: SaturatingSub_def SaturatingAdd_clamp inS_clampS)
  then show ?thesis using assms True by (auto simp: clampS_def inS_def)
next
  case False
  then have "SaturatingNeg 64 b = - b" "inS 64 (- b)"
    using assms by (auto simp: SaturatingNeg_clamp clampS_def inS_def)
  then show ?thesis
    using assms False by (simp add: SaturatingSub_def SaturatingAdd_clamp)
qed


lemma sdiv_mult_self: "b \<noteq> 0 \<Longrightarrow> (a * b) sdiv b = (a :: int)"
  by (cases "0 < b") (auto simp: signed_divide_int_def abs_mult sgn_mult sgn_mult_abs)

lemma sdiv_exact_between:
  fixes p a b :: int
  assumes "p sdiv b = a" and "b \<noteq> 0" and "inS w p"
  shows "inS w (a * b)"
proof -
  have "\<bar>a\<bar> = \<bar>p\<bar> div \<bar>b\<bar>"
    using assms(1,2) by (cases "p = 0")
      (auto simp: signed_divide_int_def abs_mult abs_sgn_eq pos_imp_zdiv_nonneg_iff)
  then have "\<bar>a * b\<bar> = \<bar>p\<bar> div \<bar>b\<bar> * \<bar>b\<bar>" by (simp add: abs_mult)
  also have "\<dots> = \<bar>p\<bar> - \<bar>p\<bar> mod \<bar>b\<bar>" by (rule minus_mod_eq_div_mult [symmetric])
  also have "\<dots> \<le> \<bar>p\<bar>" using assms(2) by simp
  finally have le: "\<bar>a * b\<bar> \<le> \<bar>p\<bar>" .
  have "a \<noteq> 0 \<Longrightarrow> sgn a = sgn (p * b)"
    using sgn_sdiv_eq_sgn_mult [of p b] assms(1) by simp
  then have "a * b = 0 \<or> sgn (a * b) = sgn p"
    using assms(2) by (cases "a = 0"; cases "0 < b") (auto simp: sgn_mult)
  with le assms(3) show ?thesis
    by (auto simp: inS_def abs_if sgn_if split: if_splits)
qed

lemma SaturatingMul_overflow_detected:
  assumes w: "0 < w" and a: "inS w a" and b: "inS w b"
    and not_corner: "\<not> (a = - (2 ^ (w - 1)) \<and> b = - 1)" and no: "\<not> inS w (a * b)"
  shows "goDivS w (wrapS w (a * b)) b \<noteq> a"
proof
  let ?p = "wrapS w (a * b)"
  assume eq: "goDivS w ?p b = a"
  have b0: "b \<noteq> 0" using no w by (auto simp: inS_def)
  have p: "inS w ?p" using w by (rule inS_wrapS)
  show False
  proof (cases "inS w (?p sdiv b)")
    case True
    with eq have "?p sdiv b = a" using w by (simp add: goDivS_def wrapS_id)
    from sdiv_exact_between [OF this b0 p] no show False by simp
  next
    case False
    let ?m = "2 ^ (w - 1) :: int"
    have rng: "- ?m \<le> ?p" "?p < ?m" using p by (simp_all add: inS_def)
    have "?p sdiv b \<in> {- \<bar>?p\<bar>..\<bar>?p\<bar>}" by (rule sdiv_int_range)
    then have "\<bar>?p sdiv b\<bar> \<le> \<bar>?p\<bar>" by (simp add: abs_le_iff)
    with False rng have q: "?p sdiv b = ?m" and "?p = - ?m"
      by (auto simp: inS_def abs_if split: if_splits)
    have "a = - ?m"
      using eq q MinSignedValue_eq [OF w] by (simp add: goDivS_def MinSignedValue_def)
    moreover have "b = - 1"
    proof -
      have m: "0 < ?m" by simp
      have e: "- sgn b * (?m div \<bar>b\<bar>) = ?m"
        using q \<open>?p = - ?m\<close> by (simp add: signed_divide_int_def)
      have "0 \<le> ?m div \<bar>b\<bar>" using m b0 by (simp add: pos_imp_zdiv_nonneg_iff)
      have "\<not> 0 < b"
      proof
        assume "0 < b"
        with e have "- (?m div \<bar>b\<bar>) = ?m" by simp
        with \<open>0 \<le> ?m div \<bar>b\<bar>\<close> m show False by linarith
      qed
      with b0 e have "b < 0" and d: "?m div \<bar>b\<bar> = ?m" by auto
      then have "\<not> 1 < \<bar>b\<bar>" using int_div_less_self [OF m, of "\<bar>b\<bar>"] by auto
      with \<open>b < 0\<close> show ?thesis by simp
    qed
    ultimately show False using not_corner by simp
  qed
qed

lemma SaturatingMul_clamp:
  assumes "0 < w" and "inS w a" and "inS w b" and "\<not> (a = - (2 ^ (w - 1)) \<and> b = - 1)"
  shows "SaturatingMul w a b = clampS w (a * b)"
proof (cases "inS w (a * b)")
  case True
  with assms have "b \<noteq> 0 \<Longrightarrow> goDivS w (wrapS w (a * b)) b = a"
    by (simp add: wrapS_id goDivS_def sdiv_mult_self)
  with True assms(1) show ?thesis
    by (auto simp: SaturatingMul_def Let_def wrapS_id clampS_id)
next
  case False
  with assms have d: "goDivS w (wrapS w (a * b)) b \<noteq> a"
    by (intro SaturatingMul_overflow_detected)
  have "b \<noteq> 0" using False assms(1) by (auto simp: inS_def)
  have sgn: "(a > 0 \<and> b > 0) \<or> (a < 0 \<and> b < 0) \<longleftrightarrow> 0 < a * b"
    by (simp add: zero_less_mult_iff)
  have m: "0 < (2::int) ^ (w - 1)" by simp
  have "SaturatingMul w a b = (if 0 < a * b then 2 ^ (w - 1) - 1 else - (2 ^ (w - 1)))"
    using d \<open>b \<noteq> 0\<close> assms(1)
    unfolding SaturatingMul_def Let_def sgn by (simp add: MaxSignedValue_def MinSignedValue_eq)
  moreover have "clampS w (a * b) = (if 0 < a * b then 2 ^ (w - 1) - 1 else - (2 ^ (w - 1)))"
    using False m unfolding clampS_def inS_def by (smt (verit))
  ultimately show ?thesis by simp
qed

lemma SaturatingMul_corner:
  assumes "0 < w"
  shows "SaturatingMul w (- (2 ^ (w - 1))) (- 1) = - (2 ^ (w - 1))"
  using MinSignedValue_eq [OF assms]
  by (simp add: SaturatingMul_def Let_def goDivS_def MinSignedValue_def)

section \<open>Casts and bit lengths\<close>

lemma uint_lt_pow: "uint (x :: 'a::len word) < 2 ^ LENGTH('a)"
  by (rule unsigned_less)

lemma SaturatingCast_min:
  fixes v :: "'a::len word"
  assumes "0 < w"
  shows "SaturatingCast w v = min (uint v) (2 ^ (w - 1) - 1)"
proof -
  let ?s = "drop_bit 1 (push_bit w 1 - 1 :: 'a word)"
  have "(push_bit w 1 - 1 :: 'a word) = mask w"
    by (simp add: push_bit_eq_mult mask_eq_exp_minus_1)
  then have s: "?s = mask (w - 1)" if "w \<le> LENGTH('a)"
    using that assms by (auto intro!: bit_word_eqI simp: bit_simps)
  have us: "uint ?s = 2 ^ (w - 1) - 1" if "w \<le> LENGTH('a)"
  proof -
    have "uint (mask (w - 1) :: 'a word) = mask (w - 1)"
      using that by (intro bit_eqI) (auto simp: bit_simps)
    then show ?thesis unfolding s [OF that] by (simp add: mask_eq_exp_minus_1)
  qed
  have m: "inS w (2 ^ (w - 1) - 1)" by (simp add: inS_def)
  show ?thesis
  proof (cases "w \<le> LENGTH('a)")
    case True
    have "inS w (uint v)" if "uint v \<le> 2 ^ (w - 1) - 1"
      using that assms by (simp add: inS_def) (smt (verit) uint_nonnegative zero_le_power)
    then show ?thesis
      using True us m assms
      by (auto simp: SaturatingCast_def Let_def word_less_def wrapS_id min_def)
  next
    case False
    have "uint v < 2 ^ LENGTH('a)" by (rule uint_lt_pow)
    also have "(2::int) ^ LENGTH('a) \<le> 2 ^ (w - 1)"
      using False by (intro power_increasing) auto
    finally have "uint v < 2 ^ (w - 1)" .
    then have "inS w (uint v)"
      by (simp add: inS_def) (smt (verit) uint_nonnegative zero_le_power)
    with False assms \<open>uint v < 2 ^ (w - 1)\<close> show ?thesis
      by (simp add: SaturatingCast_def wrapS_id)
  qed
qed

declare bit_len.simps [simp del]

lemma bit_len_0 [simp]: "bit_len 0 = 0"
  by (simp add: bit_len.simps)

lemma bit_len_pos: "0 < x \<Longrightarrow> bit_len x = Suc (bit_len (x div 2))"
  by (subst bit_len.simps) simp

lemma bit_len_upper: "x < 2 ^ bit_len x"
proof (induction x rule: bit_len.induct)
  case (1 x)
  show ?case
  proof (cases "x = 0")
    case False
    with 1 have "x div 2 < 2 ^ bit_len (x div 2)" by simp
    with False show ?thesis by (simp add: bit_len_pos)
  qed simp
qed

lemma bit_len_le: "x < 2 ^ n \<Longrightarrow> bit_len x \<le> n"
proof (induction x arbitrary: n rule: bit_len.induct)
  case (1 x)
  show ?case
  proof (cases "x = 0")
    case False
    with 1(2) obtain m where n: "n = Suc m" by (cases n) auto
    then have "x div 2 < 2 ^ m" using 1(2) by simp
    with False 1(1) n show ?thesis by (simp add: bit_len_pos)
  qed simp
qed

lemma bit_len_lower: "0 < x \<Longrightarrow> 2 ^ (bit_len x - 1) \<le> x"
  using bit_len_le [of x "bit_len x - 1"] bit_len_pos [of x] by (cases "x < 2 ^ (bit_len x - 1)") auto

lemma bit_len_u64: "bit_len (unat (v :: u64)) \<le> 64"
  using unat_lt_pow [of v] by (intro bit_len_le) simp

lemma unat_Log2ceil: "unat (Log2ceil v) = bit_len (unat v)"
  using bit_len_u64 [of v] by (simp add: Log2ceil_def unat_of_nat)

lemma NextPowerOf2_spec:
  assumes "unat v < 2 ^ 63"
  shows "unat (NextPowerOf2 v) = 2 ^ bit_len (unat v)"
proof -
  have "bit_len (unat v) \<le> 63" using assms by (rule bit_len_le)
  then have "(2::nat) ^ bit_len (unat v) < 2 ^ 64" by (intro power_strict_increasing) auto
  moreover have "NextPowerOf2 v = of_nat (2 ^ bit_len (unat v))"
    by (simp add: NextPowerOf2_def unat_Log2ceil push_bit_eq_mult)
  ultimately show ?thesis by (simp add: unat_of_nat del: of_nat_power)
qed

lemma be_roundtrip_u64: "BytesToUint (UintToBytes v) s = (Ok v, s)"
  using unat_lt_pow [of v] by (simp add: BytesToUint_def UintToBytes_def op_simps be_val_be_bytes)


lemma goDivU_run: "b \<noteq> 0 \<Longrightarrow> goDivU a b s = (Ok (a div b), s)"
  by (simp add: goDivU_def op_simps)

section \<open>Properties\<close>

text \<open>The saturating signed operations return the exact result clamped to the range of
  the type: addition and negation at every width, subtraction of 64-bit values.\<close>

theorem saturating_signed_exact:
  assumes "0 < w" and "inS w a" and "inS w b" and "inS 64 x" and "inS 64 y"
  shows "SaturatingAdd w a b = clampS w (a + b) \<and> SaturatingNeg w a = clampS w (- a)
     \<and> SaturatingSub x y = clampS 64 (x - y)"
  using assms by (simp add: SaturatingAdd_clamp SaturatingNeg_clamp SaturatingSub_clamp)

text \<open>C36: The saturating signed product is the exact product clamped to the range of the type,
  for all operands but one pair: the smallest value times \<open>- 1\<close> yields the smallest value,
  where the exact product clamps to the largest.\<close>

theorem saturating_mul_exact_but_corner:
  assumes "1 < w" and "inS w a" and "inS w b"
  shows "SaturatingMul w a b =
    (if a = - (2 ^ (w - 1)) \<and> b = - 1 then - (2 ^ (w - 1)) else clampS w (a * b))"
  using assms SaturatingMul_clamp [of w a b] SaturatingMul_corner [of w] by auto

theorem saturating_mul_exact_but_corner_witness:
  "SaturatingMul 64 (- (2 ^ 63)) (- 1) = - (2 ^ 63) \<and> clampS 64 (- (2 ^ 63) * - 1) = 2 ^ 63 - 1"
  using saturating_mul_exact_but_corner [of 64 "- (2 ^ 63)" "- 1"]
  by (simp add: inS_def clampS_def)

text \<open>The saturating unsigned operations agree with the natural numbers cut off at the
  bounds of the type.\<close>

theorem saturating_unsigned_exact:
  fixes a b :: "'a::len word"
  shows "unat (SaturatingUAdd a b) = min (unat a + unat b) (2 ^ LENGTH('a) - 1)
     \<and> unat (SaturatingUSub a b) = unat a - unat b
     \<and> unat (SaturatingUMul a b) = min (unat a * unat b) (2 ^ LENGTH('a) - 1)"
  by (simp only: SaturatingUAdd_unat SaturatingUSub_unat SaturatingUMul_unat simp_thms)

text \<open>\<^verbatim>\<open>NextPowerOf2\<close> returns the least power of two above its argument for every argument
  below \<open>2^63\<close>, and 0 for every larger one.\<close>

theorem NextPowerOf2_least:
  "if unat v < 2 ^ 63
   then (\<exists>k. unat (NextPowerOf2 v) = 2 ^ k) \<and> unat v < unat (NextPowerOf2 v) \<and> (\<forall>k. unat v < 2 ^ k \<longrightarrow> unat (NextPowerOf2 v) \<le> 2 ^ k)
   else NextPowerOf2 v = 0"
proof (cases "unat v < 2 ^ 63")
  case True
  have "unat (NextPowerOf2 v) \<le> 2 ^ k" if "unat v < 2 ^ k" for k
    using bit_len_le [OF that] True by (simp add: NextPowerOf2_spec)
  then show ?thesis using True bit_len_upper [of "unat v"] by (auto simp: NextPowerOf2_spec)
next
  case False
  have "bit_len (unat v) = 64"
  proof (rule antisym)
    show "bit_len (unat v) \<le> 64" by (rule bit_len_u64)
    show "64 \<le> bit_len (unat v)"
    proof (rule ccontr)
      assume "\<not> 64 \<le> bit_len (unat v)"
      then have "(2::nat) ^ bit_len (unat v) \<le> 2 ^ 63" by (intro power_increasing) simp_all
      then show False using bit_len_upper [of "unat v"] False by linarith
    qed
  qed
  then show ?thesis using False by (simp add: NextPowerOf2_def Log2ceil_def)
qed

end
