(* ===== verification/Burn.thy ===== *)
theory Burn
  imports ArbMath
begin

text \<open>
  Gas metering. A \<^verbatim>\<open>Burner\<close> (\<^verbatim>\<open>arbos/burn/burn.go\<close>) is charged for every storage access.
  Two implementations exist: the \<^verbatim>\<open>SystemBurner\<close>, which only counts, and the precompile
  \<^verbatim>\<open>Context\<close> (\<^verbatim>\<open>precompiles/context.go\<close>), which runs out of gas. The multi-dimensional
  gas counter is the one of the repository's Rust port
  (\<^verbatim>\<open>nitro-reth/crates/arb-primitives/src/multigas.rs\<close>), the Go one being in a submodule.
\<close>

section \<open>Multi-dimensional gas\<close>

datatype ResourceKind =
    Unknown | Computation | HistoryGrowth | StorageAccessRead | StorageAccessWrite
  | StorageGrowth | SingleDim | L2Calldata | WasmComputation

definition all_kinds :: "ResourceKind list" where
  "all_kinds = [Unknown, Computation, HistoryGrowth, StorageAccessRead, StorageAccessWrite,
     StorageGrowth, SingleDim, L2Calldata, WasmComputation]"

record MultiGas =
  mg_gas :: "ResourceKind \<Rightarrow> u64"
  mg_total :: u64
  mg_refund :: u64

definition ZeroGas :: MultiGas where
  "ZeroGas = \<lparr>mg_gas = (\<lambda>_. 0), mg_total = 0, mg_refund = 0\<rparr>"

definition SingleGas :: "MultiGas \<Rightarrow> u64" where
  "SingleGas g = mg_total g"

definition SaturatingIncrementInto :: "ResourceKind \<Rightarrow> u64 \<Rightarrow> MultiGas \<Rightarrow> MultiGas" where
  "SaturatingIncrementInto kind amount g =
     g\<lparr>mg_gas := (mg_gas g)(kind := SaturatingUAdd (mg_gas g kind) amount),
       mg_total := SaturatingUAdd (mg_total g) amount\<rparr>"

definition SaturatingAddInto :: "MultiGas \<Rightarrow> MultiGas \<Rightarrow> MultiGas" where
  "SaturatingAddInto other g =
     \<lparr>mg_gas = (\<lambda>k. SaturatingUAdd (mg_gas g k) (mg_gas other k)),
      mg_total = SaturatingUAdd (mg_total g) (mg_total other),
      mg_refund = SaturatingUAdd (mg_refund g) (mg_refund other)\<rparr>"

section \<open>The system burner\<close>

record SystemBurner =
  sb_gasBurnt :: MultiGas
  sb_readOnly :: bool

definition NewSystemBurner :: "bool \<Rightarrow> SystemBurner" where
  "NewSystemBurner readOnly = \<lparr>sb_gasBurnt = ZeroGas, sb_readOnly = readOnly\<rparr>"

definition SystemBurner_Burn :: "ResourceKind \<Rightarrow> u64 \<Rightarrow> (SystemBurner, unit) op" where
  "SystemBurner_Burn kind amount =
     (\<lambda>b. (Ok (), b\<lparr>sb_gasBurnt := SaturatingIncrementInto kind amount (sb_gasBurnt b)\<rparr>))"

definition SystemBurner_BurnMultiGas :: "MultiGas \<Rightarrow> (SystemBurner, unit) op" where
  "SystemBurner_BurnMultiGas amount =
     (\<lambda>b. (Ok (), b\<lparr>sb_gasBurnt := SaturatingAddInto amount (sb_gasBurnt b)\<rparr>))"

definition SystemBurner_Burned :: "SystemBurner \<Rightarrow> u64" where
  "SystemBurner_Burned b = SingleGas (sb_gasBurnt b)"

definition SystemBurner_BurnOut :: "(SystemBurner, unit) op" where
  "SystemBurner_BurnOut = panic ''called BurnOut on a system burner''"

definition SystemBurner_GasLeft :: "(SystemBurner, u64) op" where
  "SystemBurner_GasLeft = panic ''called GasLeft on a system burner''"

definition SystemBurner_HandleError :: "error \<Rightarrow> (SystemBurner, 'a) op" where
  "SystemBurner_HandleError err = panic ''fatal error in system burner''"

section \<open>The precompile context\<close>

record Context =
  cx_gasSupplied :: u64
  cx_gasUsed :: MultiGas
  cx_readOnly :: bool
  cx_free :: bool

definition Context_GasLeft :: "Context \<Rightarrow> u64" where
  "Context_GasLeft c = cx_gasSupplied c - SingleGas (cx_gasUsed c)"

definition Context_BurnOut :: "(Context, unit) op" where
  "Context_BurnOut =
     (\<lambda>c. (Err ErrOutOfGas,
       c\<lparr>cx_gasUsed := SaturatingIncrementInto Computation (Context_GasLeft c) (cx_gasUsed c)\<rparr>))"

definition Context_Burn :: "ResourceKind \<Rightarrow> u64 \<Rightarrow> (Context, unit) op" where
  "Context_Burn kind amount =
     (\<lambda>c. if cx_free c then (Ok (), c)
       else if Context_GasLeft c < amount then Context_BurnOut c
       else (Ok (), c\<lparr>cx_gasUsed := SaturatingIncrementInto kind amount (cx_gasUsed c)\<rparr>))"

definition Context_BurnMultiGas :: "MultiGas \<Rightarrow> (Context, unit) op" where
  "Context_BurnMultiGas amount =
     (\<lambda>c. if cx_free c then (Ok (), c)
       else if Context_GasLeft c < SingleGas amount then Context_BurnOut c
       else (Ok (), c\<lparr>cx_gasUsed := SaturatingAddInto amount (cx_gasUsed c)\<rparr>))"

definition Context_Burned :: "Context \<Rightarrow> u64" where
  "Context_Burned c = SingleGas (cx_gasUsed c)"

definition Context_HandleError :: "error \<Rightarrow> (Context, 'a) op" where
  "Context_HandleError err = throw err"

definition Context_SetUnmeteredGasAccounting :: "bool \<Rightarrow> Context \<Rightarrow> Context" where
  "Context_SetUnmeteredGasAccounting enabled c = c\<lparr>cx_free := enabled\<rparr>"

section \<open>The interface\<close>

text \<open>A value of the Go interface type \<^verbatim>\<open>Burner\<close> is one of the two implementations; a call
  dispatches on which.\<close>

datatype Burner = System SystemBurner | Metered Context

definition lift_system :: "(SystemBurner, 'a) op \<Rightarrow> SystemBurner \<Rightarrow> 'a result \<times> Burner" where
  "lift_system m b = (case m b of (r, b') \<Rightarrow> (r, System b'))"

definition lift_context :: "(Context, 'a) op \<Rightarrow> Context \<Rightarrow> 'a result \<times> Burner" where
  "lift_context m c = (case m c of (r, c') \<Rightarrow> (r, Metered c'))"

definition Burner_Burn :: "ResourceKind \<Rightarrow> u64 \<Rightarrow> (Burner, unit) op" where
  "Burner_Burn kind amount = (\<lambda>b. case b of
      System s \<Rightarrow> lift_system (SystemBurner_Burn kind amount) s
    | Metered c \<Rightarrow> lift_context (Context_Burn kind amount) c)"

definition Burner_BurnMultiGas :: "MultiGas \<Rightarrow> (Burner, unit) op" where
  "Burner_BurnMultiGas amount = (\<lambda>b. case b of
      System s \<Rightarrow> lift_system (SystemBurner_BurnMultiGas amount) s
    | Metered c \<Rightarrow> lift_context (Context_BurnMultiGas amount) c)"

definition Burner_Burned :: "Burner \<Rightarrow> u64" where
  "Burner_Burned b = (case b of
      System s \<Rightarrow> SystemBurner_Burned s | Metered c \<Rightarrow> Context_Burned c)"

definition Burner_HandleError :: "error \<Rightarrow> (Burner, 'a) op" where
  "Burner_HandleError err = (\<lambda>b. case b of
      System s \<Rightarrow> lift_system (SystemBurner_HandleError err) s
    | Metered c \<Rightarrow> lift_context (Context_HandleError err) c)"

definition Burner_ReadOnly :: "Burner \<Rightarrow> bool" where
  "Burner_ReadOnly b = (case b of System s \<Rightarrow> sb_readOnly s | Metered c \<Rightarrow> cx_readOnly c)"

section \<open>The contract of a burner\<close>

text \<open>What the clients of a burner rely on: a burn either succeeds, the counter growing by
  the amount (saturating) or not at all, or fails with \<open>ErrOutOfGas\<close>; the counter never goes
  down and the burner's invariant is kept.\<close>

text \<open>A sequence of charges, as an operation that touches many slots makes.\<close>

definition burn_all :: "(ResourceKind \<Rightarrow> u64 \<Rightarrow> ('b, unit) op) \<Rightarrow> (ResourceKind \<times> u64) list \<Rightarrow> ('b, unit) op" where
  "burn_all burn xs = for_each xs (\<lambda>(k, a). burn k a)"

locale burner_contract =
  fixes burn :: "ResourceKind \<Rightarrow> u64 \<Rightarrow> ('b, unit) op"
    and burned :: "'b \<Rightarrow> u64"
    and inv :: "'b \<Rightarrow> bool"
  assumes burn_inv: "inv b \<Longrightarrow> inv (snd (burn k a b))"
    and burn_mono: "inv b \<Longrightarrow> burned b \<le> burned (snd (burn k a b))"
    and burn_outcome: "inv b \<Longrightarrow> fst (burn k a b) \<in> {Ok (), Err ErrOutOfGas}"
    and burn_Ok: "inv b \<Longrightarrow> burn k a b = (Ok (), b') \<Longrightarrow>
        burned b' \<in> {burned b, SaturatingUAdd (burned b) a}"
begin

lemma burn_all_Cons:
  "burn_all burn (x # xs) = bnd (burn (fst x) (snd x)) (\<lambda>_. burn_all burn xs)"
  by (simp add: burn_all_def split_beta)

lemma burn_all_contract:
  "inv b \<Longrightarrow> inv (snd (burn_all burn xs b)) \<and> burned b \<le> burned (snd (burn_all burn xs b))
    \<and> fst (burn_all burn xs b) \<in> {Ok (), Err ErrOutOfGas}"
proof (induction xs arbitrary: b)
  case Nil
  then show ?case by (simp add: burn_all_def ret_run)
next
  case (Cons x xs)
  obtain r b' where run: "burn (fst x) (snd x) b = (r, b')" by fastforce
  then have b': "inv b'" "burned b \<le> burned b'" "r \<in> {Ok (), Err ErrOutOfGas}"
    using burn_inv [OF Cons.prems] burn_mono [OF Cons.prems] burn_outcome [OF Cons.prems]
    by (metis fst_conv snd_conv)+
  then show ?case
    using Cons.IH [OF b'(1)] run by (auto simp: burn_all_Cons bnd_def)
qed

end

definition Context_inv :: "Context \<Rightarrow> bool" where
  "Context_inv c \<longleftrightarrow> SingleGas (cx_gasUsed c) \<le> cx_gasSupplied c"

definition Burner_inv :: "Burner \<Rightarrow> bool" where
  "Burner_inv b = (case b of System s \<Rightarrow> True | Metered c \<Rightarrow> Context_inv c)"

lemma SingleGas_increment [simp]:
  "SingleGas (SaturatingIncrementInto k a g) = SaturatingUAdd (SingleGas g) a"
  by (simp add: SingleGas_def SaturatingIncrementInto_def)

lemma SingleGas_add [simp]:
  "SingleGas (SaturatingAddInto o' g) = SaturatingUAdd (SingleGas g) (SingleGas o')"
  by (simp add: SingleGas_def SaturatingAddInto_def)

lemma SaturatingUAdd_no_overflow:
  fixes a b c :: "'a::len word"
  assumes "a \<le> c" and "b \<le> c - a"
  shows "SaturatingUAdd a b = a + b" and "a + b \<le> c"
proof -
  have "unat (c - a) = unat c - unat a" using assms(1) by (simp add: unat_sub)
  then have le: "unat a + unat b \<le> unat c"
    using assms by (simp add: word_le_nat_alt)
  with unat_lt_pow [of c] have lt: "unat a + unat b < 2 ^ LENGTH('a)" by linarith
  then have "unat (a + b) = unat a + unat b" by (simp add: unat_word_ariths)
  with le lt show "SaturatingUAdd a b = a + b" "a + b \<le> c"
    by (simp_all add: word_unat_eq_iff SaturatingUAdd_unat word_le_nat_alt)
qed

lemma Context_BurnOut_run:
  assumes "Context_inv c"
  shows "Context_BurnOut c = (Err ErrOutOfGas, snd (Context_BurnOut c))"
    and "SingleGas (cx_gasUsed (snd (Context_BurnOut c))) = cx_gasSupplied c"
    and "cx_gasSupplied (snd (Context_BurnOut c)) = cx_gasSupplied c"
  using SaturatingUAdd_no_overflow(1) [of "SingleGas (cx_gasUsed c)" "cx_gasSupplied c" "Context_GasLeft c"] assms
  by (simp_all add: Context_BurnOut_def Context_inv_def Context_GasLeft_def)

lemma Context_Burn_inv: "Context_inv c \<Longrightarrow> Context_inv (snd (Context_Burn k a c))"
  using Context_BurnOut_run [of c]
    SaturatingUAdd_no_overflow [of "SingleGas (cx_gasUsed c)" "cx_gasSupplied c" a]
  by (auto simp: Context_Burn_def Context_inv_def Context_GasLeft_def not_less)

lemma Context_Burned_mono: "Context_inv c \<Longrightarrow> Context_Burned c \<le> Context_Burned (snd (Context_Burn k a c))"
  by (auto simp: Context_Burn_def Context_Burned_def Context_BurnOut_def SaturatingUAdd_ge)

interpretation system_burner: burner_contract SystemBurner_Burn SystemBurner_Burned "\<lambda>_. True"
  by unfold_locales
    (auto simp: SystemBurner_Burn_def SystemBurner_Burned_def SaturatingUAdd_ge)

interpretation context_burner: burner_contract Context_Burn Context_Burned Context_inv
  by unfold_locales
    (auto simp: Context_Burn_inv Context_Burned_mono,
     auto simp: Context_Burn_def Context_BurnOut_def Context_Burned_def split: if_splits)

lemma Burner_Burn_System:
  "Burner_Burn k a (System s) = (fst (SystemBurner_Burn k a s), System (snd (SystemBurner_Burn k a s)))"
  by (simp add: Burner_Burn_def lift_system_def split: prod.splits)

lemma Burner_Burn_Metered:
  "Burner_Burn k a (Metered c) = (fst (Context_Burn k a c), Metered (snd (Context_Burn k a c)))"
  by (simp add: Burner_Burn_def lift_context_def split: prod.splits)

lemmas burner_dispatch = Burner_Burn_System Burner_Burn_Metered Burner_inv_def Burner_Burned_def

interpretation any_burner: burner_contract Burner_Burn Burner_Burned Burner_inv
proof unfold_locales
  fix b k a
  assume inv: "Burner_inv b"
  then show "Burner_inv (snd (Burner_Burn k a b))"
    by (cases b) (simp_all add: burner_dispatch context_burner.burn_inv)
  from inv show "Burner_Burned b \<le> Burner_Burned (snd (Burner_Burn k a b))"
    by (cases b) (simp_all add: burner_dispatch context_burner.burn_mono system_burner.burn_mono)
  from inv show "fst (Burner_Burn k a b) \<in> {Ok (), Err ErrOutOfGas}"
    using context_burner.burn_outcome system_burner.burn_outcome
    by (cases b) (simp_all add: burner_dispatch)
  fix b'
  assume "Burner_Burn k a b = (Ok (), b')"
  with inv show "Burner_Burned b' \<in> {Burner_Burned b, SaturatingUAdd (Burner_Burned b) a}"
    using context_burner.burn_Ok system_burner.burn_Ok
    by (cases b) (auto simp: burner_dispatch prod_eq_iff; blast)+
qed

section \<open>Exact charging\<close>

lemma Context_Burn_cases:
  assumes "Context_inv c" "\<not> cx_free c"
  shows "a \<le> Context_GasLeft c \<Longrightarrow> \<exists>c'. Context_Burn k a c = (Ok (), c') \<and> Context_inv c' \<and> \<not> cx_free c'
      \<and> cx_gasSupplied c' = cx_gasSupplied c \<and> Context_Burned c' = Context_Burned c + a"
    and "Context_GasLeft c < a \<Longrightarrow> \<exists>c'. Context_Burn k a c = (Err ErrOutOfGas, c')
      \<and> cx_gasSupplied c' = cx_gasSupplied c \<and> Context_Burned c' = cx_gasSupplied c"
proof -
  assume "a \<le> Context_GasLeft c"
  then show "\<exists>c'. Context_Burn k a c = (Ok (), c') \<and> Context_inv c' \<and> \<not> cx_free c'
      \<and> cx_gasSupplied c' = cx_gasSupplied c \<and> Context_Burned c' = Context_Burned c + a"
    using assms SaturatingUAdd_no_overflow [of "SingleGas (cx_gasUsed c)" "cx_gasSupplied c" a]
    by (auto simp: Context_Burn_def Context_inv_def Context_GasLeft_def Context_Burned_def)
next
  assume "Context_GasLeft c < a"
  then show "\<exists>c'. Context_Burn k a c = (Err ErrOutOfGas, c')
      \<and> cx_gasSupplied c' = cx_gasSupplied c \<and> Context_Burned c' = cx_gasSupplied c"
    using assms Context_BurnOut_run [OF assms(1)] by (metis Context_Burn_def Context_Burned_def)
qed

lemma Context_burn_all:
  assumes "Context_inv c" "\<not> cx_free c"
  shows "if unat (Context_Burned c) + sum_list (map (\<lambda>x. unat (snd x)) xs) \<le> unat (cx_gasSupplied c)
    then \<exists>c'. burn_all Context_Burn xs c = (Ok (), c')
      \<and> unat (Context_Burned c') = unat (Context_Burned c) + sum_list (map (\<lambda>x. unat (snd x)) xs)
    else \<exists>c'. burn_all Context_Burn xs c = (Err ErrOutOfGas, c') \<and> Context_Burned c' = cx_gasSupplied c"
  using assms
proof (induction xs arbitrary: c)
  case Nil
  then show ?case by (auto simp: burn_all_def ret_run Context_inv_def Context_Burned_def word_le_nat_alt)
next
  case (Cons x xs)
  obtain k a where x: "x = (k, a)" by fastforce
  have left: "unat (Context_GasLeft c) = unat (cx_gasSupplied c) - unat (Context_Burned c)"
    "unat (Context_Burned c) \<le> unat (cx_gasSupplied c)"
    using Cons.prems(1) by (simp_all add: Context_GasLeft_def Context_inv_def Context_Burned_def unat_sub word_le_nat_alt)
  show ?case
  proof (cases "a \<le> Context_GasLeft c")
    case True
    then obtain c' where c': "Context_Burn k a c = (Ok (), c')" "Context_inv c'" "\<not> cx_free c'"
      "cx_gasSupplied c' = cx_gasSupplied c" "Context_Burned c' = Context_Burned c + a"
      using Context_Burn_cases(1) [OF Cons.prems] by blast
    have "unat a + unat (Context_Burned c) \<le> unat (cx_gasSupplied c)"
      using True left by (simp add: word_le_nat_alt)
    then have "unat (Context_Burned c + a) = unat (Context_Burned c) + unat a"
      using unat_lt_pow [of "cx_gasSupplied c"] by (simp add: unat_word_ariths)
    then show ?thesis using Cons.IH [OF c'(2,3)] c' x
      by (auto simp: burn_all_def bnd_def add.assoc comp_def split: if_splits)
  next
    case False
    then obtain c' where "Context_Burn k a c = (Err ErrOutOfGas, c')" "Context_Burned c' = cx_gasSupplied c"
      using Context_Burn_cases(2) [OF Cons.prems] by (auto simp: not_le)
    moreover have "\<not> unat (Context_Burned c) + sum_list (map (\<lambda>x. unat (snd x)) (x # xs)) \<le> unat (cx_gasSupplied c)"
      using False left x by (simp add: word_le_nat_alt)
    ultimately show ?thesis using x by (simp add: burn_all_def bnd_def)
  qed
qed

text \<open>C32: A precompile context charges exactly. If the charges of a call fit into the gas it
  still has, all of them succeed and the gas used grows by their sum; otherwise the call
  ends with \<open>ErrOutOfGas\<close> and has used exactly the gas it was supplied with, never more.\<close>

theorem context_charges_exactly:
  assumes "Context_inv c" and "\<not> cx_free c"
  shows "if unat (Context_Burned c) + sum_list (map (\<lambda>x. unat (snd x)) xs) \<le> unat (cx_gasSupplied c)
    then \<exists>c'. burn_all Context_Burn xs c = (Ok (), c')
      \<and> unat (Context_Burned c') = unat (Context_Burned c) + sum_list (map (\<lambda>x. unat (snd x)) xs)
    else \<exists>c'. burn_all Context_Burn xs c = (Err ErrOutOfGas, c') \<and> Context_Burned c' = cx_gasSupplied c"
  by (rule Context_burn_all [OF assms])

theorem context_charges_exactly_witness:
  "\<exists>c'. burn_all Context_Burn [(StorageAccessRead, 800), (StorageAccessWrite, 20000)]
     \<lparr>cx_gasSupplied = 1000, cx_gasUsed = ZeroGas, cx_readOnly = False, cx_free = False\<rparr>
     = (Err ErrOutOfGas, c') \<and> Context_Burned c' = 1000"
  using context_charges_exactly [of
      "\<lparr>cx_gasSupplied = 1000, cx_gasUsed = ZeroGas, cx_readOnly = False, cx_free = False\<rparr>"
      "[(StorageAccessRead, 800), (StorageAccessWrite, 20000)]"]
  by (simp add: Context_inv_def ZeroGas_def SingleGas_def Context_Burned_def)

end
