(* ===== verification/Storage.thy ===== *)
theory Storage
  imports Burn
begin

text \<open>
  ArbOS storage (\<^verbatim>\<open>arbos/storage/storage.go\<close>): a tree of key-value spaces laid out in the
  flat storage of one account. The state database, the account balances and the burner are
  the \<open>world\<close>; a \<open>Storage\<close> is a handle into it (account and storage key), a \<open>StorageSlot\<close> the
  location of one word. Keccak-256 is not part of the sources and is the parameter \<open>H\<close> of the
  definitions that hash. The process-wide cache of hashes is the separate definition
  \<open>cachedKeccak\<close>, shown to be transparent; the other definitions hash directly. Tracing
  and logging are left out: they read the state and never write it.
\<close>

section \<open>The world\<close>

record world =
  state_of :: "address \<Rightarrow> hash \<Rightarrow> hash"
  balance_of :: "address \<Rightarrow> int"
  code_hash_of :: "address \<Rightarrow> hash"
  burner_of :: Burner

definition w_Burn :: "ResourceKind \<Rightarrow> u64 \<Rightarrow> (world, unit) op" where
  "w_Burn kind amount = (\<lambda>w. case Burner_Burn kind amount (burner_of w) of
     (r, b) \<Rightarrow> (r, w\<lparr>burner_of := b\<rparr>))"

definition w_HandleError :: "error \<Rightarrow> (world, 'a) op" where
  "w_HandleError err = (\<lambda>w. case Burner_HandleError err (burner_of w) of
     (r, b) \<Rightarrow> (r, w\<lparr>burner_of := b\<rparr>))"

definition SetState :: "address \<Rightarrow> hash \<Rightarrow> hash \<Rightarrow> world \<Rightarrow> world" where
  "SetState acct slot v w =
     w\<lparr>state_of := (state_of w)(acct := (state_of w acct)(slot := v))\<rparr>"

section \<open>Conversions\<close>

definition BytesToHash :: "bytes \<Rightarrow> hash" where
  "BytesToHash bs = of_nat (be_val bs)"

definition hash_Bytes :: "hash \<Rightarrow> bytes" where
  "hash_Bytes h = be_bytes 32 (unat h)"

definition UintToHash :: "u64 \<Rightarrow> hash" where
  "UintToHash val = word_of_int (UintToBig val)"

definition AddressToHash :: "address \<Rightarrow> hash" where
  "AddressToHash addr = BytesToHash (be_bytes 20 (unat addr))"

definition BytesToAddress :: "bytes \<Rightarrow> address" where
  "BytesToAddress bs = of_nat (be_val bs)"

text \<open>\<open>big.Int.Bytes\<close> is the absolute value; \<open>BytesToHash\<close> keeps its low 256 bits.\<close>

definition BigBytesToHash :: "int \<Rightarrow> hash" where
  "BigBytesToHash val = word_of_int \<bar>val\<bar>"

definition BitLen :: "int \<Rightarrow> nat" where
  "BitLen val = bit_len (nat \<bar>val\<bar>)"

section \<open>Storage spaces\<close>

record Storage =
  sto_account :: address
  sto_storageKey :: bytes

definition StorageReadCost :: u64 where
  "StorageReadCost = 800"

definition StorageWriteCost :: u64 where
  "StorageWriteCost = 20000"

definition StorageWriteZeroCost :: u64 where
  "StorageWriteZeroCost = 5000"

definition StorageCodeHashCost :: u64 where
  "StorageCodeHashCost = 2600"

definition KVStorage :: "address \<Rightarrow> Storage" where
  "KVStorage account = \<lparr>sto_account = account, sto_storageKey = []\<rparr>"

definition mapAddress :: "(bytes \<Rightarrow> bytes) \<Rightarrow> Storage \<Rightarrow> hash \<Rightarrow> hash" where
  "mapAddress H s key =
     (let keyBytes = hash_Bytes key; boundary = 31
      in BytesToHash (take boundary (H (sto_storageKey s @ take boundary keyBytes))
           @ [keyBytes ! boundary]))"

definition WriteCost :: "hash \<Rightarrow> u64" where
  "WriteCost val = (if val = 0 then StorageWriteZeroCost else StorageWriteCost)"

definition Storage_GetFree :: "(bytes \<Rightarrow> bytes) \<Rightarrow> Storage \<Rightarrow> hash \<Rightarrow> world \<Rightarrow> hash" where
  "Storage_GetFree H s key w = state_of w (sto_account s) (mapAddress H s key)"

definition Storage_Get :: "(bytes \<Rightarrow> bytes) \<Rightarrow> Storage \<Rightarrow> hash \<Rightarrow> (world, hash) op" where
  "Storage_Get H s key =
     bnd (w_Burn StorageAccessRead StorageReadCost)
       (\<lambda>_ w. (Ok (Storage_GetFree H s key w), w))"

definition Storage_ClearFree :: "(bytes \<Rightarrow> bytes) \<Rightarrow> Storage \<Rightarrow> hash \<Rightarrow> world \<Rightarrow> world" where
  "Storage_ClearFree H s key w = SetState (sto_account s) (mapAddress H s key) 0 w"

definition Storage_GetUint64 :: "(bytes \<Rightarrow> bytes) \<Rightarrow> Storage \<Rightarrow> hash \<Rightarrow> (world, u64) op" where
  "Storage_GetUint64 H s key = bnd (Storage_Get H s key) (\<lambda>v. ret (ucast v))"

definition Storage_GetByUint64 :: "(bytes \<Rightarrow> bytes) \<Rightarrow> Storage \<Rightarrow> u64 \<Rightarrow> (world, hash) op" where
  "Storage_GetByUint64 H s key = Storage_Get H s (UintToHash key)"

definition Storage_GetUint64ByUint64 :: "(bytes \<Rightarrow> bytes) \<Rightarrow> Storage \<Rightarrow> u64 \<Rightarrow> (world, u64) op" where
  "Storage_GetUint64ByUint64 H s key = Storage_GetUint64 H s (UintToHash key)"

definition Storage_Set :: "(bytes \<Rightarrow> bytes) \<Rightarrow> Storage \<Rightarrow> hash \<Rightarrow> hash \<Rightarrow> (world, unit) op" where
  "Storage_Set H s key val =
     (\<lambda>w. if Burner_ReadOnly (burner_of w) then (Err ErrWriteProtection, w)
       else bnd (w_Burn StorageAccessWrite (WriteCost val))
         (\<lambda>_ w. (Ok (), SetState (sto_account s) (mapAddress H s key) val w)) w)"

definition Storage_SetByUint64 :: "(bytes \<Rightarrow> bytes) \<Rightarrow> Storage \<Rightarrow> u64 \<Rightarrow> hash \<Rightarrow> (world, unit) op" where
  "Storage_SetByUint64 H s key val = Storage_Set H s (UintToHash key) val"

definition Storage_SetUint64 :: "(bytes \<Rightarrow> bytes) \<Rightarrow> Storage \<Rightarrow> hash \<Rightarrow> u64 \<Rightarrow> (world, unit) op" where
  "Storage_SetUint64 H s key val = Storage_Set H s key (UintToHash val)"

definition Storage_SetUint64ByUint64 :: "(bytes \<Rightarrow> bytes) \<Rightarrow> Storage \<Rightarrow> u64 \<Rightarrow> u64 \<Rightarrow> (world, unit) op" where
  "Storage_SetUint64ByUint64 H s key val = Storage_Set H s (UintToHash key) (UintToHash val)"

definition Storage_Clear :: "(bytes \<Rightarrow> bytes) \<Rightarrow> Storage \<Rightarrow> hash \<Rightarrow> (world, unit) op" where
  "Storage_Clear H s key = Storage_Set H s key 0"

definition Storage_ClearByUint64 :: "(bytes \<Rightarrow> bytes) \<Rightarrow> Storage \<Rightarrow> u64 \<Rightarrow> (world, unit) op" where
  "Storage_ClearByUint64 H s key = Storage_Set H s (UintToHash key) 0"

definition Storage_Swap :: "(bytes \<Rightarrow> bytes) \<Rightarrow> Storage \<Rightarrow> hash \<Rightarrow> hash \<Rightarrow> (world, hash) op" where
  "Storage_Swap H s key newValue =
     bnd (Storage_Get H s key) (\<lambda>oldValue.
     bnd (Storage_Set H s key newValue) (\<lambda>_. ret oldValue))"

definition OpenSubStorage :: "(bytes \<Rightarrow> bytes) \<Rightarrow> Storage \<Rightarrow> bytes \<Rightarrow> Storage" where
  "OpenSubStorage H s sid = s\<lparr>sto_storageKey := H (sto_storageKey s @ sid)\<rparr>"

subsection \<open>Byte strings\<close>

function Storage_ClearBytes_loop :: "(bytes \<Rightarrow> bytes) \<Rightarrow> Storage \<Rightarrow> u64 \<Rightarrow> u64 \<Rightarrow> (world, unit) op" where
  "Storage_ClearBytes_loop H s bytesLeft offset =
     (if bytesLeft > 0
      then bnd (Storage_ClearByUint64 H s offset) (\<lambda>_.
           Storage_ClearBytes_loop H s (if bytesLeft < 32 then 0 else bytesLeft - 32) (offset + 1))
      else ret ())"
  by pat_completeness auto
termination
  by (relation "measure (\<lambda>(H, s, b, off). unat b)")
    (auto simp: unat_sub word_le_nat_alt word_less_nat_alt not_less)

definition Storage_ClearBytes :: "(bytes \<Rightarrow> bytes) \<Rightarrow> Storage \<Rightarrow> (world, unit) op" where
  "Storage_ClearBytes H s =
     bnd (Storage_GetUint64ByUint64 H s 0) (\<lambda>bytesLeft.
     bnd (Storage_ClearBytes_loop H s bytesLeft 1) (\<lambda>_.
     Storage_ClearByUint64 H s 0))"

function Storage_SetBytes_loop :: "(bytes \<Rightarrow> bytes) \<Rightarrow> Storage \<Rightarrow> bytes \<Rightarrow> u64 \<Rightarrow> (world, unit) op" where
  "Storage_SetBytes_loop H s b offset =
     (if length b \<ge> 32
      then bnd (Storage_SetByUint64 H s offset (BytesToHash (take 32 b))) (\<lambda>_.
           Storage_SetBytes_loop H s (drop 32 b) (offset + 1))
      else Storage_SetByUint64 H s offset (BytesToHash b))"
  by pat_completeness auto
termination
  by (relation "measure (\<lambda>(H, s, b, off). length b)") auto

definition Storage_SetBytes :: "(bytes \<Rightarrow> bytes) \<Rightarrow> Storage \<Rightarrow> bytes \<Rightarrow> (world, unit) op" where
  "Storage_SetBytes H s b =
     bnd (Storage_ClearBytes H s) (\<lambda>_.
     bnd (Storage_SetUint64ByUint64 H s 0 (of_nat (length b))) (\<lambda>_.
     Storage_SetBytes_loop H s b 1))"

function Storage_GetBytes_loop ::
  "(bytes \<Rightarrow> bytes) \<Rightarrow> Storage \<Rightarrow> u64 \<Rightarrow> u64 \<Rightarrow> bytes \<Rightarrow> (world, bytes) op" where
  "Storage_GetBytes_loop H s bytesLeft offset acc =
     (if bytesLeft \<ge> 32
      then bnd (Storage_GetByUint64 H s offset) (\<lambda>nxt.
           Storage_GetBytes_loop H s (bytesLeft - 32) (offset + 1) (acc @ hash_Bytes nxt))
      else bnd (Storage_GetByUint64 H s offset) (\<lambda>nxt.
           ret (acc @ drop (unat (32 - bytesLeft)) (hash_Bytes nxt))))"
  by pat_completeness auto
termination
  by (relation "measure (\<lambda>(H, s, b, off, acc). unat b)")
    (auto simp: unat_sub word_le_nat_alt)

definition Storage_GetBytes :: "(bytes \<Rightarrow> bytes) \<Rightarrow> Storage \<Rightarrow> (world, bytes) op" where
  "Storage_GetBytes H s =
     bnd (Storage_GetUint64ByUint64 H s 0) (\<lambda>bytesLeft.
     Storage_GetBytes_loop H s bytesLeft 1 [])"

definition Storage_GetBytesSize :: "(bytes \<Rightarrow> bytes) \<Rightarrow> Storage \<Rightarrow> (world, u64) op" where
  "Storage_GetBytesSize H s = Storage_GetUint64ByUint64 H s 0"

subsection \<open>Hashing\<close>

definition Storage_GetCodeHash :: "address \<Rightarrow> (world, hash) op" where
  "Storage_GetCodeHash addr =
     bnd (w_Burn StorageAccessRead StorageCodeHashCost) (\<lambda>_ w. (Ok (code_hash_of w addr), w))"

definition Storage_Keccak :: "(bytes \<Rightarrow> bytes) \<Rightarrow> bytes list \<Rightarrow> (world, bytes) op" where
  "Storage_Keccak H data =
     (let byteCount = fold (\<lambda>part n. n + of_nat (length part)) data (0 :: u64);
          cost = 30 + 6 * WordsForBytes byteCount
      in bnd (w_Burn Computation cost) (\<lambda>_. ret (H (concat data))))"

definition Storage_KeccakHash :: "(bytes \<Rightarrow> bytes) \<Rightarrow> bytes list \<Rightarrow> (world, hash) op" where
  "Storage_KeccakHash H data = bnd (Storage_Keccak H data) (\<lambda>b. ret (BytesToHash b))"

text \<open>The cache is the parameter \<open>(cache_get, cache_add)\<close> over a cache state \<open>'c\<close> (a lookup may
  reorder an LRU cache, so it returns one too); \<open>None\<close> models the absent cache of
  \<^verbatim>\<open>WithoutCache\<close>.\<close>

definition cachedKeccak ::
  "(bytes \<Rightarrow> bytes) \<Rightarrow> ('c \<Rightarrow> bytes \<Rightarrow> bytes option \<times> 'c) \<Rightarrow> ('c \<Rightarrow> bytes \<Rightarrow> bytes \<Rightarrow> 'c)
    \<Rightarrow> bytes list \<Rightarrow> 'c option \<Rightarrow> bytes \<times> 'c option" where
  "cachedKeccak H cache_get cache_add data cache = (case cache of
      None \<Rightarrow> (H (concat data), None)
    | Some c \<Rightarrow>
        (let keyString = concat data in case cache_get c keyString of
            (Some h, c') \<Rightarrow> (h, Some c')
          | (None, c') \<Rightarrow> (let h = H (concat data) in (h, Some (cache_add c' keyString h)))))"

section \<open>Slots\<close>

record StorageSlot =
  slot_account :: address
  slot_slot :: hash

definition NewSlot :: "(bytes \<Rightarrow> bytes) \<Rightarrow> Storage \<Rightarrow> u64 \<Rightarrow> StorageSlot" where
  "NewSlot H s offset =
     \<lparr>slot_account = sto_account s, slot_slot = mapAddress H s (UintToHash offset)\<rparr>"

definition StorageSlot_Get :: "StorageSlot \<Rightarrow> (world, hash) op" where
  "StorageSlot_Get ss =
     bnd (w_Burn StorageAccessRead StorageReadCost)
       (\<lambda>_ w. (Ok (state_of w (slot_account ss) (slot_slot ss)), w))"

definition StorageSlot_Set :: "StorageSlot \<Rightarrow> hash \<Rightarrow> (world, unit) op" where
  "StorageSlot_Set ss val =
     (\<lambda>w. if Burner_ReadOnly (burner_of w) then (Err ErrWriteProtection, w)
       else bnd (w_Burn StorageAccessWrite (WriteCost val))
         (\<lambda>_ w. (Ok (), SetState (slot_account ss) (slot_slot ss) val w)) w)"

section \<open>Slots, reads and writes\<close>

text \<open>Every access goes through the slot it hashes to.\<close>

definition slot_at :: "(bytes \<Rightarrow> bytes) \<Rightarrow> Storage \<Rightarrow> hash \<Rightarrow> StorageSlot" where
  "slot_at H s key = \<lparr>slot_account = sto_account s, slot_slot = mapAddress H s key\<rparr>"

definition slot_read :: "world \<Rightarrow> StorageSlot \<Rightarrow> hash" where
  "slot_read w ss = state_of w (slot_account ss) (slot_slot ss)"

definition slot_write :: "StorageSlot \<Rightarrow> hash \<Rightarrow> world \<Rightarrow> world" where
  "slot_write ss v w = SetState (slot_account ss) (slot_slot ss) v w"

definition tick :: "ResourceKind \<Rightarrow> u64 \<Rightarrow> world \<Rightarrow> world" where
  "tick k a w = snd (w_Burn k a w)"

text \<open>The burner of block processing: counts, never refuses.\<close>

definition sysw :: "world \<Rightarrow> bool" where
  "sysw w = (case burner_of w of System b \<Rightarrow> \<not> sb_readOnly b | Metered c \<Rightarrow> False)"

named_theorems sys_simps \<open>symbolic execution under a writable system burner\<close>

lemma Storage_Get_slot: "Storage_Get H s key = StorageSlot_Get (slot_at H s key)"
  by (simp add: Storage_Get_def StorageSlot_Get_def slot_at_def Storage_GetFree_def)

lemma Storage_Set_slot: "Storage_Set H s key v = StorageSlot_Set (slot_at H s key) v"
  by (rule ext) (simp add: Storage_Set_def StorageSlot_Set_def slot_at_def)

lemma NewSlot_slot: "NewSlot H s off = slot_at H s (UintToHash off)"
  by (simp add: NewSlot_def slot_at_def)

lemma state_of_tick [simp]: "state_of (tick k a w) = state_of w"
  and balance_of_tick [simp]: "balance_of (tick k a w) = balance_of w"
  and code_hash_of_tick [simp]: "code_hash_of (tick k a w) = code_hash_of w"
  by (simp_all add: tick_def w_Burn_def split: prod.splits)

lemma slot_read_tick [simp]: "slot_read (tick k a w) ss = slot_read w ss"
  by (simp add: slot_read_def)

lemma slot_read_write:
  "slot_read (slot_write ss v w) ss' = (if ss' = ss then v else slot_read w ss')"
  by (cases ss; cases ss') (auto simp: slot_read_def slot_write_def SetState_def)

lemma slot_read_write_same [simp]: "slot_read (slot_write ss v w) ss = v"
  by (simp add: slot_read_write)

lemma slot_read_write_other [simp]: "ss' \<noteq> ss \<Longrightarrow> slot_read (slot_write ss v w) ss' = slot_read w ss'"
  by (simp add: slot_read_write)

lemma balance_of_write [simp]: "balance_of (slot_write ss v w) = balance_of w"
  by (simp add: slot_write_def SetState_def)

lemma code_hash_of_write [simp]: "code_hash_of (slot_write ss v w) = code_hash_of w"
  by (simp add: slot_write_def SetState_def)

lemma burner_of_write [simp]: "burner_of (slot_write ss v w) = burner_of w"
  by (simp add: slot_write_def SetState_def)

lemma w_Burn_sys: "sysw w \<Longrightarrow> w_Burn k a w = (Ok (), tick k a w)"
  by (auto simp: sysw_def tick_def w_Burn_def Burner_Burn_System SystemBurner_Burn_def
      split: Burner.splits)

lemma sysw_tick [simp]: "sysw w \<Longrightarrow> sysw (tick k a w)"
  by (auto simp: sysw_def tick_def w_Burn_def Burner_Burn_System SystemBurner_Burn_def
      split: Burner.splits)

lemma sysw_write [simp]: "sysw (slot_write ss v w) = sysw w"
  by (simp add: sysw_def)

lemma sysw_not_ro: "sysw w \<Longrightarrow> \<not> Burner_ReadOnly (burner_of w)"
  by (auto simp: sysw_def Burner_ReadOnly_def split: Burner.splits)

lemma StorageSlot_Get_sys [sys_simps]:
  "sysw w \<Longrightarrow> StorageSlot_Get ss w = (Ok (slot_read w ss), tick StorageAccessRead StorageReadCost w)"
  by (simp add: StorageSlot_Get_def bnd_def w_Burn_sys slot_read_def)

lemma StorageSlot_Set_sys [sys_simps]:
  "sysw w \<Longrightarrow> StorageSlot_Set ss v w = (Ok (), slot_write ss v (tick StorageAccessWrite (WriteCost v) w))"
  by (simp add: StorageSlot_Set_def bnd_def w_Burn_sys slot_write_def sysw_not_ro)

lemma w_HandleError_sys [sys_simps]: "sysw w \<Longrightarrow> \<exists>p. w_HandleError e w = (Panic p, w)"
  by (auto simp: sysw_def w_HandleError_def Burner_HandleError_def lift_system_def
      SystemBurner_HandleError_def panic_run split: Burner.splits)

section \<open>Where slots live\<close>

lemma pow_256_32: "(256::nat) ^ 32 = 2 ^ 256"
  by simp

lemma unat_BytesToHash: "unat (BytesToHash bs) = be_val bs mod 2 ^ 256"
  unfolding BytesToHash_def unat_of_nat by simp

lemma unat_BytesToHash_mod: "unat (BytesToHash (bs @ [b])) mod 256 = unat b"
proof -
  have "unat (BytesToHash (bs @ [b])) mod 256 = be_val (bs @ [b]) mod 2 ^ 256 mod 256"
    by (simp only: unat_BytesToHash)
  also have "\<dots> = be_val (bs @ [b]) mod 256" by (rule mod_mod_cancel) simp
  also have "\<dots> = unat b" by simp
  finally show ?thesis .
qed

lemma hash_Bytes_last: "hash_Bytes h ! 31 = of_nat (unat h mod 256)"
  using be_bytes_add [of 31 1 "unat h"] by (simp add: hash_Bytes_def nth_append)

lemma hash_Bytes_page: "take 31 (hash_Bytes h) = be_bytes 31 (unat h div 256)"
  using be_bytes_add [of 31 1 "unat h"] by (simp add: hash_Bytes_def)

text \<open>A slot keeps the low byte of its key: keys of one page differing in it never collide,
  whatever the hash function does.\<close>

lemma mapAddress_low_byte: "unat (mapAddress H s key) mod 256 = unat key mod 256"
  by (simp add: mapAddress_def Let_def unat_BytesToHash_mod hash_Bytes_last unat_byte)

lemma mapAddress_same_page:
  assumes "unat k div 256 = unat k' div 256"
  shows "mapAddress H s k = mapAddress H s k' \<longleftrightarrow> k = k'"
proof
  assume "mapAddress H s k = mapAddress H s k'"
  then have "unat k mod 256 = unat k' mod 256" using mapAddress_low_byte by metis
  with assms have "unat k = unat k'" by (metis div_mult_mod_eq)
  then show "k = k'" by (simp add: word_unat_eq_iff)
qed simp

definition page :: "Storage \<Rightarrow> hash \<Rightarrow> bytes" where
  "page s key = sto_storageKey s @ take 31 (hash_Bytes key)"

definition collision_free :: "(bytes \<Rightarrow> bytes) \<Rightarrow> bytes set \<Rightarrow> bool" where
  "collision_free H X \<longleftrightarrow> (\<forall>x\<in>X. length (H x) = 32) \<and> inj_on (\<lambda>x. take 31 (H x)) X"

lemma mapAddress_eq_page:
  assumes "length (H (page s k)) = 32"
  shows "unat (mapAddress H s k) = 256 * be_val (take 31 (H (page s k))) + unat k mod 256"
proof -
  let ?bs = "take 31 (H (page s k)) @ [hash_Bytes k ! 31]"
  have "length ?bs = 32" using assms by simp
  then have "be_val ?bs < 2 ^ 256" using be_val_less [of ?bs] by (simp only: pow_256_32)
  then have "be_val ?bs mod 2 ^ 256 = be_val ?bs" by (rule mod_less)
  moreover have "unat (mapAddress H s k) = be_val ?bs mod 2 ^ 256"
    by (simp only: mapAddress_def Let_def unat_BytesToHash page_def)
  moreover have "be_val ?bs = 256 * be_val (take 31 (H (page s k))) + unat k mod 256"
    by (simp add: hash_Bytes_last unat_byte)
  ultimately show ?thesis by (simp only:)
qed

lemma hash_page_inject:
  "take 31 (hash_Bytes k) = take 31 (hash_Bytes k') \<longleftrightarrow> unat k div 256 = unat k' div 256"
proof -
  have "unat h div 256 < 256 ^ 31" for h :: hash
  proof (rule less_mult_imp_div_less)
    have "unat h < 2 ^ 256" using unat_lt_pow [of h] by simp
    then show "unat h < 256 ^ 31 * 256" by simp
  qed
  then show ?thesis by (simp only: hash_Bytes_page be_bytes_inject)
qed

lemma mapAddress_inject:
  assumes cf: "collision_free H X" and "page s k \<in> X" and "page s' k' \<in> X"
  shows "mapAddress H s k = mapAddress H s' k' \<longleftrightarrow> sto_storageKey s = sto_storageKey s' \<and> k = k'"
proof
  assume eq: "mapAddress H s k = mapAddress H s' k'"
  let ?a = "take 31 (H (page s k))" and ?b = "take 31 (H (page s' k'))"
  have len: "length (H (page s k)) = 32" "length (H (page s' k')) = 32"
    using assms by (auto simp: collision_free_def)
  have low: "unat k mod 256 = unat k' mod 256" using eq mapAddress_low_byte by metis
  have "256 * be_val ?a + unat k mod 256 = 256 * be_val ?b + unat k' mod 256"
    using mapAddress_eq_page [of H s k, OF len(1)] mapAddress_eq_page [of H s' k', OF len(2)]
    by (simp only: eq)
  then have "256 * be_val ?a = 256 * be_val ?b" by (simp only: low add_right_cancel)
  then have "be_val ?a = be_val ?b" by (simp only: mult_cancel1) simp
  moreover have "length ?a = length ?b" using len by simp
  ultimately have "?a = ?b" by (simp only: be_val_inject)
  with assms have "page s k = page s' k'"
    unfolding collision_free_def inj_on_def by blast
  then have key: "sto_storageKey s = sto_storageKey s'"
    and "take 31 (hash_Bytes k) = take 31 (hash_Bytes k')"
    by (simp_all add: page_def hash_Bytes_def)
  then have "unat k div 256 = unat k' div 256" by (simp only: hash_page_inject)
  then have "unat k div 256 * 256 + unat k mod 256 = unat k' div 256 * 256 + unat k' mod 256"
    by (simp only: low)
  then have "k = k'" by (simp only: div_mult_mod_eq word_unat_eq_iff)
  with key show "sto_storageKey s = sto_storageKey s' \<and> k = k'" by (rule conjI)
next
  assume "sto_storageKey s = sto_storageKey s' \<and> k = k'"
  then show "mapAddress H s k = mapAddress H s' k'" by (simp only: mapAddress_def)
qed

lemma unat_UintToHash [simp]: "unat (UintToHash n) = unat n"
proof -
  have "uint n < 2 ^ 256" using uint_lt_pow [of n] by simp
  then show ?thesis
    unfolding UintToHash_def UintToBig_def unat_eq_nat_uint uint_word_of_int
    by simp
qed

lemma UintToHash_inject [simp]: "UintToHash a = UintToHash b \<longleftrightarrow> a = b"
  by (metis unat_UintToHash word_unat_eq_iff)

text \<open>Two fields of one structure at offsets below 256 never overlap.\<close>

lemma NewSlot_inject:
  "unat a < 256 \<Longrightarrow> unat b < 256 \<Longrightarrow> NewSlot H s a = NewSlot H s b \<longleftrightarrow> a = b"
  by (simp add: NewSlot_def mapAddress_same_page)

section \<open>Frames\<close>

definition same_except :: "StorageSlot set \<Rightarrow> world \<Rightarrow> world \<Rightarrow> bool" where
  "same_except S w w' \<longleftrightarrow> (\<forall>ss. ss \<notin> S \<longrightarrow> slot_read w' ss = slot_read w ss)
     \<and> balance_of w' = balance_of w \<and> code_hash_of w' = code_hash_of w"

lemma same_except_refl [simp]: "same_except S w w"
  by (simp add: same_except_def)

lemma same_except_tick [simp]: "same_except S w (tick k a w') \<longleftrightarrow> same_except S w w'"
  by (simp add: same_except_def)

lemma same_except_tick_left [simp]: "same_except S (tick k a w) w' \<longleftrightarrow> same_except S w w'"
  by (simp add: same_except_def)

lemma same_except_write: "same_except S w w' \<Longrightarrow> ss \<in> S \<Longrightarrow> same_except S w (slot_write ss v w')"
  by (auto simp: same_except_def slot_read_write)

lemma same_except_trans: "same_except S w w' \<Longrightarrow> same_except T w' w'' \<Longrightarrow> same_except (S \<union> T) w w''"
  by (simp add: same_except_def)

lemma same_except_mono: "same_except S w w' \<Longrightarrow> S \<subseteq> T \<Longrightarrow> same_except T w w'"
  by (auto simp: same_except_def)

lemma same_exceptD: "same_except S w w' \<Longrightarrow> ss \<notin> S \<Longrightarrow> slot_read w' ss = slot_read w ss"
  by (simp add: same_except_def)

section \<open>Loops that only read\<close>

definition quiet :: "world \<Rightarrow> world \<Rightarrow> bool" where
  "quiet w w' \<longleftrightarrow> sysw w' \<and> same_except {} w w'"

lemma quiet_refl: "quiet w w = sysw w"
  by (simp add: quiet_def)

lemma quiet_tick [simp]: "quiet w w' \<Longrightarrow> quiet w (tick k a w')"
  by (simp add: quiet_def)

lemma quiet_sysw: "quiet w w' \<Longrightarrow> sysw w'"
  by (simp add: quiet_def)

lemma quiet_read: "quiet w w' \<Longrightarrow> slot_read w' ss = slot_read w ss"
  by (simp add: quiet_def same_except_def)

lemma quiet_trans: "quiet w w' \<Longrightarrow> quiet w' w'' \<Longrightarrow> quiet w w''"
  by (auto simp: quiet_def dest: same_except_trans)

lemma fold_reads:
  assumes "\<And>x a u. x \<in> set xs \<Longrightarrow> P a \<Longrightarrow> quiet w u \<Longrightarrow> \<exists>u'. f x a u = (Ok (g x a), u') \<and> quiet w u' \<and> P (g x a)"
    and "quiet w w0" "P a"
  shows "\<exists>w'. fold_op f xs a w0 = (Ok (fold g xs a), w') \<and> quiet w w' \<and> P (fold g xs a)"
  using assms
proof (induction xs arbitrary: w0 a)
  case Nil
  then show ?case by (simp add: ret_run)
next
  case (Cons x xs)
  obtain u where u: "f x a w0 = (Ok (g x a), u)" "quiet w u" "P (g x a)"
    using Cons.prems(1) [of x a w0] Cons.prems(2,3) by auto
  obtain w' where "fold_op f xs (g x a) u = (Ok (fold g xs (g x a)), w')" "quiet w w'" "P (fold g xs (g x a))"
    using Cons.IH [OF _ u(2,3)] Cons.prems(1) by auto
  then show ?case using u(1) by (auto simp: op_simps)
qed

section \<open>Words of a storage space\<close>

definition word_slot :: "(bytes \<Rightarrow> bytes) \<Rightarrow> Storage \<Rightarrow> nat \<Rightarrow> StorageSlot" where
  "word_slot H s i = NewSlot H s (of_nat i)"

definition distinct_words :: "(bytes \<Rightarrow> bytes) \<Rightarrow> Storage \<Rightarrow> nat \<Rightarrow> bool" where
  "distinct_words H s n \<longleftrightarrow> inj_on (word_slot H s) {..n}"

lemma distinct_wordsD:
  "distinct_words H s n \<Longrightarrow> i \<le> n \<Longrightarrow> j \<le> n \<Longrightarrow> word_slot H s i = word_slot H s j \<longleftrightarrow> i = j"
  by (auto simp: distinct_words_def inj_on_def)

lemma distinct_words_page: "n < 256 \<Longrightarrow> distinct_words H s n"
  unfolding distinct_words_def
proof (rule inj_onI)
  fix i j assume n: "n < 256" and "i \<in> {..n}" "j \<in> {..n}" and eq: "word_slot H s i = word_slot H s j"
  then have ij: "i < 256" "j < 256" by auto
  have u: "k < 256 \<Longrightarrow> unat (of_nat k :: u64) < 256" for k by simp
  have "(of_nat i :: u64) = of_nat j"
    using eq NewSlot_inject [OF u [OF ij(1)] u [OF ij(2)], of H s] unfolding word_slot_def by blast
  with ij show "i = j" using of_nat_u64_inject [of i j] by simp
qed

lemma distinct_words_collision_free:
  assumes cf: "collision_free H ((\<lambda>i. page s (UintToHash (of_nat i))) ` {..n})" and n: "n < 2 ^ 64"
  shows "distinct_words H s n"
  unfolding distinct_words_def
proof (rule inj_onI)
  fix i j assume ij: "i \<in> {..n}" "j \<in> {..n}" and eq: "word_slot H s i = word_slot H s j"
  then have "mapAddress H s (UintToHash (of_nat i)) = mapAddress H s (UintToHash (of_nat j))"
    by (simp only: word_slot_def NewSlot_def StorageSlot.iffs)
  then have "UintToHash (of_nat i) = UintToHash (of_nat j)"
    using mapAddress_inject [of H _ s "UintToHash (of_nat i)" s "UintToHash (of_nat j)",
        OF cf imageI [OF ij(1)] imageI [OF ij(2)]] by blast
  then have "(of_nat i :: u64) = of_nat j" by simp
  moreover have "i < 2 ^ 64" "j < 2 ^ 64" using ij n by auto
  ultimately show "i = j" using of_nat_u64_inject [of i j] by (simp only:)
qed

lemma word_ops:
  "Storage_GetByUint64 H s (of_nat i) = StorageSlot_Get (word_slot H s i)"
  "Storage_SetByUint64 H s (of_nat i) v = StorageSlot_Set (word_slot H s i) v"
  "Storage_ClearByUint64 H s (of_nat i) = StorageSlot_Set (word_slot H s i) 0"
  "Storage_SetUint64ByUint64 H s (of_nat i) u = StorageSlot_Set (word_slot H s i) (UintToHash u)"
  "Storage_GetUint64ByUint64 H s (of_nat i) = bnd (StorageSlot_Get (word_slot H s i)) (\<lambda>v. ret (ucast v))"
  by (simp_all add: Storage_GetByUint64_def Storage_SetByUint64_def Storage_ClearByUint64_def
      Storage_SetUint64ByUint64_def Storage_GetUint64ByUint64_def Storage_GetUint64_def
      Storage_Get_slot Storage_Set_slot word_slot_def NewSlot_slot)

section \<open>A concrete world\<close>

definition demo_world :: world where
  "demo_world = \<lparr>state_of = \<lambda>_ _. 0, balance_of = \<lambda>_. 0, code_hash_of = \<lambda>_. 0,
     burner_of = System (NewSystemBurner False)\<rparr>"

lemma sysw_demo [simp]: "sysw demo_world"
  by (simp add: sysw_def demo_world_def NewSystemBurner_def)

lemma slot_read_demo [simp]: "slot_read demo_world ss = 0"
  by (simp add: slot_read_def demo_world_def)

end
