(* ===== verification/Backed.thy ===== *)
theory Backed
  imports Storage
begin

text \<open>
  Typed views of a storage slot (\<^verbatim>\<open>arbos/storage/storage.go\<close>, the \<^verbatim>\<open>StorageBacked...\<close>
  types). Each is an encoding of values into 256-bit words; reading a word that is not an
  encoding panics. The locale \<open>backed_value\<close> states that contract once, and every type
  interprets it.
\<close>

section \<open>Fixed-width integers\<close>

definition StorageBackedInt64_Get :: "StorageSlot \<Rightarrow> (world, int) op" where
  "StorageBackedInt64_Get sbu =
     bnd (StorageSlot_Get sbu) (\<lambda>raw.
     if \<not> IsUint64 (uint raw) then panic ''invalid value found in StorageBackedInt64 storage''
     else ret (sint (ucast raw :: u64)))"

definition StorageBackedInt64_Set :: "StorageSlot \<Rightarrow> int \<Rightarrow> (world, unit) op" where
  "StorageBackedInt64_Set sbu val = StorageSlot_Set sbu (UintToHash (word_of_int val))"

definition StorageBackedBips_Get :: "StorageSlot \<Rightarrow> (world, int) op" where
  "StorageBackedBips_Get sbu = StorageBackedInt64_Get sbu"

definition StorageBackedBips_Set :: "StorageSlot \<Rightarrow> int \<Rightarrow> (world, unit) op" where
  "StorageBackedBips_Set sbu bips = StorageBackedInt64_Set sbu bips"

definition StorageBackedUint16_Get :: "StorageSlot \<Rightarrow> (world, u16) op" where
  "StorageBackedUint16_Get sbu =
     bnd (StorageSlot_Get sbu) (\<lambda>raw.
     if \<not> IsUint64 (uint raw) \<or> (ucast raw :: u64) > 65535
     then panic ''expected uint16 compatible value in storage''
     else ret (ucast raw))"

definition StorageBackedUint16_Set :: "StorageSlot \<Rightarrow> u16 \<Rightarrow> (world, unit) op" where
  "StorageBackedUint16_Set sbu val = StorageSlot_Set sbu (word_of_int (uint val))"

definition StorageBackedUint24_Get :: "StorageSlot \<Rightarrow> (world, u32) op" where
  "StorageBackedUint24_Get sbu =
     bnd (StorageSlot_Get sbu) (\<lambda>raw. BigToUint24OrPanic (uint raw))"

definition StorageBackedUint24_Set :: "StorageSlot \<Rightarrow> u32 \<Rightarrow> (world, unit) op" where
  "StorageBackedUint24_Set sbu val = StorageSlot_Set sbu (word_of_int (uint val))"

definition StorageBackedUint32_Get :: "StorageSlot \<Rightarrow> (world, u32) op" where
  "StorageBackedUint32_Get sbu =
     bnd (StorageSlot_Get sbu) (\<lambda>raw.
     if \<not> IsUint64 (uint raw) \<or> (ucast raw :: u64) > 4294967295
     then panic ''expected uint32 compatible value in storage''
     else ret (ucast raw))"

definition StorageBackedUint32_Set :: "StorageSlot \<Rightarrow> u32 \<Rightarrow> (world, unit) op" where
  "StorageBackedUint32_Set sbu val = StorageSlot_Set sbu (word_of_int (uint val))"

definition StorageBackedUint32_Clear :: "StorageSlot \<Rightarrow> (world, unit) op" where
  "StorageBackedUint32_Clear sbu = StorageBackedUint32_Set sbu 0"

definition StorageBackedUint64_Get :: "StorageSlot \<Rightarrow> (world, u64) op" where
  "StorageBackedUint64_Get sbu =
     bnd (StorageSlot_Get sbu) (\<lambda>raw.
     if \<not> IsUint64 (uint raw) then panic ''expected uint64 compatible value in storage''
     else ret (ucast raw))"

definition StorageBackedUint64_Set :: "StorageSlot \<Rightarrow> u64 \<Rightarrow> (world, unit) op" where
  "StorageBackedUint64_Set sbu val = StorageSlot_Set sbu (word_of_int (uint val))"

definition StorageBackedUBips_Get :: "StorageSlot \<Rightarrow> (world, u64) op" where
  "StorageBackedUBips_Get sbu = StorageBackedUint64_Get sbu"

definition StorageBackedUBips_Set :: "StorageSlot \<Rightarrow> u64 \<Rightarrow> (world, unit) op" where
  "StorageBackedUBips_Set sbu bips = StorageBackedUint64_Set sbu bips"

definition StorageBackedUint64_Clear :: "StorageSlot \<Rightarrow> (world, unit) op" where
  "StorageBackedUint64_Clear sbu = StorageBackedUint64_Set sbu 0"

definition StorageBackedUint64_Increment :: "StorageSlot \<Rightarrow> (world, u64) op" where
  "StorageBackedUint64_Increment sbu =
     bnd (StorageBackedUint64_Get sbu) (\<lambda>old.
     if old + 1 < old then panic ''Overflow in StorageBackedUint64::Increment''
     else bnd (StorageBackedUint64_Set sbu (old + 1)) (\<lambda>_. ret (old + 1)))"

definition StorageBackedUint64_Decrement :: "StorageSlot \<Rightarrow> (world, u64) op" where
  "StorageBackedUint64_Decrement sbu =
     bnd (StorageBackedUint64_Get sbu) (\<lambda>old.
     if old = 0 then panic ''Underflow in StorageBackedUint64::Decrement''
     else bnd (StorageBackedUint64_Set sbu (old - 1)) (\<lambda>_. ret (old - 1)))"

record MemoryBackedUint64 =
  mbu_contents :: u64

definition MemoryBackedUint64_Get :: "(MemoryBackedUint64, u64) op" where
  "MemoryBackedUint64_Get = (\<lambda>m. (Ok (mbu_contents m), m))"

definition MemoryBackedUint64_Set :: "u64 \<Rightarrow> (MemoryBackedUint64, unit) op" where
  "MemoryBackedUint64_Set val = (\<lambda>m. (Ok (), m\<lparr>mbu_contents := val\<rparr>))"

definition MemoryBackedUint64_Increment :: "(MemoryBackedUint64, u64) op" where
  "MemoryBackedUint64_Increment =
     bnd MemoryBackedUint64_Get (\<lambda>old.
     if old + 1 < old then panic ''Overflow in MemoryBackedUint64::Increment''
     else bnd (MemoryBackedUint64_Set (old + 1)) (\<lambda>_. ret (old + 1)))"

definition MemoryBackedUint64_Decrement :: "(MemoryBackedUint64, u64) op" where
  "MemoryBackedUint64_Decrement =
     bnd MemoryBackedUint64_Get (\<lambda>old.
     if old = 0 then panic ''Underflow in MemoryBackedUint64::Decrement''
     else bnd (MemoryBackedUint64_Set (old - 1)) (\<lambda>_. ret (old - 1)))"

section \<open>Arbitrary-precision integers\<close>

definition twoToThe256 :: int where
  "twoToThe256 = 2 ^ 256"

definition twoToThe255 :: int where
  "twoToThe255 = 2 ^ 255"

definition StorageBackedBigUint_Get :: "StorageSlot \<Rightarrow> (world, int) op" where
  "StorageBackedBigUint_Get sbbu = bnd (StorageSlot_Get sbbu) (\<lambda>asHash. ret (uint asHash))"

definition StorageBackedBigUint_SetChecked :: "StorageSlot \<Rightarrow> int \<Rightarrow> (world, unit) op" where
  "StorageBackedBigUint_SetChecked sbbu val =
     (if val < 0 then w_HandleError (ErrMsg ''underflow in StorageBackedBigUint.Set'')
      else if BitLen val > 256 then w_HandleError (ErrMsg ''overflow in StorageBackedBigUint.Set'')
      else StorageSlot_Set sbbu (BigBytesToHash val))"

definition StorageBackedBigUint_SetSaturatingWithWarning :: "StorageSlot \<Rightarrow> int \<Rightarrow> (world, unit) op" where
  "StorageBackedBigUint_SetSaturatingWithWarning sbbu val =
     (let val' = (if val < 0 then 0 else if BitLen val > 256 then twoToThe256 - 1 else val)
      in StorageSlot_Set sbbu (BigBytesToHash val'))"

definition StorageBackedBigInt_Get :: "StorageSlot \<Rightarrow> (world, int) op" where
  "StorageBackedBigInt_Get sbbi =
     bnd (StorageSlot_Get sbbi) (\<lambda>asHash.
     let asBig = uint asHash
     in ret (if bit asBig 255 then asBig - twoToThe256 else asBig))"

definition StorageBackedBigInt_SetChecked :: "StorageSlot \<Rightarrow> int \<Rightarrow> (world, unit) op" where
  "StorageBackedBigInt_SetChecked sbbi val =
     (if val < 0
      then let val' = val + twoToThe256
           in if BitLen val' < 256 \<or> val' \<le> 0
              then w_HandleError (ErrMsg ''underflow in StorageBackedBigInt.Set'')
              else StorageSlot_Set sbbi (BigBytesToHash val')
      else if BitLen val \<ge> 256
      then w_HandleError (ErrMsg ''overflow in StorageBackedBigInt.Set'')
      else StorageSlot_Set sbbi (BigBytesToHash val))"

definition StorageBackedBigInt_SetSaturatingWithWarning :: "StorageSlot \<Rightarrow> int \<Rightarrow> (world, unit) op" where
  "StorageBackedBigInt_SetSaturatingWithWarning sbbi val =
     (let val' =
        (if val < 0
         then let v = val + twoToThe256 in if BitLen v < 256 \<or> v \<le> 0 then twoToThe255 else v
         else if BitLen val \<ge> 256 then twoToThe255 - 1
         else val)
      in StorageSlot_Set sbbi (BigBytesToHash val'))"

definition StorageBackedBigInt_Set_preVersion7 :: "StorageSlot \<Rightarrow> int \<Rightarrow> (world, unit) op" where
  "StorageBackedBigInt_Set_preVersion7 sbbi val = StorageSlot_Set sbbi (BigBytesToHash val)"

definition StorageBackedBigInt_SetByUint :: "StorageSlot \<Rightarrow> u64 \<Rightarrow> (world, unit) op" where
  "StorageBackedBigInt_SetByUint sbbi val = StorageSlot_Set sbbi (UintToHash val)"

section \<open>Addresses and byte strings\<close>

definition StorageBackedAddress_Get :: "StorageSlot \<Rightarrow> (world, address) op" where
  "StorageBackedAddress_Get sba =
     bnd (StorageSlot_Get sba) (\<lambda>v. ret (BytesToAddress (hash_Bytes v)))"

definition StorageBackedAddress_Set :: "StorageSlot \<Rightarrow> address \<Rightarrow> (world, unit) op" where
  "StorageBackedAddress_Set sba val = StorageSlot_Set sba (AddressToHash val)"

definition NilAddressRepresentation :: hash where
  "NilAddressRepresentation = word_of_int (2 ^ 255)"

definition StorageBackedAddressOrNil_Get :: "StorageSlot \<Rightarrow> (world, address option) op" where
  "StorageBackedAddressOrNil_Get sba =
     bnd (StorageSlot_Get sba) (\<lambda>asHash.
     ret (if asHash = NilAddressRepresentation then None
          else Some (BytesToAddress (hash_Bytes asHash))))"

definition StorageBackedAddressOrNil_Set :: "StorageSlot \<Rightarrow> address option \<Rightarrow> (world, unit) op" where
  "StorageBackedAddressOrNil_Set sba val = (case val of
      None \<Rightarrow> StorageSlot_Set sba NilAddressRepresentation
    | Some addr \<Rightarrow> StorageSlot_Set sba (AddressToHash addr))"

definition OpenStorageBackedBytes :: "(bytes \<Rightarrow> bytes) \<Rightarrow> Storage \<Rightarrow> bytes \<Rightarrow> Storage" where
  "OpenStorageBackedBytes H s sid = OpenSubStorage H s sid"

definition StorageBackedBytes_Get :: "(bytes \<Rightarrow> bytes) \<Rightarrow> Storage \<Rightarrow> (world, bytes) op" where
  "StorageBackedBytes_Get H sbb = Storage_GetBytes H sbb"

definition StorageBackedBytes_Set :: "(bytes \<Rightarrow> bytes) \<Rightarrow> Storage \<Rightarrow> bytes \<Rightarrow> (world, unit) op" where
  "StorageBackedBytes_Set H sbb val = Storage_SetBytes H sbb val"

definition StorageBackedBytes_Clear :: "(bytes \<Rightarrow> bytes) \<Rightarrow> Storage \<Rightarrow> (world, unit) op" where
  "StorageBackedBytes_Clear H sbb = Storage_ClearBytes H sbb"

definition StorageBackedBytes_Size :: "(bytes \<Rightarrow> bytes) \<Rightarrow> Storage \<Rightarrow> (world, u64) op" where
  "StorageBackedBytes_Size H sbb = Storage_GetBytesSize H sbb"

section \<open>The contract of a typed slot\<close>

text \<open>A slot holding values of a type: the words that encode some value (\<open>good\<close>), the values
  that have an encoding (\<open>valid\<close>), and what reading any other word panics with.\<close>

locale backed_value =
  fixes get :: "StorageSlot \<Rightarrow> (world, 'a) op"
    and put :: "StorageSlot \<Rightarrow> 'a \<Rightarrow> (world, unit) op"
    and enc :: "'a \<Rightarrow> hash"
    and dec :: "hash \<Rightarrow> 'a"
    and good :: "hash \<Rightarrow> bool"
    and valid :: "'a \<Rightarrow> bool"
    and msg :: string
  assumes get_word: "get ss = bnd (StorageSlot_Get ss) (\<lambda>h. if good h then ret (dec h) else panic msg)"
    and put_word: "valid v \<Longrightarrow> put ss v = StorageSlot_Set ss (enc v)"
    and good_enc: "valid v \<Longrightarrow> good (enc v)"
    and dec_enc: "valid v \<Longrightarrow> dec (enc v) = v"
begin

lemma get_sys:
  "sysw w \<Longrightarrow> good (slot_read w ss) \<Longrightarrow>
   get ss w = (Ok (dec (slot_read w ss)), tick StorageAccessRead StorageReadCost w)"
  by (simp add: get_word bnd_def ret_run StorageSlot_Get_sys)

lemma get_panics:
  "sysw w \<Longrightarrow> \<not> good (slot_read w ss) \<Longrightarrow>
   get ss w = (Panic msg, tick StorageAccessRead StorageReadCost w)"
  by (simp add: get_word bnd_def panic_run StorageSlot_Get_sys)

lemma put_sys:
  "sysw w \<Longrightarrow> valid v \<Longrightarrow>
   put ss v w = (Ok (), slot_write ss (enc v) (tick StorageAccessWrite (WriteCost (enc v)) w))"
  by (simp add: put_word StorageSlot_Set_sys)

lemma get_after_put:
  "sysw w \<Longrightarrow> valid v \<Longrightarrow> fst (bnd (put ss v) (\<lambda>_. get ss) w) = Ok v"
  by (simp add: bnd_def put_sys get_sys good_enc dec_enc)

lemma get_other_after_put:
  "sysw w \<Longrightarrow> valid v \<Longrightarrow> ss' \<noteq> ss \<Longrightarrow> fst (bnd (put ss v) (\<lambda>_. get ss') w) = fst (get ss' w)"
  by (cases "good (slot_read w ss')") (simp_all add: bnd_def put_sys get_sys get_panics)

lemma put_read_only:
  "Burner_ReadOnly (burner_of w) \<Longrightarrow> valid v \<Longrightarrow> put ss v w = (Err ErrWriteProtection, w)"
  by (simp add: put_word StorageSlot_Set_def)

lemma get_out_of_gas:
  "w_Burn StorageAccessRead StorageReadCost w = (Err e, w') \<Longrightarrow> get ss w = (Err e, w')"
  by (simp add: get_word bnd_def StorageSlot_Get_def)

lemma put_out_of_gas:
  "\<not> Burner_ReadOnly (burner_of w) \<Longrightarrow> valid v \<Longrightarrow>
   w_Burn StorageAccessWrite (WriteCost (enc v)) w = (Err e, w') \<Longrightarrow> put ss v w = (Err e, w')"
  by (simp add: put_word bnd_def StorageSlot_Set_def)

end

lemma if_not_swap: "(if \<not> P then x else y) = (if P then y else x)"
  by simp

definition fits :: "nat \<Rightarrow> hash \<Rightarrow> bool" where
  "fits n h \<longleftrightarrow> unat h < 2 ^ n"

lemma uint_less_unat: "uint (h :: 'a::len word) < 2 ^ n \<longleftrightarrow> unat h < 2 ^ n"
proof -
  have "uint h < 2 ^ n \<longleftrightarrow> int (unat h) < int (2 ^ n)" by simp
  then show ?thesis by (simp only: of_nat_less_iff)
qed

lemma IsUint64_uint: "IsUint64 (uint h) \<longleftrightarrow> fits 64 h"
  using uint_less_unat [of h 64] by (simp add: IsUint64_def fits_def)

lemma unat_ucast_fits:
  assumes "fits n h" "n = LENGTH('a::len)"
  shows "unat (ucast h :: 'a word) = unat h"
proof -
  have "unat (ucast h :: 'a word) = unat h mod 2 ^ LENGTH('a)"
    by (simp only: unsigned_ucast_eq take_bit_eq_mod)
  then show ?thesis using assms by (simp add: fits_def)
qed

lemma unat_word_of_uint:
  assumes "LENGTH('a::len) \<le> LENGTH('b::len)"
  shows "unat (word_of_int (uint (v :: 'a word)) :: 'b word) = unat v"
proof -
  have "uint v < 2 ^ LENGTH('a)" by (rule uint_lt_pow)
  also have "(2::int) ^ LENGTH('a) \<le> 2 ^ LENGTH('b)" using assms by (intro power_increasing) auto
  finally have "uint v mod 2 ^ LENGTH('b) = uint v" by simp
  then have "uint (word_of_int (uint v) :: 'b word) = uint v" by (simp only: uint_word_of_int)
  then show ?thesis by (simp only: unat_eq_nat_uint)
qed

lemma fits_word_of_uint:
  assumes "LENGTH('a::len) \<le> 256" "n = LENGTH('a)"
  shows "fits n (word_of_int (uint (v :: 'a word)))"
proof -
  have "unat (word_of_int (uint v) :: hash) = unat v"
    by (rule unat_word_of_uint) (use assms in simp)
  then show ?thesis using unat_lt_pow [of v] assms(2) by (simp add: fits_def)
qed

lemma ucast_word_of_uint:
  assumes "LENGTH('a::len) \<le> 256"
  shows "ucast (word_of_int (uint (v :: 'a word)) :: hash) = v"
proof -
  have "unat (ucast (word_of_int (uint v) :: hash) :: 'a word) = unat (word_of_int (uint v) :: hash)"
    by (rule unat_ucast_fits [OF fits_word_of_uint [OF assms refl] refl])
  also have "\<dots> = unat v" by (rule unat_word_of_uint) (use assms in simp)
  finally show ?thesis by (simp only: word_unat_eq_iff)
qed


lemma word_le_lit_fits:
  assumes "fits 64 h"
  shows "(ucast h :: u64) > 65535 \<longleftrightarrow> \<not> fits 16 h"
    and "(ucast h :: u64) > 4294967295 \<longleftrightarrow> \<not> fits 32 h"
  using unat_ucast_fits [where 'a = 64, OF assms] by (auto simp: word_less_nat_alt fits_def)

interpretation int64: backed_value StorageBackedInt64_Get StorageBackedInt64_Set
  "\<lambda>v. UintToHash (word_of_int v)" "\<lambda>h. sint (ucast h :: u64)" "fits 64" "inS 64"
  "''invalid value found in StorageBackedInt64 storage''"
proof
  fix ss show "StorageBackedInt64_Get ss = bnd (StorageSlot_Get ss) (\<lambda>h.
     if fits 64 h then ret (sint (ucast h :: u64)) else panic ''invalid value found in StorageBackedInt64 storage'')"
    by (simp only: StorageBackedInt64_Get_def IsUint64_uint if_not_swap)
next
  fix ss v assume "inS 64 v"
  show "StorageBackedInt64_Set ss v = StorageSlot_Set ss (UintToHash (word_of_int v))"
    by (rule StorageBackedInt64_Set_def)
next
  fix v assume "inS 64 v"
  show "fits 64 (UintToHash (word_of_int v))"
    unfolding UintToHash_def UintToBig_def by (rule fits_word_of_uint) simp_all
next
  fix v assume v: "inS 64 v"
  have "ucast (UintToHash (word_of_int v)) = (word_of_int v :: u64)"
    unfolding UintToHash_def UintToBig_def by (rule ucast_word_of_uint) simp
  then show "sint (ucast (UintToHash (word_of_int v)) :: u64) = v"
    using v by (simp add: signed_of_int signed_take_bit_int_eq_self inS_def)
qed


lemma fits_ucast [simp]:
  "LENGTH('a::len) \<le> 256 \<Longrightarrow> n = LENGTH('a) \<Longrightarrow> fits n (ucast (v :: 'a word))"
  using fits_word_of_uint [of n v] by simp

lemma ucast_ucast_hash [simp]:
  "LENGTH('a::len) \<le> 256 \<Longrightarrow> ucast (ucast (v :: 'a word) :: hash) = v"
  using ucast_word_of_uint [of v] by simp

lemma fits_0 [simp]: "fits n 0"
  by (simp add: fits_def)

lemma UintToHash_ucast: "UintToHash v = ucast v"
  by (simp add: UintToHash_def UintToBig_def)

text \<open>The unsigned types share one encoding; they differ in the width alone.\<close>

lemma backed_unsigned:
  fixes get :: "StorageSlot \<Rightarrow> (world, 'a::len word) op"
  assumes "\<And>ss. get ss = bnd (StorageSlot_Get ss) (\<lambda>h. if fits n h then ret (ucast h) else panic msg)"
    and "\<And>ss v. put ss v = StorageSlot_Set ss (word_of_int (uint v))"
    and "LENGTH('a) \<le> 256" and "n = LENGTH('a)"
  shows "backed_value get put ucast ucast (fits n) (\<lambda>_. True) msg"
proof
  fix v :: "'a word"
  show "fits n (ucast v)" using assms(3,4) by (rule fits_ucast)
  show "ucast (ucast v :: hash) = v" using assms(3) by (rule ucast_ucast_hash)
qed (rule assms(1), simp add: assms(2))

interpretation uint64: backed_value StorageBackedUint64_Get StorageBackedUint64_Set
  ucast ucast "fits 64" "\<lambda>_. True"
  "''expected uint64 compatible value in storage''"
  by (rule backed_unsigned)
    (simp_all add: StorageBackedUint64_Get_def StorageBackedUint64_Set_def IsUint64_uint if_not_swap)

interpretation ubips: backed_value StorageBackedUBips_Get StorageBackedUBips_Set
  ucast ucast "fits 64" "\<lambda>_. True"
  "''expected uint64 compatible value in storage''"
  unfolding StorageBackedUBips_Get_def StorageBackedUBips_Set_def
  by (rule uint64.backed_value_axioms)

interpretation bips: backed_value StorageBackedBips_Get StorageBackedBips_Set
  "\<lambda>v. UintToHash (word_of_int v)" "\<lambda>h. sint (ucast h :: u64)" "fits 64" "inS 64"
  "''invalid value found in StorageBackedInt64 storage''"
  unfolding StorageBackedBips_Get_def StorageBackedBips_Set_def
  by (rule int64.backed_value_axioms)

lemma fits_mono: "fits m h \<Longrightarrow> m \<le> n \<Longrightarrow> fits n h"
  unfolding fits_def by (erule order_less_le_trans) simp

lemma narrow_fits:
  "\<not> fits 64 h \<or> (ucast h :: u64) > 65535 \<longleftrightarrow> \<not> fits 16 h"
  "\<not> fits 64 h \<or> (ucast h :: u64) > 4294967295 \<longleftrightarrow> \<not> fits 32 h"
  using word_le_lit_fits [of h] fits_mono [of 16 h 64] fits_mono [of 32 h 64] by auto

interpretation uint32: backed_value StorageBackedUint32_Get StorageBackedUint32_Set
  ucast ucast "fits 32" "\<lambda>_. True"
  "''expected uint32 compatible value in storage''"
  by (rule backed_unsigned)
    (simp_all only: StorageBackedUint32_Get_def StorageBackedUint32_Set_def IsUint64_uint
      narrow_fits if_not_swap, simp_all)

interpretation uint16: backed_value StorageBackedUint16_Get StorageBackedUint16_Set
  ucast ucast "fits 16" "\<lambda>_. True"
  "''expected uint16 compatible value in storage''"
  by (rule backed_unsigned)
    (simp_all only: StorageBackedUint16_Get_def StorageBackedUint16_Set_def IsUint64_uint
      narrow_fits if_not_swap, simp_all)

lemma BigToUint24OrPanic_word:
  "BigToUint24OrPanic (uint h) =
     (if fits 24 h then ret (ucast h) else panic ''big.Int value exceeds the max Uint24'')"
proof -
  have "\<not> IsUint64 (uint h) \<or> uint h > MaxUint24 \<longleftrightarrow> \<not> fits 24 h"
    using uint_less_unat [of h 24] fits_mono [of 24 h 64]
    by (auto simp: IsUint64_uint MaxUint24_def fits_def)
  moreover have "\<not> uint h < 0" by (simp add: not_less)
  moreover have "word_of_int (uint h) = (ucast h :: u32)" by (simp only: word_of_int_uint ucast_eq)
  ultimately show ?thesis unfolding BigToUint24OrPanic_def by (simp only: if_False if_not_swap)
qed

interpretation uint24: backed_value StorageBackedUint24_Get StorageBackedUint24_Set
  ucast ucast "fits 24" "\<lambda>v. unat v < 2 ^ 24"
  "''big.Int value exceeds the max Uint24''"
proof
  fix v :: u32 assume v: "unat v < 2 ^ 24"
  have "unat (word_of_int (uint v) :: hash) = unat v" by (rule unat_word_of_uint) simp
  then show "fits 24 (ucast v)" using v by (simp add: fits_def)
  show "ucast (ucast v :: hash) = v" by simp
qed (simp_all add: StorageBackedUint24_Get_def StorageBackedUint24_Set_def BigToUint24OrPanic_word)

section \<open>Big integers, addresses and counters\<close>

lemma BitLen_le: "BitLen v \<le> n \<longleftrightarrow> \<bar>v\<bar> < 2 ^ n"
proof -
  have "bit_len x \<le> n \<longleftrightarrow> x < 2 ^ n" for x
  proof
    assume "bit_len x \<le> n"
    then have "(2::nat) ^ bit_len x \<le> 2 ^ n" by simp
    then show "x < 2 ^ n" using bit_len_upper [of x] by linarith
  qed (rule bit_len_le)
  then have "BitLen v \<le> n \<longleftrightarrow> nat \<bar>v\<bar> < 2 ^ n" by (simp only: BitLen_def)
  also have "\<dots> \<longleftrightarrow> \<bar>v\<bar> < 2 ^ n" by (simp add: nat_less_iff)
  finally show ?thesis .
qed

lemma BitLen_256:
  "BitLen v > 256 \<longleftrightarrow> \<not> \<bar>v\<bar> < twoToThe256"
  "BitLen v \<ge> 256 \<longleftrightarrow> \<not> \<bar>v\<bar> < twoToThe255"
  "BitLen v < 256 \<longleftrightarrow> \<bar>v\<bar> < twoToThe255"
  using BitLen_le [of v 256] BitLen_le [of v 255]
  by (auto simp only: twoToThe256_def twoToThe255_def not_le [symmetric])

lemma twoToThe256_double: "twoToThe256 = 2 * twoToThe255"
  by (simp add: twoToThe256_def twoToThe255_def)

lemma twoToThe255_pos: "0 < twoToThe255"
  by (simp add: twoToThe255_def)

lemma inS_256: "inS 256 v \<longleftrightarrow> - twoToThe255 \<le> v \<and> v < twoToThe255"
  by (simp add: inS_def twoToThe255_def)

lemma uint_BigBytesToHash: "0 \<le> v \<Longrightarrow> v < twoToThe256 \<Longrightarrow> uint (BigBytesToHash v) = v"
  unfolding BigBytesToHash_def uint_word_of_int twoToThe256_def by simp

lemma odd_div_half:
  fixes x d :: int
  assumes "0 \<le> x" "x < 2 * d"
  shows "odd (x div d) \<longleftrightarrow> d \<le> x"
proof (cases "x < d")
  case False
  then have "x div d = 1" using assms int_div_pos_eq [of x d 1 "x - d"] by simp
  with False show ?thesis by simp
qed (use assms in simp)

lemma bit_255_uint: "bit (uint (h :: hash)) 255 \<longleftrightarrow> twoToThe255 \<le> uint h"
proof -
  have "uint h < 2 * twoToThe255"
    using uint_lt_pow [of h] by (simp add: twoToThe256_def flip: twoToThe256_double)
  then have "odd (uint h div twoToThe255) \<longleftrightarrow> twoToThe255 \<le> uint h"
    by (intro odd_div_half) simp_all
  then show ?thesis by (simp only: bit_iff_odd twoToThe255_def)
qed

definition BigInt_decode :: "hash \<Rightarrow> int" where
  "BigInt_decode h = (if bit (uint h) 255 then uint h - twoToThe256 else uint h)"

definition BigInt_encode :: "int \<Rightarrow> hash" where
  "BigInt_encode v = BigBytesToHash (if v < 0 then v + twoToThe256 else v)"

lemma BigInt_decode_encode: "inS 256 v \<Longrightarrow> BigInt_decode (BigInt_encode v) = v"
  using twoToThe256_double twoToThe255_pos uint_BigBytesToHash [of "if v < 0 then v + twoToThe256 else v"]
  unfolding BigInt_decode_def BigInt_encode_def bit_255_uint inS_256
  by (auto split: if_splits)

interpretation biguint: backed_value StorageBackedBigUint_Get StorageBackedBigUint_SetChecked
  BigBytesToHash uint "\<lambda>_. True" "\<lambda>v. 0 \<le> v \<and> v < twoToThe256" "[]"
  by unfold_locales
    (simp_all add: StorageBackedBigUint_Get_def StorageBackedBigUint_SetChecked_def
      BitLen_256 uint_BigBytesToHash)

interpretation bigint: backed_value StorageBackedBigInt_Get StorageBackedBigInt_SetChecked
  BigInt_encode BigInt_decode "\<lambda>_. True" "inS 256" "[]"
proof
  fix ss v assume v: "inS 256 v"
  show "StorageBackedBigInt_SetChecked ss v = StorageSlot_Set ss (BigInt_encode v)"
    using v twoToThe256_double twoToThe255_pos
    unfolding StorageBackedBigInt_SetChecked_def BigInt_encode_def BitLen_256 Let_def inS_256
    by (auto simp: abs_of_nonneg)
qed (simp_all add: StorageBackedBigInt_Get_def BigInt_decode_encode Let_def flip: BigInt_decode_def)

lemma BytesToAddress_hash: "BytesToAddress (hash_Bytes h) = of_nat (unat h)"
proof -
  have "unat h < 256 ^ 32" unfolding pow_256_32 using unat_lt_pow [of h] by simp
  then show ?thesis unfolding BytesToAddress_def hash_Bytes_def by (simp only: be_val_be_bytes mod_less)
qed

lemma unat_AddressToHash [simp]: "unat (AddressToHash a) = unat a"
proof -
  have a: "unat a < 256 ^ 20" using unat_lt_pow [of a] by simp
  also have "(256::nat) ^ 20 < 2 ^ 256" by simp
  finally have "unat a < 2 ^ 256" .
  with a show ?thesis unfolding AddressToHash_def unat_BytesToHash by (simp only: be_val_be_bytes mod_less)
qed

lemma AddressToHash_inject [simp]: "AddressToHash a = AddressToHash b \<longleftrightarrow> a = b"
  by (metis unat_AddressToHash word_unat_eq_iff)

lemma BytesToAddress_AddressToHash [simp]: "BytesToAddress (hash_Bytes (AddressToHash a)) = a"
  by (simp only: BytesToAddress_hash unat_AddressToHash) simp

lemma AddressToHash_not_nil [simp]: "AddressToHash a \<noteq> NilAddressRepresentation"
proof
  assume "AddressToHash a = NilAddressRepresentation"
  then have "unat a = unat NilAddressRepresentation" by (metis unat_AddressToHash)
  moreover have "unat NilAddressRepresentation = 2 ^ 255"
    unfolding NilAddressRepresentation_def unat_eq_nat_uint uint_word_of_int by simp
  moreover have "unat a < 2 ^ 160" using unat_lt_pow [of a] by simp
  moreover have "(2::nat) ^ 160 < 2 ^ 255" by simp
  ultimately show False by linarith
qed

interpretation addr: backed_value StorageBackedAddress_Get StorageBackedAddress_Set
  AddressToHash "\<lambda>h. BytesToAddress (hash_Bytes h)" "\<lambda>_. True" "\<lambda>_. True" "[]"
  by unfold_locales (simp_all add: StorageBackedAddress_Get_def StorageBackedAddress_Set_def)

definition AddressOrNil_encode :: "address option \<Rightarrow> hash" where
  "AddressOrNil_encode v = (case v of None \<Rightarrow> NilAddressRepresentation | Some a \<Rightarrow> AddressToHash a)"

definition AddressOrNil_decode :: "hash \<Rightarrow> address option" where
  "AddressOrNil_decode h =
     (if h = NilAddressRepresentation then None else Some (BytesToAddress (hash_Bytes h)))"

interpretation addr_or_nil: backed_value StorageBackedAddressOrNil_Get StorageBackedAddressOrNil_Set
  AddressOrNil_encode AddressOrNil_decode "\<lambda>_. True" "\<lambda>_. True" "[]"
  by unfold_locales
    (auto simp: StorageBackedAddressOrNil_Get_def StorageBackedAddressOrNil_Set_def
      AddressOrNil_encode_def AddressOrNil_decode_def split: option.splits)

lemmas backed_sys [sys_simps] =
  uint64.get_sys uint64.put_sys int64.get_sys int64.put_sys uint32.get_sys uint32.put_sys
  ubips.get_sys ubips.put_sys bips.get_sys bips.put_sys biguint.get_sys biguint.put_sys
  bigint.get_sys bigint.put_sys addr.get_sys addr.put_sys addr_or_nil.get_sys addr_or_nil.put_sys

subsection \<open>Saturating and wrapping stores\<close>

lemma BigUint_saturating_value:
  "StorageBackedBigUint_SetSaturatingWithWarning ss v =
   StorageSlot_Set ss (BigBytesToHash (max 0 (min v (twoToThe256 - 1))))"
  using twoToThe255_pos
  by (auto simp: StorageBackedBigUint_SetSaturatingWithWarning_def Let_def BitLen_256
      twoToThe256_double max_def min_def)

lemma clampS_256: "clampS 256 v = max (- twoToThe255) (min v (twoToThe255 - 1))"
  by (simp add: clampS_def twoToThe255_def)

lemma BigInt_saturating_value:
  "StorageBackedBigInt_SetSaturatingWithWarning ss v = StorageSlot_Set ss (BigInt_encode (clampS 256 v))"
  using twoToThe255_pos
  by (auto simp: StorageBackedBigInt_SetSaturatingWithWarning_def BigInt_encode_def Let_def BitLen_256
      twoToThe256_double max_def min_def clampS_256)

lemma BigUint_get_after_saturating:
  "sysw w \<Longrightarrow>
   fst (bnd (StorageBackedBigUint_SetSaturatingWithWarning ss v) (\<lambda>_. StorageBackedBigUint_Get ss) w)
     = Ok (max 0 (min v (twoToThe256 - 1)))"
  using twoToThe255_pos twoToThe256_double
  by (simp add: BigUint_saturating_value bnd_def sys_simps uint_BigBytesToHash)

lemma BigInt_get_after_saturating:
  "sysw w \<Longrightarrow>
   fst (bnd (StorageBackedBigInt_SetSaturatingWithWarning ss v) (\<lambda>_. StorageBackedBigInt_Get ss) w)
     = Ok (clampS 256 v)"
  using inS_clampS [of 256 v]
  by (simp add: BigInt_saturating_value bnd_def sys_simps BigInt_decode_encode)

subsection \<open>The interface \<^verbatim>\<open>WrappedUint64\<close>\<close>

text \<open>A counter held somewhere in a state; \<open>num\<close> reads its value off the state, and the
  operations succeed on the states of \<open>ok\<close>.\<close>

locale wrapped_uint64 =
  fixes get :: "('s, u64) op"
    and put :: "u64 \<Rightarrow> ('s, unit) op"
    and increment :: "('s, u64) op"
    and decrement :: "('s, u64) op"
    and ok :: "'s \<Rightarrow> bool"
    and num :: "'s \<Rightarrow> u64"
  assumes get_num: "ok s \<Longrightarrow> \<exists>s'. get s = (Ok (num s), s') \<and> ok s' \<and> num s' = num s"
    and put_num: "ok s \<Longrightarrow> \<exists>s'. put v s = (Ok (), s') \<and> ok s' \<and> num s' = v"
    and increment_num: "ok s \<Longrightarrow> num s \<noteq> - 1 \<Longrightarrow>
      \<exists>s'. increment s = (Ok (num s + 1), s') \<and> ok s' \<and> num s' = num s + 1"
    and increment_max: "ok s \<Longrightarrow> num s = - 1 \<Longrightarrow> \<exists>p s'. increment s = (Panic p, s')"
    and decrement_num: "ok s \<Longrightarrow> num s \<noteq> 0 \<Longrightarrow>
      \<exists>s'. decrement s = (Ok (num s - 1), s') \<and> ok s' \<and> num s' = num s - 1"
    and decrement_zero: "ok s \<Longrightarrow> num s = 0 \<Longrightarrow> \<exists>p s'. decrement s = (Panic p, s')"
begin

lemma increments_num:
  "ok s \<Longrightarrow> unat (num s) + n < 2 ^ 64 \<Longrightarrow>
   \<exists>s'. repeat_op n increment s = (Ok (), s') \<and> ok s' \<and> unat (num s') = unat (num s) + n"
proof (induction n arbitrary: s)
  case 0
  then show ?case by (auto simp: ret_run)
next
  case (Suc n)
  have "unat (num s) < 2 ^ 64 - 1" using Suc.prems(2) by simp
  then have ne: "num s \<noteq> - 1" using unat_all_ones [where 'a = 64] by auto
  then have plus: "unat (num s + 1) = unat (num s) + 1" by (rule unat_plus_one)
  obtain s1 where s1: "increment s = (Ok (num s + 1), s1)" "ok s1" "num s1 = num s + 1"
    using increment_num [OF Suc.prems(1) ne] by blast
  obtain s' where "repeat_op n increment s1 = (Ok (), s')" "ok s'" "unat (num s') = unat (num s1) + n"
    using Suc.IH [OF s1(2)] Suc.prems(2) plus s1(3) by auto
  then show ?case using s1 plus by (auto simp: bnd_def)
qed

lemma increment_decrement:
  assumes "ok s" "num s \<noteq> - 1"
  shows "\<exists>s'. bnd increment (\<lambda>_. decrement) s = (Ok (num s), s') \<and> ok s' \<and> num s' = num s"
proof -
  obtain s1 where s1: "increment s = (Ok (num s + 1), s1)" "ok s1" "num s1 = num s + 1"
    using increment_num [OF assms] by blast
  have "num s1 \<noteq> 0" using s1(3) assms(2) by (metis add.inverse_unique add.commute)
  from decrement_num [OF s1(2) this] show ?thesis using s1 by (auto simp: bnd_def)
qed

end

lemma overflow_iff: "(x :: u64) + 1 < x \<longleftrightarrow> x = - 1"
proof (cases "x = - 1")
  case False
  then have "unat (x + 1) = unat x + 1" by (rule unat_plus_one)
  with False show ?thesis by (simp add: word_less_nat_alt)
qed (simp add: word_less_nat_alt unat_all_ones)

interpretation sbu: wrapped_uint64 "StorageBackedUint64_Get ss" "StorageBackedUint64_Set ss"
  "StorageBackedUint64_Increment ss" "StorageBackedUint64_Decrement ss"
  "\<lambda>w. sysw w \<and> fits 64 (slot_read w ss)" "\<lambda>w. ucast (slot_read w ss)" for ss
  by unfold_locales
    (auto simp: sys_simps StorageBackedUint64_Increment_def StorageBackedUint64_Decrement_def bnd_def
      op_simps overflow_iff)

lemmas memory_uint64_defs = MemoryBackedUint64_Get_def MemoryBackedUint64_Set_def
  MemoryBackedUint64_Increment_def MemoryBackedUint64_Decrement_def

interpretation mbu: wrapped_uint64 MemoryBackedUint64_Get MemoryBackedUint64_Set
  MemoryBackedUint64_Increment MemoryBackedUint64_Decrement "\<lambda>_. True" mbu_contents
  by unfold_locales (simp_all add: memory_uint64_defs bnd_def op_simps overflow_iff)

end
