(* ===== verification/StorageBytes.thy ===== *)
theory StorageBytes
  imports Backed
begin

text \<open>
  Byte strings in storage (\<^verbatim>\<open>SetBytes\<close>, \<^verbatim>\<open>GetBytes\<close>, \<^verbatim>\<open>ClearBytes\<close> of
  \<^verbatim>\<open>arbos/storage/storage.go\<close>): the length in the word at offset 0, the string in 32-byte
  words from offset 1. The round trip, the clearing of every word of the old string, and the
  transparency of the hash cache.
\<close>

section \<open>Runs under the system burner\<close>

fun chunks :: "bytes \<Rightarrow> hash list" where
  "chunks b = (if length b \<ge> 32 then BytesToHash (take 32 b) # chunks (drop 32 b) else [BytesToHash b])"

declare chunks.simps [simp del] Storage_SetBytes_loop.simps [simp del]
  Storage_GetBytes_loop.simps [simp del] Storage_ClearBytes_loop.simps [simp del]

lemma length_chunks: "length (chunks b) = Suc (length b div 32)"
proof (induction b rule: chunks.induct)
  case (1 b)
  show ?case
  proof (cases "length b \<ge> 32")
    case True
    then show ?thesis using 1 by (subst chunks.simps) (simp add: le_div_geq)
  qed (subst chunks.simps, simp)
qed

definition holds_words :: "(bytes \<Rightarrow> bytes) \<Rightarrow> Storage \<Rightarrow> world \<Rightarrow> nat \<Rightarrow> hash list \<Rightarrow> bool" where
  "holds_words H s w k vs \<longleftrightarrow> (\<forall>i < length vs. slot_read w (word_slot H s (k + i)) = vs ! i)"

lemma same_except_step:
  "same_except (f ` A) (slot_write (f k) v (tick c a w)) w' \<Longrightarrow> k \<in> B \<Longrightarrow> A \<subseteq> B \<Longrightarrow> same_except (f ` B) w w'"
  by (force simp: same_except_def slot_read_write)

lemma holds_words_Cons:
  "holds_words H s w k (v # vs) \<longleftrightarrow> slot_read w (word_slot H s k) = v \<and> holds_words H s w (Suc k) vs"
  by (auto simp: holds_words_def All_less_Suc2)

lemma holds_words_tick [simp]: "holds_words H s (tick c a w) k vs = holds_words H s w k vs"
  by (simp add: holds_words_def)

lemma holds_words_same: "same_except {} w w' \<Longrightarrow> holds_words H s w' k vs = holds_words H s w k vs"
  by (simp add: holds_words_def same_except_def)

lemma offset_Suc: "(of_nat k :: u64) + 1 = of_nat (Suc k)"
  by (simp add: add.commute)

lemma SetBytes_loop_run:
  assumes "sysw w" "distinct_words H s (k + length b div 32)"
  shows "\<exists>w'. Storage_SetBytes_loop H s b (of_nat k) w = (Ok (), w') \<and> sysw w'
    \<and> same_except (word_slot H s ` {k..k + length b div 32}) w w' \<and> holds_words H s w' k (chunks b)
    \<and> (\<forall>j<k. slot_read w' (word_slot H s j) = slot_read w (word_slot H s j))"
  using assms
proof (induction b arbitrary: k w rule: chunks.induct)
  case (1 b)
  let ?w1 = "\<lambda>v. slot_write (word_slot H s k) v (tick StorageAccessWrite (WriteCost v) w)"
  show ?case
  proof (cases "length b \<ge> 32")
    case True
    let ?v = "BytesToHash (take 32 b)"
    have n: "k + length b div 32 = Suc k + length (drop 32 b) div 32" using True by (simp add: le_div_geq)
    have "sysw (?w1 ?v)" using "1.prems" by simp
    from "1.IH" [OF True this "1.prems"(2)[unfolded n]]
    obtain w' where w': "Storage_SetBytes_loop H s (drop 32 b) (of_nat (Suc k)) (?w1 ?v) = (Ok (), w')"
      "sysw w'" "same_except (word_slot H s ` {Suc k..Suc k + length (drop 32 b) div 32}) (?w1 ?v) w'"
      "holds_words H s w' (Suc k) (chunks (drop 32 b))"
      "\<forall>j<Suc k. slot_read w' (word_slot H s j) = slot_read (?w1 ?v) (word_slot H s j)"
      by blast
    have "Storage_SetBytes_loop H s b (of_nat k) w = (Ok (), w')"
      using True w'(1) "1.prems"(1)
      by (subst Storage_SetBytes_loop.simps) (simp add: bnd_def word_ops sys_simps offset_Suc del: of_nat_Suc)
    moreover have "same_except (word_slot H s ` {k..k + length b div 32}) w w'"
      using w'(3) unfolding n by (rule same_except_step) auto
    moreover have "holds_words H s w' k (chunks b)"
      using True w'(4,5) by (subst chunks.simps) (simp add: holds_words_Cons)
    moreover have "slot_read w' (word_slot H s j) = slot_read w (word_slot H s j)" if "j < k" for j
      using that w'(5) distinct_wordsD [OF "1.prems"(2), of j k] by simp
    ultimately show ?thesis using w'(2) by blast
  next
    case False
    let ?v = "BytesToHash b"
    have "Storage_SetBytes_loop H s b (of_nat k) w = (Ok (), ?w1 ?v)"
      using False "1.prems"(1)
      by (subst Storage_SetBytes_loop.simps) (simp add: word_ops sys_simps)
    moreover have "same_except (word_slot H s ` {k..k + length b div 32}) w (?w1 ?v)"
      by (intro same_except_write) simp_all
    moreover have "holds_words H s (?w1 ?v) k (chunks b)"
      using False by (subst chunks.simps) (simp add: holds_words_def)
    moreover have "slot_read (?w1 ?v) (word_slot H s j) = slot_read w (word_slot H s j)" if "j < k" for j
      using that distinct_wordsD [OF "1.prems"(2), of j k] by simp
    ultimately show ?thesis using "1.prems"(1) by (intro exI [of _ "?w1 ?v"]) simp
  qed
qed

lemma hash_Bytes_BytesToHash: "length c \<le> 32 \<Longrightarrow> hash_Bytes (BytesToHash c) = replicate (32 - length c) 0 @ c"
proof -
  assume c: "length c \<le> 32"
  let ?p = "replicate (32 - length c) 0 @ c"
  have zeros: "be_val (replicate n 0 @ c) = be_val c" for n
    by (induction n) (simp_all add: be_val_def)
  have "hash_Bytes (BytesToHash c) = be_bytes 32 (be_val c mod 256 ^ 32)"
    unfolding hash_Bytes_def unat_BytesToHash pow_256_32 ..
  also have "\<dots> = be_bytes 32 (be_val ?p)" by (simp only: be_bytes_mod zeros)
  also have "\<dots> = ?p" by (rule be_bytes_be_val) (use c in simp)
  finally show ?thesis .
qed

lemma of_nat_u64_less: "i < 2 ^ 64 \<Longrightarrow> j < 2 ^ 64 \<Longrightarrow> (of_nat i :: u64) \<le> of_nat j \<longleftrightarrow> i \<le> j"
  by (simp only: word_le_nat_alt unat_of_nat_u64)

lemma GetBytes_loop_run:
  assumes "sysw w" "length b < 2 ^ 64" "holds_words H s w k (chunks b)"
  shows "\<exists>w'. Storage_GetBytes_loop H s (of_nat (length b)) (of_nat k) acc w = (Ok (acc @ b), w')
    \<and> sysw w' \<and> same_except {} w w'"
  using assms
proof (induction b arbitrary: k w acc rule: chunks.induct)
  case (1 b)
  let ?w1 = "tick StorageAccessRead StorageReadCost w"
  have le: "(32 :: u64) \<le> of_nat (length b) \<longleftrightarrow> 32 \<le> length b"
    using of_nat_u64_less [of 32 "length b"] "1.prems"(2) by simp
  show ?case
  proof (cases "length b \<ge> 32")
    case True
    have w1: "sysw ?w1" using "1.prems"(1) by simp
    have hd: "slot_read w (word_slot H s k) = BytesToHash (take 32 b)"
      and tl: "holds_words H s ?w1 (Suc k) (chunks (drop 32 b))"
      using "1.prems"(3) True chunks.simps [of b] by (simp_all add: holds_words_Cons)
    have sub: "(of_nat (length b) :: u64) - 32 = of_nat (length (drop 32 b))"
      using True by (simp add: of_nat_diff)
    have "length (drop 32 b) < 2 ^ 64" using "1.prems"(2) by simp
    from "1.IH" [OF True w1 this tl, of "acc @ take 32 b"] show ?thesis
      using True "1.prems"(1)
      by (subst Storage_GetBytes_loop.simps)
        (simp add: bnd_def word_ops sys_simps le sub offset_Suc hd hash_Bytes_BytesToHash
          del: of_nat_Suc length_drop)
  next
    case False
    have hd: "slot_read w (word_slot H s k) = BytesToHash b"
      using "1.prems"(3) False chunks.simps [of b] by (simp add: holds_words_Cons)
    have "(32 :: u64) - of_nat (length b) = of_nat (32 - length b)" using False by (simp add: of_nat_diff)
    moreover have "unat (of_nat (32 - length b) :: u64) = 32 - length b" by (rule unat_of_nat_u64) simp
    ultimately have "unat ((32 :: u64) - of_nat (length b)) = 32 - length b" by (simp only:)
    then show ?thesis using False "1.prems"(1)
      by (subst Storage_GetBytes_loop.simps)
        (simp add: bnd_def op_simps word_ops sys_simps le hd hash_Bytes_BytesToHash)
  qed
qed

lemma ceil32_step: "0 < n \<Longrightarrow> (n + 31) div 32 = Suc ((n - 32 + 31) div (32::nat))"
proof (cases "n \<le> 32")
  case True
  moreover assume "0 < n"
  ultimately have "(n + 31) div 32 = 1" by (intro div_nat_eqI) simp_all
  with True show ?thesis by simp
next
  case False
  then obtain m where "n = m + 32" by (metis add.commute le_iff_add nat_le_linear)
  then show ?thesis by (simp add: le_div_geq)
qed

lemma ClearBytes_loop_run:
  assumes "sysw w"
  shows "\<exists>w'. Storage_ClearBytes_loop H s n (of_nat k) w = (Ok (), w') \<and> sysw w'
    \<and> same_except (word_slot H s ` {k..<k + (unat n + 31) div 32}) w w'
    \<and> (\<forall>i < (unat n + 31) div 32. slot_read w' (word_slot H s (k + i)) = 0)
    \<and> (\<forall>ss. slot_read w ss = 0 \<longrightarrow> slot_read w' ss = 0)"
  using assms
proof (induction "unat n" arbitrary: n k w rule: less_induct)
  case less
  let ?w1 = "slot_write (word_slot H s k) 0 (tick StorageAccessWrite (WriteCost 0) w)"
  let ?m = "if n < 32 then 0 else n - 32"
  show ?case
  proof (cases "n = 0")
    case True
    with less.prems show ?thesis by (subst Storage_ClearBytes_loop.simps) (auto simp: ret_run)
  next
    case False
    have m: "unat ?m = unat n - 32"
      by (simp add: word_less_nat_alt unat_sub word_le_nat_alt not_less)
    have n0: "0 < unat n" using False by (simp add: unat_gt_0)
    have "unat ?m < unat n" "sysw ?w1" using m n0 less.prems by simp_all
    from less.hyps [OF this, of "Suc k"] obtain w'
      where w': "Storage_ClearBytes_loop H s ?m (of_nat (Suc k)) ?w1 = (Ok (), w')" "sysw w'"
        "same_except (word_slot H s ` {Suc k..<Suc k + (unat ?m + 31) div 32}) ?w1 w'"
        "\<forall>i < (unat ?m + 31) div 32. slot_read w' (word_slot H s (Suc k + i)) = 0"
        "\<forall>ss. slot_read ?w1 ss = 0 \<longrightarrow> slot_read w' ss = 0"
      by blast
    have "Storage_ClearBytes_loop H s n (of_nat k) w = (Ok (), w')"
      using False w'(1) less.prems
      by (subst Storage_ClearBytes_loop.simps)
        (simp add: bnd_def word_ops sys_simps offset_Suc word_neq_0_conv [symmetric] del: of_nat_Suc)
    moreover have "same_except (word_slot H s ` {k..<k + (unat n + 31) div 32}) w w'"
      using w'(3) unfolding m ceil32_step [OF n0] by (rule same_except_step) auto
    moreover have "slot_read w' (word_slot H s (k + i)) = 0" if i: "i < (unat n + 31) div 32" for i
    proof (cases i)
      case 0
      then show ?thesis using w'(5) by simp
    next
      case (Suc j)
      have "j < (unat ?m + 31) div 32" using i Suc ceil32_step [OF n0] unfolding m by simp
      then show ?thesis using w'(4) Suc by simp
    qed
    moreover have "slot_read w' ss = 0" if "slot_read w ss = 0" for ss
      using w'(5) that by (simp add: slot_read_write)
    ultimately show ?thesis using w'(2) by blast
  qed
qed

definition stores_bytes :: "(bytes \<Rightarrow> bytes) \<Rightarrow> Storage \<Rightarrow> world \<Rightarrow> bytes \<Rightarrow> bool" where
  "stores_bytes H s w b \<longleftrightarrow> slot_read w (word_slot H s 0) = UintToHash (of_nat (length b))
     \<and> holds_words H s w 1 (chunks b)"

lemma word_ops_0:
  "Storage_ClearByUint64 H s 0 = StorageSlot_Set (word_slot H s 0) 0"
  "Storage_SetUint64ByUint64 H s 0 u = StorageSlot_Set (word_slot H s 0) (UintToHash u)"
  "Storage_GetUint64ByUint64 H s 0 = bnd (StorageSlot_Get (word_slot H s 0)) (\<lambda>v. ret (ucast v))"
  using word_ops [of H s 0] by simp_all

lemma same_except_range: "same_except (f ` A) w w' \<Longrightarrow> same_except (range f) w w'"
  by (erule same_except_mono) blast

lemma same_except_range_trans:
  "same_except (range f) w w' \<Longrightarrow> same_except (range f) w' w'' \<Longrightarrow> same_except (range f) w w''"
  using same_except_trans by fastforce

lemma ClearBytes_run:
  assumes "sysw w"
  shows "\<exists>w'. Storage_ClearBytes H s w = (Ok (), w') \<and> sysw w'
    \<and> same_except (word_slot H s ` {..(unat (ucast (slot_read w (word_slot H s 0)) :: u64) + 31) div 32}) w w'
    \<and> slot_read w' (word_slot H s 0) = 0
    \<and> (\<forall>i < (unat (ucast (slot_read w (word_slot H s 0)) :: u64) + 31) div 32.
         slot_read w' (word_slot H s (1 + i)) = 0)"
proof -
  let ?n = "ucast (slot_read w (word_slot H s 0)) :: u64"
  let ?w1 = "tick StorageAccessRead StorageReadCost w"
  have "sysw ?w1" using assms by simp
  from ClearBytes_loop_run [OF this, of H s ?n 1] obtain w2 where
    w2: "Storage_ClearBytes_loop H s ?n (of_nat 1) ?w1 = (Ok (), w2)" "sysw w2"
      "same_except (word_slot H s ` {1..<1 + (unat ?n + 31) div 32}) ?w1 w2"
      "\<forall>i < (unat ?n + 31) div 32. slot_read w2 (word_slot H s (1 + i)) = 0" by blast
  let ?w' = "slot_write (word_slot H s 0) 0 (tick StorageAccessWrite (WriteCost 0) w2)"
  have "Storage_ClearBytes H s w = (Ok (), ?w')"
    using assms w2(1,2)
    by (simp add: Storage_ClearBytes_def bnd_def op_simps word_ops_0 sys_simps)
  moreover have "same_except (word_slot H s ` {..(unat ?n + 31) div 32}) ?w1 w2"
    using w2(3) by (rule same_except_mono) auto
  then have "same_except (word_slot H s ` {..(unat ?n + 31) div 32}) w ?w'" by (intro same_except_write) simp_all
  moreover have "\<forall>i < (unat ?n + 31) div 32. slot_read ?w' (word_slot H s (1 + i)) = 0"
    using w2(4) by (simp add: slot_read_write)
  ultimately show ?thesis using w2(2) by (intro exI [of _ ?w']) simp
qed

lemma SetBytes_run:
  assumes w: "sysw w" and d: "distinct_words H s (1 + length b div 32)"
  shows "\<exists>w'. Storage_SetBytes H s b w = (Ok (), w') \<and> sysw w'
    \<and> same_except (word_slot H s ` {..max ((unat (ucast (slot_read w (word_slot H s 0)) :: u64) + 31) div 32) (1 + length b div 32)}) w w'
    \<and> stores_bytes H s w' b"
proof -
  let ?n = "(unat (ucast (slot_read w (word_slot H s 0)) :: u64) + 31) div 32"
  let ?f = "word_slot H s ` {..max ?n (1 + length b div 32)}"
  obtain w1 where w1: "Storage_ClearBytes H s w = (Ok (), w1)" "sysw w1"
    "same_except (word_slot H s ` {..?n}) w w1" using ClearBytes_run [OF w] by blast
  let ?v = "UintToHash (of_nat (length b))"
  let ?w2 = "slot_write (word_slot H s 0) ?v (tick StorageAccessWrite (WriteCost ?v) w1)"
  have "sysw ?w2" using w1 by simp
  from SetBytes_loop_run [OF this d] obtain w' where
    w': "Storage_SetBytes_loop H s b (of_nat 1) ?w2 = (Ok (), w')" "sysw w'"
      "same_except (word_slot H s ` {1..1 + length b div 32}) ?w2 w'" "holds_words H s w' 1 (chunks b)"
      "\<forall>j<1. slot_read w' (word_slot H s j) = slot_read ?w2 (word_slot H s j)" by blast
  have "Storage_SetBytes H s b w = (Ok (), w')"
    using w1 w'(1)
    by (simp add: Storage_SetBytes_def bnd_def op_simps word_ops_0 sys_simps)
  moreover have "same_except ?f w1 w'" using w'(3) by (rule same_except_step) auto
  then have "same_except ?f w w'"
    using same_except_trans [OF same_except_mono [OF w1(3), of ?f]] by fastforce
  ultimately show ?thesis using w'(2,4,5) by (simp add: stores_bytes_def)
qed

lemma GetBytes_run:
  assumes w: "sysw w" and b: "stores_bytes H s w b" and len: "length b < 2 ^ 64"
  shows "\<exists>w'. Storage_GetBytes H s w = (Ok b, w') \<and> sysw w' \<and> same_except {} w w'"
proof -
  let ?w1 = "tick StorageAccessRead StorageReadCost w"
  have "sysw ?w1" "holds_words H s ?w1 1 (chunks b)" using w b by (simp_all add: stores_bytes_def)
  from GetBytes_loop_run [OF this(1) len this(2), of "[]"] show ?thesis
    using w b
    by (simp add: Storage_GetBytes_def bnd_def op_simps word_ops_0 sys_simps stores_bytes_def
        UintToHash_ucast)
qed

section \<open>The hash cache\<close>

definition cache_sound :: "(bytes \<Rightarrow> bytes) \<Rightarrow> ('c \<Rightarrow> bytes \<Rightarrow> bytes option \<times> 'c) \<Rightarrow> 'c option \<Rightarrow> bool" where
  "cache_sound H cache_get cache \<longleftrightarrow>
     (\<forall>c k h. cache = Some c \<longrightarrow> fst (cache_get c k) = Some h \<longrightarrow> h = H k)"

text \<open>A cache that may forget and may reorder, but never invents an entry.\<close>

definition cache_laws :: "('c \<Rightarrow> bytes \<Rightarrow> bytes option \<times> 'c) \<Rightarrow> ('c \<Rightarrow> bytes \<Rightarrow> bytes \<Rightarrow> 'c) \<Rightarrow> bool" where
  "cache_laws cache_get cache_add \<longleftrightarrow>
     (\<forall>c k k' h. fst (cache_get (snd (cache_get c k)) k') = Some h \<longrightarrow> fst (cache_get c k') = Some h)
   \<and> (\<forall>c k v k' h. fst (cache_get (cache_add c k v) k') = Some h \<longrightarrow>
        (k' = k \<and> h = v) \<or> fst (cache_get c k') = Some h)"

lemma cachedKeccak_sound:
  assumes "cache_laws cache_get cache_add" "cache_sound H cache_get cache"
  shows "fst (cachedKeccak H cache_get cache_add data cache) = H (concat data)
    \<and> cache_sound H cache_get (snd (cachedKeccak H cache_get cache_add data cache))"
proof (cases cache)
  case (Some c)
  obtain r c' where g: "cache_get c (concat data) = (r, c')" by fastforce
  have sound: "fst (cache_get c k) = Some h \<Longrightarrow> h = H k" for k h
    using assms(2) Some by (simp add: cache_sound_def)
  have keep: "fst (cache_get c' k) = Some h \<Longrightarrow> h = H k" for k h
    using assms(1) g sound unfolding cache_laws_def by (metis snd_conv)
  show ?thesis
  proof (cases r)
    case None
    have "h = H k" if "fst (cache_get (cache_add c' (concat data) (H (concat data))) k) = Some h" for k h
      using that assms(1) keep unfolding cache_laws_def by metis
    then show ?thesis using Some g None by (simp add: cachedKeccak_def cache_sound_def Let_def)
  next
    case (Some h)
    then show ?thesis using \<open>cache = Some c\<close> g sound [of "concat data" h] keep
      by (simp add: cachedKeccak_def cache_sound_def Let_def)
  qed
qed (simp add: cachedKeccak_def cache_sound_def Let_def)

section \<open>Properties\<close>

text \<open>C29: Two keys of any two storage spaces of an account share a slot only when space and
  key are the same, as long as the hash does not collide on the pages at hand.\<close>

theorem storage_spaces_disjoint:
  assumes "collision_free H X" and "page s k \<in> X" and "page s' k' \<in> X"
  shows "mapAddress H s k = mapAddress H s' k' \<longleftrightarrow> sto_storageKey s = sto_storageKey s' \<and> k = k'"
  by (rule mapAddress_inject [OF assms])

theorem storage_spaces_disjoint_witness:
  "mapAddress (\<lambda>x. x @ replicate (32 - length x) 7) (KVStorage 0) 1
     \<noteq> mapAddress (\<lambda>x. x @ replicate (32 - length x) 7) (KVStorage 0) 256"
proof -
  let ?H = "\<lambda>x :: bytes. x @ replicate (32 - length x) 7" and ?s = "KVStorage 0"
  let ?X = "{page ?s 1, page ?s 256}"
  have len: "length x = 31" if "x \<in> ?X" for x
    using that by (auto simp: page_def KVStorage_def hash_Bytes_def)
  have "collision_free ?H ?X"
    unfolding collision_free_def by (auto simp: len intro!: inj_onI)
  then have "mapAddress ?H ?s 1 = mapAddress ?H ?s 256 \<longleftrightarrow> sto_storageKey ?s = sto_storageKey ?s \<and> (1 :: hash) = 256"
    by (rule storage_spaces_disjoint) simp_all
  then show ?thesis by simp
qed

text \<open>The fields of one structure never overlap: slots of one space at different offsets
  below 256 are different for every hash function.\<close>

theorem fields_disjoint:
  assumes "unat a < 256" and "unat b < 256"
  shows "NewSlot H s a = NewSlot H s b \<longleftrightarrow> a = b"
  by (rule NewSlot_inject [OF assms])

text \<open>Every typed slot returns the value last stored in it, for every value of its type
  (for the big integers: every value in range).\<close>

theorem typed_slots_round_trip:
  assumes "sysw w" and "inS 64 i" and "unat t < 2 ^ 24" and "0 \<le> n" and "n < 2 ^ 256" and "inS 256 z"
  shows "fst (bnd (StorageBackedUint64_Set ss u) (\<lambda>_. StorageBackedUint64_Get ss) w) = Ok u
    \<and> fst (bnd (StorageBackedUint32_Set ss u32) (\<lambda>_. StorageBackedUint32_Get ss) w) = Ok u32
    \<and> fst (bnd (StorageBackedUint16_Set ss u16) (\<lambda>_. StorageBackedUint16_Get ss) w) = Ok u16
    \<and> fst (bnd (StorageBackedUint24_Set ss t) (\<lambda>_. StorageBackedUint24_Get ss) w) = Ok t
    \<and> fst (bnd (StorageBackedInt64_Set ss i) (\<lambda>_. StorageBackedInt64_Get ss) w) = Ok i
    \<and> fst (bnd (StorageBackedBips_Set ss i) (\<lambda>_. StorageBackedBips_Get ss) w) = Ok i
    \<and> fst (bnd (StorageBackedUBips_Set ss u) (\<lambda>_. StorageBackedUBips_Get ss) w) = Ok u
    \<and> fst (bnd (StorageBackedAddress_Set ss a) (\<lambda>_. StorageBackedAddress_Get ss) w) = Ok a
    \<and> fst (bnd (StorageBackedAddressOrNil_Set ss oa) (\<lambda>_. StorageBackedAddressOrNil_Get ss) w) = Ok oa
    \<and> fst (bnd (StorageBackedBigUint_SetChecked ss n) (\<lambda>_. StorageBackedBigUint_Get ss) w) = Ok n
    \<and> fst (bnd (StorageBackedBigInt_SetChecked ss z) (\<lambda>_. StorageBackedBigInt_Get ss) w) = Ok z"
proof -
  have "n < twoToThe256" using assms(4,5) by (simp add: twoToThe256_def)
  then show ?thesis
    using assms by (intro conjI uint64.get_after_put uint32.get_after_put uint16.get_after_put
        uint24.get_after_put int64.get_after_put bips.get_after_put ubips.get_after_put
        addr.get_after_put addr_or_nil.get_after_put biguint.get_after_put bigint.get_after_put TrueI)
qed

text \<open>A store that saturates keeps the nearest representable value: a big unsigned slot
  reads back the value clamped to \<open>0 .. 2^256 - 1\<close>, a big signed slot the value clamped to
  \<open>- 2^255 .. 2^255 - 1\<close>, for every integer.\<close>

theorem saturating_store_clamps:
  assumes "sysw w"
  shows "fst (bnd (StorageBackedBigUint_SetSaturatingWithWarning ss v) (\<lambda>_. StorageBackedBigUint_Get ss) w)
      = Ok (max 0 (min v (2 ^ 256 - 1)))
    \<and> fst (bnd (StorageBackedBigInt_SetSaturatingWithWarning ss v) (\<lambda>_. StorageBackedBigInt_Get ss) w)
      = Ok (clampS 256 v)"
  using BigUint_get_after_saturating [OF assms, of ss v] BigInt_get_after_saturating [OF assms, of ss v]
  unfolding twoToThe256_def by blast

text \<open>C28: A byte string written to a storage space is read back unchanged, with its length,
  whatever the space held before; nothing outside the words of that space changes.\<close>

theorem stored_bytes_round_trip:
  assumes "sysw w" and "distinct_words H s (1 + length b div 32)" and "length b < 2 ^ 64"
  shows "\<exists>w1 w2 w3. StorageBackedBytes_Set H s b w = (Ok (), w1)
    \<and> same_except (range (word_slot H s)) w w1
    \<and> StorageBackedBytes_Get H s w1 = (Ok b, w2)
    \<and> StorageBackedBytes_Size H s w2 = (Ok (of_nat (length b)), w3)"
proof -
  obtain w1 where w1: "Storage_SetBytes H s b w = (Ok (), w1)" "sysw w1"
    "same_except (range (word_slot H s)) w w1" "stores_bytes H s w1 b"
    using SetBytes_run [OF assms(1,2)] same_except_range by blast
  obtain w2 where w2: "Storage_GetBytes H s w1 = (Ok b, w2)" "sysw w2" "same_except {} w1 w2"
    using GetBytes_run [OF w1(2,4) assms(3)] by blast
  have "slot_read w2 (word_slot H s 0) = ucast (of_nat (length b) :: u64)"
    using w1(4) same_exceptD [OF w2(3)] by (simp add: stores_bytes_def UintToHash_ucast)
  then have "\<exists>w3. Storage_GetBytesSize H s w2 = (Ok (of_nat (length b)), w3)"
    using w2(2) by (simp add: Storage_GetBytesSize_def word_ops_0 bnd_def ret_run sys_simps)
  then show ?thesis using w1 w2
    by (simp add: StorageBackedBytes_Set_def StorageBackedBytes_Get_def StorageBackedBytes_Size_def)
qed

theorem stored_bytes_round_trip_witness:
  "\<exists>w1 w2. StorageBackedBytes_Set (\<lambda>_. []) (KVStorage 0) (replicate 100 7) demo_world = (Ok (), w1)
    \<and> StorageBackedBytes_Get (\<lambda>_. []) (KVStorage 0) w1 = (Ok (replicate 100 7), w2)"
proof -
  have "distinct_words (\<lambda>_. []) (KVStorage 0) (1 + length (replicate 100 (7 :: byte)) div 32)"
    by (rule distinct_words_page) simp
  from stored_bytes_round_trip [OF sysw_demo this] show ?thesis by auto
qed

text \<open>Clearing a byte string leaves length 0 and every word that held a part of it zero, so
  that no stale byte survives; a later read returns the empty string.\<close>

theorem cleared_bytes_leave_nothing:
  assumes "sysw w" and "stores_bytes H s w b" and "length b < 2 ^ 64"
  shows "\<exists>w1 w2. StorageBackedBytes_Clear H s w = (Ok (), w1)
    \<and> (\<forall>i \<le> (length b + 31) div 32. slot_read w1 (word_slot H s i) = 0)
    \<and> StorageBackedBytes_Get H s w1 = (Ok [], w2)"
proof -
  have n: "unat (ucast (slot_read w (word_slot H s 0)) :: u64) = length b"
    using assms(2,3) by (simp add: stores_bytes_def UintToHash_ucast)
  obtain w1 where w1: "Storage_ClearBytes H s w = (Ok (), w1)" "sysw w1" "slot_read w1 (word_slot H s 0) = 0"
    and z: "\<forall>i < (length b + 31) div 32. slot_read w1 (word_slot H s (1 + i)) = 0"
    using ClearBytes_run [OF assms(1), of H s] unfolding n by blast
  have zero: "slot_read w1 (word_slot H s i) = 0" if "i \<le> (length b + 31) div 32" for i
    using that z w1(3) by (cases i) auto
  have "\<exists>w2. Storage_GetBytes H s w1 = (Ok [], w2)"
    using w1(2,3) by (subst Storage_GetBytes_def, subst Storage_GetBytes_loop.simps)
      (simp add: word_ops_0 bnd_def op_simps sys_simps Storage_GetByUint64_def Storage_Get_slot hash_Bytes_def)
  then show ?thesis using w1(1) zero
    by (auto simp: StorageBackedBytes_Clear_def StorageBackedBytes_Get_def)
qed

text \<open>The process-wide hash cache is transparent: with a cache that only returns what was
  put into it, any sequence of calls returns the same hashes as no cache, and the cache
  stays sound for the next call.\<close>

theorem hash_cache_transparent:
  assumes "cache_laws cache_get cache_add" and "cache_sound H cache_get cache"
  shows "fst (fold (\<lambda>data (hs, c). case cachedKeccak H cache_get cache_add data c of
      (h, c') \<Rightarrow> (hs @ [h], c')) ds (hs, cache)) = hs @ map (\<lambda>data. H (concat data)) ds"
  using assms(2)
proof (induction ds arbitrary: hs cache)
  case (Cons d ds)
  obtain h c' where r: "cachedKeccak H cache_get cache_add d cache = (h, c')" by fastforce
  then have "h = H (concat d)" "cache_sound H cache_get c'"
    using cachedKeccak_sound [OF assms(1) Cons.prems, of d] by simp_all
  then show ?case using Cons.IH r by simp
qed simp

text \<open>Under a read-only burner no store changes anything: a write to a slot, to a key or to
  a typed slot fails with \<open>ErrWriteProtection\<close> and leaves the world, the gas included, as it is.\<close>

theorem read_only_writes_fail:
  assumes "Burner_ReadOnly (burner_of w)"
  shows "StorageSlot_Set ss v w = (Err ErrWriteProtection, w)
    \<and> Storage_Set H s k v w = (Err ErrWriteProtection, w)
    \<and> StorageBackedUint64_Set ss u w = (Err ErrWriteProtection, w)
    \<and> StorageBackedAddress_Set ss a w = (Err ErrWriteProtection, w)
    \<and> StorageBackedBigUint_SetSaturatingWithWarning ss z w = (Err ErrWriteProtection, w)"
  using assms uint64.put_read_only [OF assms TrueI] addr.put_read_only [OF assms TrueI]
  by (simp add: StorageSlot_Set_def Storage_Set_def StorageBackedBigUint_SetSaturatingWithWarning_def Let_def)

end
