(* ===== verification/StorageQueue.thy ===== *)
theory StorageQueue
  imports StorageBytes
begin

text \<open>
  The queue and the vector of sub-storages (\<^verbatim>\<open>arbos/storage/queue.go\<close>,
  \<^verbatim>\<open>arbos/storage/vector.go\<close>). A queue keeps its put offset in word 0, its get offset in
  word 1 and its entries from word 2. It is shown to be a first-in first-out queue: the
  locale \<open>fifo\<close> is the abstract interface, interpreted here on the storage-backed operations.
\<close>

section \<open>Queue\<close>

definition nextPutOffset :: "(bytes \<Rightarrow> bytes) \<Rightarrow> Storage \<Rightarrow> StorageSlot" where
  "nextPutOffset H q = NewSlot H q 0"

definition nextGetOffset :: "(bytes \<Rightarrow> bytes) \<Rightarrow> Storage \<Rightarrow> StorageSlot" where
  "nextGetOffset H q = NewSlot H q 1"

definition InitializeQueue :: "(bytes \<Rightarrow> bytes) \<Rightarrow> Storage \<Rightarrow> (world, unit) op" where
  "InitializeQueue H sto =
     bnd (Storage_SetUint64ByUint64 H sto 0 2) (\<lambda>_. Storage_SetUint64ByUint64 H sto 1 2)"

definition Queue_IsEmpty :: "(bytes \<Rightarrow> bytes) \<Rightarrow> Storage \<Rightarrow> (world, bool) op" where
  "Queue_IsEmpty H q =
     bnd (StorageBackedUint64_Get (nextPutOffset H q)) (\<lambda>put.
     bnd (StorageBackedUint64_Get (nextGetOffset H q)) (\<lambda>get.
     ret (put = get)))"

definition Queue_Size :: "(bytes \<Rightarrow> bytes) \<Rightarrow> Storage \<Rightarrow> (world, u64) op" where
  "Queue_Size H q =
     bnd (StorageBackedUint64_Get (nextPutOffset H q)) (\<lambda>put.
     bnd (StorageBackedUint64_Get (nextGetOffset H q)) (\<lambda>get.
     ret (put - get)))"

definition Queue_Peek :: "(bytes \<Rightarrow> bytes) \<Rightarrow> Storage \<Rightarrow> (world, hash option) op" where
  "Queue_Peek H q =
     bnd (Queue_IsEmpty H q) (\<lambda>empty.
     if empty then ret None
     else bnd (StorageBackedUint64_Get (nextGetOffset H q)) (\<lambda>nxt.
          bnd (Storage_GetByUint64 H q nxt) (\<lambda>res. ret (Some res))))"

definition Queue_Get :: "(bytes \<Rightarrow> bytes) \<Rightarrow> Storage \<Rightarrow> (world, hash option) op" where
  "Queue_Get H q =
     bnd (Queue_IsEmpty H q) (\<lambda>empty.
     if empty then ret None
     else bnd (StorageBackedUint64_Increment (nextGetOffset H q)) (\<lambda>newOffset.
          bnd (Storage_Swap H q (UintToHash (newOffset - 1)) 0) (\<lambda>res. ret (Some res))))"

definition Queue_Put :: "(bytes \<Rightarrow> bytes) \<Rightarrow> Storage \<Rightarrow> hash \<Rightarrow> (world, unit) op" where
  "Queue_Put H q val =
     bnd (StorageBackedUint64_Increment (nextPutOffset H q)) (\<lambda>newOffset.
     Storage_SetByUint64 H q (newOffset - 1) val)"

definition Queue_Shift :: "(bytes \<Rightarrow> bytes) \<Rightarrow> Storage \<Rightarrow> (world, bool) op" where
  "Queue_Shift H q =
     bnd (StorageBackedUint64_Get (nextPutOffset H q)) (\<lambda>put.
     bnd (StorageBackedUint64_Get (nextGetOffset H q)) (\<lambda>get.
     if put \<noteq> get then ret False
     else bnd (StorageBackedUint64_Set (nextGetOffset H q) 2) (\<lambda>_.
          bnd (StorageBackedUint64_Set (nextPutOffset H q) 2) (\<lambda>_. ret True))))"

function Queue_ForEach_loop ::
  "(bytes \<Rightarrow> bytes) \<Rightarrow> Storage \<Rightarrow> (u64 \<Rightarrow> hash \<Rightarrow> (world, bool) op) \<Rightarrow> u64 \<Rightarrow> u64 \<Rightarrow> u64 \<Rightarrow> (world, unit) op"
where
  "Queue_ForEach_loop H q closure offset qsize index =
     (if index < qsize
      then bnd (Storage_GetByUint64 H q (offset + index)) (\<lambda>entry.
           bnd (closure index entry) (\<lambda>finished.
           if finished then ret ()
           else Queue_ForEach_loop H q closure offset qsize (index + 1)))
      else ret ())"
  by pat_completeness auto
termination
proof (relation "measure (\<lambda>(H, q, c, off, qsize, i). unat qsize - unat i)")
  fix qsize index :: u64
  assume "index < qsize"
  then have lt: "unat index < unat qsize" and "unat (index + 1) = unat index + 1"
    by (simp_all add: word_less_nat_alt less_unat_Suc)
  with lt show "((H, q, c, off, qsize, index + 1), H, q, c, off, qsize, index)
    \<in> measure (\<lambda>(H, q, c, off, qsize, i). unat qsize - unat i)" for H q c off by simp
qed simp

definition Queue_ForEach ::
  "(bytes \<Rightarrow> bytes) \<Rightarrow> Storage \<Rightarrow> (u64 \<Rightarrow> hash \<Rightarrow> (world, bool) op) \<Rightarrow> (world, unit) op" where
  "Queue_ForEach H q closure =
     bnd (Queue_Size H q) (\<lambda>qsize.
     bnd (StorageBackedUint64_Get (nextGetOffset H q)) (\<lambda>offset.
     Queue_ForEach_loop H q closure offset qsize 0))"

section \<open>Vector of sub-storages\<close>

definition vector_length :: "(bytes \<Rightarrow> bytes) \<Rightarrow> Storage \<Rightarrow> StorageSlot" where
  "vector_length H v = NewSlot H v 0"

definition SubStorageVector_Length :: "(bytes \<Rightarrow> bytes) \<Rightarrow> Storage \<Rightarrow> (world, u64) op" where
  "SubStorageVector_Length H v = StorageBackedUint64_Get (vector_length H v)"

definition SubStorageVector_At :: "(bytes \<Rightarrow> bytes) \<Rightarrow> Storage \<Rightarrow> u64 \<Rightarrow> Storage" where
  "SubStorageVector_At H v i = OpenSubStorage H v (be_bytes 8 (unat i))"

definition SubStorageVector_Push :: "(bytes \<Rightarrow> bytes) \<Rightarrow> Storage \<Rightarrow> (world, Storage) op" where
  "SubStorageVector_Push H v =
     bnd (StorageBackedUint64_Get (vector_length H v)) (\<lambda>len.
     bnd (StorageBackedUint64_Set (vector_length H v) (len + 1)) (\<lambda>_.
     ret (OpenSubStorage H v (be_bytes 8 (unat len)))))"

definition SubStorageVector_Pop :: "(bytes \<Rightarrow> bytes) \<Rightarrow> Storage \<Rightarrow> (world, Storage) op" where
  "SubStorageVector_Pop H v =
     bnd (StorageBackedUint64_Get (vector_length H v)) (\<lambda>len.
     if len = 0 then throw (ErrMsg ''sub-storage vector: can't pop empty'')
     else bnd (StorageBackedUint64_Set (vector_length H v) (len - 1)) (\<lambda>_.
          ret (OpenSubStorage H v (be_bytes 8 (unat (len - 1))))))"

section \<open>First in, first out\<close>

text \<open>A client of a queue issues commands; the reference answers them from a list.\<close>

datatype 'a queue_cmd = CmdPut 'a | CmdGet

fun list_queue :: "'a queue_cmd list \<Rightarrow> 'a list \<Rightarrow> 'a option list \<times> 'a list" where
  "list_queue [] xs = ([], xs)"
| "list_queue (CmdPut x # cs) xs = (let (rs, ys) = list_queue cs (xs @ [x]) in (None # rs, ys))"
| "list_queue (CmdGet # cs) [] = (let (rs, ys) = list_queue cs [] in (None # rs, ys))"
| "list_queue (CmdGet # cs) (x # xs) = (let (rs, ys) = list_queue cs xs in (Some x # rs, ys))"

definition exec_cmd ::
  "('a \<Rightarrow> ('s, unit) op) \<Rightarrow> ('s, 'a option) op \<Rightarrow> 'a queue_cmd \<Rightarrow> ('s, 'a option) op" where
  "exec_cmd put get c = (case c of CmdPut x \<Rightarrow> bnd (put x) (\<lambda>_. ret None) | CmdGet \<Rightarrow> get)"

fun puts :: "'a queue_cmd list \<Rightarrow> nat" where
  "puts [] = 0"
| "puts (CmdPut x # cs) = Suc (puts cs)"
| "puts (CmdGet # cs) = puts cs"

locale fifo =
  fixes put :: "'a \<Rightarrow> ('s, unit) op"
    and get :: "('s, 'a option) op"
    and is_empty :: "('s, bool) op"
    and items :: "'s \<Rightarrow> 'a list"
    and inv :: "'s \<Rightarrow> bool"
    and room :: "'s \<Rightarrow> nat"
  assumes put_items: "inv s \<Longrightarrow> 0 < room s \<Longrightarrow>
      \<exists>s'. put x s = (Ok (), s') \<and> inv s' \<and> items s' = items s @ [x] \<and> Suc (room s') = room s"
    and get_Cons: "inv s \<Longrightarrow> items s = x # xs \<Longrightarrow>
      \<exists>s'. get s = (Ok (Some x), s') \<and> inv s' \<and> items s' = xs \<and> room s' = room s"
    and get_Nil: "inv s \<Longrightarrow> items s = [] \<Longrightarrow>
      \<exists>s'. get s = (Ok None, s') \<and> inv s' \<and> items s' = [] \<and> room s' = room s"
    and is_empty_items: "inv s \<Longrightarrow>
      \<exists>s'. is_empty s = (Ok (items s = []), s') \<and> inv s' \<and> items s' = items s \<and> room s' = room s"
begin

lemma refines_list:
  "inv s \<Longrightarrow> puts cs \<le> room s \<Longrightarrow>
   \<exists>s'. collect cs (exec_cmd put get) s = (Ok (fst (list_queue cs (items s))), s')
     \<and> inv s' \<and> items s' = snd (list_queue cs (items s))"
proof (induction cs "items s" arbitrary: s rule: list_queue.induct)
  case 1
  then show ?case by (auto simp: ret_run)
next
  case (2 x cs)
  have "0 < room s" using "2.prems"(2) by simp
  then obtain s1 where s1: "put x s = (Ok (), s1)" "inv s1" "items s1 = items s @ [x]" "Suc (room s1) = room s"
    using put_items [OF "2.prems"(1)] by blast
  have "puts cs \<le> room s1" using "2.prems"(2) s1(4) by simp
  from "2.hyps" [OF s1(3) [symmetric] s1(2) this] show ?case
    using s1(1) by (auto simp: bnd_def ret_run exec_cmd_def s1(3) split: prod.splits)
next
  case (3 cs)
  obtain s1 where s1: "get s = (Ok None, s1)" "inv s1" "items s1 = []" "room s1 = room s"
    using get_Nil [OF "3.prems"(1) "3.hyps"(2) [symmetric]] by blast
  from "3.hyps"(1) [OF s1(3) [symmetric] s1(2)] show ?case
    using s1 "3.prems"(2) "3.hyps"(2) [symmetric]
    by (auto simp: bnd_def ret_run exec_cmd_def split: prod.splits)
next
  case (4 cs x xs)
  obtain s1 where s1: "get s = (Ok (Some x), s1)" "inv s1" "items s1 = xs" "room s1 = room s"
    using get_Cons [OF "4.prems"(1) "4.hyps"(2) [symmetric]] by blast
  from "4.hyps"(1) [OF s1(3) [symmetric] s1(2)] show ?case
    using s1 "4.prems"(2) "4.hyps"(2) [symmetric]
    by (auto simp: bnd_def ret_run exec_cmd_def split: prod.splits)
qed

end

definition put_off :: "(bytes \<Rightarrow> bytes) \<Rightarrow> Storage \<Rightarrow> world \<Rightarrow> nat" where
  "put_off H q w = unat (slot_read w (word_slot H q 0))"

definition get_off :: "(bytes \<Rightarrow> bytes) \<Rightarrow> Storage \<Rightarrow> world \<Rightarrow> nat" where
  "get_off H q w = unat (slot_read w (word_slot H q 1))"

definition queue_items :: "(bytes \<Rightarrow> bytes) \<Rightarrow> Storage \<Rightarrow> world \<Rightarrow> hash list" where
  "queue_items H q w = map (\<lambda>i. slot_read w (word_slot H q i)) [get_off H q w ..< put_off H q w]"

text \<open>\<open>N\<close> bounds the words of the space known not to overlap.\<close>

definition queue_inv :: "(bytes \<Rightarrow> bytes) \<Rightarrow> Storage \<Rightarrow> nat \<Rightarrow> world \<Rightarrow> bool" where
  "queue_inv H q N w \<longleftrightarrow> sysw w \<and> distinct_words H q N \<and> Suc N < 2 ^ 64 \<and> 2 \<le> get_off H q w
     \<and> get_off H q w \<le> put_off H q w \<and> put_off H q w \<le> Suc N"

definition queue_room :: "(bytes \<Rightarrow> bytes) \<Rightarrow> Storage \<Rightarrow> nat \<Rightarrow> world \<Rightarrow> nat" where
  "queue_room H q N w = Suc N - put_off H q w"

lemma offset_slots: "nextPutOffset H q = word_slot H q 0" "nextGetOffset H q = word_slot H q 1"
  by (simp_all add: nextPutOffset_def nextGetOffset_def word_slot_def)

lemma off_tick [simp]:
  "put_off H q (tick k a w) = put_off H q w" "get_off H q (tick k a w) = get_off H q w"
  "queue_items H q (tick k a w) = queue_items H q w"
  by (simp_all add: put_off_def get_off_def queue_items_def)

lemma queue_inv_tick [simp]: "queue_inv H q N w \<Longrightarrow> queue_inv H q N (tick k a w)"
  by (simp add: queue_inv_def)

lemma queue_room_tick [simp]: "queue_room H q N (tick k a w) = queue_room H q N w"
  by (simp add: queue_room_def)

lemma hash_of_nat_u64: "unat (h :: hash) = n \<Longrightarrow> n < 2 ^ 64 \<Longrightarrow> h = ucast (of_nat n :: u64) \<and> fits 64 h"
proof
  assume h: "unat h = n" "n < 2 ^ 64"
  then show f: "fits 64 h" by (simp only: fits_def)
  have "unat h = unat (UintToHash (of_nat n))" using h by (simp only: unat_UintToHash unat_of_nat_u64)
  then show "h = ucast (of_nat n :: u64)" by (simp only: word_unat_eq_iff UintToHash_ucast)
qed

lemma queue_offsets:
  assumes "queue_inv H q N w"
  shows "slot_read w (word_slot H q 0) = ucast (of_nat (put_off H q w) :: u64)"
    "slot_read w (word_slot H q 1) = ucast (of_nat (get_off H q w) :: u64)"
    "sysw w" "put_off H q w < 2 ^ 64" "get_off H q w < 2 ^ 64"
proof -
  show lt: "put_off H q w < 2 ^ 64" "get_off H q w < 2 ^ 64" and "sysw w"
    using assms by (auto simp: queue_inv_def)
  show "slot_read w (word_slot H q 0) = ucast (of_nat (put_off H q w) :: u64)"
    "slot_read w (word_slot H q 1) = ucast (of_nat (get_off H q w) :: u64)"
    using hash_of_nat_u64 [OF put_off_def [symmetric] lt(1)] hash_of_nat_u64 [OF get_off_def [symmetric] lt(2)]
    by simp_all
qed

lemma Queue_IsEmpty_run:
  assumes "queue_inv H q N w"
  shows "\<exists>w'. Queue_IsEmpty H q w = (Ok (queue_items H q w = []), w') \<and> queue_inv H q N w'
    \<and> same_except {} w w'"
proof -
  note o = queue_offsets [OF assms]
  have "(of_nat (put_off H q w) :: u64) = of_nat (get_off H q w) \<longleftrightarrow> queue_items H q w = []"
    using of_nat_u64_inject [OF o(4,5)] assms by (auto simp: queue_items_def queue_inv_def)
  then show ?thesis using o assms
    by (simp add: Queue_IsEmpty_def offset_slots bnd_def op_simps sys_simps)
qed

lemma unat_ucast_of_nat: "n < 2 ^ 64 \<Longrightarrow> unat (ucast (of_nat n :: u64) :: hash) = n"
  using unat_UintToHash [of "of_nat n"] by (simp only: UintToHash_ucast unat_of_nat_u64)

lemma increment_run:
  assumes "sysw w" "slot_read w ss = ucast (of_nat n :: u64)" "Suc n < 2 ^ 64"
  shows "\<exists>k a k' a'. StorageBackedUint64_Increment ss w =
    (Ok (of_nat (Suc n)), slot_write ss (ucast (of_nat (Suc n) :: u64)) (tick k' a' (tick k a w)))"
proof -
  have "unat (of_nat n :: u64) \<noteq> unat (- 1 :: u64)"
    using assms(3) unat_of_nat_u64 [of n] by (simp add: unat_all_ones)
  then have "(of_nat n :: u64) \<noteq> - 1" by metis
  then have "StorageBackedUint64_Increment ss w =
     (Ok (of_nat (Suc n)), slot_write ss (ucast (of_nat (Suc n) :: u64))
       (tick StorageAccessWrite (WriteCost (ucast (of_nat (Suc n) :: u64)))
         (tick StorageAccessRead StorageReadCost w)))"
    using assms(1,2)
    by (simp add: StorageBackedUint64_Increment_def bnd_def op_simps sys_simps overflow_iff offset_Suc
        del: of_nat_Suc)
  then show ?thesis by blast
qed

text \<open>The offsets and the entries of a queue depend on the words of its space alone.\<close>

lemma queue_words:
  assumes "slot_read w' (word_slot H q 0) = ucast (of_nat p :: u64)" "p < 2 ^ 64"
    and "slot_read w' (word_slot H q 1) = ucast (of_nat g :: u64)" "g < 2 ^ 64"
  shows "put_off H q w' = p" "get_off H q w' = g"
    "queue_items H q w' = map (\<lambda>i. slot_read w' (word_slot H q i)) [g..<p]"
  using assms by (simp_all only: put_off_def get_off_def queue_items_def unat_ucast_of_nat)

lemma Queue_Put_run:
  assumes inv: "queue_inv H q N w" and room: "0 < queue_room H q N w"
  shows "\<exists>w'. Queue_Put H q v w = (Ok (), w') \<and> queue_inv H q N w'
    \<and> queue_items H q w' = queue_items H q w @ [v] \<and> Suc (queue_room H q N w') = queue_room H q N w
    \<and> same_except (word_slot H q ` {..N}) w w'"
proof -
  note o = queue_offsets [OF inv]
  let ?p = "put_off H q w" and ?g = "get_off H q w"
  have b: "2 \<le> ?g" "?g \<le> ?p" "?p \<le> N" "Suc N < 2 ^ 64" and d: "distinct_words H q N"
    using inv room by (auto simp: queue_inv_def queue_room_def)
  have p64: "Suc ?p < 2 ^ 64" using b by simp
  obtain k a k' a' where inc: "StorageBackedUint64_Increment (word_slot H q 0) w =
      (Ok (of_nat (Suc ?p)), slot_write (word_slot H q 0) (ucast (of_nat (Suc ?p) :: u64)) (tick k' a' (tick k a w)))"
    using increment_run [OF o(3,1) p64] by blast
  let ?w1 = "slot_write (word_slot H q 0) (ucast (of_nat (Suc ?p) :: u64)) (tick k' a' (tick k a w))"
  let ?w' = "slot_write (word_slot H q ?p) v (tick StorageAccessWrite (WriteCost v) ?w1)"
  have run: "Queue_Put H q v w = (Ok (), ?w')"
    using inc o(3) by (simp add: Queue_Put_def offset_slots bnd_def word_ops sys_simps)
  have ne: "i \<le> N \<Longrightarrow> j \<le> N \<Longrightarrow> i \<noteq> j \<Longrightarrow> word_slot H q i \<noteq> word_slot H q j" for i j
    using distinct_wordsD [OF d] by blast
  have "slot_read ?w' (word_slot H q 0) = ucast (of_nat (Suc ?p) :: u64)"
    "slot_read ?w' (word_slot H q 1) = ucast (of_nat ?g :: u64)"
    using ne [of 0 ?p] ne [of 1 ?p] ne [of 1 0] b o(2) by (simp_all add: slot_read_write)
  note w' = queue_words [OF this(1) p64 this(2) o(5)]
  have "slot_read ?w' (word_slot H q i) = slot_read w (word_slot H q i)" if "i \<in> set [?g..<?p]" for i
    using ne [of i ?p] ne [of i 0] that b by (simp add: slot_read_write)
  then have "queue_items H q ?w' = queue_items H q w @ [v]"
    using b w'(3) by (simp add: queue_items_def)
  moreover have "queue_inv H q N ?w'" using inv b w'(1,2) p64 by (simp add: queue_inv_def)
  moreover have "Suc (queue_room H q N ?w') = queue_room H q N w"
    using b w'(1) by (simp add: queue_room_def)
  moreover have "same_except (word_slot H q ` {..N}) w ?w'" using b
    by (intro same_except_write same_except_tick [THEN iffD2]) simp_all
  ultimately show ?thesis using run by blast
qed

lemma Queue_Get_run:
  assumes inv: "queue_inv H q N w" and items: "queue_items H q w = v # vs"
  shows "\<exists>w'. Queue_Get H q w = (Ok (Some v), w') \<and> queue_inv H q N w' \<and> queue_items H q w' = vs
    \<and> queue_room H q N w' = queue_room H q N w \<and> same_except (word_slot H q ` {..N}) w w'
    \<and> slot_read w' (word_slot H q (get_off H q w)) = 0"
proof -
  let ?p = "put_off H q w" and ?g = "get_off H q w"
  have gp: "?g < ?p" using items by (auto simp: queue_items_def upt_eq_Cons_conv)
  then have b: "2 \<le> ?g" "?p \<le> Suc N" "Suc N < 2 ^ 64" and d: "distinct_words H q N"
    using inv by (auto simp: queue_inv_def)
  have vs: "v = slot_read w (word_slot H q ?g)" "vs = map (\<lambda>i. slot_read w (word_slot H q i)) [Suc ?g..<?p]"
    using items gp by (simp_all add: queue_items_def upt_conv_Cons)
  obtain w0 where w0: "Queue_IsEmpty H q w = (Ok False, w0)" "queue_inv H q N w0" "same_except {} w w0"
    using Queue_IsEmpty_run [OF inv] items by auto
  have rd: "slot_read w0 ss = slot_read w ss" for ss using w0(3) by (simp add: same_except_def)
  then have off0: "put_off H q w0 = ?p" "get_off H q w0 = ?g" by (simp_all add: put_off_def get_off_def)
  note o = queue_offsets [OF w0(2), unfolded off0]
  have g64: "Suc ?g < 2 ^ 64" using b gp by simp
  obtain k a k' a' where inc: "StorageBackedUint64_Increment (word_slot H q 1) w0 =
      (Ok (of_nat (Suc ?g)), slot_write (word_slot H q 1) (ucast (of_nat (Suc ?g) :: u64)) (tick k' a' (tick k a w0)))"
    using increment_run [OF o(3,2) g64] by blast
  let ?w1 = "slot_write (word_slot H q 1) (ucast (of_nat (Suc ?g) :: u64)) (tick k' a' (tick k a w0))"
  let ?w' = "slot_write (word_slot H q ?g) 0
    (tick StorageAccessWrite (WriteCost 0) (tick StorageAccessRead StorageReadCost ?w1))"
  have ne: "i \<le> N \<Longrightarrow> j \<le> N \<Longrightarrow> i \<noteq> j \<Longrightarrow> word_slot H q i \<noteq> word_slot H q j" for i j
    using distinct_wordsD [OF d] by blast
  have key: "slot_at H q (UintToHash (of_nat ?g)) = word_slot H q ?g"
    by (simp add: word_slot_def NewSlot_slot)
  have run: "Queue_Get H q w = (Ok (Some v), ?w')"
    using w0(1) inc o(3) ne [of ?g 1] b gp vs(1)
    by (simp add: Queue_Get_def offset_slots bnd_def op_simps sys_simps Storage_Swap_def
        Storage_Get_slot Storage_Set_slot key slot_read_write rd)
  have "slot_read ?w' (word_slot H q 0) = ucast (of_nat ?p :: u64)"
    "slot_read ?w' (word_slot H q 1) = ucast (of_nat (Suc ?g) :: u64)"
    using ne [of 0 ?g] ne [of 1 ?g] ne [of 0 1] b gp o(1) by (simp_all add: slot_read_write)
  note w' = queue_words [OF this(1) o(4) this(2) g64]
  have "slot_read ?w' (word_slot H q i) = slot_read w (word_slot H q i)" if "i \<in> set [Suc ?g..<?p]" for i
    using ne [of i ?g] ne [of i 1] that b by (simp add: slot_read_write rd)
  then have "queue_items H q ?w' = vs" using w'(3) vs(2) by simp
  moreover have "queue_inv H q N ?w'" using w0(2) b w'(1,2) gp by (simp add: queue_inv_def off0)
  moreover have "queue_room H q N ?w' = queue_room H q N w" using w'(1) by (simp add: queue_room_def)
  moreover have "same_except (word_slot H q ` {..N}) w ?w'"
    using same_except_mono [OF w0(3), of "word_slot H q ` {..N}"] b gp
    by (intro same_except_write same_except_tick [THEN iffD2]) simp_all
  ultimately show ?thesis using run by (intro exI [of _ ?w']) simp
qed

lemma Queue_Get_empty:
  assumes "queue_inv H q N w" "queue_items H q w = []"
  shows "\<exists>w'. Queue_Get H q w = (Ok None, w') \<and> queue_inv H q N w' \<and> same_except {} w w'"
  using Queue_IsEmpty_run [OF assms(1)] assms(2) by (auto simp: Queue_Get_def bnd_def ret_run)

lemma queue_same:
  assumes "same_except {} w w'"
  shows "queue_items H q w' = queue_items H q w" "queue_room H q N w' = queue_room H q N w"
  using assms by (simp_all add: same_except_def queue_items_def queue_room_def put_off_def get_off_def)

interpretation storage_queue: fifo "Queue_Put H q" "Queue_Get H q" "Queue_IsEmpty H q"
  "queue_items H q" "queue_inv H q N" "queue_room H q N" for H q N
proof
  fix w x assume "queue_inv H q N w" "0 < queue_room H q N w"
  from Queue_Put_run [OF this] show "\<exists>s'. Queue_Put H q x w = (Ok (), s') \<and> queue_inv H q N s'
     \<and> queue_items H q s' = queue_items H q w @ [x] \<and> Suc (queue_room H q N s') = queue_room H q N w"
    by blast
next
  fix w x xs assume "queue_inv H q N w" "queue_items H q w = x # xs"
  from Queue_Get_run [OF this] show "\<exists>s'. Queue_Get H q w = (Ok (Some x), s') \<and> queue_inv H q N s'
     \<and> queue_items H q s' = xs \<and> queue_room H q N s' = queue_room H q N w" by blast
next
  fix w assume "queue_inv H q N w" "queue_items H q w = []"
  from Queue_Get_empty [OF this] this show "\<exists>s'. Queue_Get H q w = (Ok None, s') \<and> queue_inv H q N s'
     \<and> queue_items H q s' = [] \<and> queue_room H q N s' = queue_room H q N w"
    using queue_same by metis
next
  fix w assume "queue_inv H q N w"
  from Queue_IsEmpty_run [OF this] show "\<exists>s'. Queue_IsEmpty H q w = (Ok (queue_items H q w = []), s')
     \<and> queue_inv H q N s' \<and> queue_items H q s' = queue_items H q w
     \<and> queue_room H q N s' = queue_room H q N w"
    using queue_same by metis
qed

lemma InitializeQueue_run:
  assumes "sysw w" "distinct_words H q N" "1 \<le> N" "Suc N < 2 ^ 64"
  shows "\<exists>w'. InitializeQueue H q w = (Ok (), w') \<and> queue_inv H q N w' \<and> queue_items H q w' = []
    \<and> queue_room H q N w' = N - 1"
proof -
  have "Storage_SetUint64ByUint64 H q 1 u = StorageSlot_Set (word_slot H q 1) (UintToHash u)" for u
    using word_ops(4) [of H q 1 u] by simp
  then have run: "InitializeQueue H q w =
     (Ok (), slot_write (word_slot H q 1) (UintToHash 2) (tick StorageAccessWrite (WriteCost (UintToHash 2))
       (slot_write (word_slot H q 0) (UintToHash 2) (tick StorageAccessWrite (WriteCost (UintToHash 2)) w))))"
    (is "_ = (_, ?w')")
    using assms(1) by (simp add: InitializeQueue_def bnd_def word_ops_0 sys_simps)
  have "word_slot H q 0 \<noteq> word_slot H q 1"
    using distinct_wordsD [OF assms(2), of 0 1] assms(3) by simp
  then have "put_off H q ?w' = 2" "get_off H q ?w' = 2"
    by (simp_all add: put_off_def get_off_def slot_read_write)
  then show ?thesis using run assms by (simp add: queue_inv_def queue_items_def queue_room_def)
qed

lemma Queue_Size_run:
  assumes "queue_inv H q N w"
  shows "\<exists>w'. Queue_Size H q w = (Ok (of_nat (length (queue_items H q w))), w') \<and> queue_inv H q N w'
    \<and> same_except {} w w'"
  using queue_offsets [OF assms] assms
  by (simp add: Queue_Size_def offset_slots bnd_def op_simps sys_simps queue_items_def of_nat_diff queue_inv_def)

lemma Queue_Peek_run:
  assumes inv: "queue_inv H q N w"
  shows "\<exists>w'. Queue_Peek H q w =
      (Ok (case queue_items H q w of [] \<Rightarrow> None | x # _ \<Rightarrow> Some x), w') \<and> queue_inv H q N w' \<and> same_except {} w w'"
proof -
  obtain w0 where w0: "Queue_IsEmpty H q w = (Ok (queue_items H q w = []), w0)" "queue_inv H q N w0"
    "same_except {} w w0" using Queue_IsEmpty_run [OF inv] by blast
  have rd: "slot_read w0 ss = slot_read w ss" for ss using w0(3) by (simp add: same_except_def)
  show ?thesis
  proof (cases "queue_items H q w")
    case Nil
    then show ?thesis using w0 by (simp add: Queue_Peek_def bnd_def ret_run)
  next
    case (Cons x xs)
    then have "get_off H q w < put_off H q w" by (auto simp: queue_items_def upt_eq_Cons_conv)
    then have "x = slot_read w (word_slot H q (get_off H q w))"
      using Cons by (simp add: queue_items_def upt_conv_Cons)
    then show ?thesis
      using Cons w0 queue_offsets(2) [OF inv] queue_offsets(3) [OF w0(2)]
      by (simp add: Queue_Peek_def offset_slots bnd_def op_simps word_ops sys_simps rd)
  qed
qed

text \<open>A closure that keeps the queue and never stops is called once per entry, in order.\<close>

declare Queue_ForEach_loop.simps [simp del]

lemma ForEach_loop_run:
  assumes "n + k = length xs" "length xs < 2 ^ 64" "I k w"
    and inv: "\<And>j w. I j w \<Longrightarrow> sysw w \<and> (\<forall>i < length xs. slot_read w (word_slot H q (g + i)) = xs ! i)"
    and tick: "\<And>j w c a. I j w \<Longrightarrow> I j (tick c a w)"
    and step: "\<And>j w. j < length xs \<Longrightarrow> I j w \<Longrightarrow>
      \<exists>w'. closure (of_nat j) (xs ! j) w = (Ok False, w') \<and> I (Suc j) w'"
  shows "\<exists>w'. Queue_ForEach_loop H q closure (of_nat g) (of_nat (length xs)) (of_nat k) w = (Ok (), w')
    \<and> I (length xs) w'"
  using assms(1,3)
proof (induction n arbitrary: k w)
  case 0
  then show ?case by (subst Queue_ForEach_loop.simps) (simp add: ret_run)
next
  case (Suc n)
  let ?w1 = "tick StorageAccessRead StorageReadCost w"
  have k: "k < length xs" using Suc.prems(1) by simp
  obtain w2 where w2: "closure (of_nat k) (xs ! k) ?w1 = (Ok False, w2)" "I (Suc k) w2"
    using step [OF k tick [OF Suc.prems(2)]] by blast
  obtain w' where w': "Queue_ForEach_loop H q closure (of_nat g) (of_nat (length xs)) (of_nat (Suc k)) w2 = (Ok (), w')"
    "I (length xs) w'" using Suc.IH [OF _ w2(2)] Suc.prems(1) by auto
  have lt: "(of_nat k :: u64) < of_nat (length xs)"
    using k assms(2) by (simp add: word_less_nat_alt)
  have "(of_nat g :: u64) + of_nat k = of_nat (g + k)" by simp
  then have "Queue_ForEach_loop H q closure (of_nat g) (of_nat (length xs)) (of_nat k) w = (Ok (), w')"
    using lt w2(1) w'(1) inv [OF Suc.prems(2)] k
    by (subst Queue_ForEach_loop.simps)
      (simp add: bnd_def word_ops sys_simps offset_Suc del: of_nat_add of_nat_Suc)
  then show ?case using w'(2) by blast
qed

lemma Queue_ForEach_run:
  assumes inv: "queue_inv H q N w"
    and keep: "\<And>j w. I j w \<Longrightarrow> queue_inv H q N w \<and> queue_items H q w = xs \<and> get_off H q w = g"
    and tick: "\<And>j w c a. I j w \<Longrightarrow> I j (tick c a w)"
    and step: "\<And>j w. j < length xs \<Longrightarrow> I j w \<Longrightarrow>
      \<exists>w'. closure (of_nat j) (xs ! j) w = (Ok False, w') \<and> I (Suc j) w'"
    and "I 0 w"
  shows "\<exists>w'. Queue_ForEach H q closure w = (Ok (), w') \<and> I (length xs) w'"
proof -
  let ?t = "tick StorageAccessRead StorageReadCost"
  have I3: "I 0 (?t (?t (?t w)))" by (intro tick assms(5))
  have len: "length xs < 2 ^ 64"
    using keep [OF assms(5)] queue_offsets(4) [OF inv] by (auto simp: queue_items_def)
  have words: "sysw u \<and> (\<forall>i < length xs. slot_read u (word_slot H q (g + i)) = xs ! i)" if "I j u" for j u
    using keep [OF that] by (auto simp: queue_items_def queue_inv_def)
  have "\<exists>w'. Queue_ForEach_loop H q closure (of_nat g) (of_nat (length xs)) (of_nat 0) (?t (?t (?t w)))
      = (Ok (), w') \<and> I (length xs) w'"
  proof (rule ForEach_loop_run [where n = "length xs" and I = I])
    show "I 0 (?t (?t (?t w)))" by (rule I3)
    show "length xs < 2 ^ 64" by (rule len)
  qed (simp, fact words, fact tick, fact step)
  then obtain w' where w': "Queue_ForEach_loop H q closure (of_nat g) (of_nat (length xs)) (of_nat 0)
      (?t (?t (?t w))) = (Ok (), w')" "I (length xs) w'" by blast
  have "put_off H q w - get_off H q w = length xs" "get_off H q w = g"
    using keep [OF assms(5)] by (auto simp: queue_items_def)
  then have sz: "(of_nat (put_off H q w) :: u64) - of_nat g = of_nat (length xs)"
    using inv by (metis of_nat_diff queue_inv_def)
  have "Queue_ForEach H q closure w = (Ok (), w')"
    using w'(1) sz queue_offsets [OF inv] \<open>get_off H q w = g\<close>
    by (simp add: Queue_ForEach_def Queue_Size_def offset_slots bnd_def op_simps sys_simps)
  then show ?thesis using w'(2) by blast
qed

section \<open>Laws of the vector\<close>

definition vector_len :: "(bytes \<Rightarrow> bytes) \<Rightarrow> Storage \<Rightarrow> world \<Rightarrow> u64" where
  "vector_len H v w = ucast (slot_read w (vector_length H v))"

definition vector_ok :: "(bytes \<Rightarrow> bytes) \<Rightarrow> Storage \<Rightarrow> world \<Rightarrow> bool" where
  "vector_ok H v w \<longleftrightarrow> sysw w \<and> fits 64 (slot_read w (vector_length H v))"

lemmas vector_defs = vector_len_def vector_ok_def SubStorageVector_Push_def SubStorageVector_Pop_def
  SubStorageVector_At_def

lemma Push_run:
  "vector_ok H v w \<Longrightarrow>
   \<exists>w'. SubStorageVector_Push H v w = (Ok (SubStorageVector_At H v (vector_len H v w)), w')
     \<and> vector_ok H v w' \<and> vector_len H v w' = vector_len H v w + 1
     \<and> same_except {vector_length H v} w w'"
  by (auto simp: vector_defs bnd_def op_simps sys_simps intro!: same_except_write)

lemma Pop_run:
  "vector_ok H v w \<Longrightarrow> vector_len H v w \<noteq> 0 \<Longrightarrow>
   \<exists>w'. SubStorageVector_Pop H v w = (Ok (SubStorageVector_At H v (vector_len H v w - 1)), w')
     \<and> vector_ok H v w' \<and> vector_len H v w' = vector_len H v w - 1
     \<and> same_except {vector_length H v} w w'"
  by (auto simp: vector_defs bnd_def op_simps sys_simps intro!: same_except_write)

lemma Pop_empty:
  "vector_ok H v w \<Longrightarrow> vector_len H v w = 0 \<Longrightarrow>
   \<exists>w' e. SubStorageVector_Pop H v w = (Err e, w') \<and> same_except {} w w'"
  by (auto simp: vector_defs bnd_def op_simps sys_simps)

lemma Push_Pop:
  assumes "vector_ok H v w" "vector_len H v w \<noteq> - 1"
  shows "\<exists>w'. bnd (SubStorageVector_Push H v) (\<lambda>a. bnd (SubStorageVector_Pop H v) (\<lambda>b. ret (a, b))) w
      = (Ok (SubStorageVector_At H v (vector_len H v w), SubStorageVector_At H v (vector_len H v w)), w')
    \<and> vector_ok H v w' \<and> vector_len H v w' = vector_len H v w"
proof -
  obtain w1 where w1: "SubStorageVector_Push H v w = (Ok (SubStorageVector_At H v (vector_len H v w)), w1)"
    "vector_ok H v w1" "vector_len H v w1 = vector_len H v w + 1" using Push_run [OF assms(1)] by blast
  have "vector_len H v w1 \<noteq> 0" using w1(3) assms(2) by (metis add.commute add_eq_0_iff)
  from Pop_run [OF w1(2) this] show ?thesis using w1 by (auto simp: bnd_def ret_run)
qed

section \<open>Properties\<close>

text \<open>C2: The storage-backed queue is a first-in first-out queue: any sequence of \<^verbatim>\<open>Put\<close> and
  \<^verbatim>\<open>Get\<close> calls that fits into the space gives the same answers as a list, and ends holding
  the same entries.\<close>

theorem queue_refines_list:
  assumes "queue_inv H q N w" and "puts cs \<le> queue_room H q N w"
  shows "\<exists>w'. collect cs (exec_cmd (Queue_Put H q) (Queue_Get H q)) w
        = (Ok (fst (list_queue cs (queue_items H q w))), w')
     \<and> queue_inv H q N w' \<and> queue_items H q w' = snd (list_queue cs (queue_items H q w))"
  by (rule storage_queue.refines_list [OF assms])

theorem queue_refines_list_witness:
  "\<exists>w w'. InitializeQueue (\<lambda>_. []) (KVStorage 0) demo_world = (Ok (), w)
     \<and> collect [CmdPut 5, CmdPut 6, CmdGet, CmdPut 7, CmdGet, CmdGet, CmdGet]
         (exec_cmd (Queue_Put (\<lambda>_. []) (KVStorage 0)) (Queue_Get (\<lambda>_. []) (KVStorage 0))) w
       = (Ok [None, None, Some 5, None, Some 6, Some 7, None], w')"
proof -
  have "distinct_words (\<lambda>_. []) (KVStorage 0) 100" by (rule distinct_words_page) simp
  from InitializeQueue_run [OF sysw_demo this] obtain w where
    w: "InitializeQueue (\<lambda>_. []) (KVStorage 0) demo_world = (Ok (), w)"
      "queue_inv (\<lambda>_. []) (KVStorage 0) 100 w" "queue_items (\<lambda>_. []) (KVStorage 0) w = []"
      "queue_room (\<lambda>_. []) (KVStorage 0) 100 w = 99" by auto
  have "puts [CmdPut 5, CmdPut 6, CmdGet, CmdPut 7, CmdGet, CmdGet, CmdGet] \<le> queue_room (\<lambda>_. []) (KVStorage 0) 100 w"
    using w(4) by simp
  from queue_refines_list [OF w(2) this] show ?thesis using w(1,3) by auto
qed

text \<open>A \<^verbatim>\<open>Get\<close> clears the word of the entry it returns and touches only words of the queue's
  own space, so that a queue leaves no stale entry behind; on an empty queue it returns nil
  and changes no slot.\<close>

theorem queue_get_clears:
  assumes "queue_inv H q N w"
  shows "\<exists>w'. Queue_Get H q w = (Ok (case queue_items H q w of [] \<Rightarrow> None | x # _ \<Rightarrow> Some x), w')
    \<and> queue_items H q w' = tl (queue_items H q w)
    \<and> (queue_items H q w = [] \<longrightarrow> same_except {} w w')
    \<and> (queue_items H q w \<noteq> [] \<longrightarrow> slot_read w' (word_slot H q (get_off H q w)) = 0
         \<and> same_except (range (word_slot H q)) w w')"
proof (cases "queue_items H q w")
  case Nil
  then show ?thesis using Queue_Get_empty [OF assms Nil] queue_same(1) by auto
next
  case (Cons x xs)
  then show ?thesis using Queue_Get_run [OF assms Cons] same_except_range by fastforce
qed

text \<open>A vector of sub-storages is a stack: \<^verbatim>\<open>Push\<close> returns the space of the first free index,
  a \<^verbatim>\<open>Pop\<close> after it returns the same space and restores the length, and \<^verbatim>\<open>Pop\<close> of an empty
  vector is an error that changes no slot.\<close>

theorem vector_push_pop:
  assumes "vector_ok H v w" and "vector_len H v w \<noteq> - 1"
  shows "\<exists>w1 w2. SubStorageVector_Push H v w = (Ok (SubStorageVector_At H v (vector_len H v w)), w1)
    \<and> vector_len H v w1 = vector_len H v w + 1
    \<and> SubStorageVector_Pop H v w1 = (Ok (SubStorageVector_At H v (vector_len H v w)), w2)
    \<and> vector_len H v w2 = vector_len H v w \<and> same_except {vector_length H v} w w2
    \<and> (vector_len H v w = 0 \<longrightarrow> (\<exists>e w3. SubStorageVector_Pop H v w2 = (Err e, w3) \<and> same_except {} w2 w3))"
proof -
  obtain w1 where w1: "SubStorageVector_Push H v w = (Ok (SubStorageVector_At H v (vector_len H v w)), w1)"
    "vector_ok H v w1" "vector_len H v w1 = vector_len H v w + 1" "same_except {vector_length H v} w w1"
    using Push_run [OF assms(1)] by blast
  have "vector_len H v w1 \<noteq> 0" using w1(3) assms(2) by (metis add.commute add_eq_0_iff)
  from Pop_run [OF w1(2) this] obtain w2
    where w2: "SubStorageVector_Pop H v w1 = (Ok (SubStorageVector_At H v (vector_len H v w)), w2)"
      "vector_ok H v w2" "vector_len H v w2 = vector_len H v w" "same_except {vector_length H v} w1 w2"
    using w1(3) by auto
  have "same_except {vector_length H v} w w2" using same_except_trans [OF w1(4) w2(4)] by simp
  then show ?thesis using w1 w2 Pop_empty [OF w2(2)] by auto
qed

end
