(* ===== verification/IndexedArray.thy ===== *)
theory IndexedArray
  imports StorageQueue
begin

text \<open>
  The layout shared by the address set and the address table: an array of addresses in the
  words of one storage space with the position of every address in a sub-space. The
  predicate \<open>indexed\<close> says that a world holds such an array, \<open>index_layout\<close> that its slots do
  not overlap; the latter follows from the absence of hash collisions on the pages used.
\<close>

section \<open>Arrays with an index\<close>

text \<open>An array of addresses in words 1 to \<open>length xs\<close> of a space \<open>s\<close>, its length in word 0,
  and the position of each address in the space \<open>sub\<close>. Shared with the address table.\<close>

definition by_slot :: "(bytes \<Rightarrow> bytes) \<Rightarrow> Storage \<Rightarrow> address \<Rightarrow> StorageSlot" where
  "by_slot H sub a = slot_at H sub (AddressToHash a)"

definition index_layout :: "(bytes \<Rightarrow> bytes) \<Rightarrow> Storage \<Rightarrow> Storage \<Rightarrow> nat \<Rightarrow> bool" where
  "index_layout H s sub N \<longleftrightarrow> distinct_words H s N \<and> Suc N < 2 ^ 64 \<and> inj (by_slot H sub)
     \<and> (\<forall>a i. i \<le> N \<longrightarrow> by_slot H sub a \<noteq> word_slot H s i)"

definition indexed :: "(bytes \<Rightarrow> bytes) \<Rightarrow> Storage \<Rightarrow> Storage \<Rightarrow> world \<Rightarrow> address list \<Rightarrow> bool" where
  "indexed H s sub w xs \<longleftrightarrow>
     slot_read w (word_slot H s 0) = ucast (of_nat (length xs) :: u64)
   \<and> (\<forall>i < length xs. slot_read w (word_slot H s (Suc i)) = AddressToHash (xs ! i)
        \<and> slot_read w (by_slot H sub (xs ! i)) = ucast (of_nat (Suc i) :: u64))
   \<and> (\<forall>a. a \<notin> set xs \<longrightarrow> slot_read w (by_slot H sub a) = 0)"

lemma layout_slots:
  assumes "index_layout H s sub N"
  shows "by_slot H sub a = by_slot H sub b \<longleftrightarrow> a = b"
    "i \<le> N \<Longrightarrow> by_slot H sub a \<noteq> word_slot H s i"
    "i \<le> N \<Longrightarrow> word_slot H s i \<noteq> by_slot H sub a"
    "i \<le> N \<Longrightarrow> j \<le> N \<Longrightarrow> word_slot H s i = word_slot H s j \<longleftrightarrow> i = j"
  using assms distinct_wordsD [of H s N i j] unfolding index_layout_def inj_def by metis+

lemma collision_free_subset: "collision_free H Y \<Longrightarrow> X \<subseteq> Y \<Longrightarrow> collision_free H X"
  unfolding collision_free_def by (meson inj_on_subset subsetD)

lemma layout_collision_free:
  assumes cf: "collision_free H (range (\<lambda>a. page sub (AddressToHash a))
       \<union> (\<lambda>i. page s (UintToHash (of_nat i))) ` {..N})"
    and ne: "sto_storageKey s \<noteq> sto_storageKey sub" and N: "Suc N < 2 ^ 64"
  shows "index_layout H s sub N"
proof -
  let ?A = "range (\<lambda>a. page sub (AddressToHash a))" and ?W = "(\<lambda>i. page s (UintToHash (of_nat i))) ` {..N}"
  have "collision_free H ?W" using cf by (rule collision_free_subset) (rule Un_upper2)
  moreover have "N < 2 ^ 64" using N by simp
  ultimately have "distinct_words H s N" by (rule distinct_words_collision_free)
  moreover have "a = b" if "by_slot H sub a = by_slot H sub b" for a b
  proof -
    have "mapAddress H sub (AddressToHash a) = mapAddress H sub (AddressToHash b)"
      using that by (simp only: by_slot_def slot_at_def StorageSlot.iffs)
    then have "AddressToHash a = AddressToHash b" using mapAddress_inject [OF cf] by blast
    then show ?thesis by simp
  qed
  moreover have "by_slot H sub a \<noteq> word_slot H s i" if "i \<le> N" for a i
  proof
    assume "by_slot H sub a = word_slot H s i"
    then have "mapAddress H sub (AddressToHash a) = mapAddress H s (UintToHash (of_nat i))"
      by (simp only: by_slot_def word_slot_def slot_at_def NewSlot_def StorageSlot.iffs)
    moreover have "page s (UintToHash (of_nat i)) \<in> ?A \<union> ?W" using that by blast
    ultimately have "sto_storageKey sub = sto_storageKey s" using mapAddress_inject [OF cf] by blast
    with ne show False by metis
  qed
  ultimately show ?thesis using N unfolding index_layout_def inj_def by blast
qed

lemma ucast_of_nat_inject:
  "i < 2 ^ 64 \<Longrightarrow> j < 2 ^ 64 \<Longrightarrow> (ucast (of_nat i :: u64) :: hash) = ucast (of_nat j :: u64) \<longleftrightarrow> i = j"
  by (metis unat_ucast_of_nat)

lemma indexed_distinct: "indexed H s sub w xs \<Longrightarrow> length xs < 2 ^ 64 - 1 \<Longrightarrow> distinct xs"
  unfolding distinct_conv_nth indexed_def
proof (intro allI impI notI)
  fix i j assume x: "slot_read w (word_slot H s 0) = ucast (of_nat (length xs) :: u64)
   \<and> (\<forall>i < length xs. slot_read w (word_slot H s (Suc i)) = AddressToHash (xs ! i)
        \<and> slot_read w (by_slot H sub (xs ! i)) = ucast (of_nat (Suc i) :: u64))
   \<and> (\<forall>a. a \<notin> set xs \<longrightarrow> slot_read w (by_slot H sub a) = 0)"
    and len: "length xs < 2 ^ 64 - 1" and ij: "i < length xs" "j < length xs" "i \<noteq> j" and "xs ! i = xs ! j"
  then have "(ucast (of_nat (Suc i) :: u64) :: hash) = ucast (of_nat (Suc j) :: u64)" by metis
  moreover have "Suc i < 2 ^ 64" "Suc j < 2 ^ 64" using ij len by simp_all
  ultimately show False using ucast_of_nat_inject [of "Suc i" "Suc j"] ij by blast
qed

lemma indexed_member:
  assumes "indexed H s sub w xs" "length xs < 2 ^ 64 - 1"
  shows "slot_read w (by_slot H sub a) \<noteq> 0 \<longleftrightarrow> a \<in> set xs"
proof
  assume "a \<in> set xs"
  then obtain i where i: "i < length xs" "xs ! i = a" by (metis in_set_conv_nth)
  then have "slot_read w (by_slot H sub a) = ucast (of_nat (Suc i) :: u64)"
    using assms(1) by (auto simp: indexed_def)
  moreover have "Suc i < 2 ^ 64" using i assms(2) by simp
  then have "unat (ucast (of_nat (Suc i) :: u64) :: hash) = Suc i" by (rule unat_ucast_of_nat)
  ultimately show "slot_read w (by_slot H sub a) \<noteq> 0" by (metis nat.distinct(1) unat_0)
qed (use assms(1) in \<open>auto simp: indexed_def\<close>)

lemma indexed_tick [simp]: "indexed H s sub (tick k a w) xs = indexed H s sub w xs"
  by (simp add: indexed_def)

lemma indexed_snoc:
  assumes ix: "indexed H s sub w xs" and lay: "index_layout H s sub N" and n: "Suc (length xs) \<le> N"
    and a: "a \<notin> set xs"
    and rd: "\<And>ss. slot_read w' ss = (if ss = word_slot H s 0 then ucast (of_nat (Suc (length xs)) :: u64)
       else if ss = word_slot H s (Suc (length xs)) then AddressToHash a
       else if ss = by_slot H sub a then ucast (of_nat (Suc (length xs)) :: u64) else slot_read w ss)"
  shows "indexed H s sub w' (xs @ [a])"
  unfolding indexed_def
proof (intro conjI allI impI)
  note L = layout_slots [OF lay]
  show "slot_read w' (word_slot H s 0) = ucast (of_nat (length (xs @ [a])) :: u64)" by (simp add: rd)
  fix i assume i: "i < length (xs @ [a])"
  show "slot_read w' (word_slot H s (Suc i)) = AddressToHash ((xs @ [a]) ! i)"
    using i n ix L(4) [of "Suc i" 0] L(4) [of "Suc i" "Suc (length xs)"] L(3) [of "Suc i" a]
    by (auto simp: rd nth_append indexed_def less_Suc_eq)
  show "slot_read w' (by_slot H sub ((xs @ [a]) ! i)) = ucast (of_nat (Suc i) :: u64)"
  proof (cases "i < length xs")
    case True
    then have "xs ! i \<noteq> a" using a nth_mem by blast
    then show ?thesis using True n ix L(1) [of "xs ! i" a] L(2) [of 0] L(2) [of "Suc (length xs)"]
      by (simp add: rd nth_append indexed_def)
  next
    case False
    then show ?thesis using i n L(2) [of 0] L(2) [of "Suc (length xs)"] by (simp add: rd nth_append less_Suc_eq)
  qed
next
  note L = layout_slots [OF lay]
  fix b assume "b \<notin> set (xs @ [a])"
  then show "slot_read w' (by_slot H sub b) = 0"
    using n ix L(1) [of b a] L(2) [of 0 b] L(2) [of "Suc (length xs)" b] by (simp add: rd indexed_def)
qed

lemma decrement_run:
  assumes "sysw w" "slot_read w ss = ucast (of_nat (Suc n) :: u64)" "Suc n < 2 ^ 64"
  shows "\<exists>k a k' a'. StorageBackedUint64_Decrement ss w =
    (Ok (of_nat n), slot_write ss (ucast (of_nat n :: u64)) (tick k' a' (tick k a w)))"
proof -
  have "unat (of_nat (Suc n) :: u64) = Suc n" using assms(3) by (rule unat_of_nat_u64)
  then have "(of_nat (Suc n) :: u64) \<noteq> 0" by (metis nat.distinct(1) unat_0)
  moreover have "(of_nat (Suc n) :: u64) - 1 = of_nat n" by simp
  ultimately have "StorageBackedUint64_Decrement ss w =
     (Ok (of_nat n), slot_write ss (ucast (of_nat n :: u64))
       (tick StorageAccessWrite (WriteCost (ucast (of_nat n :: u64)))
         (tick StorageAccessRead StorageReadCost w)))"
    using assms(1,2)
    by (simp add: StorageBackedUint64_Decrement_def bnd_def op_simps sys_simps del: of_nat_Suc)
  then show ?thesis by blast
qed

text \<open>\<^verbatim>\<open>Remove\<close> moves the last member into the gap.\<close>

definition remove_at :: "nat \<Rightarrow> 'a list \<Rightarrow> 'a list" where
  "remove_at i xs = (butlast xs)[i := last xs]"

lemma length_remove_at [simp]: "length (remove_at i xs) = length xs - 1"
  by (simp add: remove_at_def)

lemma nth_remove_at:
  "j < length xs - 1 \<Longrightarrow> remove_at i xs ! j = (if j = i then last xs else xs ! j)"
  by (simp add: remove_at_def nth_list_update nth_butlast)

lemma set_remove_at:
  assumes "distinct xs" "i < length xs"
  shows "set (remove_at i xs) = set xs - {xs ! i}" and "distinct (remove_at i xs)"
proof -
  obtain ys y where xs: "xs = ys @ [y]" using assms(2) by (cases xs rule: rev_cases) auto
  have "set (remove_at i xs) = set xs - {xs ! i} \<and> distinct (remove_at i xs)"
  proof (cases "i < length ys")
    case True
    then obtain us vs where ys: "ys = us @ ys ! i # vs" "length us = i"
      by (metis id_take_nth_drop length_take min.absorb4)
    define a where "a = ys ! i"
    have ys': "ys = us @ a # vs" using ys(1) by (simp only: a_def)
    have "remove_at i xs = ys[i := y]" by (simp add: xs remove_at_def)
    then have "remove_at i xs = us @ y # vs" using ys(2) by (simp add: ys' list_update_append)
    moreover have "xs ! i = a" using ys(2) by (simp add: xs ys' nth_append)
    ultimately show ?thesis using assms(1) by (auto simp: xs ys')
  next
    case False
    then have "i = length ys" using assms(2) xs by simp
    then show ?thesis using assms(1) xs by (simp add: remove_at_def list_update_beyond)
  qed
  then show "set (remove_at i xs) = set xs - {xs ! i}" "distinct (remove_at i xs)" by blast+
qed

lemma indexed_remove:
  assumes ix: "indexed H s sub w xs" and lay: "index_layout H s sub N" and n: "length xs \<le> N"
    and d: "distinct xs" and i: "i < length xs"
    and rd: "\<And>ss. slot_read w' ss = (if ss = word_slot H s 0 then ucast (of_nat (length xs - 1) :: u64)
       else if ss = word_slot H s (length xs) then 0
       else if Suc i < length xs \<and> ss = by_slot H sub (last xs) then ucast (of_nat (Suc i) :: u64)
       else if Suc i < length xs \<and> ss = word_slot H s (Suc i) then AddressToHash (last xs)
       else if ss = by_slot H sub (xs ! i) then 0 else slot_read w ss)"
  shows "indexed H s sub w' (remove_at i xs)"
  unfolding indexed_def
proof (intro conjI allI impI)
  note L = layout_slots [OF lay]
  have last: "last xs = xs ! (length xs - 1)" using i by (intro last_conv_nth) auto
  show "slot_read w' (word_slot H s 0) = ucast (of_nat (length (remove_at i xs)) :: u64)" by (simp add: rd)
  fix j assume j: "j < length (remove_at i xs)"
  have "word_slot H s (Suc j) \<noteq> word_slot H s 0" "word_slot H s (Suc j) \<noteq> word_slot H s (length xs)"
    "word_slot H s (Suc j) = word_slot H s (Suc i) \<longleftrightarrow> j = i" "word_slot H s (Suc j) \<noteq> by_slot H sub b" for b
    using j n i L(4) [of "Suc j" 0] L(4) [of "Suc j" "length xs"] L(4) [of "Suc j" "Suc i"] L(3) [of "Suc j" b]
    by auto
  then show "slot_read w' (word_slot H s (Suc j)) = AddressToHash (remove_at i xs ! j)"
    using j ix by (auto simp: rd nth_remove_at indexed_def)
  have bys: "by_slot H sub b \<noteq> word_slot H s 0" "by_slot H sub b \<noteq> word_slot H s (length xs)" 
    "by_slot H sub b \<noteq> word_slot H s (Suc i)" for b
    using L(2) [of 0 b] L(2) [of "length xs" b] L(2) [of "Suc i" b] n i by auto
  show "slot_read w' (by_slot H sub (remove_at i xs ! j)) = ucast (of_nat (Suc j) :: u64)"
  proof (cases "j = i")
    case True
    with j have "Suc i < length xs" by simp
    with True show ?thesis by (simp add: rd bys nth_remove_at)
  next
    case False
    then have "xs ! j \<noteq> xs ! i" "xs ! j \<noteq> last xs" using d i j last by (simp_all add: nth_eq_iff_index_eq)
    then show ?thesis using j False ix by (simp add: rd bys L(1) nth_remove_at indexed_def)
  qed
next
  note L = layout_slots [OF lay]
  fix b assume b: "b \<notin> set (remove_at i xs)"
  then have nb: "b = xs ! i \<or> b \<notin> set xs" using set_remove_at(1) [OF d i] by auto
  have "b \<noteq> last xs" if "Suc i < length xs"
  proof
    assume "b = last xs"
    moreover have "last xs = xs ! (length xs - 1)" using i by (intro last_conv_nth) auto
    ultimately have "b \<noteq> xs ! i" "b \<in> set xs" using d that by (auto simp: nth_eq_iff_index_eq)
    with nb show False by blast
  qed
  moreover have "by_slot H sub b \<noteq> word_slot H s 0" "by_slot H sub b \<noteq> word_slot H s (length xs)" 
    "Suc i < length xs \<Longrightarrow> by_slot H sub b \<noteq> word_slot H s (Suc i)"
    using L(2) [of 0 b] L(2) [of "length xs" b] L(2) [of "Suc i" b] n by auto
  ultimately show "slot_read w' (by_slot H sub b) = 0"
    using nb ix by (auto simp: rd L(1) indexed_def)
qed

lemma collect_reads:
  assumes "\<And>i u. i \<in> set is \<Longrightarrow> sysw u \<Longrightarrow> same_except {} w u \<Longrightarrow>
      \<exists>u'. f i u = (Ok (g i), u') \<and> sysw u' \<and> same_except {} w u'"
    and "sysw w0" "same_except {} w w0"
  shows "\<exists>w'. collect is f w0 = (Ok (map g is), w') \<and> sysw w' \<and> same_except {} w w'"
  using assms
proof (induction "is" arbitrary: w0)
  case Nil
  then show ?case by (simp add: ret_run)
next
  case (Cons i "is")
  obtain u where u: "f i w0 = (Ok (g i), u)" "sysw u" "same_except {} w u"
    using Cons.prems(1) [of i w0] Cons.prems(2,3) by auto
  obtain w' where "collect is f u = (Ok (map g is), w')" "sysw w'" "same_except {} w w'"
    using Cons.IH [OF Cons.prems(1) u(2,3)] by auto
  then show ?case using u(1) by (auto simp: bnd_def ret_run)
qed

end
