(* ===== verification/Concrete.thy ===== *)
theory Concrete
  imports IndexedArray
begin

text \<open>
  A concrete world (empty storage, a writable system burner) and a concrete stand-in for the
  hash function, which does not collide on the pages that small structures use. Examples
  evaluate the model on them; they show that the hypotheses on the hash can be met.
\<close>


definition demo_hash :: "bytes \<Rightarrow> bytes" where
  "demo_hash x = of_nat (length x) # take 31 (drop (length x - 30) x @ replicate 31 0)"

definition demo_storage :: Storage where
  "demo_storage = KVStorage 0"

lemma length_demo_hash [simp]: "length (demo_hash x) = 32"
  by (simp add: demo_hash_def)

lemma take_demo_hash:
  "length b = 30 \<Longrightarrow> length K \<le> 32 \<Longrightarrow>
   take 31 (demo_hash (K @ 0 # b)) = of_nat (length K + 31) # b"
  by (simp add: demo_hash_def)

text \<open>Pages whose first byte is zero, below the root space and below one sub-space.\<close>

definition low_pages :: "bytes \<Rightarrow> bytes set" where
  "low_pages K = (\<lambda>b. K @ 0 # b) ` {b. length b = 30}"

lemma demo_collision_free:
  assumes "length K = 32"
  shows "collision_free demo_hash (low_pages [] \<union> low_pages K)"
  unfolding collision_free_def
proof (intro conjI ballI inj_onI)
  fix x y assume "x \<in> low_pages [] \<union> low_pages K" "y \<in> low_pages [] \<union> low_pages K"
    and eq: "take 31 (demo_hash x) = take 31 (demo_hash y)"
  then obtain a b p q where x: "x = p @ 0 # a" "length a = 30" "p = [] \<or> p = K"
    and y: "y = q @ 0 # b" "length b = 30" "q = [] \<or> q = K" unfolding low_pages_def by blast
  have "length p \<le> 32" "length q \<le> 32" using x y assms by auto
  then have "(of_nat (length p + 31) :: byte) # a = of_nat (length q + 31) # b"
    using eq x y take_demo_hash by metis
  then have "a = b" "(of_nat (length p + 31) :: byte) = of_nat (length q + 31)" by simp_all
  then show "x = y" using x y assms by auto
qed simp

lemma page_low:
  assumes "unat k < 256 ^ 31"
  shows "page s k \<in> low_pages (sto_storageKey s)"
proof -
  have "unat k div 256 div 256 ^ 30 = 0"
    using assms by (simp add: div_mult2_eq [symmetric] del: power_Suc)
  then have "be_bytes 1 (unat k div 256 div 256 ^ 30) = [0]" by simp
  then have "take 31 (hash_Bytes k) = 0 # be_bytes 30 (unat k div 256)"
    using be_bytes_add [of 1 30 "unat k div 256"] by (simp add: hash_Bytes_page)
  then show ?thesis by (simp add: page_def low_pages_def)
qed

lemma page_low_keys:
  "page s (AddressToHash a) \<in> low_pages (sto_storageKey s)"
  "page s (UintToHash n) \<in> low_pages (sto_storageKey s)"
proof -
  have "unat a < 2 ^ 160" "unat n < 2 ^ 64" using unat_lt_pow [of a] unat_lt_pow [of n] by simp_all
  moreover have "(2 :: nat) ^ 160 < 256 ^ 31" "(2 :: nat) ^ 64 < 256 ^ 31" by simp_all
  ultimately have "unat (AddressToHash a) < 256 ^ 31" "unat (UintToHash n) < 256 ^ 31"
    unfolding unat_AddressToHash unat_UintToHash by linarith+
  then show "page s (AddressToHash a) \<in> low_pages (sto_storageKey s)"
    "page s (UintToHash n) \<in> low_pages (sto_storageKey s)" by (simp_all only: page_low)
qed

lemma demo_layout:
  assumes "Suc N < 2 ^ 64"
  shows "index_layout demo_hash demo_storage (OpenSubStorage demo_hash demo_storage i) N"
proof (rule layout_collision_free [OF collision_free_subset [OF demo_collision_free] _ assms])
  let ?sub = "OpenSubStorage demo_hash demo_storage i"
  show "length (sto_storageKey ?sub) = 32" by (simp add: OpenSubStorage_def)
  have "low_pages (sto_storageKey demo_storage) = low_pages []" by (simp add: demo_storage_def KVStorage_def)
  then show "range (\<lambda>a. page ?sub (AddressToHash a))
      \<union> (\<lambda>i. page demo_storage (UintToHash (of_nat i))) ` {..N}
    \<subseteq> low_pages [] \<union> low_pages (sto_storageKey ?sub)"
    using page_low_keys by blast
  show "sto_storageKey demo_storage \<noteq> sto_storageKey ?sub"
    by (simp add: demo_storage_def KVStorage_def OpenSubStorage_def demo_hash_def)
qed

lemma demo_distinct_words: "Suc N < 2 ^ 64 \<Longrightarrow> distinct_words demo_hash demo_storage N"
  using demo_layout by (simp add: index_layout_def)

end
