(* ===== verification/Layout.thy ===== *)
theory Layout
  imports Concrete
begin

text \<open>
  Locations in the tree of storage spaces: a path of sub-space identifiers from a root space,
  and a key. \<open>layout H s L\<close> says that the locations \<open>L\<close> below \<open>s\<close> have different slots; it
  follows when the hash does not collide on the inputs at hand. Components state what they
  need of the hash in this form. The second half gives a concrete hash for which the layout of
  any small tree holds.
\<close>

section \<open>Paths and locations\<close>

type_synonym loc = "bytes list \<times> hash"

definition open_path :: "(bytes \<Rightarrow> bytes) \<Rightarrow> Storage \<Rightarrow> bytes list \<Rightarrow> Storage" where
  "open_path H s path = fold (\<lambda>sid st. OpenSubStorage H st sid) path s"

definition loc_slot :: "(bytes \<Rightarrow> bytes) \<Rightarrow> Storage \<Rightarrow> loc \<Rightarrow> StorageSlot" where
  "loc_slot H s l = slot_at H (open_path H s (fst l)) (snd l)"

definition layout :: "(bytes \<Rightarrow> bytes) \<Rightarrow> Storage \<Rightarrow> loc set \<Rightarrow> bool" where
  "layout H s L \<longleftrightarrow> inj_on (loc_slot H s) L"

lemma layoutD:
  "layout H s L \<Longrightarrow> l \<in> L \<Longrightarrow> m \<in> L \<Longrightarrow> loc_slot H s l = loc_slot H s m \<longleftrightarrow> l = m"
  by (auto simp: layout_def inj_on_def)

lemma layout_mono: "layout H s L \<Longrightarrow> M \<subseteq> L \<Longrightarrow> layout H s M"
  unfolding layout_def by (rule inj_on_subset)

lemma open_path_Nil [simp]: "open_path H s [] = s"
  by (simp add: open_path_def)

lemma open_path_snoc [simp]: "open_path H s (p @ [i]) = OpenSubStorage H (open_path H s p) i"
  by (simp add: open_path_def)

lemma OpenSubStorage_path: "OpenSubStorage H s i = open_path H s [i]"
  by (simp add: open_path_def)

lemma open_path_append: "open_path H (open_path H s p) q = open_path H s (p @ q)"
  by (simp add: open_path_def)

lemma account_open_path [simp]: "sto_account (open_path H s p) = sto_account s"
  by (induction p rule: rev_induct) (simp_all add: OpenSubStorage_def)

lemma NewSlot_loc: "NewSlot H s off = loc_slot H s ([], UintToHash off)"
  by (simp add: loc_slot_def NewSlot_slot)

lemma loc_slot_path: "loc_slot H (open_path H s p) (q, k) = loc_slot H s (p @ q, k)"
  by (simp add: loc_slot_def open_path_append)

abbreviation path_key :: "(bytes \<Rightarrow> bytes) \<Rightarrow> Storage \<Rightarrow> bytes list \<Rightarrow> bytes" where
  "path_key H s p \<equiv> sto_storageKey (open_path H s p)"

lemma storageKey_OpenSubStorage [simp]: "sto_storageKey (OpenSubStorage H s i) = H (sto_storageKey s @ i)"
  by (simp add: OpenSubStorage_def)

lemma path_key_snoc: "path_key H s (p @ [i]) = H (path_key H s p @ i)"
  by simp

text \<open>Inputs that are hashed to open the spaces \<open>P\<close>.\<close>

definition open_inputs :: "(bytes \<Rightarrow> bytes) \<Rightarrow> Storage \<Rightarrow> bytes list set \<Rightarrow> bytes set" where
  "open_inputs H s P = {path_key H s p @ i | p i. p @ [i] \<in> P}"

lemma path_keys_differ:
  assumes closed: "\<And>p i. p @ [i] \<in> P \<Longrightarrow> p \<in> P"
    and inj: "inj_on H (open_inputs H s P)" and len: "\<And>x. x \<in> open_inputs H s P \<Longrightarrow> length (H x) = 32"
    and root: "length (sto_storageKey s) = 32" "sto_storageKey s \<notin> H ` open_inputs H s P"
  shows "inj_on (path_key H s) P"
proof -
  have l32: "p \<in> P \<Longrightarrow> length (path_key H s p) = 32" for p
  proof (cases p rule: rev_exhaust)
    case (snoc q i)
    assume "p \<in> P"
    with snoc have "path_key H s q @ i \<in> open_inputs H s P" by (auto simp: open_inputs_def)
    from len [OF this] snoc show ?thesis by simp
  qed (simp add: root(1))
  have "p = q" if "p \<in> P" "q \<in> P" "path_key H s p = path_key H s q" for p q
    using that
  proof (induction p arbitrary: q rule: rev_induct)
    case Nil
    show ?case
    proof (cases q rule: rev_exhaust)
      case (snoc q' i)
      then have "path_key H s q' @ i \<in> open_inputs H s P" using Nil by (auto simp: open_inputs_def)
      then show ?thesis using Nil snoc root(2) by (metis image_eqI open_path_Nil path_key_snoc)
    qed simp
  next
    case (snoc i p)
    have inp: "path_key H s p @ i \<in> open_inputs H s P" using snoc by (auto simp: open_inputs_def)
    show ?case
    proof (cases q rule: rev_exhaust)
      case Nil
      then show ?thesis using inp snoc.prems root(2) by (metis image_eqI open_path_Nil path_key_snoc)
    next
      case (snoc q' j)
      then have "path_key H s q' @ j \<in> open_inputs H s P" using snoc.prems by (auto simp: open_inputs_def)
      then have "path_key H s p @ i = path_key H s q' @ j"
        using inj inp snoc snoc.prems by (simp add: inj_on_def)
      moreover have "p \<in> P" "q' \<in> P" using closed snoc.prems snoc by blast+
      ultimately show ?thesis using l32 snoc.IH snoc by (metis append_eq_append_conv)
    qed
  qed
  then show ?thesis by (rule inj_onI)
qed

lemma layout_if_keys_differ:
  assumes "inj_on (path_key H s) (fst ` L)"
    and cf: "collision_free H ((\<lambda>(p, k). page (open_path H s p) k) ` L)"
  shows "layout H s L"
  unfolding layout_def
proof (rule inj_onI)
  fix l m assume l: "l \<in> L" and m: "m \<in> L" and eq: "loc_slot H s l = loc_slot H s m"
  obtain p k q k' where lm: "l = (p, k)" "m = (q, k')" by fastforce
  have "page (open_path H s p) k \<in> (\<lambda>(p, k). page (open_path H s p) k) ` L"
    "page (open_path H s q) k' \<in> (\<lambda>(p, k). page (open_path H s p) k) ` L"
    using l m lm by force+
  from mapAddress_inject [OF cf this] have "path_key H s p = path_key H s q \<and> k = k'"
    using eq lm by (simp add: loc_slot_def slot_at_def)
  then show "l = m" using assms(1) l m lm by (auto simp: inj_on_def)
qed

section \<open>A concrete hash for trees of spaces\<close>

definition id_code :: "bytes \<Rightarrow> bytes" where
  "id_code r = of_nat (length r) # drop (length r) (replicate 4 0 @ r)"

definition node :: "bytes \<Rightarrow> bytes" where
  "node c = of_nat (length c) # c @ replicate (31 - length c) 0"

definition tree_hash :: "bytes \<Rightarrow> bytes" where
  "tree_hash x = (let K = take 32 x; c = take (unat (hd K)) (tl K)
     in take 32 (node (c @ id_code (drop 32 x)) @ replicate 32 0))"

definition tree_root :: Storage where
  "tree_root = \<lparr>sto_account = 0, sto_storageKey = node []\<rparr>"

lemma length_id_code [simp]: "length (id_code r) = 5"
  by (simp add: id_code_def)

lemma length_node: "length c \<le> 31 \<Longrightarrow> length (node c) = 32"
  by (simp add: node_def)

lemma tree_hash_node:
  assumes "length c \<le> 26"
  shows "tree_hash (node c @ r) = node (c @ id_code r)"
proof -
  have "unat (of_nat (length c) :: byte) = length c"
    using assms by (simp add: unat_of_nat)
  then show ?thesis
    using assms length_node [of c] length_node [of "c @ id_code r"]
    by (simp add: tree_hash_def Let_def node_def)
qed

lemma node_inject:
  assumes "length c \<le> 30" "length d \<le> 30" "take 31 (node c) = take 31 (node d)"
  shows "c = d"
proof -
  have "unat (of_nat (length c) :: byte) = length c" "unat (of_nat (length d) :: byte) = length d"
    using assms(1,2) by (simp_all add: unat_of_nat)
  moreover have "(of_nat (length c) :: byte) = of_nat (length d)" using assms(3) by (simp add: node_def)
  ultimately have "length c = length d" by metis
  then show ?thesis using assms by (simp add: node_def)
qed

lemma tree_key: "length p \<le> 5 \<Longrightarrow> path_key tree_hash tree_root p = node (concat (map id_code p))"
proof (induction p rule: rev_induct)
  case (snoc i p)
  have "length (concat (map id_code p)) = 5 * length p" by (induction p) simp_all
  then show ?case using snoc tree_hash_node by simp
qed (simp add: tree_root_def)

lemma concat_codes_inject:
  "inj_on id_code S \<Longrightarrow> set p \<subseteq> S \<Longrightarrow> set q \<subseteq> S \<Longrightarrow>
   concat (map id_code p) = concat (map id_code q) \<Longrightarrow> p = q"
proof (induction p arbitrary: q)
  case Nil
  then show ?case by (cases q) (simp_all add: id_code_def)
next
  case (Cons i p)
  then show ?case
  proof (cases q)
    case Nil
    then show ?thesis using Cons.prems(4) by (simp add: id_code_def)
  next
    case (Cons j r)
    then have "id_code i = id_code j" "concat (map id_code p) = concat (map id_code r)"
      using Cons.prems(4) by simp_all
    then show ?thesis using Cons Cons.prems Cons.IH [of r] by (auto dest: inj_onD)
  qed
qed

lemma length_concat_codes [simp]: "length (concat (map id_code p)) = 5 * length p"
  by (induction p) simp_all

lemma page_code:
  assumes "unat k < 2 ^ 40"
  shows "id_code (take 31 (hash_Bytes k)) = 31 # be_bytes 4 (unat k div 256)"
  using be_bytes_add [of 27 4 "unat k div 256"] by (simp add: id_code_def hash_Bytes_page)

text \<open>Spaces up to five levels below the root, whose identifiers differ in their codes, with keys
  below \<open>2 ^ 40\<close>: no two of their words share a slot.\<close>

lemma tree_layout:
  assumes inj: "inj_on id_code S"
    and L: "\<And>p k. (p, k) \<in> L \<Longrightarrow> set p \<subseteq> S \<and> length p \<le> 5 \<and> unat k < 2 ^ 40"
  shows "layout tree_hash tree_root L"
proof (rule layout_if_keys_differ)
  have c31: "5 * length p \<le> 25" if "(p, k) \<in> L" for p k using L [OF that] by simp
  show "inj_on (path_key tree_hash tree_root) (fst ` L)"
  proof (rule inj_onI)
    fix p q assume p: "p \<in> fst ` L" and q: "q \<in> fst ` L"
      and eq: "path_key tree_hash tree_root p = path_key tree_hash tree_root q"
    obtain k j where "(p, k) \<in> L" "(q, j) \<in> L" using p q by auto
    then have l: "length p \<le> 5" "length q \<le> 5" and s: "set p \<subseteq> S" "set q \<subseteq> S"
      using L by blast+
    have "node (concat (map id_code p)) = node (concat (map id_code q))"
      using eq by (simp only: tree_key [OF l(1)] tree_key [OF l(2)])
    then have "take 31 (node (concat (map id_code p))) = take 31 (node (concat (map id_code q)))"
      by (rule arg_cong)
    moreover have "length (concat (map id_code p)) \<le> 30" "length (concat (map id_code q)) \<le> 30"
      using l unfolding length_concat_codes by linarith+
    ultimately have "concat (map id_code p) = concat (map id_code q)"
      using node_inject by blast
    then show "p = q" using concat_codes_inject [OF inj s] by blast
  qed
  have hp: "tree_hash (page (open_path tree_hash tree_root p) k)
      = node (concat (map id_code p) @ 31 # be_bytes 4 (unat k div 256))" if "(p, k) \<in> L" for p k
    using L [OF that] tree_hash_node [of "concat (map id_code p)"] by (simp add: page_def tree_key page_code)
  show "collision_free tree_hash ((\<lambda>(p, k). page (open_path tree_hash tree_root p) k) ` L)"
    unfolding collision_free_def
  proof (intro conjI ballI inj_onI)
    fix x assume "x \<in> (\<lambda>(p, k). page (open_path tree_hash tree_root p) k) ` L"
    then obtain p k where "(p, k) \<in> L" "x = page (open_path tree_hash tree_root p) k" by auto
    then show "length (tree_hash x) = 32" using c31 by (fastforce simp: hp length_node)
  next
    fix x y assume "x \<in> (\<lambda>(p, k). page (open_path tree_hash tree_root p) k) ` L"
      "y \<in> (\<lambda>(p, k). page (open_path tree_hash tree_root p) k) ` L"
      and eq: "take 31 (tree_hash x) = take 31 (tree_hash y)"
    then obtain p k q j where x: "(p, k) \<in> L" "x = page (open_path tree_hash tree_root p) k"
      and y: "(q, j) \<in> L" "y = page (open_path tree_hash tree_root q) j" by auto
    have "take 31 (node (concat (map id_code p) @ 31 # be_bytes 4 (unat k div 256)))
        = take 31 (node (concat (map id_code q) @ 31 # be_bytes 4 (unat j div 256)))"
      using eq by (simp only: x(2) y(2) hp [OF x(1)] hp [OF y(1)])
    moreover have "length (concat (map id_code p) @ 31 # be_bytes 4 (unat k div 256)) \<le> 30"
      "length (concat (map id_code q) @ 31 # be_bytes 4 (unat j div 256)) \<le> 30"
      using c31 [OF x(1)] c31 [OF y(1)] by (simp_all only: length_append list.size length_be_bytes length_concat_codes)
    ultimately have "concat (map id_code p) @ 31 # be_bytes 4 (unat k div 256)
        = concat (map id_code q) @ 31 # be_bytes 4 (unat j div 256)"
      using node_inject by blast
    then have c: "concat (map id_code p) = concat (map id_code q)"
      and b: "be_bytes 4 (unat k div 256) = be_bytes 4 (unat j div 256)"
      by (simp_all add: append_eq_append_conv)
    have "p = q" using concat_codes_inject [OF inj _ _ c] L x y by blast
    moreover have "unat k div 256 < 256 ^ 4" "unat j div 256 < 256 ^ 4"
      using L [OF x(1)] L [OF y(1)] by (simp_all add: div_less_iff_less_mult)
    then have "unat k div 256 = unat j div 256"
      using b be_bytes_inject [of "unat k div 256" 4 "unat j div 256"] by blast
    then have "take 31 (hash_Bytes k) = take 31 (hash_Bytes j)" by (simp only: hash_page_inject)
    ultimately show "x = y" using x y by (simp add: page_def)
  qed
qed

section \<open>A concrete hash for spaces keyed by addresses\<close>

text \<open>Spaces are told apart by two bytes per level; the pages of keys below \<open>2 ^ 160\<close> keep all their bytes.\<close>

definition short_code :: "bytes \<Rightarrow> bytes" where
  "short_code r = [of_nat (length r), last r]"

definition wide_hash :: "bytes \<Rightarrow> bytes" where
  "wide_hash x = (let K = take 32 x; r = drop 32 x; c = take (unat (hd K)) (tl K)
     in if length r = 31 then take 12 K @ drop 12 r @ [0] else take 32 (node (c @ short_code r) @ replicate 32 0))"

lemma length_short_code [simp]: "length (short_code r) = 2"
  by (simp add: short_code_def)

lemma wide_hash_node:
  assumes "length c \<le> 29" "length r \<noteq> 31"
  shows "wide_hash (node c @ r) = node (c @ short_code r)"
proof -
  have "unat (of_nat (length c) :: byte) = length c"
    using assms by (simp add: unat_of_nat)
  then show ?thesis
    using assms length_node [of c] length_node [of "c @ short_code r"]
    by (simp add: wide_hash_def Let_def node_def)
qed

lemma length_short_codes [simp]: "length (concat (map short_code p)) = 2 * length p"
  by (induction p) simp_all

lemma wide_key:
  "length p \<le> 5 \<Longrightarrow> \<forall>i\<in>set p. length i \<noteq> 31 \<Longrightarrow> path_key wide_hash tree_root p = node (concat (map short_code p))"
proof (induction p rule: rev_induct)
  case (snoc i p)
  then show ?case using wide_hash_node [of "concat (map short_code p)" i] by simp
qed (simp add: tree_root_def)

lemma short_codes_inject:
  "inj_on short_code S \<Longrightarrow> set p \<subseteq> S \<Longrightarrow> set q \<subseteq> S \<Longrightarrow>
   concat (map short_code p) = concat (map short_code q) \<Longrightarrow> p = q"
proof (induction p arbitrary: q)
  case Nil
  then show ?case by (cases q) (simp_all add: short_code_def)
next
  case (Cons i p)
  then obtain j r where q: "q = j # r" by (cases q) (simp_all add: short_code_def)
  then have "short_code i = short_code j" "concat (map short_code p) = concat (map short_code r)"
    using Cons.prems(4) by simp_all
  then show ?case using q Cons.prems Cons.IH [of r] by (auto dest: inj_onD)
qed

lemma wide_page:
  assumes "unat k < 2 ^ 160" "length p \<le> 5" "\<forall>i\<in>set p. length i \<noteq> 31"
  shows "wide_hash (page (open_path wide_hash tree_root p) k)
     = take 12 (node (concat (map short_code p))) @ be_bytes 19 (unat k div 256) @ [0]"
proof -
  have l: "length (node (concat (map short_code p))) = 32" using assms(2) by (intro length_node) simp
  have "take 31 (hash_Bytes k) = be_bytes 12 (unat k div 256 div 256 ^ 19) @ be_bytes 19 (unat k div 256)"
    using be_bytes_add [of 12 19 "unat k div 256"] by (simp add: hash_Bytes_page)
  then have "drop 12 (take 31 (hash_Bytes k)) = be_bytes 19 (unat k div 256)" "length (take 31 (hash_Bytes k)) = 31" by simp_all
  then show ?thesis using l by (simp add: page_def wide_key [OF assms(2,3)] wide_hash_def)
qed

lemma wide_layout:
  assumes inj: "inj_on short_code S" and S: "\<forall>i\<in>S. length i \<noteq> 31"
    and L: "\<And>p k. (p, k) \<in> L \<Longrightarrow> set p \<subseteq> S \<and> length p \<le> 5 \<and> unat k < 2 ^ 160"
  shows "layout wide_hash tree_root L"
proof (rule layout_if_keys_differ)
  have node: "p = q" if "set p \<subseteq> S" "set q \<subseteq> S" "length p \<le> 5" "length q \<le> 5"
    "take 12 (node (concat (map short_code p))) = take 12 (node (concat (map short_code q)))" for p q
  proof -
    let ?c = "concat (map short_code p)" and ?d = "concat (map short_code q)"
    have len: "length ?c \<le> 10" "length ?d \<le> 10" using that by simp_all
    have small: "n \<le> 10 \<Longrightarrow> unat (of_nat n :: byte) = n" for n by (simp add: unat_of_nat)
    have "unat (of_nat (length ?c) :: byte) = length ?c" "unat (of_nat (length ?d) :: byte) = length ?d"
      by (intro small len)+
    moreover have "(of_nat (length ?c) :: byte) = of_nat (length ?d)"
      using that(5) by (simp add: node_def del: length_short_codes)
    ultimately have eq: "length ?c = length ?d" by metis
    moreover have "take 11 (?c @ replicate (31 - length ?c) 0) = take 11 (?d @ replicate (31 - length ?d) 0)"
      using that(5) by (simp add: node_def)
    ultimately have "?c = ?d" using len by (simp add: take_append)
    with short_codes_inject [OF inj that(1,2)] show ?thesis by blast
  qed
  have P: "p \<in> fst ` L \<Longrightarrow> set p \<subseteq> S \<and> length p \<le> 5 \<and> (\<forall>i\<in>set p. length i \<noteq> 31)" for p
    using L S by fastforce
  show "inj_on (path_key wide_hash tree_root) (fst ` L)"
  proof (rule inj_onI)
    fix p q assume p: "p \<in> fst ` L" and q: "q \<in> fst ` L"
      and eq: "path_key wide_hash tree_root p = path_key wide_hash tree_root q"
    have "node (concat (map short_code p)) = node (concat (map short_code q))"
      using eq P [OF p] P [OF q] by (metis wide_key)
    with node [of p q] P [OF p] P [OF q] show "p = q" by simp
  qed
  show "collision_free wide_hash ((\<lambda>(p, k). page (open_path wide_hash tree_root p) k) ` L)"
    unfolding collision_free_def
  proof (intro conjI ballI inj_onI)
    fix x assume "x \<in> (\<lambda>(p, k). page (open_path wide_hash tree_root p) k) ` L"
    then obtain p k where pk: "(p, k) \<in> L" "x = page (open_path wide_hash tree_root p) k" by auto
    then have "p \<in> fst ` L" by force
    from P [OF this] pk L [OF pk(1)] length_node [of "concat (map short_code p)"] show "length (wide_hash x) = 32"
      by (simp add: wide_page)
  next
    fix x y assume "x \<in> (\<lambda>(p, k). page (open_path wide_hash tree_root p) k) ` L"
      "y \<in> (\<lambda>(p, k). page (open_path wide_hash tree_root p) k) ` L"
      and eq: "take 31 (wide_hash x) = take 31 (wide_hash y)"
    then obtain p k q j where x: "(p, k) \<in> L" "x = page (open_path wide_hash tree_root p) k"
      and y: "(q, j) \<in> L" "y = page (open_path wide_hash tree_root q) j" by auto
    have pq: "p \<in> fst ` L" "q \<in> fst ` L" using x y by force+
    have l: "length (node (concat (map short_code p))) = 32" "length (node (concat (map short_code q))) = 32"
      using P [OF pq(1)] P [OF pq(2)] by (simp_all add: length_node)
    have h: "wide_hash x = take 12 (node (concat (map short_code p))) @ be_bytes 19 (unat k div 256) @ [0]"
      "wide_hash y = take 12 (node (concat (map short_code q))) @ be_bytes 19 (unat j div 256) @ [0]"
      using x y L [OF x(1)] L [OF y(1)] P [OF pq(1)] P [OF pq(2)] by (simp_all add: wide_page)
    have e: "take 12 (node (concat (map short_code p))) @ be_bytes 19 (unat k div 256) =
        take 12 (node (concat (map short_code q))) @ be_bytes 19 (unat j div 256)"
      using eq l by (simp add: h)
    then have e1: "take 12 (node (concat (map short_code p))) = take 12 (node (concat (map short_code q)))"
      and e2: "be_bytes 19 (unat k div 256) = be_bytes 19 (unat j div 256)"
      using l by (simp_all add: append_eq_append_conv)
    have "unat k div 256 < 256 ^ 19" "unat j div 256 < 256 ^ 19"
      using L [OF x(1)] L [OF y(1)] by (simp_all add: div_less_iff_less_mult)
    then have "unat k div 256 = unat j div 256" using e2 be_bytes_inject by blast
    then have "take 31 (hash_Bytes k) = take 31 (hash_Bytes j)" by (simp only: hash_page_inject)
    moreover have "p = q" using node [OF _ _ _ _ e1] P [OF pq(1)] P [OF pq(2)] by blast
    ultimately show "x = y" using x y by (simp add: page_def)
  qed
qed

end
