(* ===== verification/Util.thy ===== *)
theory Util
  imports Layout
begin

text \<open>
  Helpers of \<^verbatim>\<open>arbos/util/util.go\<close> and \<^verbatim>\<open>arbos/util/transfer.go\<close>: reading and writing of fixed-size
  values on byte streams, the address alias of L1 contracts, and balance transfers. A reader is
  an operation on the bytes still to be read; a writer appends to the bytes written so far (a
  memory buffer, whose writes do not fail).
\<close>

section \<open>Byte streams\<close>

type_synonym 'a reader = "(bytes, 'a) op"
type_synonym writer = "(bytes, unit) op"

text \<open>\<^verbatim>\<open>io.ReadFull\<close> into a buffer of \<open>n\<close> bytes.\<close>

definition ReadFull :: "nat \<Rightarrow> bytes reader" where
  "ReadFull n = (\<lambda>bs. if n \<le> length bs then (Ok (take n bs), drop n bs)
     else (Err (ErrMsg (if bs = [] then ''EOF'' else ''unexpected EOF'')), []))"

definition WriteBytes :: "bytes \<Rightarrow> writer" where
  "WriteBytes b = (\<lambda>out. (Ok (), out @ b))"

definition HashFromReader :: "hash reader" where
  "HashFromReader = bnd (ReadFull 32) (\<lambda>buf. ret (BytesToHash buf))"

definition Uint256FromReader :: "int reader" where
  "Uint256FromReader = bnd HashFromReader (\<lambda>asHash. ret (uint asHash))"

definition HashToWriter :: "hash \<Rightarrow> writer" where
  "HashToWriter val = WriteBytes (hash_Bytes val)"

definition AddressFromReader :: "address reader" where
  "AddressFromReader = bnd (ReadFull 20) (\<lambda>buf. ret (BytesToAddress buf))"

definition AddressFrom256FromReader :: "address reader" where
  "AddressFrom256FromReader = bnd HashFromReader (\<lambda>h. ret (BytesToAddress (drop 12 (hash_Bytes h))))"

definition AddressToWriter :: "address \<Rightarrow> writer" where
  "AddressToWriter val = WriteBytes (be_bytes 20 (unat val))"

definition AddressTo256ToWriter :: "address \<Rightarrow> writer" where
  "AddressTo256ToWriter val = bnd (WriteBytes (replicate 12 0)) (\<lambda>_. AddressToWriter val)"

definition Uint64FromReader :: "u64 reader" where
  "Uint64FromReader = bnd (ReadFull 8) (\<lambda>buf. ret (of_nat (be_val buf)))"

definition Uint64ToWriter :: "u64 \<Rightarrow> writer" where
  "Uint64ToWriter val = WriteBytes (be_bytes 8 (unat val))"

definition BytestringFromReader :: "u64 \<Rightarrow> bytes reader" where
  "BytestringFromReader maxBytesToRead =
     bnd Uint64FromReader (\<lambda>size1.
     if size1 > maxBytesToRead then throw (ErrMsg ''size too large in ByteStringFromReader'')
     else ReadFull (unat size1))"

definition BytestringToWriter :: "bytes \<Rightarrow> writer" where
  "BytestringToWriter val = bnd (Uint64ToWriter (of_nat (length val))) (\<lambda>_. WriteBytes val)"

section \<open>Conversions\<close>

definition IntToHash :: "int \<Rightarrow> hash" where
  "IntToHash val = BigBytesToHash val"

text \<open>\<^verbatim>\<open>big.Int.Bytes\<close>: the absolute value, big-endian, without leading zeros.\<close>

definition big_Bytes :: "nat \<Rightarrow> bytes" where
  "big_Bytes v = be_bytes ((bit_len v + 7) div 8) v"

definition AddressAliasOffset :: nat where
  "AddressAliasOffset = 0x1111000000000000000000000000000000001111"

definition InverseAddressAliasOffset :: nat where
  "InverseAddressAliasOffset = 2 ^ 160 - AddressAliasOffset"

definition RemapL1Address :: "address \<Rightarrow> address" where
  "RemapL1Address l1Addr =
     (let sumBytes = big_Bytes (be_val (be_bytes 20 (unat l1Addr)) + AddressAliasOffset);
          sumBytes = (if length sumBytes > 20 then drop (length sumBytes - 20) sumBytes else sumBytes)
      in BytesToAddress sumBytes)"

definition InverseRemapL1Address :: "address \<Rightarrow> address" where
  "InverseRemapL1Address l1Addr =
     (let sumBytes = big_Bytes (be_val (be_bytes 20 (unat l1Addr)) + InverseAddressAliasOffset);
          sumBytes = (if length sumBytes > 20 then drop (length sumBytes - 20) sumBytes else sumBytes)
      in BytesToAddress sumBytes)"

text \<open>Transaction types.\<close>

definition ArbitrumDepositTxType :: byte where "ArbitrumDepositTxType = 0x64"
definition ArbitrumUnsignedTxType :: byte where "ArbitrumUnsignedTxType = 0x65"
definition ArbitrumContractTxType :: byte where "ArbitrumContractTxType = 0x66"
definition ArbitrumRetryTxType :: byte where "ArbitrumRetryTxType = 0x68"
definition ArbitrumSubmitRetryableTxType :: byte where "ArbitrumSubmitRetryableTxType = 0x69"
definition ArbitrumInternalTxType :: byte where "ArbitrumInternalTxType = 0x6A"

lemmas tx_types = ArbitrumDepositTxType_def ArbitrumUnsignedTxType_def ArbitrumContractTxType_def
  ArbitrumRetryTxType_def ArbitrumSubmitRetryableTxType_def ArbitrumInternalTxType_def

definition DoesTxTypeAlias :: "byte option \<Rightarrow> bool" where
  "DoesTxTypeAlias txType = (case txType of None \<Rightarrow> False
     | Some t \<Rightarrow> t \<in> {ArbitrumUnsignedTxType, ArbitrumContractTxType, ArbitrumRetryTxType})"

definition TxTypeHasPosterCosts :: "byte \<Rightarrow> bool" where
  "TxTypeHasPosterCosts txType \<longleftrightarrow> txType \<notin> {ArbitrumUnsignedTxType, ArbitrumContractTxType,
     ArbitrumRetryTxType, ArbitrumInternalTxType, ArbitrumSubmitRetryableTxType, ArbitrumDepositTxType}"

section \<open>Transfers\<close>

datatype TracingScenario = TracingBeforeEVM | TracingDuringEVM | TracingAfterEVM

text \<open>What a transfer uses of the EVM: whether a tracer is attached (what it is told is not part of the
  state), the call depth, the version, and the EVM's own \<^verbatim>\<open>CreateZombieIfDeleted\<close>, a parameter.\<close>

definition ArbosVersion_Stylus :: u64 where "ArbosVersion_Stylus = 30"

record EVM =
  evm_tracer :: bool
  evm_depth :: nat
  evm_ArbOSVersion :: u64
  CreateZombieIfDeleted :: "address \<Rightarrow> world \<Rightarrow> world"

definition GetBalance :: "address \<Rightarrow> world \<Rightarrow> int" where
  "GetBalance a w = balance_of w a"

text \<open>Balances are 256-bit integers: \<^verbatim>\<open>uint256.MustFromBig\<close> panics when the amount does not fit, and
  the additions wrap.\<close>

definition MustFromBig :: "int \<Rightarrow> (world, int) op" where
  "MustFromBig v = (if 0 \<le> v \<and> v < 2 ^ 256 then ret v else panic ''overflow'')"

definition SubBalance :: "address \<Rightarrow> int \<Rightarrow> (world, unit) op" where
  "SubBalance a v = (\<lambda>w. (Ok (), w\<lparr>balance_of := (balance_of w)(a := (balance_of w a - v) mod 2 ^ 256)\<rparr>))"

definition AddBalance :: "address \<Rightarrow> int \<Rightarrow> (world, unit) op" where
  "AddBalance a v = (\<lambda>w. (Ok (), w\<lparr>balance_of := (balance_of w)(a := (balance_of w a + v) mod 2 ^ 256)\<rparr>))"

definition transfer_debit :: "address \<Rightarrow> int \<Rightarrow> EVM \<Rightarrow> (world, unit) op" where
  "transfer_debit a amount evm = (\<lambda>w.
     if BigLessThan (GetBalance a w) amount then (Err ErrInsufficientBalance, w)
     else bnd (MustFromBig amount) (SubBalance a)
       (if evm_ArbOSVersion evm < ArbosVersion_Stylus \<and> amount = 0
        then CreateZombieIfDeleted evm a w else w))"

definition TransferBalance ::
  "address option \<Rightarrow> address option \<Rightarrow> int \<Rightarrow> EVM \<Rightarrow> TracingScenario \<Rightarrow> (world, unit) op" where
  "TransferBalance from to amount evm scenario =
     (if amount < 0 then panic ''Tried to transfer negative amount''
      else if evm_tracer evm \<and> evm_depth evm \<noteq> 0 \<and> scenario \<noteq> TracingDuringEVM
      then throw (ErrMsg ''tracing scenario mismatch'')
      else
      bnd (case from of None \<Rightarrow> ret () | Some a \<Rightarrow> transfer_debit a amount evm) (\<lambda>_.
      case to of None \<Rightarrow> ret () | Some a \<Rightarrow> bnd (MustFromBig amount) (AddBalance a)))"

definition MintBalance :: "address option \<Rightarrow> int \<Rightarrow> EVM \<Rightarrow> TracingScenario \<Rightarrow> (world, unit) op" where
  "MintBalance to amount evm scenario = (\<lambda>w. case TransferBalance None to amount evm scenario w of
      (Err e, w') \<Rightarrow> (Panic ''impossible error'', w')
    | r \<Rightarrow> r)"

definition BurnBalance :: "address option \<Rightarrow> int \<Rightarrow> EVM \<Rightarrow> TracingScenario \<Rightarrow> (world, unit) op" where
  "BurnBalance from amount evm scenario = TransferBalance from None amount evm scenario"

section \<open>Laws\<close>

lemma ReadFull_run: "length b = n \<Longrightarrow> ReadFull n (b @ rest) = (Ok b, rest)"
  by (simp add: ReadFull_def)

lemma ReadFull_short: "length b < n \<Longrightarrow> \<exists>e. ReadFull n b = (Err e, [])"
  by (simp add: ReadFull_def)

lemma BytesToHash_hash_Bytes [simp]: "BytesToHash (hash_Bytes h) = h"
proof -
  have "unat h < 256 ^ 32" using unat_lt_pow [of h] by simp
  then show ?thesis by (simp add: BytesToHash_def hash_Bytes_def be_val_be_bytes)
qed

lemma BytesToAddress_be [simp]: "BytesToAddress (be_bytes 20 (unat a)) = a"
proof -
  have "unat a < 256 ^ 20" using unat_lt_pow [of a] by simp
  then show ?thesis by (simp add: BytesToAddress_def be_val_be_bytes)
qed

lemma be_val_u64 [simp]: "of_nat (be_val (be_bytes 8 (unat v))) = (v :: u64)"
proof -
  have "unat v < 256 ^ 8" using unat_lt_pow [of v] by simp
  then show ?thesis by (simp add: be_val_be_bytes)
qed

lemma length_hash_Bytes [simp]: "length (hash_Bytes h) = 32"
  by (simp add: hash_Bytes_def)

lemma be_val_replicate_0 [simp]: "be_val (replicate n 0 @ bs) = be_val bs"
proof (induction n)
  case (Suc n)
  then show ?case using be_val_append [of "[0]" "replicate n 0 @ bs"] by (simp add: be_val_def)
qed simp

lemma be_val_big_Bytes [simp]: "be_val (big_Bytes v) = v"
proof -
  have "v < 2 ^ (8 * ((bit_len v + 7) div 8))"
    using bit_len_upper [of v] by (rule less_le_trans) (rule power_increasing; simp)
  then show ?thesis by (simp add: big_Bytes_def be_val_be_bytes power_mult)
qed

text \<open>Writing and then reading gives the value back and leaves what follows.\<close>

lemma read_written:
  "HashFromReader (snd (HashToWriter h []) @ rest) = (Ok h, rest)"
  "AddressFromReader (snd (AddressToWriter a []) @ rest) = (Ok a, rest)"
  "Uint64FromReader (snd (Uint64ToWriter v []) @ rest) = (Ok v, rest)"
  by (simp_all add: HashFromReader_def HashToWriter_def AddressFromReader_def AddressToWriter_def Uint64FromReader_def
      Uint64ToWriter_def WriteBytes_def op_simps ReadFull_run)

lemma bytestring_short:
  assumes "length val < 2 ^ 64" and "n < 8 + length val"
  shows "\<exists>e. fst (BytestringFromReader lim (take n (snd (BytestringToWriter val [])))) = Err e"
proof (cases "n < 8")
  case True
  then obtain e where "ReadFull 8 (take n (be_bytes 8 (length val) @ val)) = (Err e, [])"
    using ReadFull_short [of "take n (be_bytes 8 (length val) @ val)" 8] by auto
  with assms show ?thesis
    by (simp add: BytestringFromReader_def BytestringToWriter_def Uint64ToWriter_def Uint64FromReader_def WriteBytes_def op_simps)
next
  case False
  then have t: "take n (be_bytes 8 (length val)) = be_bytes 8 (length val)" by simp
  have l: "length (take (n - 8) val) < length val" using False assms(2) by simp
  then obtain e where "ReadFull (length val) (take (n - 8) val) = (Err e, [])"
    using ReadFull_short by blast
  moreover have "Uint64FromReader (be_bytes 8 (length val) @ take (n - 8) val) = (Ok (of_nat (length val)), take (n - 8) val)"
    using read_written(3) [of "of_nat (length val)" "take (n - 8) val"] assms(1)
    by (simp add: Uint64ToWriter_def WriteBytes_def)
  ultimately show ?thesis using assms(1)
    by (simp add: t BytestringFromReader_def BytestringToWriter_def Uint64ToWriter_def WriteBytes_def op_simps)
qed

text \<open>A byte string that is written is read back with everything after it left to read, when the
  reader's limit allows its size; above the limit, and on any proper prefix of what was written,
  the reader reports an error.\<close>

theorem bytestring_round_trip:
  assumes "length val < 2 ^ 64"
  shows "BytestringFromReader lim (snd (BytestringToWriter val []) @ rest) =
      (if of_nat (length val) \<le> lim then (Ok val, rest)
       else (Err (ErrMsg ''size too large in ByteStringFromReader''), val @ rest))
    \<and> (n < 8 + length val \<longrightarrow>
        (\<exists>e. fst (BytestringFromReader lim (take n (snd (BytestringToWriter val [])))) = Err e))"
proof (intro conjI impI)
  have "Uint64FromReader (be_bytes 8 (length val) @ val @ rest) = (Ok (of_nat (length val)), val @ rest)"
    using read_written(3) [of "of_nat (length val)" "val @ rest"] assms
    by (simp add: Uint64ToWriter_def WriteBytes_def)
  then show "BytestringFromReader lim (snd (BytestringToWriter val []) @ rest) =
      (if of_nat (length val) \<le> lim then (Ok val, rest)
       else (Err (ErrMsg ''size too large in ByteStringFromReader''), val @ rest))"
    using assms by (simp add: BytestringFromReader_def BytestringToWriter_def Uint64ToWriter_def
        WriteBytes_def op_simps ReadFull_run not_le)
qed (rule bytestring_short [OF assms])

text \<open>The alias of an address is the address plus the offset, modulo \<open>2 ^ 160\<close>.\<close>

lemma drop_low_address: "BytesToAddress (if 20 < length b then drop (length b - 20) b else b) = BytesToAddress b"
proof (cases "20 < length b")
  case True
  have "be_val b = be_val (take (length b - 20) b @ drop (length b - 20) b)" by simp
  also have "\<dots> = 2 ^ 160 * be_val (take (length b - 20) b) + be_val (drop (length b - 20) b)"
    using True by (simp only: be_val_append) simp
  finally have "(of_nat (be_val b) :: address) = of_nat (2 ^ 160 * be_val (take (length b - 20) b) + be_val (drop (length b - 20) b))" by simp
  also have "\<dots> = of_nat (be_val (drop (length b - 20) b))"
  proof -
    have "(of_nat (2 ^ 160) :: address) = 0" by (simp add: word_eq_iff_unsigned unat_of_nat)
    then show ?thesis by (simp only: of_nat_add of_nat_mult) simp
  qed
  finally show ?thesis using True by (simp add: BytesToAddress_def)
qed simp

lemma alias_offsets: "(of_nat AddressAliasOffset :: address) + of_nat InverseAddressAliasOffset = 0"
  by (simp add: AddressAliasOffset_def InverseAddressAliasOffset_def)

lemma RemapL1Address_plus: "RemapL1Address a = a + of_nat AddressAliasOffset"
  "InverseRemapL1Address a = a + of_nat InverseAddressAliasOffset"
proof -
  have "be_val (be_bytes 20 (unat a)) = unat a"
    using unat_lt_pow [of a] by (simp add: be_val_be_bytes)
  then show "RemapL1Address a = a + of_nat AddressAliasOffset"
    "InverseRemapL1Address a = a + of_nat InverseAddressAliasOffset"
    unfolding RemapL1Address_def InverseRemapL1Address_def Let_def drop_low_address
    by (simp_all add: BytesToAddress_def)
qed

text \<open>The alias of an L1 contract is its address plus the offset modulo \<open>2 ^ 160\<close>; it is injective and
  \<^verbatim>\<open>InverseRemapL1Address\<close> undoes it in both directions.\<close>

theorem remap_round_trip:
  "RemapL1Address a = a + 0x1111000000000000000000000000000000001111
   \<and> InverseRemapL1Address (RemapL1Address a) = a \<and> RemapL1Address (InverseRemapL1Address a) = a
   \<and> (RemapL1Address a = RemapL1Address b \<longleftrightarrow> a = b)"
  using alias_offsets unfolding RemapL1Address_plus
  by (simp add: AddressAliasOffset_def add.assoc) (simp add: add.commute)

section \<open>Conservation of balances\<close>

definition balances_ok :: "world \<Rightarrow> bool" where
  "balances_ok w \<longleftrightarrow> (\<forall>a. 0 \<le> balance_of w a \<and> balance_of w a < 2 ^ 256)"

text \<open>The sum of all balances, over the finitely many addresses.\<close>

definition total_supply :: "world \<Rightarrow> int" where
  "total_supply w = (\<Sum>a\<in>UNIV. balance_of w a)"

definition keeps_balances :: "EVM \<Rightarrow> bool" where
  "keeps_balances evm \<longleftrightarrow> (\<forall>a w. balance_of (CreateZombieIfDeleted evm a w) = balance_of w)"

lemma supply_upd: "(\<Sum>x\<in>UNIV. (f(a := v)) x) = (\<Sum>x\<in>UNIV. f x) - f a + (v::int)" for f :: "address \<Rightarrow> int"
proof -
  have "(\<Sum>x\<in>UNIV. (f(a := v)) x) = (f(a := v)) a + (\<Sum>x\<in>UNIV - {a}. (f(a := v)) x)"
    by (rule sum.remove) simp_all
  also have "(\<Sum>x\<in>UNIV - {a}. (f(a := v)) x) = (\<Sum>x\<in>UNIV - {a}. f x)"
    by (rule sum.cong) auto
  also have "\<dots> = (\<Sum>x\<in>UNIV. f x) - f a" by (subst sum.remove [of UNIV a]) simp_all
  finally show ?thesis by simp
qed

lemma balance_le_supply: "balances_ok w \<Longrightarrow> balance_of w a \<le> total_supply w"
  unfolding total_supply_def balances_ok_def by (rule member_le_sum) simp_all

lemma two_balances_le_supply:
  assumes "balances_ok w" and "a \<noteq> b"
  shows "balance_of w a + balance_of w b \<le> total_supply w"
proof -
  have "(\<Sum>x\<in>{a, b}. balance_of w x) \<le> total_supply w"
    unfolding total_supply_def using assms by (intro sum_mono2) (auto simp: balances_ok_def)
  then show ?thesis using assms(2) by simp
qed

text \<open>What a transfer between two accounts does, without wrapping.\<close>

definition moved :: "(address \<Rightarrow> int) \<Rightarrow> address \<Rightarrow> address \<Rightarrow> int \<Rightarrow> address \<Rightarrow> int" where
  "moved f a b v = (let g = f(a := f a - v) in g(b := g b + v))"

definition traced_outside :: "EVM \<Rightarrow> TracingScenario \<Rightarrow> bool" where
  "traced_outside evm sc \<longleftrightarrow> evm_tracer evm \<and> evm_depth evm \<noteq> 0 \<and> sc \<noteq> TracingDuringEVM"

section \<open>Transfers between accounts\<close>

definition zombie :: "EVM \<Rightarrow> address \<Rightarrow> int \<Rightarrow> world \<Rightarrow> world" where
  "zombie evm a v w = (if evm_ArbOSVersion evm < ArbosVersion_Stylus \<and> v = 0 then CreateZombieIfDeleted evm a w else w)"

lemma zombie_balance [simp]: "keeps_balances evm \<Longrightarrow> balance_of (zombie evm a v w) = balance_of w"
  by (simp add: zombie_def keeps_balances_def)

lemma MustFromBig_run [op_simps]: "0 \<le> v \<Longrightarrow> v < 2 ^ 256 \<Longrightarrow> MustFromBig v w = (Ok v, w)"
  by (simp add: MustFromBig_def op_simps)

lemma TransferBalance_run:
  assumes k: "keeps_balances evm" and b: "balances_ok w" and s: "total_supply w < 2 ^ 256"
    and v: "0 \<le> v" "v \<le> balance_of w a" and t: "\<not> traced_outside evm sc"
  shows "TransferBalance (Some a) (Some b) v evm sc w =
    (Ok (), (zombie evm a v w)\<lparr>balance_of := moved (balance_of w) a b v\<rparr>)"
proof -
  have r: "0 \<le> balance_of w a" "balance_of w a < 2 ^ 256" and r2: "0 \<le> balance_of w b" "balance_of w b < 2 ^ 256"
    using b unfolding balances_ok_def by blast+
  have v2: "v < 2 ^ 256" using r v by linarith
  have sum: "a \<noteq> b \<Longrightarrow> balance_of w a + balance_of w b < 2 ^ 256"
    using two_balances_le_supply [OF b, of a b] s by simp
  have m1: "(balance_of w a - v) mod 2 ^ 256 = balance_of w a - v"
    using v r by (intro mod_pos_pos_trivial) auto
  have m2: "((if a = b then balance_of w a - v else balance_of w b) + v) mod 2 ^ 256
      = (if a = b then balance_of w a - v else balance_of w b) + v"
    using v r r2 sum by (intro mod_pos_pos_trivial) auto
  have debit: "transfer_debit a v evm w =
     (Ok (), (zombie evm a v w)\<lparr>balance_of := (balance_of w)(a := balance_of w a - v)\<rparr>)"
    using k v v2 m1 by (simp add: op_simps GetBalance_def BigLessThan_def SubBalance_def transfer_debit_def zombie_def [symmetric])
  have credit: "bnd (MustFromBig v) (AddBalance b) ((zombie evm a v w)\<lparr>balance_of := (balance_of w)(a := balance_of w a - v)\<rparr>) =
     (Ok (), (zombie evm a v w)\<lparr>balance_of := moved (balance_of w) a b v\<rparr>)"
    using v v2 m2 by (auto simp add: op_simps AddBalance_def moved_def Let_def split: if_splits)
  have t': "\<not> (evm_tracer evm \<and> evm_depth evm \<noteq> 0 \<and> sc \<noteq> TracingDuringEVM)" using t unfolding traced_outside_def .
  show ?thesis unfolding TransferBalance_def if_not_P [OF t'] option.case
    using v(1) by (simp add: bnd_run debit credit)
qed

lemma moved_supply: "(\<Sum>x\<in>UNIV. moved f a b v x) = (\<Sum>x\<in>UNIV. f x)"
  unfolding moved_def Let_def supply_upd by simp

lemma moved_ok:
  assumes "balances_ok w" "total_supply w < 2 ^ 256" "0 \<le> v" "v \<le> balance_of w a"
  shows "0 \<le> moved (balance_of w) a b v c \<and> moved (balance_of w) a b v c < 2 ^ 256"
proof -
  have r: "\<And>x. 0 \<le> balance_of w x" "\<And>x. balance_of w x < 2 ^ 256" using assms(1) unfolding balances_ok_def by blast+
  have "a \<noteq> b \<Longrightarrow> balance_of w a + balance_of w b < 2 ^ 256"
    using two_balances_le_supply [OF assms(1), of a b] assms(2) by simp
  then show ?thesis using r [of a] r [of b] r [of c] assms(3,4) by (auto simp: moved_def Let_def)
qed

text \<open>C30: A transfer between two accounts conserves the supply. It moves exactly the amount when the
  sender has it and changes no other balance; otherwise, and when it is traced outside of the EVM
  at a positive call depth, it reports an error and changes nothing; a negative amount panics.\<close>

theorem transfer_conserves:
  assumes "keeps_balances evm" and "balances_ok w" and "total_supply w < 2 ^ 256"
  shows "case TransferBalance (Some a) (Some b) v evm sc w of
     (Ok _, w') \<Rightarrow> 0 \<le> v \<and> v \<le> balance_of w a \<and> balance_of w' = moved (balance_of w) a b v
       \<and> total_supply w' = total_supply w \<and> balances_ok w'
   | (Err e, w') \<Rightarrow> w' = w \<and> (traced_outside evm sc \<or> e = ErrInsufficientBalance \<and> balance_of w a < v)
   | (Panic _, w') \<Rightarrow> w' = w \<and> v < 0"
proof -
  consider "v < 0" | "traced_outside evm sc" "0 \<le> v" | "\<not> traced_outside evm sc" "0 \<le> v" "balance_of w a < v"
    | "\<not> traced_outside evm sc" "0 \<le> v" "v \<le> balance_of w a" by linarith
  then show ?thesis
  proof cases
    case 4
    then show ?thesis using TransferBalance_run [OF assms 4(2,3,1), of b] moved_ok [OF assms(2,3) 4(2,3)]
      by (simp add: balances_ok_def total_supply_def moved_supply)
  qed (simp_all add: TransferBalance_def op_simps traced_outside_def GetBalance_def BigLessThan_def transfer_debit_def)
qed

text \<open>What the components that pay rely on: balances add up to less than \<open>2 ^ 256\<close>, and the EVM's account
  resurrection leaves balances, storage and the burner alone.\<close>

definition evm_ok :: "EVM \<Rightarrow> bool" where
  "evm_ok evm \<longleftrightarrow> keeps_balances evm \<and> (\<forall>a w. state_of (CreateZombieIfDeleted evm a w) = state_of w
     \<and> burner_of (CreateZombieIfDeleted evm a w) = burner_of w)"

definition funds_ok :: "world \<Rightarrow> bool" where
  "funds_ok w \<longleftrightarrow> balances_ok w \<and> total_supply w < 2 ^ 256"

lemma funds_ok_moved:
  assumes "funds_ok w" and "0 \<le> v" "v \<le> balance_of w a" and "balance_of w' = moved (balance_of w) a b v"
  shows "funds_ok w'"
  using assms moved_ok [of w v a b] by (simp add: funds_ok_def balances_ok_def total_supply_def moved_supply)

lemma funds_transfer:
  assumes "evm_ok evm" and "funds_ok w" and "\<not> traced_outside evm sc" and "sysw w" and v: "0 \<le> v" "v \<le> balance_of w a"
  shows "\<exists>w'. TransferBalance (Some a) (Some b) v evm sc w = (Ok (), w') \<and> sysw w'
    \<and> (\<forall>ss. slot_read w' ss = slot_read w ss) \<and> balance_of w' = moved (balance_of w) a b v \<and> funds_ok w'"
proof -
  have k: "keeps_balances evm" "balances_ok w" "total_supply w < 2 ^ 256"
    using assms by (auto simp: evm_ok_def funds_ok_def)
  let ?w' = "(zombie evm a v w)\<lparr>balance_of := moved (balance_of w) a b v\<rparr>"
  have "TransferBalance (Some a) (Some b) v evm sc w = (Ok (), ?w')"
    using TransferBalance_run [OF k v assms(3), of b] .
  moreover have "funds_ok ?w'" using v by (intro funds_ok_moved [OF assms(2), of v a _ b]) simp_all
  moreover have "sysw ?w'" "\<And>ss. slot_read ?w' ss = slot_read w ss"
    using assms by (simp_all add: sysw_def slot_read_def zombie_def evm_ok_def)
  ultimately show ?thesis by auto
qed

definition demo_evm :: EVM where
  "demo_evm = \<lparr>evm_tracer = False, evm_depth = 0, evm_ArbOSVersion = 40, CreateZombieIfDeleted = (\<lambda>_ w. w)\<rparr>"

lemma demo_evm_ok: "evm_ok demo_evm" "\<not> traced_outside demo_evm TracingBeforeEVM"
  by (simp_all add: evm_ok_def keeps_balances_def demo_evm_def traced_outside_def)

definition demo_funds :: world where
  "demo_funds = demo_world\<lparr>balance_of := (\<lambda>_. 0)(1 := 70)\<rparr>"

lemma transfer_conserves_witness:
  "balance_of (snd (TransferBalance (Some 1) (Some 2) 30 demo_evm TracingBeforeEVM demo_funds)) 2 = 30"
proof -
  have s: "total_supply demo_funds = 70" by (simp only: total_supply_def demo_funds_def world.simps supply_upd) simp
  have k: "keeps_balances demo_evm" "balances_ok demo_funds" "total_supply demo_funds < 2 ^ 256"
    by (simp_all only: s) (simp_all add: keeps_balances_def demo_evm_def balances_ok_def demo_funds_def)
  have r: "TransferBalance (Some 1) (Some 2) 30 demo_evm TracingBeforeEVM demo_funds = 
     (Ok (), demo_funds\<lparr>balance_of := moved (balance_of demo_funds) 1 2 30\<rparr>)"
    by (subst TransferBalance_run [OF k]) (simp_all add: demo_funds_def traced_outside_def demo_evm_def zombie_def ArbosVersion_Stylus_def)
  show ?thesis
    using transfer_conserves [OF k, of 1 2 30 TracingBeforeEVM] by (simp add: r) (simp add: moved_def demo_funds_def)
qed

end
