(* ===== verification/AddressSet.thy ===== *)
theory AddressSet
  imports Concrete
begin

text \<open>
  The set of addresses (\<^verbatim>\<open>arbos/addressSet/addressSet.go\<close>) behind chain owners, fee
  recipients and batch posters: the members in words 1 to \<open>size\<close> of a space, and a
  sub-space from address to position. The handle is the backing storage; \<open>size\<close> and
  \<open>byAddress\<close> are the slot and the sub-space that \<^verbatim>\<open>OpenAddressSet\<close> opens. The operations
  implement a finite set (locale \<open>address_registry\<close>); before ArbOS version 11, \<^verbatim>\<open>Remove\<close>
  leaves the moved member with a stale position.
\<close>

section \<open>Operations\<close>

definition as_size :: "(bytes \<Rightarrow> bytes) \<Rightarrow> Storage \<Rightarrow> StorageSlot" where
  "as_size H sto = NewSlot H sto 0"

definition as_byAddress :: "(bytes \<Rightarrow> bytes) \<Rightarrow> Storage \<Rightarrow> Storage" where
  "as_byAddress H sto = OpenSubStorage H sto [0]"

definition AddressSet_Initialize :: "(bytes \<Rightarrow> bytes) \<Rightarrow> Storage \<Rightarrow> (world, unit) op" where
  "AddressSet_Initialize H sto = Storage_SetUint64ByUint64 H sto 0 0"

definition AddressSet_Size :: "(bytes \<Rightarrow> bytes) \<Rightarrow> Storage \<Rightarrow> (world, u64) op" where
  "AddressSet_Size H sto = StorageBackedUint64_Get (as_size H sto)"

definition AddressSet_IsMember :: "(bytes \<Rightarrow> bytes) \<Rightarrow> Storage \<Rightarrow> address \<Rightarrow> (world, bool) op" where
  "AddressSet_IsMember H sto addr =
     bnd (Storage_Get H (as_byAddress H sto) (AddressToHash addr)) (\<lambda>v. ret (v \<noteq> 0))"

definition AddressSet_GetAnyMember :: "(bytes \<Rightarrow> bytes) \<Rightarrow> Storage \<Rightarrow> (world, address option) op" where
  "AddressSet_GetAnyMember H sto =
     bnd (StorageBackedUint64_Get (as_size H sto)) (\<lambda>n.
     if n = 0 then ret None else StorageBackedAddressOrNil_Get (NewSlot H sto 1))"

definition AddressSet_Clear :: "(bytes \<Rightarrow> bytes) \<Rightarrow> Storage \<Rightarrow> (world, unit) op" where
  "AddressSet_Clear H sto =
     bnd (StorageBackedUint64_Get (as_size H sto)) (\<lambda>n.
     if n = 0 then ret ()
     else bnd (for_each [1..<Suc (unat n)] (\<lambda>i.
            bnd (or_zero 0 (Storage_GetByUint64 H sto (of_nat i))) (\<lambda>contents.
            bnd (ignore (Storage_ClearByUint64 H sto (of_nat i))) (\<lambda>_.
            Storage_Clear H (as_byAddress H sto) contents)))) (\<lambda>_.
          StorageBackedUint64_Clear (as_size H sto)))"

definition AddressSet_AllMembers :: "(bytes \<Rightarrow> bytes) \<Rightarrow> Storage \<Rightarrow> u64 \<Rightarrow> (world, address list) op" where
  "AddressSet_AllMembers H sto maxNumToReturn =
     bnd (StorageBackedUint64_Get (as_size H sto)) (\<lambda>n.
     let n' = (if n > maxNumToReturn then maxNumToReturn else n)
     in collect [0..<unat n'] (\<lambda>i. StorageBackedAddress_Get (NewSlot H sto (of_nat (i + 1)))))"

definition AddressSet_ClearList :: "(bytes \<Rightarrow> bytes) \<Rightarrow> Storage \<Rightarrow> (world, unit) op" where
  "AddressSet_ClearList H sto =
     bnd (StorageBackedUint64_Get (as_size H sto)) (\<lambda>n.
     if n = 0 then ret ()
     else bnd (for_each [1..<Suc (unat n)] (\<lambda>i. Storage_ClearByUint64 H sto (of_nat i))) (\<lambda>_.
          StorageBackedUint64_Clear (as_size H sto)))"

definition AddressSet_Add :: "(bytes \<Rightarrow> bytes) \<Rightarrow> Storage \<Rightarrow> address \<Rightarrow> (world, unit) op" where
  "AddressSet_Add H sto addr =
     bnd (AddressSet_IsMember H sto addr) (\<lambda>present.
     if present then ret ()
     else bnd (StorageBackedUint64_Get (as_size H sto)) (\<lambda>n.
          bnd (Storage_Set H (as_byAddress H sto) (AddressToHash addr) (UintToHash (1 + n))) (\<lambda>_.
          bnd (StorageBackedAddress_Set (NewSlot H sto (1 + n)) addr) (\<lambda>_.
          bnd (StorageBackedUint64_Increment (as_size H sto)) (\<lambda>_. ret ())))))"

definition AddressSet_RectifyMapping :: "(bytes \<Rightarrow> bytes) \<Rightarrow> Storage \<Rightarrow> address \<Rightarrow> (world, unit) op" where
  "AddressSet_RectifyMapping H sto addr =
     bnd (or_zero False (AddressSet_IsMember H sto addr)) (\<lambda>isOwner.
     if \<not> isOwner then throw (ErrMsg ''RectifyMapping: Address is not an owner'')
     else
       bnd (Storage_GetUint64 H (as_byAddress H sto) (AddressToHash addr)) (\<lambda>slot.
       bnd (Storage_GetByUint64 H sto slot) (\<lambda>atSlot.
       bnd (StorageBackedUint64_Get (as_size H sto)) (\<lambda>n.
       if atSlot = AddressToHash addr \<and> slot \<le> n
       then throw (ErrMsg ''RectifyMapping: Owner address is correctly mapped'')
       else bnd (Storage_Clear H (as_byAddress H sto) (AddressToHash addr)) (\<lambda>_.
            AddressSet_Add H sto addr)))))"

definition AddressSet_Remove :: "(bytes \<Rightarrow> bytes) \<Rightarrow> Storage \<Rightarrow> address \<Rightarrow> u64 \<Rightarrow> (world, unit) op" where
  "AddressSet_Remove H sto addr arbosVersion =
     bnd (Storage_GetUint64 H (as_byAddress H sto) (AddressToHash addr)) (\<lambda>slot.
     if slot = 0 then ret ()
     else
       bnd (Storage_Clear H (as_byAddress H sto) (AddressToHash addr)) (\<lambda>_.
       bnd (StorageBackedUint64_Get (as_size H sto)) (\<lambda>n.
       bnd (if slot < n
            then bnd (Storage_GetByUint64 H sto n) (\<lambda>atSize.
                 bnd (Storage_SetByUint64 H sto slot atSize) (\<lambda>_.
                 if arbosVersion \<ge> 11
                 then Storage_Set H (as_byAddress H sto) atSize (UintToHash slot)
                 else ret ()))
            else ret ()) (\<lambda>_.
       bnd (Storage_ClearByUint64 H sto n) (\<lambda>_.
       bnd (StorageBackedUint64_Decrement (as_size H sto)) (\<lambda>_. ret ()))))))"

section \<open>A finite set of addresses\<close>

definition as_rep :: "(bytes \<Rightarrow> bytes) \<Rightarrow> Storage \<Rightarrow> nat \<Rightarrow> world \<Rightarrow> address list \<Rightarrow> bool" where
  "as_rep H s N w xs \<longleftrightarrow> sysw w \<and> index_layout H s (as_byAddress H s) N \<and> length xs \<le> N
     \<and> indexed H s (as_byAddress H s) w xs"

lemma as_repD:
  assumes "as_rep H s N w xs"
  shows "sysw w" "index_layout H s (as_byAddress H s) N" "length xs \<le> N" "Suc (length xs) < 2 ^ 64"
    "indexed H s (as_byAddress H s) w xs" "distinct xs"
    "slot_read w (word_slot H s 0) = ucast (of_nat (length xs) :: u64)"
    "slot_read w (by_slot H (as_byAddress H s) a) \<noteq> 0 \<longleftrightarrow> a \<in> set xs"
proof -
  show a: "sysw w" "index_layout H s (as_byAddress H s) N" "length xs \<le> N"
    "indexed H s (as_byAddress H s) w xs" using assms by (simp_all add: as_rep_def)
  then show len: "Suc (length xs) < 2 ^ 64" by (simp add: index_layout_def)
  then have "length xs < 2 ^ 64 - 1" by simp
  then show "distinct xs" "slot_read w (by_slot H (as_byAddress H s) a) \<noteq> 0 \<longleftrightarrow> a \<in> set xs"
    using a(4) indexed_distinct indexed_member by blast+
  show "slot_read w (word_slot H s 0) = ucast (of_nat (length xs) :: u64)"
    using a(4) by (simp add: indexed_def)
qed

lemma as_rep_tick [simp]: "as_rep H s N w xs \<Longrightarrow> as_rep H s N (tick k a w) xs"
  by (simp add: as_rep_def)

lemma as_slots:
  "as_size H s = word_slot H s 0" "NewSlot H s (1 + of_nat n) = word_slot H s (Suc n)"
  "NewSlot H s 1 = word_slot H s 1"
  "slot_at H (as_byAddress H s) (AddressToHash a) = by_slot H (as_byAddress H s) a"
  by (simp_all add: as_size_def word_slot_def by_slot_def)

lemma IsMember_run:
  assumes "as_rep H s N w xs"
  shows "AddressSet_IsMember H s a w = (Ok (a \<in> set xs), tick StorageAccessRead StorageReadCost w)"
  using as_repD [OF assms]
  by (simp add: AddressSet_IsMember_def Storage_Get_slot as_slots bnd_def op_simps sys_simps)

lemma Size_run:
  assumes "as_rep H s N w xs"
  shows "AddressSet_Size H s w = (Ok (of_nat (length xs)), tick StorageAccessRead StorageReadCost w)"
  using as_repD(1,7) [OF assms] by (simp add: AddressSet_Size_def as_slots sys_simps)

lemma Add_run:
  assumes rep: "as_rep H s N w xs" and n: "a \<in> set xs \<or> length xs < N"
  shows "\<exists>w'. AddressSet_Add H s a w = (Ok (), w') \<and> as_rep H s N w' (if a \<in> set xs then xs else xs @ [a])
    \<and> same_except {word_slot H s 0, word_slot H s (Suc (length xs)), by_slot H (as_byAddress H s) a} w w'"
proof (cases "a \<in> set xs")
  case True
  then show ?thesis using IsMember_run [OF rep, of a] rep by (simp add: AddressSet_Add_def bnd_def ret_run)
next
  case False
  note R = as_repD [OF rep]
  let ?n = "length xs" and ?by = "by_slot H (as_byAddress H s) a"
  let ?c = "ucast (of_nat (Suc ?n) :: u64) :: hash"
  have n: "Suc ?n \<le> N" using n False by simp
  note L = layout_slots [OF R(2)]
  let ?t = "tick StorageAccessRead StorageReadCost"
  let ?w1 = "slot_write ?by ?c (tick StorageAccessWrite (WriteCost ?c) (?t (?t w)))"
  let ?w2 = "slot_write (word_slot H s (Suc ?n)) (AddressToHash a)
    (tick StorageAccessWrite (WriteCost (AddressToHash a)) ?w1)"
  have "sysw ?w2" using R(1) by simp
  moreover have "slot_read ?w2 (word_slot H s 0) = ucast (of_nat ?n :: u64)"
    using R(7) n L(3) [of 0 a] L(4) [of 0 "Suc ?n"] by (simp add: slot_read_write)
  ultimately obtain k c k' c' where inc: "StorageBackedUint64_Increment (word_slot H s 0) ?w2 =
      (Ok (of_nat (Suc ?n)), slot_write (word_slot H s 0) ?c (tick k' c' (tick k c ?w2)))"
    using increment_run R(4) by blast
  let ?w' = "slot_write (word_slot H s 0) ?c (tick k' c' (tick k c ?w2))"
  have "AddressSet_Add H s a w = (Ok (), ?w')"
    using False IsMember_run [OF rep, of a] inc R(1,7)
    by (simp add: AddressSet_Add_def bnd_def op_simps sys_simps Storage_Set_slot as_slots UintToHash_ucast)
  moreover have "indexed H s (as_byAddress H s) ?w' (xs @ [a])"
    by (rule indexed_snoc [OF R(5,2) n False]) (auto simp: slot_read_write)
  moreover have "same_except {word_slot H s 0, word_slot H s (Suc ?n), ?by} w ?w'"
    by (simp add: same_except_def slot_read_write)
  ultimately show ?thesis using R n False by (simp add: as_rep_def)
qed

section \<open>Removal\<close>

lemma Remove_absent:
  assumes "as_rep H s N w xs" "a \<notin> set xs"
  shows "AddressSet_Remove H s a ver w = (Ok (), tick StorageAccessRead StorageReadCost w)"
proof -
  have "slot_read w (by_slot H (as_byAddress H s) a) = 0" using as_repD(8) [OF assms(1)] assms(2) by blast
  then show ?thesis using as_repD(1) [OF assms(1)]
    by (simp add: AddressSet_Remove_def Storage_GetUint64_def Storage_Get_slot as_slots bnd_def op_simps sys_simps)
qed

text \<open>The words that \<^verbatim>\<open>Remove\<close> leaves, for both orders of versions.\<close>

lemma Remove_writes:
  assumes rep: "as_rep H s N w xs" and i: "i < length xs"
  shows "\<exists>w'. AddressSet_Remove H s (xs ! i) ver w = (Ok (), w') \<and> sysw w' \<and> (\<forall>ss. slot_read w' ss =
     (if ss = word_slot H s 0 then ucast (of_nat (length xs - 1) :: u64)
      else if ss = word_slot H s (length xs) then 0
      else if Suc i < length xs \<and> 11 \<le> ver \<and> ss = by_slot H (as_byAddress H s) (last xs)
      then ucast (of_nat (Suc i) :: u64)
      else if Suc i < length xs \<and> ss = word_slot H s (Suc i) then AddressToHash (last xs)
      else if ss = by_slot H (as_byAddress H s) (xs ! i) then 0 else slot_read w ss))"
proof -
  note R = as_repD [OF rep]
  note L = layout_slots [OF R(2)]
  let ?by = "by_slot H (as_byAddress H s)" and ?n = "length xs" and ?a = "xs ! i"
  let ?r = "tick StorageAccessRead StorageReadCost"
  let ?wr = "\<lambda>ss v w. slot_write ss v (tick StorageAccessWrite (WriteCost v) w)"
  have slot: "slot_read w (?by ?a) = ucast (of_nat (Suc i) :: u64)" using R(5) i by (simp add: indexed_def)
  have last: "slot_read w (word_slot H s ?n) = AddressToHash (last xs)"
  proof -
    have "?n = Suc (?n - 1)" "xs \<noteq> []" using i by auto
    moreover from this(2) have "last xs = xs ! (?n - 1)" by (rule last_conv_nth)
    moreover have "slot_read w (word_slot H s (Suc (?n - 1))) = AddressToHash (xs ! (?n - 1))"
      using R(5) i unfolding indexed_def by simp
    ultimately show ?thesis by simp
  qed
  have "Suc i < 2 ^ 64" "?n < 2 ^ 64" using i R(4) by simp_all
  then have u: "unat (of_nat (Suc i) :: u64) = Suc i" "unat (of_nat ?n :: u64) = ?n"
    by (simp_all only: unat_of_nat_u64)
  then have nz: "(of_nat (Suc i) :: u64) \<noteq> 0" by (metis nat.distinct(1) unat_0)
  have lt: "(of_nat (Suc i) :: u64) < of_nat ?n \<longleftrightarrow> Suc i < ?n" using u by (simp only: word_less_nat_alt)
  define w0 where "w0 = ?wr (?by ?a) 0 (?r w)"
  define w1 where "w1 = ?r w0"
  define w2 where "w2 = (if Suc i < ?n
    then let v = ?wr (word_slot H s (Suc i)) (AddressToHash (last xs)) (?r w1)
         in if 11 \<le> ver then ?wr (?by (last xs)) (UintToHash (of_nat (Suc i))) v else v
    else w1)"
  define w3 where "w3 = ?wr (word_slot H s ?n) 0 w2"
  have sys: "sysw w1" "sysw w2" "sysw w3" using R(1) by (simp_all add: w0_def w1_def w2_def w3_def Let_def)
  have rd0: "slot_read w3 (word_slot H s 0) = ucast (of_nat (Suc (?n - 1)) :: u64)"
    using i R(3,7) L(3) [of 0] L(4) [of 0 ?n] L(4) [of 0 "Suc i"]
    by (simp add: w0_def w1_def w2_def w3_def Let_def slot_read_write)
  have "Suc (?n - 1) < 2 ^ 64" using R(4) by simp
  from decrement_run [OF sys(3) rd0 this] obtain k c k' c' where
    dec: "StorageBackedUint64_Decrement (word_slot H s 0) w3 =
      (Ok (of_nat (?n - 1)), slot_write (word_slot H s 0) (ucast (of_nat (?n - 1) :: u64)) (tick k' c' (tick k c w3)))"
    by blast
  let ?w' = "slot_write (word_slot H s 0) (ucast (of_nat (?n - 1) :: u64)) (tick k' c' (tick k c w3))"
  have rdn: "slot_read w1 (word_slot H s ?n) = AddressToHash (last xs)"
    "slot_read w1 (word_slot H s 0) = ucast (of_nat ?n :: u64)"
    using last R(3,7) L(3) [of ?n] L(3) [of 0] by (simp_all add: w0_def w1_def slot_read_write)
  have a1: "Storage_GetUint64 H (as_byAddress H s) (AddressToHash ?a) w = (Ok (of_nat (Suc i)), ?r w)"
    using R(1) slot
    by (simp add: Storage_GetUint64_def Storage_Get_slot as_slots bnd_def op_simps sys_simps del: of_nat_Suc)
  have a2: "Storage_Clear H (as_byAddress H s) (AddressToHash ?a) (?r w) = (Ok (), w0)"
    using R(1) by (simp add: w0_def Storage_Clear_def Storage_Set_slot as_slots sys_simps)
  have "sysw w0" "slot_read w0 (word_slot H s 0) = ucast (of_nat ?n :: u64)"
    using R(1) rdn(2) by (simp_all add: w0_def w1_def)
  then have a3: "StorageBackedUint64_Get (as_size H s) w0 = (Ok (of_nat ?n), w1)"
    by (simp add: w1_def as_slots sys_simps)
  have mid: "(if (of_nat (Suc i) :: u64) < of_nat ?n
      then bnd (Storage_GetByUint64 H s (of_nat ?n)) (\<lambda>atSize.
           bnd (Storage_SetByUint64 H s (of_nat (Suc i)) atSize) (\<lambda>_.
           if ver \<ge> 11 then Storage_Set H (as_byAddress H s) atSize (UintToHash (of_nat (Suc i))) else ret ()))
      else ret ()) w1 = (Ok (), w2)"
    using sys(1) rdn(1) unfolding lt w2_def
    by (simp add: bnd_def op_simps sys_simps word_ops Storage_Set_slot as_slots Let_def del: of_nat_Suc)
  have a4: "Storage_ClearByUint64 H s (of_nat ?n) w2 = (Ok (), w3)"
    using sys(2) by (simp add: w3_def word_ops sys_simps)
  have "AddressSet_Remove H s ?a ver w = (Ok (), ?w')"
    using nz dec unfolding AddressSet_Remove_def bnd_def [of "Storage_GetUint64 _ _ _"] a1
    by (simp add: bnd_run a2 a3 mid a4 ret_run as_slots(1) [symmetric] del: of_nat_Suc)
  moreover have "sysw ?w'" using sys by simp
  moreover have "slot_read ?w' ss = (if ss = word_slot H s 0 then ucast (of_nat (length xs - 1) :: u64)
      else if ss = word_slot H s (length xs) then 0
      else if Suc i < length xs \<and> 11 \<le> ver \<and> ss = by_slot H (as_byAddress H s) (last xs)
      then ucast (of_nat (Suc i) :: u64)
      else if Suc i < length xs \<and> ss = word_slot H s (Suc i) then AddressToHash (last xs)
      else if ss = by_slot H (as_byAddress H s) (xs ! i) then 0 else slot_read w ss)" for ss
    by (simp add: w0_def w1_def w2_def w3_def Let_def slot_read_write UintToHash_ucast)
  ultimately show ?thesis by blast
qed

lemma Remove_run:
  assumes rep: "as_rep H s N w xs" and i: "i < length xs" and ver: "11 \<le> ver"
  shows "\<exists>w'. AddressSet_Remove H s (xs ! i) ver w = (Ok (), w') \<and> as_rep H s N w' (remove_at i xs)"
proof -
  note R = as_repD [OF rep]
  obtain w' where w': "AddressSet_Remove H s (xs ! i) ver w = (Ok (), w')" "sysw w'" 
    and rd: "slot_read w' ss =
     (if ss = word_slot H s 0 then ucast (of_nat (length xs - 1) :: u64)
      else if ss = word_slot H s (length xs) then 0
      else if Suc i < length xs \<and> ss = by_slot H (as_byAddress H s) (last xs)
      then ucast (of_nat (Suc i) :: u64)
      else if Suc i < length xs \<and> ss = word_slot H s (Suc i) then AddressToHash (last xs)
      else if ss = by_slot H (as_byAddress H s) (xs ! i) then 0 else slot_read w ss)" for ss
    using Remove_writes [OF rep i, of ver] ver by auto
  have "indexed H s (as_byAddress H s) w' (remove_at i xs)"
    by (rule indexed_remove [OF R(5,2,3,6) i]) (rule rd)
  then show ?thesis using w' R(2,3) by (auto simp: as_rep_def)
qed

section \<open>Refinement\<close>

datatype set_cmd = CmdAdd address | CmdRemove address | CmdQuery address

fun set_run :: "set_cmd list \<Rightarrow> address set \<Rightarrow> bool list \<times> address set" where
  "set_run [] A = ([], A)"
| "set_run (CmdAdd a # cs) A = (let (rs, B) = set_run cs (insert a A) in (True # rs, B))"
| "set_run (CmdRemove a # cs) A = (let (rs, B) = set_run cs (A - {a}) in (True # rs, B))"
| "set_run (CmdQuery a # cs) A = (let (rs, B) = set_run cs A in ((a \<in> A) # rs, B))"

fun adds :: "set_cmd list \<Rightarrow> nat" where
  "adds [] = 0"
| "adds (CmdAdd a # cs) = Suc (adds cs)"
| "adds (CmdRemove a # cs) = adds cs"
| "adds (CmdQuery a # cs) = adds cs"

definition exec_set_cmd ::
  "(address \<Rightarrow> ('s, unit) op) \<Rightarrow> (address \<Rightarrow> ('s, unit) op) \<Rightarrow> (address \<Rightarrow> ('s, bool) op)
    \<Rightarrow> set_cmd \<Rightarrow> ('s, bool) op" where
  "exec_set_cmd add remove member c = (case c of
      CmdAdd a \<Rightarrow> bnd (add a) (\<lambda>_. ret True)
    | CmdRemove a \<Rightarrow> bnd (remove a) (\<lambda>_. ret True)
    | CmdQuery a \<Rightarrow> member a)"

text \<open>The interface of a bounded set of addresses; \<open>rep s xs\<close>: the state \<open>s\<close> holds the members \<open>xs\<close>.\<close>

locale address_registry =
  fixes add :: "address \<Rightarrow> ('s, unit) op"
    and remove :: "address \<Rightarrow> ('s, unit) op"
    and member :: "address \<Rightarrow> ('s, bool) op"
    and rep :: "'s \<Rightarrow> address list \<Rightarrow> bool"
    and cap :: nat
  assumes rep_bound: "rep s xs \<Longrightarrow> distinct xs \<and> length xs \<le> cap"
    and add_rep: "rep s xs \<Longrightarrow> a \<in> set xs \<or> length xs < cap \<Longrightarrow>
      \<exists>s' ys. add a s = (Ok (), s') \<and> rep s' ys \<and> set ys = insert a (set xs)"
    and remove_rep: "rep s xs \<Longrightarrow>
      \<exists>s' ys. remove a s = (Ok (), s') \<and> rep s' ys \<and> set ys = set xs - {a}"
    and member_rep: "rep s xs \<Longrightarrow> \<exists>s'. member a s = (Ok (a \<in> set xs), s') \<and> rep s' xs"
begin

lemma card_rep: "rep s xs \<Longrightarrow> length xs = card (set xs)"
  using rep_bound distinct_card by metis

lemma refines_set:
  "rep s xs \<Longrightarrow> length xs + adds cs \<le> cap \<Longrightarrow>
   \<exists>s' ys. collect cs (exec_set_cmd add remove member) s = (Ok (fst (set_run cs (set xs))), s')
     \<and> rep s' ys \<and> set ys = snd (set_run cs (set xs))"
proof (induction cs arbitrary: s xs)
  case Nil
  then show ?case by (auto simp: ret_run)
next
  case (Cons c cs)
  show ?case
  proof (cases c)
    case (CmdAdd a)
    with Cons.prems have "a \<in> set xs \<or> length xs < cap" by simp
    from add_rep [OF Cons.prems(1) this] obtain s1 ys
      where s1: "add a s = (Ok (), s1)" "rep s1 ys" "set ys = insert a (set xs)" by blast
    have "length ys \<le> Suc (length xs)"
      using card_rep [OF s1(2)] card_rep [OF Cons.prems(1)] s1(3) by (simp add: card_insert_if)
    then have "length ys + adds cs \<le> cap" using CmdAdd Cons.prems(2) by simp
    from Cons.IH [OF s1(2) this] show ?thesis
      using s1 CmdAdd by (auto simp: exec_set_cmd_def bnd_def ret_run split: prod.splits)
  next
    case (CmdRemove a)
    from remove_rep [OF Cons.prems(1)] obtain s1 ys
      where s1: "remove a s = (Ok (), s1)" "rep s1 ys" "set ys = set xs - {a}" by blast
    have "length ys \<le> length xs"
      using card_rep [OF s1(2)] card_rep [OF Cons.prems(1)] s1(3) by (simp add: card_Diff_singleton_if)
    then have "length ys + adds cs \<le> cap" using CmdRemove Cons.prems(2) by simp
    from Cons.IH [OF s1(2) this] show ?thesis
      using s1 CmdRemove by (auto simp: exec_set_cmd_def bnd_def ret_run split: prod.splits)
  next
    case (CmdQuery a)
    from member_rep [OF Cons.prems(1)] obtain s1
      where s1: "member a s = (Ok (a \<in> set xs), s1)" "rep s1 xs" by blast
    have "length xs + adds cs \<le> cap" using CmdQuery Cons.prems(2) by simp
    from Cons.IH [OF s1(2) this] show ?thesis
      using s1 CmdQuery by (auto simp: exec_set_cmd_def bnd_def ret_run split: prod.splits)
  qed
qed

end

interpretation address_set: address_registry "AddressSet_Add H s" "\<lambda>a. AddressSet_Remove H s a ver"
  "AddressSet_IsMember H s" "\<lambda>w xs. as_rep H s N w xs \<and> 11 \<le> ver" N for H s ver N
proof
  fix w xs assume "as_rep H s N w xs \<and> 11 \<le> ver"
  then have rep: "as_rep H s N w xs" and v: "11 \<le> ver" by auto
  show "distinct xs \<and> length xs \<le> N" using as_repD [OF rep] by blast
  fix a
  show "\<exists>s'. AddressSet_IsMember H s a w = (Ok (a \<in> set xs), s') \<and> as_rep H s N s' xs \<and> 11 \<le> ver"
    using IsMember_run [OF rep, of a] rep v by simp
  show "\<exists>s' ys. AddressSet_Remove H s a ver w = (Ok (), s') \<and> (as_rep H s N s' ys \<and> 11 \<le> ver)
      \<and> set ys = set xs - {a}"
  proof (cases "a \<in> set xs")
    case True
    then obtain i where i: "i < length xs" "xs ! i = a" by (metis in_set_conv_nth)
    from Remove_run [OF rep i(1) v] set_remove_at(1) [OF as_repD(6) [OF rep] i(1)]
    show ?thesis unfolding i(2) using v by blast
  next
    case False
    then show ?thesis using Remove_absent [OF rep False] rep v by (intro exI [of _ xs] exI) auto
  qed
  assume "a \<in> set xs \<or> length xs < N"
  from Add_run [OF rep this] obtain w' where "AddressSet_Add H s a w = (Ok (), w')"
    "as_rep H s N w' (if a \<in> set xs then xs else xs @ [a])" by blast
  moreover have "set (if a \<in> set xs then xs else xs @ [a]) = insert a (set xs)" by auto
  ultimately show "\<exists>s' ys. AddressSet_Add H s a w = (Ok (), s') \<and> (as_rep H s N s' ys \<and> 11 \<le> ver)
      \<and> set ys = insert a (set xs)" using v by blast
qed

lemma AllMembers_run:
  assumes rep: "as_rep H s N w xs"
  shows "\<exists>w'. AddressSet_AllMembers H s m w = (Ok (take (unat m) xs), w') \<and> sysw w' \<and> same_except {} w w'"
proof -
  note R = as_repD [OF rep]
  let ?m = "min (unat m) (length xs)" and ?w1 = "tick StorageAccessRead StorageReadCost w"
  have "length xs < 2 ^ 64" using R(4) by simp
  then have "unat (of_nat (length xs) :: u64) = length xs" by (rule unat_of_nat_u64)
  then have m: "unat (if of_nat (length xs) > m then m else of_nat (length xs)) = ?m"
    by (simp add: word_less_nat_alt min_def)
  have "\<exists>w'. collect [0..<?m] (\<lambda>i. StorageBackedAddress_Get (NewSlot H s (of_nat (i + 1)))) ?w1
      = (Ok (map (\<lambda>i. xs ! i) [0..<?m]), w') \<and> sysw w' \<and> same_except {} w w'"
  proof (rule collect_reads)
    fix i u assume i: "i \<in> set [0..<?m]" and u: "sysw u" "same_except {} w u"
    have "slot_read u (word_slot H s (Suc i)) = AddressToHash (xs ! i)"
      using i R(5) same_exceptD [OF u(2)] by (simp add: indexed_def)
    then show "\<exists>u'. StorageBackedAddress_Get (NewSlot H s (of_nat (i + 1))) u = (Ok (xs ! i), u')
        \<and> sysw u' \<and> same_except {} w u'"
      using u by (simp add: as_slots sys_simps)
  qed (use R(1) in simp_all)
  moreover have "map (\<lambda>i. xs ! i) [0..<?m] = take (unat m) xs"
    by (rule nth_equalityI) simp_all
  moreover have "AddressSet_AllMembers H s m w =
      collect [0..<?m] (\<lambda>i. StorageBackedAddress_Get (NewSlot H s (of_nat (i + 1)))) ?w1"
    unfolding AddressSet_AllMembers_def using R(1,7) m
    by (simp only: bnd_run(1) [of "StorageBackedUint64_Get (as_size H s)" w "of_nat (length xs)" ?w1]
        as_slots(1) Let_def) (simp add: bnd_def sys_simps as_slots(1) Let_def m)
  ultimately show ?thesis by simp
qed

lemma GetAnyMember_run:
  assumes rep: "as_rep H s N w xs"
  shows "\<exists>w'. AddressSet_GetAnyMember H s w = (Ok (case xs of [] \<Rightarrow> None | x # _ \<Rightarrow> Some x), w')
    \<and> as_rep H s N w' xs"
proof (cases xs)
  case Nil
  then show ?thesis using as_repD(1,7) [OF rep] rep
    by (simp add: AddressSet_GetAnyMember_def bnd_def op_simps sys_simps as_slots)
next
  case (Cons x ys)
  note R = as_repD [OF rep]
  have "length xs < 2 ^ 64" using R(4) by simp
  then have nz: "(of_nat (length xs) :: u64) \<noteq> 0" using Cons by (simp only: of_nat_u64_eq_0) simp
  have "slot_read w (word_slot H s 1) = AddressToHash x" using R(5) Cons by (auto simp: indexed_def)
  then show ?thesis using R(1,7) nz rep Cons
    by (simp add: AddressSet_GetAnyMember_def bnd_def sys_simps as_slots AddressOrNil_decode_def del: of_nat_Suc)
qed

section \<open>Clearing, and removal before version 11\<close>

lemma Initialize_run:
  assumes "sysw w" "index_layout H s (as_byAddress H s) N" "\<And>a. slot_read w (by_slot H (as_byAddress H s) a) = 0"
  shows "\<exists>w'. AddressSet_Initialize H s w = (Ok (), w') \<and> as_rep H s N w' []"
  using assms layout_slots(2) [OF assms(2), of 0]
  by (simp add: AddressSet_Initialize_def word_ops_0 sys_simps as_rep_def indexed_def slot_read_write
      UintToHash_ucast)

text \<open>The state in the middle of \<^verbatim>\<open>Clear\<close>: the first \<open>j\<close> members are gone.\<close>

definition as_suffix :: "(bytes \<Rightarrow> bytes) \<Rightarrow> Storage \<Rightarrow> nat \<Rightarrow> address list \<Rightarrow> nat \<Rightarrow> world \<Rightarrow> bool" where
  "as_suffix H s N xs j w \<longleftrightarrow> sysw w
     \<and> (\<forall>i < length xs. j \<le> i \<longrightarrow> slot_read w (word_slot H s (Suc i)) = AddressToHash (xs ! i))
     \<and> (\<forall>a. a \<notin> set (drop j xs) \<longrightarrow> slot_read w (by_slot H (as_byAddress H s) a) = 0)"

lemma Clear_step:
  assumes lay: "index_layout H s (as_byAddress H s) N" and N: "length xs \<le> N"
    and j: "j < length xs" and w: "as_suffix H s N xs j w"
  shows "\<exists>w'. bnd (or_zero 0 (Storage_GetByUint64 H s (of_nat (Suc j)))) (\<lambda>contents.
            bnd (ignore (Storage_ClearByUint64 H s (of_nat (Suc j)))) (\<lambda>_.
            Storage_Clear H (as_byAddress H s) contents)) w = (Ok (), w') \<and> as_suffix H s N xs (Suc j) w'"
proof -
  note L = layout_slots [OF lay]
  let ?r = "tick StorageAccessRead StorageReadCost" and ?by = "by_slot H (as_byAddress H s)"
  let ?wr = "\<lambda>ss w. slot_write ss 0 (tick StorageAccessWrite (WriteCost 0) w)"
  let ?w' = "?wr (?by (xs ! j)) (?wr (word_slot H s (Suc j)) (?r w))"
  have sys: "sysw w" and hd: "slot_read w (word_slot H s (Suc j)) = AddressToHash (xs ! j)"
    using w j by (simp_all add: as_suffix_def)
  have "slot_read ?w' (word_slot H s (Suc i)) = AddressToHash (xs ! i)" if "i < length xs" "Suc j \<le> i" for i
    using that w N L(3) [of "Suc i"] L(4) [of "Suc i" "Suc j"] by (simp add: slot_read_write as_suffix_def)
  moreover have "slot_read ?w' (?by a) = 0" if "a \<notin> set (drop (Suc j) xs)" for a
  proof (cases "a = xs ! j")
    case False
    then have "a \<notin> set (drop j xs)" using that j by (metis Cons_nth_drop_Suc set_ConsD)
    then show ?thesis using w by (simp add: slot_read_write as_suffix_def)
  qed simp
  ultimately have "as_suffix H s N xs (Suc j) ?w'" using sys by (simp add: as_suffix_def)
  then show ?thesis using sys hd
    by (simp add: bnd_def or_zero_def word_ops sys_simps Storage_Clear_def Storage_Set_slot as_slots del: of_nat_Suc)
qed

lemma Clear_run:
  assumes rep: "as_rep H s N w xs"
  shows "\<exists>w'. AddressSet_Clear H s w = (Ok (), w') \<and> as_rep H s N w' []"
proof (cases "xs = []")
  case True
  then show ?thesis using as_repD(1,7) [OF rep] rep
    by (simp add: AddressSet_Clear_def bnd_def op_simps sys_simps as_slots)
next
  case False
  note R = as_repD [OF rep]
  have n64: "length xs < 2 ^ 64" using R(4) by simp
  have nz: "(of_nat (length xs) :: u64) \<noteq> 0" using False n64 by (simp only: of_nat_u64_eq_0) simp
  let ?body = "\<lambda>i. bnd (or_zero 0 (Storage_GetByUint64 H s (of_nat i))) (\<lambda>contents.
            bnd (ignore (Storage_ClearByUint64 H s (of_nat i))) (\<lambda>_.
            Storage_Clear H (as_byAddress H s) contents))"
  have loop: "j \<le> length xs \<Longrightarrow> as_suffix H s N xs j u \<Longrightarrow>
      \<exists>w'. for_each [Suc j..<Suc (length xs)] ?body u = (Ok (), w') \<and> as_suffix H s N xs (length xs) w'" for j u
  proof (induction "length xs - j" arbitrary: j u)
    case 0
    then show ?case by (simp add: ret_run)
  next
    case (Suc n)
    then have j: "j < length xs" by simp
    obtain u' where u': "?body (Suc j) u = (Ok (), u')" "as_suffix H s N xs (Suc j) u'"
      using Clear_step [OF R(2,3) j Suc.prems(2)] by blast
    have "[Suc j..<Suc (length xs)] = Suc j # [Suc (Suc j)..<Suc (length xs)]" using j by (simp add: upt_conv_Cons)
    moreover have "n = length xs - Suc j" "Suc j \<le> length xs" using Suc.hyps(2) j by simp_all
    from Suc.hyps(1) [OF this u'(2)] obtain w' where
      "for_each [Suc (Suc j)..<Suc (length xs)] ?body u' = (Ok (), w')"
      "as_suffix H s N xs (length xs) w'" by blast
    ultimately show ?case using u'(1) by (auto simp: bnd_run simp del: of_nat_Suc upt_Suc)
  qed
  let ?w1 = "tick StorageAccessRead StorageReadCost w"
  have "as_suffix H s N xs 0 ?w1" using R(1,5) by (auto simp: as_suffix_def indexed_def)
  from loop [OF _ this] obtain w2 where
    w2: "for_each [Suc 0..<Suc (length xs)] ?body ?w1 = (Ok (), w2)" "as_suffix H s N xs (length xs) w2" by auto
  let ?w' = "slot_write (word_slot H s 0) (ucast (0 :: u64)) (tick StorageAccessWrite (WriteCost (ucast (0 :: u64))) w2)"
  have a1: "StorageBackedUint64_Get (as_size H s) w = (Ok (of_nat (length xs)), ?w1)"
    using R(1,7) by (simp add: as_slots sys_simps)
  have a3: "StorageBackedUint64_Clear (as_size H s) w2 = (Ok (), ?w')"
    using w2(2) by (simp add: as_suffix_def StorageBackedUint64_Clear_def as_slots sys_simps)
  have "AddressSet_Clear H s w = (Ok (), ?w')"
    using nz w2(1)
    by (simp only: AddressSet_Clear_def bnd_def a1 a3 result.case prod.case unat_of_nat_u64 [OF n64]
        One_nat_def if_False)
  moreover have "as_rep H s N ?w' []"
    using w2(2) R(2) layout_slots(2) [OF R(2), of 0]
    by (simp add: as_rep_def as_suffix_def indexed_def slot_read_write)
  ultimately show ?thesis by blast
qed

text \<open>Before version 11 the moved member keeps its old position: the state no longer
  represents any list of members.\<close>

lemma Remove_before_11:
  assumes rep: "as_rep H s N w xs" and i: "Suc i < length xs" and ver: "ver < 11"
  shows "\<exists>w'. AddressSet_Remove H s (xs ! i) ver w = (Ok (), w')
    \<and> slot_read w' (as_size H s) = UintToHash (of_nat (length xs - 1))
    \<and> slot_read w' (word_slot H s (Suc i)) = AddressToHash (last xs)
    \<and> slot_read w' (by_slot H (as_byAddress H s) (last xs)) = UintToHash (of_nat (length xs))
    \<and> (\<forall>ys. \<not> as_rep H s N w' ys)"
proof -
  note R = as_repD [OF rep]
  note L = layout_slots [OF R(2)]
  let ?by = "by_slot H (as_byAddress H s)"
  have "i < length xs" using i by simp
  from Remove_writes [OF rep this, of ver] obtain w' where w': "AddressSet_Remove H s (xs ! i) ver w = (Ok (), w')"
    and rd: "\<And>ss. slot_read w' ss =
     (if ss = word_slot H s 0 then ucast (of_nat (length xs - 1) :: u64)
      else if ss = word_slot H s (length xs) then 0
      else if ss = word_slot H s (Suc i) then AddressToHash (last xs)
      else if ss = ?by (xs ! i) then 0 else slot_read w ss)"
    using i ver by (auto simp: not_le [symmetric])
  have last: "last xs = xs ! (length xs - 1)" using i by (intro last_conv_nth) auto
  then have ne: "last xs \<noteq> xs ! i" using R(6) i by (simp add: nth_eq_iff_index_eq)
  have "slot_read w (?by (xs ! (length xs - 1))) = ucast (of_nat (Suc (length xs - 1)) :: u64)"
    using R(5) i unfolding indexed_def by simp
  moreover have "Suc (length xs - 1) = length xs" using i by simp
  ultimately have "slot_read w (?by (last xs)) = ucast (of_nat (length xs) :: u64)" by (simp only: last)
  then have stale: "slot_read w' (?by (last xs)) = ucast (of_nat (length xs) :: u64)"
    using i R(3) ne L(1) L(2) [of 0 "last xs"] L(2) [of "length xs" "last xs"] L(2) [of "Suc i" "last xs"]
    by (simp add: rd)
  moreover have at_i: "slot_read w' (word_slot H s (Suc i)) = AddressToHash (last xs)"
    using i R(3) L(4) [of "Suc i" 0] L(4) [of "Suc i" "length xs"] by (simp add: rd)
  moreover have "\<not> as_rep H s N w' ys" for ys
  proof
    assume rep': "as_rep H s N w' ys"
    note R' = as_repD [OF rep']
    have "(ucast (of_nat (length ys) :: u64) :: hash) = ucast (of_nat (length xs - 1) :: u64)"
      using R'(7) by (simp add: rd)
    moreover have "length ys < 2 ^ 64" "length xs - 1 < 2 ^ 64" using R'(4) R(4) by simp_all
    ultimately have len: "length ys = length xs - 1" by (simp only: ucast_of_nat_inject)
    then have "slot_read w' (word_slot H s (Suc i)) = AddressToHash (ys ! i)"
      "slot_read w' (?by (ys ! i)) = ucast (of_nat (Suc i) :: u64)"
      using R'(5) i by (auto simp: indexed_def)
    then have "(ucast (of_nat (Suc i) :: u64) :: hash) = ucast (of_nat (length xs) :: u64)"
      using at_i stale by simp
    moreover have "Suc i < 2 ^ 64" "length xs < 2 ^ 64" using i R(4) by simp_all
    ultimately have "Suc i = length xs" by (simp only: ucast_of_nat_inject)
    with i show False by simp
  qed
  ultimately show ?thesis using w' rd [of "word_slot H s 0"] by (auto simp: as_slots UintToHash_ucast)
qed

section \<open>Properties\<close>

lemma demo_as_rep: "as_rep demo_hash demo_storage 100 demo_world []"
  using demo_layout [of 100] by (simp add: as_rep_def indexed_def as_byAddress_def)

text \<open>C8: From ArbOS version 11 on, the address set implements a finite set: any sequence of
  \<^verbatim>\<open>Add\<close>, \<^verbatim>\<open>Remove\<close> and \<^verbatim>\<open>IsMember\<close> calls answers like a mathematical set and keeps the
  array, the size and the positions consistent.\<close>

theorem address_set_refines_set:
  assumes "as_rep H s N w xs" and "11 \<le> ver" and "length xs + adds cs \<le> N"
  shows "\<exists>w' ys. collect cs (exec_set_cmd (AddressSet_Add H s) (\<lambda>a. AddressSet_Remove H s a ver)
          (AddressSet_IsMember H s)) w = (Ok (fst (set_run cs (set xs))), w')
     \<and> as_rep H s N w' ys \<and> set ys = snd (set_run cs (set xs))"
  using address_set.refines_set [of H s N w xs ver cs] assms by blast

theorem address_set_refines_set_witness:
  "\<exists>w' ys. collect [CmdAdd 1, CmdAdd 2, CmdQuery 2, CmdRemove 1, CmdQuery 1, CmdQuery 2]
       (exec_set_cmd (AddressSet_Add demo_hash demo_storage) (\<lambda>a. AddressSet_Remove demo_hash demo_storage a 30)
          (AddressSet_IsMember demo_hash demo_storage)) demo_world
       = (Ok [True, True, True, True, False, True], w')
     \<and> as_rep demo_hash demo_storage 100 w' ys \<and> set ys = {2}"
  using address_set_refines_set [OF demo_as_rep, of 30
      "[CmdAdd 1, CmdAdd 2, CmdQuery 2, CmdRemove 1, CmdQuery 1, CmdQuery 2]"]
  by (simp del: collect.simps add: insert_Diff_if)

text \<open>C37: Before ArbOS version 11, removing a member that is not the last one moves the last
  member into the gap but leaves its recorded position behind: the state no longer
  represents any set, and the position points past the end of the array.\<close>

theorem remove_before_11_breaks_set:
  assumes "as_rep H s N w xs" and "Suc i < length xs" and "ver < 11"
  shows "\<exists>w'. AddressSet_Remove H s (xs ! i) ver w = (Ok (), w')
    \<and> slot_read w' (as_size H s) = UintToHash (of_nat (length xs - 1))
    \<and> slot_read w' (word_slot H s (Suc i)) = AddressToHash (last xs)
    \<and> slot_read w' (by_slot H (as_byAddress H s) (last xs)) = UintToHash (of_nat (length xs))
    \<and> (\<forall>ys. \<not> as_rep H s N w' ys)"
  by (rule Remove_before_11 [OF assms])

theorem remove_before_11_breaks_set_witness:
  "\<exists>w w'. as_rep demo_hash demo_storage 100 w [1, 2]
     \<and> AddressSet_Remove demo_hash demo_storage 1 10 w = (Ok (), w')
     \<and> (\<forall>ys. \<not> as_rep demo_hash demo_storage 100 w' ys)"
proof -
  obtain w1 where "as_rep demo_hash demo_storage 100 w1 [1]" using Add_run [OF demo_as_rep, of 1] by auto
  from Add_run [OF this, of 2] obtain w where w: "as_rep demo_hash demo_storage 100 w [1, 2]" by auto
  from remove_before_11_breaks_set [OF w, of 0 10] show ?thesis using w by auto
qed

text \<open>The read operations of the set report its members: \<^verbatim>\<open>Size\<close> their number,
  \<^verbatim>\<open>AllMembers\<close> the first \<open>m\<close> of them, \<^verbatim>\<open>GetAnyMember\<close> the first or nil; \<^verbatim>\<open>Clear\<close> leaves
  the empty set.\<close>

theorem address_set_reports_members:
  assumes "as_rep H s N w xs"
  shows "(\<exists>w'. AddressSet_Size H s w = (Ok (of_nat (length xs)), w') \<and> as_rep H s N w' xs)
    \<and> (\<exists>w'. AddressSet_AllMembers H s m w = (Ok (take (unat m) xs), w') \<and> same_except {} w w')
    \<and> (\<exists>w'. AddressSet_GetAnyMember H s w = (Ok (case xs of [] \<Rightarrow> None | x # _ \<Rightarrow> Some x), w')
         \<and> as_rep H s N w' xs)
    \<and> (\<exists>w'. AddressSet_Clear H s w = (Ok (), w') \<and> as_rep H s N w' [])"
  using Size_run [OF assms] as_rep_tick [OF assms] AllMembers_run [OF assms, of m] GetAnyMember_run [OF assms]
    Clear_run [OF assms] by blast

end
