(* ===== verification/L1Pricing.thy ===== *)
theory L1Pricing
  imports Util AddressSet
begin

text \<open>
  The table of batch posters (\<^verbatim>\<open>arbos/l1pricing/batchPoster.go\<close>) and the L1 pricing model
  (\<^verbatim>\<open>arbos/l1pricing/l1pricing.go\<close> and \<^verbatim>\<open>l1PricingOldVersions.go\<close>): what a batch poster is owed, how the
  fees collected for calldata are paid out, and how the price of a unit of calldata follows the
  surplus. A payment goes through the update of the version in force, from version 10 on with the
  fees available kept as a counter of their own.
\<close>

section \<open>Batch posters\<close>

abbreviation (input) totalFundsDueOffset :: u64 where "totalFundsDueOffset \<equiv> 0"
abbreviation (input) PosterAddrsKey :: bytes where "PosterAddrsKey \<equiv> [0]"
abbreviation (input) PosterInfoKey :: bytes where "PosterInfoKey \<equiv> [1]"

record BatchPostersTable =
  bpt_posterAddrs :: Storage
  bpt_posterInfo :: Storage
  bpt_totalFundsDue :: StorageSlot

record BatchPosterState =
  bps_fundsDue :: StorageSlot
  bps_payTo :: StorageSlot
  bps_postersTable :: BatchPostersTable

definition InitializeBatchPostersTable :: "(bytes \<Rightarrow> bytes) \<Rightarrow> Storage \<Rightarrow> (world, unit) op" where
  "InitializeBatchPostersTable H sto =
     bnd (StorageBackedBigInt_SetChecked (NewSlot H sto totalFundsDueOffset) 0) (\<lambda>_.
     AddressSet_Initialize H (OpenSubStorage H sto PosterAddrsKey))"

definition OpenBatchPostersTable :: "(bytes \<Rightarrow> bytes) \<Rightarrow> Storage \<Rightarrow> BatchPostersTable" where
  "OpenBatchPostersTable H sto =
     \<lparr>bpt_posterAddrs = OpenSubStorage H sto PosterAddrsKey,
      bpt_posterInfo = OpenSubStorage H sto PosterInfoKey,
      bpt_totalFundsDue = NewSlot H sto totalFundsDueOffset\<rparr>"

definition BPT_internalOpen :: "(bytes \<Rightarrow> bytes) \<Rightarrow> BatchPostersTable \<Rightarrow> address \<Rightarrow> BatchPosterState" where
  "BPT_internalOpen H bpt poster =
     (let bpStorage = OpenSubStorage H (bpt_posterInfo bpt) (be_bytes 20 (unat poster))
      in \<lparr>bps_fundsDue = NewSlot H bpStorage 0, bps_payTo = NewSlot H bpStorage 1, bps_postersTable = bpt\<rparr>)"

definition BPT_AddPoster ::
  "(bytes \<Rightarrow> bytes) \<Rightarrow> BatchPostersTable \<Rightarrow> address \<Rightarrow> address \<Rightarrow> (world, BatchPosterState) op" where
  "BPT_AddPoster H bpt posterAddress payTo =
     bnd (AddressSet_IsMember H (bpt_posterAddrs bpt) posterAddress) (\<lambda>isBatchPoster.
     if isBatchPoster then throw ErrAlreadyExists
     else
     let bpState = BPT_internalOpen H bpt posterAddress in
     bnd (StorageBackedBigInt_SetChecked (bps_fundsDue bpState) 0) (\<lambda>_.
     bnd (StorageBackedAddress_Set (bps_payTo bpState) payTo) (\<lambda>_.
     bnd (AddressSet_Add H (bpt_posterAddrs bpt) posterAddress) (\<lambda>_.
     ret bpState))))"

definition BPT_OpenPoster ::
  "(bytes \<Rightarrow> bytes) \<Rightarrow> BatchPostersTable \<Rightarrow> address \<Rightarrow> bool \<Rightarrow> (world, BatchPosterState) op" where
  "BPT_OpenPoster H bpt poster createIfNotExist =
     bnd (AddressSet_IsMember H (bpt_posterAddrs bpt) poster) (\<lambda>isBatchPoster.
     if \<not> isBatchPoster
     then (if \<not> createIfNotExist then throw ErrNotExist else BPT_AddPoster H bpt poster poster)
     else ret (BPT_internalOpen H bpt poster))"

definition BPT_ContainsPoster :: "(bytes \<Rightarrow> bytes) \<Rightarrow> BatchPostersTable \<Rightarrow> address \<Rightarrow> (world, bool) op" where
  "BPT_ContainsPoster H bpt poster = AddressSet_IsMember H (bpt_posterAddrs bpt) poster"

definition BPT_AllPosters :: "(bytes \<Rightarrow> bytes) \<Rightarrow> BatchPostersTable \<Rightarrow> u64 \<Rightarrow> (world, address list) op" where
  "BPT_AllPosters H bpt maxNumToGet = AddressSet_AllMembers H (bpt_posterAddrs bpt) maxNumToGet"

definition BPT_TotalFundsDue :: "BatchPostersTable \<Rightarrow> (world, int) op" where
  "BPT_TotalFundsDue bpt = StorageBackedBigInt_Get (bpt_totalFundsDue bpt)"

definition BPS_FundsDue :: "BatchPosterState \<Rightarrow> (world, int) op" where
  "BPS_FundsDue bps = StorageBackedBigInt_Get (bps_fundsDue bps)"

definition BPS_SetFundsDue :: "BatchPosterState \<Rightarrow> int \<Rightarrow> (world, unit) op" where
  "BPS_SetFundsDue bps val =
     bnd (StorageBackedBigInt_Get (bps_fundsDue bps)) (\<lambda>prev.
     bnd (StorageBackedBigInt_Get (bpt_totalFundsDue (bps_postersTable bps))) (\<lambda>prevTotal.
     bnd (StorageBackedBigInt_SetSaturatingWithWarning (bpt_totalFundsDue (bps_postersTable bps))
            (BigSub (BigAdd prevTotal val) prev)) (\<lambda>_.
     StorageBackedBigInt_SetSaturatingWithWarning (bps_fundsDue bps) val)))"

definition BPS_PayTo :: "BatchPosterState \<Rightarrow> (world, address) op" where
  "BPS_PayTo bps = StorageBackedAddress_Get (bps_payTo bps)"

definition BPS_SetPayTo :: "BatchPosterState \<Rightarrow> address \<Rightarrow> (world, unit) op" where
  "BPS_SetPayTo bps addr = StorageBackedAddress_Set (bps_payTo bps) addr"

record FundsDueItem =
  fdi_dueTo :: address
  fdi_balance :: int

definition fundsDueStep ::
  "(bytes \<Rightarrow> bytes) \<Rightarrow> BatchPostersTable \<Rightarrow> address \<Rightarrow> FundsDueItem list \<Rightarrow> (world, FundsDueItem list) op" where
  "fundsDueStep H bpt posterAddr items =
     bnd (BPT_OpenPoster H bpt posterAddr False) (\<lambda>poster.
     bnd (BPS_FundsDue poster) (\<lambda>due.
     ret (if due > 0 then items @ [\<lparr>fdi_dueTo = posterAddr, fdi_balance = due\<rparr>] else items)))"

definition BPT_GetFundsDueList :: "(bytes \<Rightarrow> bytes) \<Rightarrow> BatchPostersTable \<Rightarrow> (world, FundsDueItem list) op" where
  "BPT_GetFundsDueList H bpt =
     bnd (BPT_AllPosters H bpt (- 1)) (\<lambda>allPosters.
     fold_op (fundsDueStep H bpt) allPosters [])"

section \<open>State\<close>

abbreviation (input) BatchPosterTableKey :: bytes where "BatchPosterTableKey \<equiv> [0]"

definition BatchPosterAddress :: address where
  "BatchPosterAddress = 0xA4B000000000000000000073657175656e636572"

definition BatchPosterPayToAddress :: address where
  "BatchPosterPayToAddress = BatchPosterAddress"

definition L1PricerFundsPoolAddress :: address where
  "L1PricerFundsPoolAddress = 0xA4B00000000000000000000000000000000000f6"

record L1PricingState =
  l1_storage :: Storage
  l1_ArbosVersion :: u64

definition l1_word :: "(bytes \<Rightarrow> bytes) \<Rightarrow> L1PricingState \<Rightarrow> nat \<Rightarrow> StorageSlot" where
  "l1_word H ps i = NewSlot H (l1_storage ps) (of_nat i)"

abbreviation l1_payRewardsTo :: "(bytes \<Rightarrow> bytes) \<Rightarrow> L1PricingState \<Rightarrow> StorageSlot" where
  "l1_payRewardsTo H ps \<equiv> l1_word H ps 0"
abbreviation l1_equilibrationUnits :: "(bytes \<Rightarrow> bytes) \<Rightarrow> L1PricingState \<Rightarrow> StorageSlot" where
  "l1_equilibrationUnits H ps \<equiv> l1_word H ps 1"
abbreviation l1_inertia :: "(bytes \<Rightarrow> bytes) \<Rightarrow> L1PricingState \<Rightarrow> StorageSlot" where
  "l1_inertia H ps \<equiv> l1_word H ps 2"
abbreviation l1_perUnitReward :: "(bytes \<Rightarrow> bytes) \<Rightarrow> L1PricingState \<Rightarrow> StorageSlot" where
  "l1_perUnitReward H ps \<equiv> l1_word H ps 3"
abbreviation l1_lastUpdateTime :: "(bytes \<Rightarrow> bytes) \<Rightarrow> L1PricingState \<Rightarrow> StorageSlot" where
  "l1_lastUpdateTime H ps \<equiv> l1_word H ps 4"
abbreviation l1_fundsDueForRewards :: "(bytes \<Rightarrow> bytes) \<Rightarrow> L1PricingState \<Rightarrow> StorageSlot" where
  "l1_fundsDueForRewards H ps \<equiv> l1_word H ps 5"
abbreviation l1_unitsSinceUpdate :: "(bytes \<Rightarrow> bytes) \<Rightarrow> L1PricingState \<Rightarrow> StorageSlot" where
  "l1_unitsSinceUpdate H ps \<equiv> l1_word H ps 6"
abbreviation l1_pricePerUnit :: "(bytes \<Rightarrow> bytes) \<Rightarrow> L1PricingState \<Rightarrow> StorageSlot" where
  "l1_pricePerUnit H ps \<equiv> l1_word H ps 7"
abbreviation l1_lastSurplus :: "(bytes \<Rightarrow> bytes) \<Rightarrow> L1PricingState \<Rightarrow> StorageSlot" where
  "l1_lastSurplus H ps \<equiv> l1_word H ps 8"
abbreviation l1_perBatchGasCost :: "(bytes \<Rightarrow> bytes) \<Rightarrow> L1PricingState \<Rightarrow> StorageSlot" where
  "l1_perBatchGasCost H ps \<equiv> l1_word H ps 9"
abbreviation l1_amortizedCostCapBips :: "(bytes \<Rightarrow> bytes) \<Rightarrow> L1PricingState \<Rightarrow> StorageSlot" where
  "l1_amortizedCostCapBips H ps \<equiv> l1_word H ps 10"
abbreviation l1_l1FeesAvailable :: "(bytes \<Rightarrow> bytes) \<Rightarrow> L1PricingState \<Rightarrow> StorageSlot" where
  "l1_l1FeesAvailable H ps \<equiv> l1_word H ps 11"
abbreviation l1_gasFloorPerToken :: "(bytes \<Rightarrow> bytes) \<Rightarrow> L1PricingState \<Rightarrow> StorageSlot" where
  "l1_gasFloorPerToken H ps \<equiv> l1_word H ps 12"

definition InitialInertia :: u64 where "InitialInertia = 10"
definition InitialPerUnitReward :: u64 where "InitialPerUnitReward = 10"
definition InitialPerBatchGasCostV6 :: int where "InitialPerBatchGasCostV6 = 100000"
definition InitialPerBatchGasCostV12 :: int where "InitialPerBatchGasCostV12 = 210000"
definition TxDataNonZeroGasEIP2028 :: u64 where "TxDataNonZeroGasEIP2028 = 16"
definition InitialEquilibrationUnitsV0 :: int where
  "InitialEquilibrationUnitsV0 = UintToBig (60 * TxDataNonZeroGasEIP2028 * 100000)"
definition InitialEquilibrationUnitsV6 :: int where
  "InitialEquilibrationUnitsV6 = UintToBig (TxDataNonZeroGasEIP2028 * 10000000)"

definition L1_BatchPosterTable :: "(bytes \<Rightarrow> bytes) \<Rightarrow> L1PricingState \<Rightarrow> BatchPostersTable" where
  "L1_BatchPosterTable H ps = OpenBatchPostersTable H (OpenSubStorage H (l1_storage ps) BatchPosterTableKey)"

definition OpenL1PricingState :: "Storage \<Rightarrow> u64 \<Rightarrow> L1PricingState" where
  "OpenL1PricingState sto arbosVersion = \<lparr>l1_storage = sto, l1_ArbosVersion = arbosVersion\<rparr>"

text \<open>The initial price goes through the signed saturating store although the field is unsigned.\<close>

definition InitializeL1PricingState :: "(bytes \<Rightarrow> bytes) \<Rightarrow> Storage \<Rightarrow> address \<Rightarrow> int \<Rightarrow> (world, unit) op" where
  "InitializeL1PricingState H sto initialRewardsRecipient initialL1BaseFee =
     (let bptStorage = OpenSubStorage H sto BatchPosterTableKey;
          ps = OpenL1PricingState sto 0 in
      bnd (InitializeBatchPostersTable H bptStorage) (\<lambda>_.
      bnd (BPT_AddPoster H (OpenBatchPostersTable H bptStorage) BatchPosterAddress BatchPosterPayToAddress) (\<lambda>_.
      bnd (Storage_SetByUint64 H sto 0 (AddressToHash initialRewardsRecipient)) (\<lambda>_.
      bnd (StorageBackedBigUint_SetChecked (l1_equilibrationUnits H ps) InitialEquilibrationUnitsV0) (\<lambda>_.
      bnd (Storage_SetUint64ByUint64 H sto 2 InitialInertia) (\<lambda>_.
      bnd (StorageBackedBigInt_SetChecked (l1_fundsDueForRewards H ps) 0) (\<lambda>_.
      bnd (Storage_SetUint64ByUint64 H sto 3 InitialPerUnitReward) (\<lambda>_.
      StorageBackedBigInt_SetSaturatingWithWarning (l1_pricePerUnit H ps) initialL1BaseFee))))))))"

section \<open>Fields\<close>

definition L1_PayRewardsTo :: "(bytes \<Rightarrow> bytes) \<Rightarrow> L1PricingState \<Rightarrow> (world, address) op" where
  "L1_PayRewardsTo H ps = StorageBackedAddress_Get (l1_payRewardsTo H ps)"
definition L1_SetPayRewardsTo :: "(bytes \<Rightarrow> bytes) \<Rightarrow> L1PricingState \<Rightarrow> address \<Rightarrow> (world, unit) op" where
  "L1_SetPayRewardsTo H ps addr = StorageBackedAddress_Set (l1_payRewardsTo H ps) addr"
definition L1_EquilibrationUnits :: "(bytes \<Rightarrow> bytes) \<Rightarrow> L1PricingState \<Rightarrow> (world, int) op" where
  "L1_EquilibrationUnits H ps = StorageBackedBigUint_Get (l1_equilibrationUnits H ps)"
definition L1_SetEquilibrationUnits :: "(bytes \<Rightarrow> bytes) \<Rightarrow> L1PricingState \<Rightarrow> int \<Rightarrow> (world, unit) op" where
  "L1_SetEquilibrationUnits H ps equilUnits = StorageBackedBigUint_SetChecked (l1_equilibrationUnits H ps) equilUnits"
definition L1_Inertia :: "(bytes \<Rightarrow> bytes) \<Rightarrow> L1PricingState \<Rightarrow> (world, u64) op" where
  "L1_Inertia H ps = StorageBackedUint64_Get (l1_inertia H ps)"
definition L1_SetInertia :: "(bytes \<Rightarrow> bytes) \<Rightarrow> L1PricingState \<Rightarrow> u64 \<Rightarrow> (world, unit) op" where
  "L1_SetInertia H ps inertia = StorageBackedUint64_Set (l1_inertia H ps) inertia"
definition L1_PerUnitReward :: "(bytes \<Rightarrow> bytes) \<Rightarrow> L1PricingState \<Rightarrow> (world, u64) op" where
  "L1_PerUnitReward H ps = StorageBackedUint64_Get (l1_perUnitReward H ps)"
definition L1_SetPerUnitReward :: "(bytes \<Rightarrow> bytes) \<Rightarrow> L1PricingState \<Rightarrow> u64 \<Rightarrow> (world, unit) op" where
  "L1_SetPerUnitReward H ps weiPerUnit = StorageBackedUint64_Set (l1_perUnitReward H ps) weiPerUnit"
definition L1_LastUpdateTime :: "(bytes \<Rightarrow> bytes) \<Rightarrow> L1PricingState \<Rightarrow> (world, u64) op" where
  "L1_LastUpdateTime H ps = StorageBackedUint64_Get (l1_lastUpdateTime H ps)"
definition L1_SetLastUpdateTime :: "(bytes \<Rightarrow> bytes) \<Rightarrow> L1PricingState \<Rightarrow> u64 \<Rightarrow> (world, unit) op" where
  "L1_SetLastUpdateTime H ps t = StorageBackedUint64_Set (l1_lastUpdateTime H ps) t"
definition L1_FundsDueForRewards :: "(bytes \<Rightarrow> bytes) \<Rightarrow> L1PricingState \<Rightarrow> (world, int) op" where
  "L1_FundsDueForRewards H ps = StorageBackedBigInt_Get (l1_fundsDueForRewards H ps)"
definition L1_SetFundsDueForRewards :: "(bytes \<Rightarrow> bytes) \<Rightarrow> L1PricingState \<Rightarrow> int \<Rightarrow> (world, unit) op" where
  "L1_SetFundsDueForRewards H ps amt = StorageBackedBigInt_SetSaturatingWithWarning (l1_fundsDueForRewards H ps) amt"
definition L1_UnitsSinceUpdate :: "(bytes \<Rightarrow> bytes) \<Rightarrow> L1PricingState \<Rightarrow> (world, u64) op" where
  "L1_UnitsSinceUpdate H ps = StorageBackedUint64_Get (l1_unitsSinceUpdate H ps)"
definition L1_SetUnitsSinceUpdate :: "(bytes \<Rightarrow> bytes) \<Rightarrow> L1PricingState \<Rightarrow> u64 \<Rightarrow> (world, unit) op" where
  "L1_SetUnitsSinceUpdate H ps units = StorageBackedUint64_Set (l1_unitsSinceUpdate H ps) units"
definition L1_LastSurplus :: "(bytes \<Rightarrow> bytes) \<Rightarrow> L1PricingState \<Rightarrow> (world, int) op" where
  "L1_LastSurplus H ps = StorageBackedBigInt_Get (l1_lastSurplus H ps)"
definition L1_SetLastSurplus :: "(bytes \<Rightarrow> bytes) \<Rightarrow> L1PricingState \<Rightarrow> int \<Rightarrow> u64 \<Rightarrow> (world, unit) op" where
  "L1_SetLastSurplus H ps val arbosVersion =
     (if arbosVersion < 7 then StorageBackedBigInt_Set_preVersion7 (l1_lastSurplus H ps) val
      else StorageBackedBigInt_SetSaturatingWithWarning (l1_lastSurplus H ps) val)"
definition L1_AddToUnitsSinceUpdate :: "(bytes \<Rightarrow> bytes) \<Rightarrow> L1PricingState \<Rightarrow> u64 \<Rightarrow> (world, unit) op" where
  "L1_AddToUnitsSinceUpdate H ps units =
     bnd (StorageBackedUint64_Get (l1_unitsSinceUpdate H ps)) (\<lambda>oldUnits.
     StorageBackedUint64_Set (l1_unitsSinceUpdate H ps) (oldUnits + units))"
definition L1_PricePerUnit :: "(bytes \<Rightarrow> bytes) \<Rightarrow> L1PricingState \<Rightarrow> (world, int) op" where
  "L1_PricePerUnit H ps = StorageBackedBigUint_Get (l1_pricePerUnit H ps)"
definition L1_SetPricePerUnit :: "(bytes \<Rightarrow> bytes) \<Rightarrow> L1PricingState \<Rightarrow> int \<Rightarrow> (world, unit) op" where
  "L1_SetPricePerUnit H ps price = StorageBackedBigUint_SetChecked (l1_pricePerUnit H ps) price"
definition L1_SetParentGasFloorPerToken :: "(bytes \<Rightarrow> bytes) \<Rightarrow> L1PricingState \<Rightarrow> u64 \<Rightarrow> (world, unit) op" where
  "L1_SetParentGasFloorPerToken H ps floor1 =
     (if l1_ArbosVersion ps < 50 then throw (ErrMsg ''not supported'')
      else StorageBackedUint64_Set (l1_gasFloorPerToken H ps) floor1)"
definition L1_ParentGasFloorPerToken :: "(bytes \<Rightarrow> bytes) \<Rightarrow> L1PricingState \<Rightarrow> (world, u64) op" where
  "L1_ParentGasFloorPerToken H ps =
     (if l1_ArbosVersion ps < 50 then ret 0 else StorageBackedUint64_Get (l1_gasFloorPerToken H ps))"
definition L1_PerBatchGasCost :: "(bytes \<Rightarrow> bytes) \<Rightarrow> L1PricingState \<Rightarrow> (world, int) op" where
  "L1_PerBatchGasCost H ps = StorageBackedInt64_Get (l1_perBatchGasCost H ps)"
definition L1_SetPerBatchGasCost :: "(bytes \<Rightarrow> bytes) \<Rightarrow> L1PricingState \<Rightarrow> int \<Rightarrow> (world, unit) op" where
  "L1_SetPerBatchGasCost H ps cost = StorageBackedInt64_Set (l1_perBatchGasCost H ps) cost"
definition L1_AmortizedCostCapBips :: "(bytes \<Rightarrow> bytes) \<Rightarrow> L1PricingState \<Rightarrow> (world, u64) op" where
  "L1_AmortizedCostCapBips H ps = StorageBackedUint64_Get (l1_amortizedCostCapBips H ps)"
definition L1_SetAmortizedCostCapBips :: "(bytes \<Rightarrow> bytes) \<Rightarrow> L1PricingState \<Rightarrow> u64 \<Rightarrow> (world, unit) op" where
  "L1_SetAmortizedCostCapBips H ps cap = StorageBackedUint64_Set (l1_amortizedCostCapBips H ps) cap"
definition L1_L1FeesAvailable :: "(bytes \<Rightarrow> bytes) \<Rightarrow> L1PricingState \<Rightarrow> (world, int) op" where
  "L1_L1FeesAvailable H ps = StorageBackedBigUint_Get (l1_l1FeesAvailable H ps)"
definition L1_SetL1FeesAvailable :: "(bytes \<Rightarrow> bytes) \<Rightarrow> L1PricingState \<Rightarrow> int \<Rightarrow> (world, unit) op" where
  "L1_SetL1FeesAvailable H ps val = StorageBackedBigUint_SetChecked (l1_l1FeesAvailable H ps) val"
definition L1_AddToL1FeesAvailable :: "(bytes \<Rightarrow> bytes) \<Rightarrow> L1PricingState \<Rightarrow> int \<Rightarrow> (world, int) op" where
  "L1_AddToL1FeesAvailable H ps delta =
     bnd (L1_L1FeesAvailable H ps) (\<lambda>old.
     bnd (L1_SetL1FeesAvailable H ps (old + delta)) (\<lambda>_. ret (old + delta)))"

definition L1_GetL1PricingSurplus :: "(bytes \<Rightarrow> bytes) \<Rightarrow> L1PricingState \<Rightarrow> (world, int) op" where
  "L1_GetL1PricingSurplus H ps =
     bnd (BPT_TotalFundsDue (L1_BatchPosterTable H ps)) (\<lambda>fundsDueForRefunds.
     bnd (L1_FundsDueForRewards H ps) (\<lambda>fundsDueForRewards.
     bnd (L1_L1FeesAvailable H ps) (\<lambda>haveFunds.
     ret (BigSub haveFunds (BigAdd fundsDueForRefunds fundsDueForRewards)))))"

text \<open>The transfer is made before the counter is checked.\<close>

definition L1_TransferFromL1FeesAvailable ::
  "(bytes \<Rightarrow> bytes) \<Rightarrow> L1PricingState \<Rightarrow> address \<Rightarrow> int \<Rightarrow> EVM \<Rightarrow> TracingScenario \<Rightarrow> (world, int) op" where
  "L1_TransferFromL1FeesAvailable H ps recipient amount evm scenario =
     bnd (TransferBalance (Some L1PricerFundsPoolAddress) (Some recipient) amount evm scenario) (\<lambda>_.
     bnd (L1_L1FeesAvailable H ps) (\<lambda>old.
     let updated = old - amount in
     if updated < 0 then throw ErrInsufficientFunds
     else bnd (L1_SetL1FeesAvailable H ps updated) (\<lambda>_. ret updated)))"

section \<open>Updates for a batch\<close>

text \<open>The stages of an update, in the order of the code. The first two are shared by all versions from 2
  on: the fraction of the time since the last update that this one accounts for, and the units it
  is allocated.\<close>

definition allocationFraction ::
  "(bytes \<Rightarrow> bytes) \<Rightarrow> L1PricingState \<Rightarrow> u64 \<Rightarrow> u64 \<Rightarrow> (world, u64 \<times> u64) op" where
  "allocationFraction H ps updateTime currentTime =
     bnd (L1_LastUpdateTime H ps) (\<lambda>stored.
     let lastUpdateTime = (if stored = 0 \<and> updateTime > 0 then updateTime - 1 else stored) in
     if updateTime > currentTime \<or> updateTime < lastUpdateTime then throw ErrInvalidTime
     else if currentTime - lastUpdateTime = 0 then ret (1, 1)
     else ret (updateTime - lastUpdateTime, currentTime - lastUpdateTime))"

definition allocateUnits :: "(bytes \<Rightarrow> bytes) \<Rightarrow> L1PricingState \<Rightarrow> u64 \<Rightarrow> u64 \<Rightarrow> (world, u64) op" where
  "allocateUnits H ps allocationNumerator allocationDenominator =
     bnd (L1_UnitsSinceUpdate H ps) (\<lambda>unitsSinceUpdate.
     bnd (goDivU (SaturatingUMul unitsSinceUpdate allocationNumerator) allocationDenominator) (\<lambda>unitsAllocated.
     bnd (L1_SetUnitsSinceUpdate H ps (unitsSinceUpdate - unitsAllocated)) (\<lambda>_.
     ret unitsAllocated)))"

definition capWeiSpent ::
  "(bytes \<Rightarrow> bytes) \<Rightarrow> L1PricingState \<Rightarrow> u64 \<Rightarrow> int \<Rightarrow> int \<Rightarrow> u64 \<Rightarrow> (world, int) op" where
  "capWeiSpent H ps arbosVersion weiSpent l1Basefee unitsAllocated =
     (if arbosVersion \<ge> 3
      then bnd (L1_AmortizedCostCapBips H ps) (\<lambda>amortizedCostCapBips.
           if amortizedCostCapBips \<noteq> 0
           then bnd (BigMulByBips (BigMulByUint l1Basefee unitsAllocated) (SaturatingCastToBips amortizedCostCapBips)) (\<lambda>weiSpentCap.
                ret (if BigLessThan weiSpentCap weiSpent then weiSpentCap else weiSpent))
           else ret weiSpent)
      else ret weiSpent)"

text \<open>Crediting poster and rewards, which gives the reward per unit and the rewards now due.\<close>

definition creditPoster ::
  "(bytes \<Rightarrow> bytes) \<Rightarrow> L1PricingState \<Rightarrow> BatchPosterState \<Rightarrow> int \<Rightarrow> int \<Rightarrow> u64 \<Rightarrow> (world, u64 \<times> int) op" where
  "creditPoster H ps posterState fundsDueForRewards weiSpent unitsAllocated =
     bnd (BPS_FundsDue posterState) (\<lambda>dueToPoster.
     bnd (BPS_SetFundsDue posterState (BigAdd dueToPoster weiSpent)) (\<lambda>_.
     bnd (L1_PerUnitReward H ps) (\<lambda>perUnitReward.
     let due = BigAdd fundsDueForRewards (BigMulByUint (UintToBig unitsAllocated) perUnitReward) in
     bnd (L1_SetFundsDueForRewards H ps due) (\<lambda>_.
     ret (perUnitReward, due)))))"

definition payRewards ::
  "(bytes \<Rightarrow> bytes) \<Rightarrow> L1PricingState \<Rightarrow> int \<Rightarrow> int \<Rightarrow> u64 \<Rightarrow> u64 \<Rightarrow> EVM \<Rightarrow> TracingScenario \<Rightarrow> (world, int) op" where
  "payRewards H ps l1FeesAvailable fundsDueForRewards perUnitReward unitsAllocated evm scenario =
     (let owed = BigMulByUint (UintToBig perUnitReward) unitsAllocated;
          paymentForRewards = (if BigLessThan l1FeesAvailable owed then l1FeesAvailable else owed) in
      bnd (L1_SetFundsDueForRewards H ps (BigSub fundsDueForRewards paymentForRewards)) (\<lambda>_.
      bnd (L1_PayRewardsTo H ps) (\<lambda>payRewardsTo.
      L1_TransferFromL1FeesAvailable H ps payRewardsTo paymentForRewards evm scenario)))"

definition settlePoster ::
  "(bytes \<Rightarrow> bytes) \<Rightarrow> L1PricingState \<Rightarrow> BatchPosterState \<Rightarrow> int \<Rightarrow> EVM \<Rightarrow> TracingScenario \<Rightarrow> (world, int) op" where
  "settlePoster H ps posterState l1FeesAvailable evm scenario =
     bnd (BPS_FundsDue posterState) (\<lambda>balanceDueToPoster.
     let balanceToTransfer = (if BigLessThan l1FeesAvailable balanceDueToPoster then l1FeesAvailable else balanceDueToPoster) in
     if balanceToTransfer > 0
     then bnd (BPS_PayTo posterState) (\<lambda>addrToPay.
          bnd (L1_TransferFromL1FeesAvailable H ps addrToPay balanceToTransfer evm scenario) (\<lambda>left.
          bnd (BPS_SetFundsDue posterState (BigSub balanceDueToPoster balanceToTransfer)) (\<lambda>_.
          ret left)))
     else ret l1FeesAvailable)"

definition priceChange :: "int \<Rightarrow> int \<Rightarrow> int \<Rightarrow> u64 \<Rightarrow> int \<Rightarrow> (world, int) op" where
  "priceChange surplus oldSurplus equilUnits unitsAllocated allocPlusInert =
     bnd (BigDiv (- surplus) equilUnits) (\<lambda>desiredDerivative.
     bnd (BigDivByUint (BigSub surplus oldSurplus) unitsAllocated) (\<lambda>actualDerivative.
     BigDiv (BigMulByUint (BigSub desiredDerivative actualDerivative) unitsAllocated) allocPlusInert))"

definition adjustPrice :: "(bytes \<Rightarrow> bytes) \<Rightarrow> L1PricingState \<Rightarrow> u64 \<Rightarrow> u64 \<Rightarrow> int \<Rightarrow> (world, unit) op" where
  "adjustPrice H ps arbosVersion unitsAllocated haveFunds =
     (if unitsAllocated > 0
      then
      bnd (BPT_TotalFundsDue (L1_BatchPosterTable H ps)) (\<lambda>totalFundsDue.
      bnd (L1_FundsDueForRewards H ps) (\<lambda>fundsDueForRewards.
      let surplus = BigSub haveFunds (BigAdd totalFundsDue fundsDueForRewards) in
      bnd (L1_Inertia H ps) (\<lambda>inertia.
      bnd (L1_EquilibrationUnits H ps) (\<lambda>equilUnits.
      bnd (BigDivByUint equilUnits inertia) (\<lambda>inertiaUnits.
      bnd (L1_PricePerUnit H ps) (\<lambda>price.
      bnd (L1_LastSurplus H ps) (\<lambda>oldSurplus.
      bnd (priceChange surplus oldSurplus equilUnits unitsAllocated (BigAddByUint inertiaUnits unitsAllocated)) (\<lambda>change.
      bnd (L1_SetLastSurplus H ps surplus arbosVersion) (\<lambda>_.
      let newPrice = BigAdd price change in
      L1_SetPricePerUnit H ps (if newPrice < 0 then 0 else newPrice))))))))))
      else ret ())"

subsection \<open>Before version 2\<close>

text \<open>The first update time is guessed from the current time, an invalid time is ignored, units are not
  saturated, every poster is paid from the funds of this update, and the price follows the change
  of the surplus directly.\<close>

definition payEachPoster ::
  "(bytes \<Rightarrow> bytes) \<Rightarrow> L1PricingState \<Rightarrow> EVM \<Rightarrow> TracingScenario \<Rightarrow> address \<Rightarrow> int \<Rightarrow> (world, int) op" where
  "payEachPoster H ps evm scenario posterAddr availableFunds =
     bnd (BPT_OpenPoster H (L1_BatchPosterTable H ps) posterAddr False) (\<lambda>poster.
     bnd (BPS_FundsDue poster) (\<lambda>balanceDueToPoster.
     let balanceToTransfer = (if BigLessThan availableFunds balanceDueToPoster then availableFunds else balanceDueToPoster) in
     if balanceToTransfer > 0
     then bnd (BPS_PayTo poster) (\<lambda>addrToPay.
          bnd (TransferBalance (Some L1PricerFundsPoolAddress) (Some addrToPay) balanceToTransfer evm scenario) (\<lambda>_.
          bnd (BPS_SetFundsDue poster (BigSub balanceDueToPoster balanceToTransfer)) (\<lambda>_.
          ret (BigSub availableFunds balanceToTransfer))))
     else ret availableFunds))"

definition adjustPrice_preVersion2 :: "(bytes \<Rightarrow> bytes) \<Rightarrow> L1PricingState \<Rightarrow> u64 \<Rightarrow> int \<Rightarrow> (world, unit) op" where
  "adjustPrice_preVersion2 H ps unitsAllocated oldSurplus =
     (if unitsAllocated > 0
      then
      bnd (BPT_TotalFundsDue (L1_BatchPosterTable H ps)) (\<lambda>totalFundsDue.
      bnd (L1_FundsDueForRewards H ps) (\<lambda>fundsDueForRewards.
      bnd (\<lambda>w. (Ok (GetBalance L1PricerFundsPoolAddress w), w)) (\<lambda>haveFunds.
      let surplus = BigSub haveFunds (BigAdd totalFundsDue fundsDueForRewards) in
      bnd (L1_Inertia H ps) (\<lambda>inertia.
      bnd (L1_EquilibrationUnits H ps) (\<lambda>equilUnits.
      bnd (BigDivByUint equilUnits inertia) (\<lambda>inertiaUnits.
      bnd (L1_PricePerUnit H ps) (\<lambda>price.
      bnd (BigDiv (BigSub (BigMul surplus (BigSub equilUnits 1)) (BigMul oldSurplus equilUnits))
             (BigMul equilUnits (BigAddByUint inertiaUnits unitsAllocated))) (\<lambda>change.
      let newPrice = BigAdd price change in
      L1_SetPricePerUnit H ps (if newPrice < 0 then 0 else newPrice)))))))))
      else ret ())"

definition preVersion2_UpdateForBatchPosterSpending ::
  "(bytes \<Rightarrow> bytes) \<Rightarrow> L1PricingState \<Rightarrow> EVM \<Rightarrow> u64 \<Rightarrow> u64 \<Rightarrow> address \<Rightarrow> int \<Rightarrow> TracingScenario \<Rightarrow> (world, unit) op" where
  "preVersion2_UpdateForBatchPosterSpending H ps evm updateTime currentTime batchPoster weiSpent scenario =
     bnd (BPT_OpenPoster H (L1_BatchPosterTable H ps) batchPoster True) (\<lambda>posterState.
     bnd (BPT_TotalFundsDue (L1_BatchPosterTable H ps)) (\<lambda>totalFundsDue.
     bnd (L1_FundsDueForRewards H ps) (\<lambda>fundsDueForRewards.
     bnd (\<lambda>w. (Ok (GetBalance L1PricerFundsPoolAddress w), w)) (\<lambda>haveFunds.
     let oldSurplus = BigSub haveFunds (BigAdd totalFundsDue fundsDueForRewards) in
     bnd (L1_LastUpdateTime H ps) (\<lambda>stored.
     let lastUpdateTime = (if stored = 0 \<and> currentTime > 0 then updateTime - 1 else stored) in
     if updateTime \<ge> currentTime \<or> updateTime < lastUpdateTime then ret ()
     else
     let allocationNumerator = (if currentTime - lastUpdateTime = 0 then 1 else updateTime - lastUpdateTime);
         allocationDenominator = (if currentTime - lastUpdateTime = 0 then 1 else currentTime - lastUpdateTime) in
     bnd (L1_UnitsSinceUpdate H ps) (\<lambda>unitsSinceUpdate.
     bnd (goDivU (unitsSinceUpdate * allocationNumerator) allocationDenominator) (\<lambda>unitsAllocated.
     bnd (L1_SetUnitsSinceUpdate H ps (unitsSinceUpdate - unitsAllocated)) (\<lambda>_.
     bnd (creditPoster H ps posterState fundsDueForRewards weiSpent unitsAllocated) (\<lambda>(perUnitReward, dueForRewards).
     bnd (\<lambda>w. (Ok (GetBalance L1PricerFundsPoolAddress w), w)) (\<lambda>collectedSinceUpdate.
     bnd (BigDivByUint (BigMulByUint collectedSinceUpdate allocationNumerator) allocationDenominator) (\<lambda>availableFunds.
     let owed = BigMulByUint (UintToBig perUnitReward) unitsAllocated;
         paymentForRewards = (if BigLessThan availableFunds owed then availableFunds else owed) in
     bnd (L1_SetFundsDueForRewards H ps (BigSub dueForRewards paymentForRewards)) (\<lambda>_.
     bnd (L1_PayRewardsTo H ps) (\<lambda>payRewardsTo.
     bnd (TransferBalance (Some L1PricerFundsPoolAddress) (Some payRewardsTo) paymentForRewards evm scenario) (\<lambda>_.
     bnd (BPT_AllPosters H (L1_BatchPosterTable H ps) (- 1)) (\<lambda>allPosterAddrs.
     bnd (fold_op (payEachPoster H ps evm scenario) allPosterAddrs (BigSub availableFunds paymentForRewards)) (\<lambda>_.
     bnd (L1_SetLastUpdateTime H ps updateTime) (\<lambda>_.
     adjustPrice_preVersion2 H ps unitsAllocated oldSurplus)))))))))))))))))"

subsection \<open>From version 2 to version 9\<close>

text \<open>The funds available are the balance of the pool.\<close>

definition payRewards_preVersion10 ::
  "(bytes \<Rightarrow> bytes) \<Rightarrow> L1PricingState \<Rightarrow> int \<Rightarrow> u64 \<Rightarrow> u64 \<Rightarrow> EVM \<Rightarrow> TracingScenario \<Rightarrow> (world, unit) op" where
  "payRewards_preVersion10 H ps fundsDueForRewards perUnitReward unitsAllocated evm scenario =
     bnd (\<lambda>w. (Ok (GetBalance L1PricerFundsPoolAddress w), w)) (\<lambda>availableFunds.
     let owed = BigMulByUint (UintToBig perUnitReward) unitsAllocated;
         paymentForRewards = (if BigLessThan availableFunds owed then availableFunds else owed) in
     bnd (L1_SetFundsDueForRewards H ps (BigSub fundsDueForRewards paymentForRewards)) (\<lambda>_.
     bnd (L1_PayRewardsTo H ps) (\<lambda>payRewardsTo.
     TransferBalance (Some L1PricerFundsPoolAddress) (Some payRewardsTo) paymentForRewards evm scenario)))"

definition settlePoster_preVersion10 ::
  "BatchPosterState \<Rightarrow> EVM \<Rightarrow> TracingScenario \<Rightarrow> (world, unit) op" where
  "settlePoster_preVersion10 posterState evm scenario =
     bnd (\<lambda>w. (Ok (GetBalance L1PricerFundsPoolAddress w), w)) (\<lambda>availableFunds.
     bnd (BPS_FundsDue posterState) (\<lambda>balanceDueToPoster.
     let balanceToTransfer = (if BigLessThan availableFunds balanceDueToPoster then availableFunds else balanceDueToPoster) in
     if balanceToTransfer > 0
     then bnd (BPS_PayTo posterState) (\<lambda>addrToPay.
          bnd (TransferBalance (Some L1PricerFundsPoolAddress) (Some addrToPay) balanceToTransfer evm scenario) (\<lambda>_.
          BPS_SetFundsDue posterState (BigSub balanceDueToPoster balanceToTransfer)))
     else ret ()))"

definition preversion10_UpdateForBatchPosterSpending ::
  "(bytes \<Rightarrow> bytes) \<Rightarrow> L1PricingState \<Rightarrow> EVM \<Rightarrow> u64 \<Rightarrow> u64 \<Rightarrow> u64 \<Rightarrow> address \<Rightarrow> int \<Rightarrow> int \<Rightarrow> TracingScenario
    \<Rightarrow> (world, unit) op" where
  "preversion10_UpdateForBatchPosterSpending H ps evm arbosVersion updateTime currentTime batchPoster weiSpent l1Basefee scenario =
     (if arbosVersion < 2
      then preVersion2_UpdateForBatchPosterSpending H ps evm updateTime currentTime batchPoster weiSpent scenario
      else
      bnd (BPT_OpenPoster H (L1_BatchPosterTable H ps) batchPoster True) (\<lambda>posterState.
      bnd (L1_FundsDueForRewards H ps) (\<lambda>fundsDueForRewards.
      bnd (allocationFraction H ps updateTime currentTime) (\<lambda>(allocationNumerator, allocationDenominator).
      bnd (allocateUnits H ps allocationNumerator allocationDenominator) (\<lambda>unitsAllocated.
      bnd (capWeiSpent H ps arbosVersion weiSpent l1Basefee unitsAllocated) (\<lambda>weiSpent.
      bnd (creditPoster H ps posterState fundsDueForRewards weiSpent unitsAllocated) (\<lambda>(perUnitReward, dueForRewards).
      bnd (payRewards_preVersion10 H ps dueForRewards perUnitReward unitsAllocated evm scenario) (\<lambda>_.
      bnd (settlePoster_preVersion10 posterState evm scenario) (\<lambda>_.
      bnd (L1_SetLastUpdateTime H ps updateTime) (\<lambda>_.
      bnd (\<lambda>w. (Ok (GetBalance L1PricerFundsPoolAddress w), w)) (\<lambda>haveFunds.
      adjustPrice H ps arbosVersion unitsAllocated haveFunds)))))))))))"

subsection \<open>From version 10 on\<close>

definition UpdateForBatchPosterSpending ::
  "(bytes \<Rightarrow> bytes) \<Rightarrow> L1PricingState \<Rightarrow> EVM \<Rightarrow> u64 \<Rightarrow> u64 \<Rightarrow> u64 \<Rightarrow> address \<Rightarrow> int \<Rightarrow> int \<Rightarrow> TracingScenario
    \<Rightarrow> (world, unit) op" where
  "UpdateForBatchPosterSpending H ps evm arbosVersion updateTime currentTime batchPoster weiSpent l1Basefee scenario =
     (if arbosVersion < 10
      then preversion10_UpdateForBatchPosterSpending H ps evm arbosVersion updateTime currentTime batchPoster weiSpent
             l1Basefee scenario
      else
      bnd (BPT_OpenPoster H (L1_BatchPosterTable H ps) batchPoster True) (\<lambda>posterState.
      bnd (L1_FundsDueForRewards H ps) (\<lambda>fundsDueForRewards.
      bnd (L1_L1FeesAvailable H ps) (\<lambda>l1FeesAvailable.
      bnd (allocationFraction H ps updateTime currentTime) (\<lambda>(allocationNumerator, allocationDenominator).
      bnd (allocateUnits H ps allocationNumerator allocationDenominator) (\<lambda>unitsAllocated.
      bnd (capWeiSpent H ps arbosVersion weiSpent l1Basefee unitsAllocated) (\<lambda>weiSpent.
      bnd (creditPoster H ps posterState fundsDueForRewards weiSpent unitsAllocated) (\<lambda>(perUnitReward, dueForRewards).
      bnd (payRewards H ps l1FeesAvailable dueForRewards perUnitReward unitsAllocated evm scenario) (\<lambda>left.
      bnd (settlePoster H ps posterState left evm scenario) (\<lambda>left.
      bnd (L1_SetLastUpdateTime H ps updateTime) (\<lambda>_.
      adjustPrice H ps arbosVersion unitsAllocated left)))))))))))"

end
