(* ===== verification/PosterCost.thy ===== *)
theory PosterCost
  imports L1Pricing
begin

text \<open>
  What a transaction is charged for its calldata (the last part of
  \<^verbatim>\<open>arbos/l1pricing/l1pricing.go\<close>): the units of the compressed transaction, cached in the transaction,
  and the stand-in transaction that gas estimation prices.
\<close>

section \<open>Transactions and messages\<close>

text \<open>Transactions are geth's; what is used of them is a parameter: the encoding (\<^verbatim>\<open>None\<close> when
  marshalling fails), the type, and the calldata units cached for a compression level.\<close>

record 'tx tx_ops =
  MarshalBinary :: "'tx \<Rightarrow> bytes option"
  tx_Type :: "'tx \<Rightarrow> byte"
  GetCachedCalldataUnits :: "'tx \<Rightarrow> u64 \<Rightarrow> u64 option"
  SetCachedCalldataUnits :: "'tx \<Rightarrow> u64 \<Rightarrow> u64 \<Rightarrow> 'tx"

record 'al DynamicFeeTx =
  dft_Nonce :: u64
  dft_GasTipCap :: int
  dft_GasFeeCap :: int
  dft_Gas :: u64
  dft_To :: "address option"
  dft_Value :: int
  dft_Data :: bytes
  dft_AccessList :: 'al
  dft_V :: int
  dft_R :: int
  dft_S :: int

record ('tx, 'al) Message =
  msg_Tx :: "'tx option"
  msg_Nonce :: u64
  msg_GasTipCap :: int
  msg_GasFeeCap :: int
  msg_GasLimit :: u64
  msg_IsGasEstimation :: bool
  msg_To :: "address option"
  msg_Value :: int
  msg_Data :: bytes
  msg_AccessList :: 'al

section \<open>Units\<close>

definition byteCountAfterBrotliLevel :: "(bytes \<Rightarrow> u64 \<Rightarrow> bytes option) \<Rightarrow> bytes \<Rightarrow> u64 \<Rightarrow> u64 option" where
  "byteCountAfterBrotliLevel CompressLevel input level =
     map_option (\<lambda>compressed. of_nat (length compressed)) (CompressLevel input level)"

definition getPosterUnitsWithoutCache ::
  "'tx tx_ops \<Rightarrow> (bytes \<Rightarrow> u64 \<Rightarrow> bytes option) \<Rightarrow> 'tx \<Rightarrow> address \<Rightarrow> u64 \<Rightarrow> (world, u64) op" where
  "getPosterUnitsWithoutCache T CompressLevel tx posterAddr brotliCompressionLevel =
     (if posterAddr \<noteq> BatchPosterAddress then ret 0
      else case MarshalBinary T tx of
        None \<Rightarrow> ret 0
      | Some txBytes \<Rightarrow>
          if \<not> TxTypeHasPosterCosts (tx_Type T tx) then ret 0
          else case byteCountAfterBrotliLevel CompressLevel txBytes brotliCompressionLevel of
            None \<Rightarrow> panic ''failed to compress tx''
          | Some l1Bytes \<Rightarrow> ret (SaturatingUMul TxDataNonZeroGasEIP2028 l1Bytes))"

text \<open>The transaction comes back with its cache filled.\<close>

definition GetPosterInfo ::
  "'tx tx_ops \<Rightarrow> (bytes \<Rightarrow> u64 \<Rightarrow> bytes option) \<Rightarrow> (bytes \<Rightarrow> bytes) \<Rightarrow> L1PricingState \<Rightarrow> 'tx \<Rightarrow> address \<Rightarrow> u64
    \<Rightarrow> (world, (int \<times> u64) \<times> 'tx) op" where
  "GetPosterInfo T CompressLevel H ps tx poster brotliCompressionLevel =
     (if poster \<noteq> BatchPosterAddress then ret ((0, 0), tx)
      else
      bnd (case GetCachedCalldataUnits T tx brotliCompressionLevel of
             Some units \<Rightarrow> ret (units, tx)
           | None \<Rightarrow> bnd (getPosterUnitsWithoutCache T CompressLevel tx poster brotliCompressionLevel) (\<lambda>units.
                     ret (units, SetCachedCalldataUnits T tx brotliCompressionLevel units))) (\<lambda>(units, tx').
      bnd (or_nil (L1_PricePerUnit H ps)) (\<lambda>pricePerUnit.
      ret ((BigMulByUint pricePerUnit units, units), tx'))))"

section \<open>Estimation\<close>

definition estimationPaddingUnits :: u64 where
  "estimationPaddingUnits = 16 * TxDataNonZeroGasEIP2028"

definition estimationPaddingBasisPoints :: int where
  "estimationPaddingBasisPoints = 100"

definition ascii :: "string \<Rightarrow> bytes" where
  "ascii cs = map of_char cs"

definition randomNonce :: "(bytes \<Rightarrow> bytes) \<Rightarrow> u64" where
  "randomNonce H = of_nat (be_val (take 8 (H (ascii ''Nonce''))))"
definition randomGasTipCap :: "(bytes \<Rightarrow> bytes) \<Rightarrow> int" where
  "randomGasTipCap H = int (be_val (take 4 (H (ascii ''GasTipCap''))))"
definition randomGasFeeCap :: "(bytes \<Rightarrow> bytes) \<Rightarrow> int" where
  "randomGasFeeCap H = int (be_val (take 4 (H (ascii ''GasFeeCap''))))"
definition RandomGas :: "(bytes \<Rightarrow> bytes) \<Rightarrow> u64" where
  "RandomGas H = of_nat (be_val (take 4 (H (ascii ''Gas''))))"

definition ArbitrumOneChainID :: int where
  "ArbitrumOneChainID = 42161"

definition makeFakeTxForMessage :: "(bytes \<Rightarrow> bytes) \<Rightarrow> ('tx, 'al) Message \<Rightarrow> 'al DynamicFeeTx" where
  "makeFakeTxForMessage H message =
     \<lparr>dft_Nonce = (if msg_Nonce message = 0 then randomNonce H else msg_Nonce message),
      dft_GasTipCap = (if msg_GasTipCap message = 0 then randomGasTipCap H else msg_GasTipCap message),
      dft_GasFeeCap = (if msg_GasFeeCap message = 0 then randomGasFeeCap H else msg_GasFeeCap message),
      dft_Gas = (if msg_GasLimit message = 0 \<or> msg_IsGasEstimation message then RandomGas H else msg_GasLimit message),
      dft_To = msg_To message,
      dft_Value = msg_Value message,
      dft_Data = msg_Data message,
      dft_AccessList = msg_AccessList message,
      dft_V = BigMulByUint ArbitrumOneChainID 3,
      dft_R = uint (BytesToHash (H (ascii ''R''))),
      dft_S = uint (BytesToHash (H (ascii ''S'')))\<rparr>"

text \<open>\<open>NewTx\<close> is geth's constructor of a transaction from its fields. The transaction of the message comes
  back with its cache filled.\<close>

definition PosterDataCost ::
  "'tx tx_ops \<Rightarrow> ('al DynamicFeeTx \<Rightarrow> 'tx) \<Rightarrow> (bytes \<Rightarrow> u64 \<Rightarrow> bytes option) \<Rightarrow> (bytes \<Rightarrow> bytes) \<Rightarrow> L1PricingState
    \<Rightarrow> ('tx, 'al) Message \<Rightarrow> address \<Rightarrow> u64 \<Rightarrow> (world, (int \<times> u64) \<times> 'tx option) op" where
  "PosterDataCost T NewTx CompressLevel H ps message poster brotliCompressionLevel = (case msg_Tx message of
      Some tx \<Rightarrow> bnd (GetPosterInfo T CompressLevel H ps tx poster brotliCompressionLevel) (\<lambda>(info, tx'). ret (info, Some tx'))
    | None \<Rightarrow>
        bnd (getPosterUnitsWithoutCache T CompressLevel (NewTx (makeFakeTxForMessage H message)) poster
               brotliCompressionLevel) (\<lambda>units.
        let padded = UintMulByBips (units + estimationPaddingUnits) (OneInBips + estimationPaddingBasisPoints) in
        bnd (or_nil (L1_PricePerUnit H ps)) (\<lambda>pricePerUnit.
        ret ((BigMulByUint pricePerUnit padded, padded), None))))"

section \<open>What is charged\<close>

lemma unat_of_nat_mult_small: "n < 2 ^ 60 \<Longrightarrow> unat (SaturatingUMul TxDataNonZeroGasEIP2028 (of_nat n)) = 16 * n"
  by (simp add: SaturatingUMul_unat TxDataNonZeroGasEIP2028_def unat_of_nat_u64)

lemma padded_ge:
  assumes "unat units < 2 ^ 50"
  shows "units \<le> UintMulByBips (units + estimationPaddingUnits) (OneInBips + estimationPaddingBasisPoints)"
proof -
  have c: "word_of_int (OneInBips + estimationPaddingBasisPoints) = (10100 :: u64)" "word_of_int OneInBips = (10000 :: u64)"
    "estimationPaddingUnits = 256"
    by (simp_all add: OneInBips_def estimationPaddingBasisPoints_def estimationPaddingUnits_def TxDataNonZeroGasEIP2028_def)
  have a: "unat (units + 256) = unat units + 256" using assms by (simp add: unat_word_ariths)
  have "unat ((units + 256) * 10100) = (unat units + 256) * 10100" using assms by (simp add: unat_word_ariths a)
  then have "unat ((units + 256) * 10100 div 10000) = (unat units + 256) * 10100 div 10000" by (simp add: unat_div_distrib)
  also have "\<dots> \<ge> unat units" by simp
  finally show ?thesis unfolding UintMulByBips_def c word_le_nat_alt .
qed


definition demo_tx :: "u64 option tx_ops" where
  "demo_tx = \<lparr>MarshalBinary = (\<lambda>_. Some [1, 2, 3]), tx_Type = (\<lambda>_. 2), GetCachedCalldataUnits = (\<lambda>tx _. tx),
     SetCachedCalldataUnits = (\<lambda>_ _ u. Some u)\<rparr>"


end
