(* ===== verification/L1Accounting.thy ===== *)
theory L1Accounting
  imports L1Pricing
begin

text \<open>
  What an update for a batch does to the accounts of the L1 pricing model. The words of the model
  are gathered into a record \<open>pricing\<close>; \<open>represents\<close> relates it to a world, every stage of the
  update is run on it, and the whole update is a function on such records together with two
  transfers out of the pool.
\<close>

section \<open>Where the pricing state lives\<close>

definition posters_space :: "(bytes \<Rightarrow> bytes) \<Rightarrow> L1PricingState \<Rightarrow> Storage" where
  "posters_space H ps = OpenSubStorage H (OpenSubStorage H (l1_storage ps) [0]) [0]"

definition total_word :: "(bytes \<Rightarrow> bytes) \<Rightarrow> L1PricingState \<Rightarrow> StorageSlot" where
  "total_word H ps = NewSlot H (OpenSubStorage H (l1_storage ps) [0]) 0"

definition poster_word :: "(bytes \<Rightarrow> bytes) \<Rightarrow> L1PricingState \<Rightarrow> address \<Rightarrow> nat \<Rightarrow> StorageSlot" where
  "poster_word H ps a i = NewSlot H (OpenSubStorage H (OpenSubStorage H (OpenSubStorage H (l1_storage ps) [0]) [1])
     (be_bytes 20 (unat a))) (of_nat i)"

definition l1_locs :: "address set \<Rightarrow> nat \<Rightarrow> loc set" where
  "l1_locs P N = (\<lambda>i. ([], UintToHash (of_nat i))) ` {..<13} \<union> {([[0]], UintToHash 0)}
     \<union> (\<lambda>i. ([[0], [0]], UintToHash (of_nat i))) ` {..N}
     \<union> (\<lambda>a. ([[0], [0], [0]], AddressToHash a)) ` UNIV
     \<union> (\<lambda>(a, i). ([[0], [1], be_bytes 20 (unat a)], UintToHash (of_nat i))) ` (P \<times> {..<2})"

abbreviation set_word :: "(bytes \<Rightarrow> bytes) \<Rightarrow> L1PricingState \<Rightarrow> nat \<Rightarrow> StorageSlot" where
  "set_word H ps i \<equiv> word_slot H (posters_space H ps) i"

abbreviation set_by :: "(bytes \<Rightarrow> bytes) \<Rightarrow> L1PricingState \<Rightarrow> address \<Rightarrow> StorageSlot" where
  "set_by H ps a \<equiv> by_slot H (as_byAddress H (posters_space H ps)) a"

lemma l1_slot_locs:
  "l1_word H ps i = loc_slot H (l1_storage ps) ([], UintToHash (of_nat i))"
  "total_word H ps = loc_slot H (l1_storage ps) ([[0]], UintToHash 0)"
  "set_word H ps i = loc_slot H (l1_storage ps) ([[0], [0]], UintToHash (of_nat i))"
  "set_by H ps a = loc_slot H (l1_storage ps) ([[0], [0], [0]], AddressToHash a)"
  "poster_word H ps a i = loc_slot H (l1_storage ps) ([[0], [1], be_bytes 20 (unat a)], UintToHash (of_nat i))"
  by (simp_all add: l1_word_def total_word_def posters_space_def poster_word_def word_slot_def by_slot_def as_byAddress_def
      OpenSubStorage_path NewSlot_loc loc_slot_path open_path_append loc_slot_def)

lemma address_Bytes_inject: "be_bytes 20 (unat (a :: address)) = be_bytes 20 (unat b) \<longleftrightarrow> a = b"
  by (metis BytesToAddress_be)

lemma l1_words_apart:
  assumes lay: "layout H (l1_storage ps) (l1_locs P N)" and N: "N < 2 ^ 63"
  shows "i < 13 \<Longrightarrow> j < 13 \<Longrightarrow> l1_word H ps i = l1_word H ps j \<longleftrightarrow> i = j"
    and "i < 13 \<Longrightarrow> l1_word H ps i \<noteq> total_word H ps"
    and "i < 13 \<Longrightarrow> j \<le> N \<Longrightarrow> l1_word H ps i \<noteq> set_word H ps j"
    and "i < 13 \<Longrightarrow> l1_word H ps i \<noteq> set_by H ps a"
    and "i < 13 \<Longrightarrow> a \<in> P \<Longrightarrow> j < 2 \<Longrightarrow> l1_word H ps i \<noteq> poster_word H ps a j"
    and "j \<le> N \<Longrightarrow> total_word H ps \<noteq> set_word H ps j"
    and "total_word H ps \<noteq> set_by H ps a"
    and "a \<in> P \<Longrightarrow> j < 2 \<Longrightarrow> total_word H ps \<noteq> poster_word H ps a j"
    and "i \<le> N \<Longrightarrow> a \<in> P \<Longrightarrow> j < 2 \<Longrightarrow> set_word H ps i \<noteq> poster_word H ps a j"
    and "a \<in> P \<Longrightarrow> j < 2 \<Longrightarrow> set_by H ps b \<noteq> poster_word H ps a j"
    and "a \<in> P \<Longrightarrow> b \<in> P \<Longrightarrow> i < 2 \<Longrightarrow> j < 2 \<Longrightarrow> poster_word H ps a i = poster_word H ps b j \<longleftrightarrow> a = b \<and> i = j"
    and "i \<le> N \<Longrightarrow> j \<le> N \<Longrightarrow> set_word H ps i = set_word H ps j \<longleftrightarrow> i = j"
    and "set_by H ps a = set_by H ps b \<longleftrightarrow> a = b"
    and "i \<le> N \<Longrightarrow> set_by H ps a \<noteq> set_word H ps i"
proof -
  have u: "UintToHash (of_nat i) = UintToHash (of_nat j) \<longleftrightarrow> i = j" if "i < 2 ^ 63" "j < 2 ^ 63" for i j
    using of_nat_u64_inject [of i j] that by simp
  have m: "i < 13 \<Longrightarrow> ([], UintToHash (of_nat i)) \<in> l1_locs P N" "([[0]], UintToHash 0) \<in> l1_locs P N"
    "i \<le> N \<Longrightarrow> ([[0], [0]], UintToHash (of_nat i)) \<in> l1_locs P N"
    "([[0], [0], [0]], AddressToHash a) \<in> l1_locs P N"
    "a \<in> P \<Longrightarrow> i < 2 \<Longrightarrow> ([[0], [1], be_bytes 20 (unat a)], UintToHash (of_nat i)) \<in> l1_locs P N" for i a
    by (auto simp: l1_locs_def)
  note d = layoutD [OF lay]
  show "i < 13 \<Longrightarrow> j < 13 \<Longrightarrow> l1_word H ps i = l1_word H ps j \<longleftrightarrow> i = j"
    unfolding l1_slot_locs using d [OF m(1) m(1)] u [of i j] by (simp del: UintToHash_inject)
  show "i < 13 \<Longrightarrow> l1_word H ps i \<noteq> total_word H ps" unfolding l1_slot_locs using d [OF m(1) m(2)] by simp
  show "i < 13 \<Longrightarrow> j \<le> N \<Longrightarrow> l1_word H ps i \<noteq> set_word H ps j" unfolding l1_slot_locs using d [OF m(1) m(3)] by simp
  show "i < 13 \<Longrightarrow> l1_word H ps i \<noteq> set_by H ps a" unfolding l1_slot_locs using d [OF m(1) m(4)] by simp
  show "i < 13 \<Longrightarrow> a \<in> P \<Longrightarrow> j < 2 \<Longrightarrow> l1_word H ps i \<noteq> poster_word H ps a j" unfolding l1_slot_locs using d [OF m(1) m(5)] by simp
  show "j \<le> N \<Longrightarrow> total_word H ps \<noteq> set_word H ps j" unfolding l1_slot_locs using d [OF m(2) m(3)] by simp
  show "total_word H ps \<noteq> set_by H ps a" unfolding l1_slot_locs using d [OF m(2) m(4)] by simp
  show "a \<in> P \<Longrightarrow> j < 2 \<Longrightarrow> total_word H ps \<noteq> poster_word H ps a j" unfolding l1_slot_locs using d [OF m(2) m(5)] by simp
  show "i \<le> N \<Longrightarrow> a \<in> P \<Longrightarrow> j < 2 \<Longrightarrow> set_word H ps i \<noteq> poster_word H ps a j" unfolding l1_slot_locs using d [OF m(3) m(5)] by simp
  show "a \<in> P \<Longrightarrow> j < 2 \<Longrightarrow> set_by H ps b \<noteq> poster_word H ps a j" unfolding l1_slot_locs using d [OF m(4) m(5)] by simp
  show "a \<in> P \<Longrightarrow> b \<in> P \<Longrightarrow> i < 2 \<Longrightarrow> j < 2 \<Longrightarrow> poster_word H ps a i = poster_word H ps b j \<longleftrightarrow> a = b \<and> i = j"
    unfolding l1_slot_locs using d [OF m(5) m(5)] u [of i j] by (simp add: address_Bytes_inject del: UintToHash_inject)
  show "i \<le> N \<Longrightarrow> j \<le> N \<Longrightarrow> set_word H ps i = set_word H ps j \<longleftrightarrow> i = j"
    unfolding l1_slot_locs using d [OF m(3) m(3)] u [of i j] N by (simp del: UintToHash_inject)
  show "set_by H ps a = set_by H ps b \<longleftrightarrow> a = b" unfolding l1_slot_locs using d [OF m(4) m(4)] by simp
  show "i \<le> N \<Longrightarrow> set_by H ps a \<noteq> set_word H ps i" unfolding l1_slot_locs using d [OF m(4) m(3)] by simp
qed

section \<open>The pricing state as a value\<close>

record pricing =
  pr_posters :: "address list"
  pr_due :: "address \<Rightarrow> int"
  pr_payTo :: "address \<Rightarrow> address"
  pr_total :: int
  pr_rewards :: int
  pr_units :: u64
  pr_updated :: u64
  pr_price :: int
  pr_surplus :: int
  pr_fees :: int
  pr_payRewardsTo :: address
  pr_equilUnits :: int
  pr_inertia :: u64
  pr_perUnitReward :: u64
  pr_capBips :: u64

definition pricing_of :: "(bytes \<Rightarrow> bytes) \<Rightarrow> L1PricingState \<Rightarrow> address set \<Rightarrow> address list \<Rightarrow> world \<Rightarrow> pricing" where
  "pricing_of H ps P xs w = \<lparr>pr_posters = xs,
     pr_due = (\<lambda>a. if a \<in> P then BigInt_decode (slot_read w (poster_word H ps a 0)) else 0),
     pr_payTo = (\<lambda>a. if a \<in> P then BytesToAddress (hash_Bytes (slot_read w (poster_word H ps a 1))) else 0),
     pr_total = BigInt_decode (slot_read w (total_word H ps)),
     pr_rewards = BigInt_decode (slot_read w (l1_fundsDueForRewards H ps)),
     pr_units = ucast (slot_read w (l1_unitsSinceUpdate H ps)),
     pr_updated = ucast (slot_read w (l1_lastUpdateTime H ps)),
     pr_price = uint (slot_read w (l1_pricePerUnit H ps)),
     pr_surplus = BigInt_decode (slot_read w (l1_lastSurplus H ps)),
     pr_fees = uint (slot_read w (l1_l1FeesAvailable H ps)),
     pr_payRewardsTo = BytesToAddress (hash_Bytes (slot_read w (l1_payRewardsTo H ps))),
     pr_equilUnits = uint (slot_read w (l1_equilibrationUnits H ps)),
     pr_inertia = ucast (slot_read w (l1_inertia H ps)),
     pr_perUnitReward = ucast (slot_read w (l1_perUnitReward H ps)),
     pr_capBips = ucast (slot_read w (l1_amortizedCostCapBips H ps))\<rparr>"

text \<open>The states in which the operations run: the posters that may occur are \<open>P\<close>, those that are
  registered are \<open>xs\<close>, and the words of the integer fields hold what their types allow.\<close>

definition pricing_ok :: "(bytes \<Rightarrow> bytes) \<Rightarrow> L1PricingState \<Rightarrow> address set \<Rightarrow> nat \<Rightarrow> address list \<Rightarrow> world \<Rightarrow> bool" where
  "pricing_ok H ps P N xs w \<longleftrightarrow> layout H (l1_storage ps) (l1_locs P N) \<and> N < 2 ^ 63
     \<and> as_rep H (posters_space H ps) N w xs \<and> set xs \<subseteq> P
     \<and> (\<forall>i\<in>{2, 3, 4, 6, 10}. fits 64 (slot_read w (l1_word H ps i)))"

lemma pricing_okD:
  assumes "pricing_ok H ps P N xs w"
  shows "layout H (l1_storage ps) (l1_locs P N)" "N < 2 ^ 63" "as_rep H (posters_space H ps) N w xs" "sysw w" "set xs \<subseteq> P"
    "fits 64 (slot_read w (l1_inertia H ps))" "fits 64 (slot_read w (l1_perUnitReward H ps))"
    "fits 64 (slot_read w (l1_lastUpdateTime H ps))" "fits 64 (slot_read w (l1_unitsSinceUpdate H ps))"
    "fits 64 (slot_read w (l1_amortizedCostCapBips H ps))"
  using assms by (auto simp: pricing_ok_def as_rep_def)

lemma pricing_fields [simp]:
  "pr_posters (pricing_of H ps P xs w) = xs"
  "a \<in> P \<Longrightarrow> pr_due (pricing_of H ps P xs w) a = BigInt_decode (slot_read w (poster_word H ps a 0))"
  "a \<in> P \<Longrightarrow> pr_payTo (pricing_of H ps P xs w) a = BytesToAddress (hash_Bytes (slot_read w (poster_word H ps a 1)))"
  "pr_total (pricing_of H ps P xs w) = BigInt_decode (slot_read w (total_word H ps))"
  "pr_rewards (pricing_of H ps P xs w) = BigInt_decode (slot_read w (l1_fundsDueForRewards H ps))"
  "pr_units (pricing_of H ps P xs w) = ucast (slot_read w (l1_unitsSinceUpdate H ps))"
  "pr_updated (pricing_of H ps P xs w) = ucast (slot_read w (l1_lastUpdateTime H ps))"
  "pr_price (pricing_of H ps P xs w) = uint (slot_read w (l1_pricePerUnit H ps))"
  "pr_surplus (pricing_of H ps P xs w) = BigInt_decode (slot_read w (l1_lastSurplus H ps))"
  "pr_fees (pricing_of H ps P xs w) = uint (slot_read w (l1_l1FeesAvailable H ps))"
  "pr_payRewardsTo (pricing_of H ps P xs w) = BytesToAddress (hash_Bytes (slot_read w (l1_payRewardsTo H ps)))"
  "pr_equilUnits (pricing_of H ps P xs w) = uint (slot_read w (l1_equilibrationUnits H ps))"
  "pr_inertia (pricing_of H ps P xs w) = ucast (slot_read w (l1_inertia H ps))"
  "pr_perUnitReward (pricing_of H ps P xs w) = ucast (slot_read w (l1_perUnitReward H ps))"
  "pr_capBips (pricing_of H ps P xs w) = ucast (slot_read w (l1_amortizedCostCapBips H ps))"
  by (simp_all add: pricing_of_def)

text \<open>States that agree on the words of the pricing state.\<close>

definition same_pricing :: "(bytes \<Rightarrow> bytes) \<Rightarrow> L1PricingState \<Rightarrow> address set \<Rightarrow> nat \<Rightarrow> world \<Rightarrow> world \<Rightarrow> bool" where
  "same_pricing H ps P N w w' \<longleftrightarrow> sysw w'
     \<and> (\<forall>i<13. slot_read w' (l1_word H ps i) = slot_read w (l1_word H ps i))
     \<and> slot_read w' (total_word H ps) = slot_read w (total_word H ps)
     \<and> (\<forall>i\<le>N. slot_read w' (set_word H ps i) = slot_read w (set_word H ps i))
     \<and> (\<forall>a. slot_read w' (set_by H ps a) = slot_read w (set_by H ps a))
     \<and> (\<forall>a\<in>P. \<forall>i<2. slot_read w' (poster_word H ps a i) = slot_read w (poster_word H ps a i))"

lemma as_rep_frame:
  assumes rep: "as_rep H s N w xs" and sys: "sysw w'"
    and same: "\<And>i. i \<le> N \<Longrightarrow> slot_read w' (word_slot H s i) = slot_read w (word_slot H s i)"
      "\<And>a. slot_read w' (by_slot H (as_byAddress H s) a) = slot_read w (by_slot H (as_byAddress H s) a)"
  shows "as_rep H s N w' xs"
  using rep sys same by (auto simp: as_rep_def indexed_def)

lemma pricing_same:
  assumes ok: "pricing_ok H ps P N xs w" and same: "same_pricing H ps P N w w'"
  shows "pricing_ok H ps P N xs w'" "pricing_of H ps P xs w' = pricing_of H ps P xs w"
proof -
  note r = same [unfolded same_pricing_def]
  have "as_rep H (posters_space H ps) N w' xs"
    using r by (intro as_rep_frame [OF pricing_okD(3) [OF ok]]) blast+
  then show "pricing_ok H ps P N xs w'" using ok r by (simp add: pricing_ok_def)
  show "pricing_of H ps P xs w' = pricing_of H ps P xs w" using r by (simp add: pricing_of_def fun_eq_iff)
qed

text \<open>Writing one word: the field it is of changes, the others do not.\<close>

lemma pricing_write:
  assumes ok: "pricing_ok H ps P N xs w" and sys: "sysw w'" and rd: "\<And>ss. slot_read w' ss = (if ss = s0 then v else slot_read w ss)"
  shows "s0 = l1_fundsDueForRewards H ps \<Longrightarrow> pricing_ok H ps P N xs w'
      \<and> pricing_of H ps P xs w' = (pricing_of H ps P xs w)\<lparr>pr_rewards := BigInt_decode v\<rparr>"
    and "s0 = l1_pricePerUnit H ps \<Longrightarrow> pricing_ok H ps P N xs w'
      \<and> pricing_of H ps P xs w' = (pricing_of H ps P xs w)\<lparr>pr_price := uint v\<rparr>"
    and "s0 = l1_lastSurplus H ps \<Longrightarrow> pricing_ok H ps P N xs w'
      \<and> pricing_of H ps P xs w' = (pricing_of H ps P xs w)\<lparr>pr_surplus := BigInt_decode v\<rparr>"
    and "s0 = l1_l1FeesAvailable H ps \<Longrightarrow> pricing_ok H ps P N xs w'
      \<and> pricing_of H ps P xs w' = (pricing_of H ps P xs w)\<lparr>pr_fees := uint v\<rparr>"
    and "s0 = l1_unitsSinceUpdate H ps \<Longrightarrow> fits 64 v \<Longrightarrow> pricing_ok H ps P N xs w'
      \<and> pricing_of H ps P xs w' = (pricing_of H ps P xs w)\<lparr>pr_units := ucast v\<rparr>"
    and "s0 = l1_lastUpdateTime H ps \<Longrightarrow> fits 64 v \<Longrightarrow> pricing_ok H ps P N xs w'
      \<and> pricing_of H ps P xs w' = (pricing_of H ps P xs w)\<lparr>pr_updated := ucast v\<rparr>"
    and "s0 = total_word H ps \<Longrightarrow> pricing_ok H ps P N xs w'
      \<and> pricing_of H ps P xs w' = (pricing_of H ps P xs w)\<lparr>pr_total := BigInt_decode v\<rparr>"
    and "s0 = poster_word H ps a 0 \<Longrightarrow> a \<in> P \<Longrightarrow> pricing_ok H ps P N xs w'
      \<and> pricing_of H ps P xs w' = (pricing_of H ps P xs w)\<lparr>pr_due := (pr_due (pricing_of H ps P xs w))(a := BigInt_decode v)\<rparr>"
    and "s0 = poster_word H ps a 1 \<Longrightarrow> a \<in> P \<Longrightarrow> pricing_ok H ps P N xs w'
      \<and> pricing_of H ps P xs w' = (pricing_of H ps P xs w)\<lparr>pr_payTo :=
           (pr_payTo (pricing_of H ps P xs w))(a := BytesToAddress (hash_Bytes v))\<rparr>"
proof -
  note A = l1_words_apart [OF pricing_okD(1,2) [OF ok]]
  have rep: "as_rep H (posters_space H ps) N w' xs"
    if "\<And>i. i \<le> N \<Longrightarrow> set_word H ps i \<noteq> s0" "\<And>a. set_by H ps a \<noteq> s0"
    using that by (intro as_rep_frame [OF pricing_okD(3) [OF ok] sys]) (simp_all add: rd)
  have ok': "pricing_ok H ps P N xs w'"
    if "\<And>i. i \<le> N \<Longrightarrow> set_word H ps i \<noteq> s0" "\<And>a. set_by H ps a \<noteq> s0"
      and f: "\<And>i. i \<in> {2, 3, 4, 6, 10} \<Longrightarrow> l1_word H ps i = s0 \<Longrightarrow> fits 64 v"
  proof -
    have "fits 64 (slot_read w' (l1_word H ps i))" if i: "i \<in> {2, 3, 4, 6, 10}" for i
      using ok i f [OF i] unfolding pricing_ok_def rd by auto
    then show ?thesis using ok rep [OF that(1,2)] unfolding pricing_ok_def by blast
  qed
  have l1: "pricing_ok H ps P N xs w'" if e: "s0 = l1_word H ps i" and i: "i < 13" and f: "i \<in> {2, 3, 4, 6, 10} \<longrightarrow> fits 64 v" for i
  proof (rule ok')
    show "k \<le> N \<Longrightarrow> set_word H ps k \<noteq> s0" for k using A(3) [OF i, of k] e by metis
    show "set_by H ps b \<noteq> s0" for b using A(4) [OF i, of b] e by metis
    show "fits 64 v" if k: "k \<in> {2, 3, 4, 6, 10}" and "l1_word H ps k = s0" for k
    proof -
      have "k < 13" using k by auto
      then have "k = i" using A(1) [OF _ i, of k] that(2) e by blast
      then show ?thesis using f k by blast
    qed
  qed
  have tot: "pricing_ok H ps P N xs w'" if e: "s0 = total_word H ps"
  proof (rule ok')
    show "k \<le> N \<Longrightarrow> set_word H ps k \<noteq> s0" for k using A(6) [of k] e by metis
    show "set_by H ps b \<noteq> s0" for b using A(7) [of b] e by metis
    show "fits 64 v" if k: "k \<in> {2, 3, 4, 6, 10}" and "l1_word H ps k = s0" for k
      using A(2) [of k] that e by auto
  qed
  have pos: "pricing_ok H ps P N xs w'" if e: "s0 = poster_word H ps a i" and a: "a \<in> P" "i < 2" for a i
  proof (rule ok')
    show "k \<le> N \<Longrightarrow> set_word H ps k \<noteq> s0" for k using A(9) [OF _ a, of k] e by metis
    show "set_by H ps b \<noteq> s0" for b using A(10) [OF a, of b] e by metis
    show "fits 64 v" if k: "k \<in> {2, 3, 4, 6, 10}" and "l1_word H ps k = s0" for k
      using A(5) [OF _ a, of k] that e by auto
  qed
  note ne = A(2) [symmetric] A(5) [symmetric] A(8) [symmetric]
  show "s0 = l1_fundsDueForRewards H ps \<Longrightarrow> pricing_ok H ps P N xs w'
      \<and> pricing_of H ps P xs w' = (pricing_of H ps P xs w)\<lparr>pr_rewards := BigInt_decode v\<rparr>"
    using l1 [of 5] by (simp add: pricing_of_def rd A(1,2,5,8,11) ne fun_eq_iff)
  show "s0 = l1_pricePerUnit H ps \<Longrightarrow> pricing_ok H ps P N xs w'
      \<and> pricing_of H ps P xs w' = (pricing_of H ps P xs w)\<lparr>pr_price := uint v\<rparr>"
    using l1 [of 7] by (simp add: pricing_of_def rd A(1,2,5,8,11) ne fun_eq_iff)
  show "s0 = l1_lastSurplus H ps \<Longrightarrow> pricing_ok H ps P N xs w'
      \<and> pricing_of H ps P xs w' = (pricing_of H ps P xs w)\<lparr>pr_surplus := BigInt_decode v\<rparr>"
    using l1 [of 8] by (simp add: pricing_of_def rd A(1,2,5,8,11) ne fun_eq_iff)
  show "s0 = l1_l1FeesAvailable H ps \<Longrightarrow> pricing_ok H ps P N xs w'
      \<and> pricing_of H ps P xs w' = (pricing_of H ps P xs w)\<lparr>pr_fees := uint v\<rparr>"
    using l1 [of 11] by (simp add: pricing_of_def rd A(1,2,5,8,11) ne fun_eq_iff)
  show "s0 = l1_unitsSinceUpdate H ps \<Longrightarrow> fits 64 v \<Longrightarrow> pricing_ok H ps P N xs w'
      \<and> pricing_of H ps P xs w' = (pricing_of H ps P xs w)\<lparr>pr_units := ucast v\<rparr>"
    using l1 [of 6] by (simp add: pricing_of_def rd A(1,2,5,8,11) ne fun_eq_iff)
  show "s0 = l1_lastUpdateTime H ps \<Longrightarrow> fits 64 v \<Longrightarrow> pricing_ok H ps P N xs w'
      \<and> pricing_of H ps P xs w' = (pricing_of H ps P xs w)\<lparr>pr_updated := ucast v\<rparr>"
    using l1 [of 4] by (simp add: pricing_of_def rd A(1,2,5,8,11) ne fun_eq_iff)
  show "s0 = total_word H ps \<Longrightarrow> pricing_ok H ps P N xs w'
      \<and> pricing_of H ps P xs w' = (pricing_of H ps P xs w)\<lparr>pr_total := BigInt_decode v\<rparr>"
    using tot by (simp add: pricing_of_def rd A(1,2,5,8,11) ne fun_eq_iff)
  show "s0 = poster_word H ps a 0 \<Longrightarrow> a \<in> P \<Longrightarrow> pricing_ok H ps P N xs w'
      \<and> pricing_of H ps P xs w' = (pricing_of H ps P xs w)\<lparr>pr_due := (pr_due (pricing_of H ps P xs w))(a := BigInt_decode v)\<rparr>"
    using pos [of a 0] by (simp add: pricing_of_def rd A(1,2,5,8,11) ne fun_eq_iff)
  show "s0 = poster_word H ps a 1 \<Longrightarrow> a \<in> P \<Longrightarrow> pricing_ok H ps P N xs w'
      \<and> pricing_of H ps P xs w' = (pricing_of H ps P xs w)\<lparr>pr_payTo :=
           (pr_payTo (pricing_of H ps P xs w))(a := BytesToAddress (hash_Bytes v))\<rparr>"
    using pos [of a 1] by (simp add: pricing_of_def rd A(1,2,5,8,11) ne fun_eq_iff)
qed

section \<open>Reading and writing fields\<close>

definition represents :: "(bytes \<Rightarrow> bytes) \<Rightarrow> L1PricingState \<Rightarrow> address set \<Rightarrow> nat \<Rightarrow> pricing \<Rightarrow> world \<Rightarrow> bool" where
  "represents H ps P N p w \<longleftrightarrow> pricing_ok H ps P N (pr_posters p) w \<and> pricing_of H ps P (pr_posters p) w = p"

definition poster :: "(bytes \<Rightarrow> bytes) \<Rightarrow> L1PricingState \<Rightarrow> address \<Rightarrow> BatchPosterState" where
  "poster H ps a = BPT_internalOpen H (L1_BatchPosterTable H ps) a"

lemma table_words:
  "bpt_posterAddrs (L1_BatchPosterTable H ps) = posters_space H ps"
  "bpt_totalFundsDue (L1_BatchPosterTable H ps) = total_word H ps"
  "bps_fundsDue (poster H ps a) = poster_word H ps a 0"
  "bps_payTo (poster H ps a) = poster_word H ps a 1"
  "bps_postersTable (poster H ps a) = L1_BatchPosterTable H ps"
  by (simp_all add: L1_BatchPosterTable_def OpenBatchPostersTable_def poster_def BPT_internalOpen_def Let_def
      posters_space_def total_word_def poster_word_def)

lemma represents_sys: "represents H ps P N p w \<Longrightarrow> sysw w"
  using pricing_okD(4) by (auto simp: represents_def)

lemma represents_same:
  assumes "represents H ps P N p w" and "sysw w'" and "\<And>ss. slot_read w' ss = slot_read w ss"
  shows "represents H ps P N p w'"
proof -
  have "same_pricing H ps P N w w'" using assms by (simp add: same_pricing_def)
  with assms(1) show ?thesis using pricing_same by (auto simp: represents_def)
qed

lemma represents_tick [simp]: "represents H ps P N p w \<Longrightarrow> represents H ps P N p (tick k a w)"
  by (rule represents_same) (simp_all add: represents_sys)

lemma pricing_reads:
  assumes "represents H ps P N p w"
  shows "L1_FundsDueForRewards H ps w = (Ok (pr_rewards p), tick StorageAccessRead StorageReadCost w)"
    "L1_L1FeesAvailable H ps w = (Ok (pr_fees p), tick StorageAccessRead StorageReadCost w)"
    "L1_LastUpdateTime H ps w = (Ok (pr_updated p), tick StorageAccessRead StorageReadCost w)"
    "L1_UnitsSinceUpdate H ps w = (Ok (pr_units p), tick StorageAccessRead StorageReadCost w)"
    "L1_AmortizedCostCapBips H ps w = (Ok (pr_capBips p), tick StorageAccessRead StorageReadCost w)"
    "L1_PerUnitReward H ps w = (Ok (pr_perUnitReward p), tick StorageAccessRead StorageReadCost w)"
    "L1_PayRewardsTo H ps w = (Ok (pr_payRewardsTo p), tick StorageAccessRead StorageReadCost w)"
    "L1_Inertia H ps w = (Ok (pr_inertia p), tick StorageAccessRead StorageReadCost w)"
    "L1_EquilibrationUnits H ps w = (Ok (pr_equilUnits p), tick StorageAccessRead StorageReadCost w)"
    "L1_PricePerUnit H ps w = (Ok (pr_price p), tick StorageAccessRead StorageReadCost w)"
    "L1_LastSurplus H ps w = (Ok (pr_surplus p), tick StorageAccessRead StorageReadCost w)"
    "BPT_TotalFundsDue (L1_BatchPosterTable H ps) w = (Ok (pr_total p), tick StorageAccessRead StorageReadCost w)"
    "a \<in> P \<Longrightarrow> BPS_FundsDue (poster H ps a) w = (Ok (pr_due p a), tick StorageAccessRead StorageReadCost w)"
    "a \<in> P \<Longrightarrow> BPS_PayTo (poster H ps a) w = (Ok (pr_payTo p a), tick StorageAccessRead StorageReadCost w)"
proof -
  define xs where "xs = pr_posters p"
  have ok: "pricing_ok H ps P N xs w" and p: "p = pricing_of H ps P xs w" using assms by (auto simp: represents_def xs_def)
  note o = pricing_okD [OF ok]
  show "L1_FundsDueForRewards H ps w = (Ok (pr_rewards p), tick StorageAccessRead StorageReadCost w)"
    "L1_L1FeesAvailable H ps w = (Ok (pr_fees p), tick StorageAccessRead StorageReadCost w)"
    "L1_LastUpdateTime H ps w = (Ok (pr_updated p), tick StorageAccessRead StorageReadCost w)"
    "L1_UnitsSinceUpdate H ps w = (Ok (pr_units p), tick StorageAccessRead StorageReadCost w)"
    "L1_AmortizedCostCapBips H ps w = (Ok (pr_capBips p), tick StorageAccessRead StorageReadCost w)"
    "L1_PerUnitReward H ps w = (Ok (pr_perUnitReward p), tick StorageAccessRead StorageReadCost w)"
    "L1_PayRewardsTo H ps w = (Ok (pr_payRewardsTo p), tick StorageAccessRead StorageReadCost w)"
    "L1_Inertia H ps w = (Ok (pr_inertia p), tick StorageAccessRead StorageReadCost w)"
    "L1_EquilibrationUnits H ps w = (Ok (pr_equilUnits p), tick StorageAccessRead StorageReadCost w)"
    "L1_PricePerUnit H ps w = (Ok (pr_price p), tick StorageAccessRead StorageReadCost w)"
    "L1_LastSurplus H ps w = (Ok (pr_surplus p), tick StorageAccessRead StorageReadCost w)"
    using o(4,6-10) by (simp_all add: p sys_simps L1_FundsDueForRewards_def L1_L1FeesAvailable_def L1_LastUpdateTime_def
        L1_UnitsSinceUpdate_def L1_AmortizedCostCapBips_def L1_PerUnitReward_def L1_PayRewardsTo_def L1_Inertia_def
        L1_EquilibrationUnits_def L1_PricePerUnit_def L1_LastSurplus_def)
  show "BPT_TotalFundsDue (L1_BatchPosterTable H ps) w = (Ok (pr_total p), tick StorageAccessRead StorageReadCost w)"
    using o(4) by (simp add: p BPT_TotalFundsDue_def table_words sys_simps)
  show "a \<in> P \<Longrightarrow> BPS_FundsDue (poster H ps a) w = (Ok (pr_due p a), tick StorageAccessRead StorageReadCost w)"
    "a \<in> P \<Longrightarrow> BPS_PayTo (poster H ps a) w = (Ok (pr_payTo p a), tick StorageAccessRead StorageReadCost w)"
    using o(4) by (simp_all add: p BPS_FundsDue_def BPS_PayTo_def table_words sys_simps)
qed

text \<open>A write of one field, stated so that it can be chained: the record changes, balances do not.\<close>

definition sets_pricing :: "(bytes \<Rightarrow> bytes) \<Rightarrow> L1PricingState \<Rightarrow> address set \<Rightarrow> nat \<Rightarrow> (world, unit) op \<Rightarrow> pricing \<Rightarrow> world \<Rightarrow> bool" where
  "sets_pricing H ps P N m p w \<longleftrightarrow> (\<exists>w'. m w = (Ok (), w') \<and> represents H ps P N p w' \<and> balance_of w' = balance_of w)"

lemma BigInt_clamp: "BigInt_decode (BigInt_encode (clampS 256 v)) = clampS 256 v"
  by (simp add: BigInt_decode_encode inS_clampS)

lemma pricing_writes:
  assumes "represents H ps P N p w"
  shows "sets_pricing H ps P N (L1_SetFundsDueForRewards H ps v) (p\<lparr>pr_rewards := clampS 256 v\<rparr>) w"
    "7 \<le> ver \<Longrightarrow> sets_pricing H ps P N (L1_SetLastSurplus H ps v ver) (p\<lparr>pr_surplus := clampS 256 v\<rparr>) w"
    "0 \<le> v \<Longrightarrow> v < twoToThe256 \<Longrightarrow> sets_pricing H ps P N (L1_SetPricePerUnit H ps v) (p\<lparr>pr_price := v\<rparr>) w"
    "0 \<le> v \<Longrightarrow> v < twoToThe256 \<Longrightarrow> sets_pricing H ps P N (L1_SetL1FeesAvailable H ps v) (p\<lparr>pr_fees := v\<rparr>) w"
    "sets_pricing H ps P N (L1_SetUnitsSinceUpdate H ps u) (p\<lparr>pr_units := u\<rparr>) w"
    "sets_pricing H ps P N (L1_SetLastUpdateTime H ps u) (p\<lparr>pr_updated := u\<rparr>) w"
    "sets_pricing H ps P N (StorageBackedBigInt_SetSaturatingWithWarning (total_word H ps) v) (p\<lparr>pr_total := clampS 256 v\<rparr>) w"
    "a \<in> P \<Longrightarrow> sets_pricing H ps P N (StorageBackedBigInt_SetSaturatingWithWarning (poster_word H ps a 0) v)
       (p\<lparr>pr_due := (pr_due p)(a := clampS 256 v)\<rparr>) w"
    "a \<in> P \<Longrightarrow> sets_pricing H ps P N (StorageBackedAddress_Set (poster_word H ps a 1) b) (p\<lparr>pr_payTo := (pr_payTo p)(a := b)\<rparr>) w"
proof -
  define xs where "xs = pr_posters p"
  have ok: "pricing_ok H ps P N xs w" and p: "pricing_of H ps P xs w = p" using assms by (auto simp: represents_def xs_def)
  have sys: "sysw w" using pricing_okD(4) [OF ok] .
  have st: "sets_pricing H ps P N (StorageSlot_Set ss h) q w"
    if "pricing_ok H ps P N xs (slot_write ss h (tick StorageAccessWrite (WriteCost h) w))
      \<and> pricing_of H ps P xs (slot_write ss h (tick StorageAccessWrite (WriteCost h) w)) = q" and "pr_posters q = xs" for ss h q
    using that sys by (simp add: sets_pricing_def represents_def sys_simps)
  note W = pricing_write [OF ok, unfolded p, of "slot_write ss h (tick StorageAccessWrite (WriteCost h) w)" ss h for ss h]
  have rd: "sysw (slot_write ss h (tick StorageAccessWrite (WriteCost h) w))"
    "slot_read (slot_write ss h (tick StorageAccessWrite (WriteCost h) w)) s1 = (if s1 = ss then h else slot_read w s1)" for ss h s1
    using sys by (simp_all add: slot_read_write)
  note W = W [OF rd]
  show "sets_pricing H ps P N (L1_SetFundsDueForRewards H ps v) (p\<lparr>pr_rewards := clampS 256 v\<rparr>) w"
    unfolding L1_SetFundsDueForRewards_def BigInt_saturating_value using W(1) [OF refl]
    by (intro st) (simp_all add: BigInt_clamp xs_def)
  show "7 \<le> ver \<Longrightarrow> sets_pricing H ps P N (L1_SetLastSurplus H ps v ver) (p\<lparr>pr_surplus := clampS 256 v\<rparr>) w"
    unfolding L1_SetLastSurplus_def BigInt_saturating_value using W(3) [OF refl]
    by (simp add: not_less [symmetric]) (intro st, simp_all add: BigInt_clamp xs_def)
  show "0 \<le> v \<Longrightarrow> v < twoToThe256 \<Longrightarrow> sets_pricing H ps P N (L1_SetPricePerUnit H ps v) (p\<lparr>pr_price := v\<rparr>) w"
    unfolding L1_SetPricePerUnit_def using W(2) [OF refl]
    by (subst biguint.put_word, simp) (intro st, simp_all add: uint_BigBytesToHash xs_def)
  show "0 \<le> v \<Longrightarrow> v < twoToThe256 \<Longrightarrow> sets_pricing H ps P N (L1_SetL1FeesAvailable H ps v) (p\<lparr>pr_fees := v\<rparr>) w"
    unfolding L1_SetL1FeesAvailable_def using W(4) [OF refl]
    by (subst biguint.put_word, simp) (intro st, simp_all add: uint_BigBytesToHash xs_def)
  show "sets_pricing H ps P N (L1_SetUnitsSinceUpdate H ps u) (p\<lparr>pr_units := u\<rparr>) w"
    unfolding L1_SetUnitsSinceUpdate_def uint64.put_word [OF TrueI] using W(5) [OF refl, of "ucast u"]
    by (intro st) (simp_all add: xs_def)
  show "sets_pricing H ps P N (L1_SetLastUpdateTime H ps u) (p\<lparr>pr_updated := u\<rparr>) w"
    unfolding L1_SetLastUpdateTime_def uint64.put_word [OF TrueI] using W(6) [OF refl, of "ucast u"]
    by (intro st) (simp_all add: xs_def)
  show "sets_pricing H ps P N (StorageBackedBigInt_SetSaturatingWithWarning (total_word H ps) v) (p\<lparr>pr_total := clampS 256 v\<rparr>) w"
    unfolding BigInt_saturating_value using W(7) [OF refl] by (intro st) (simp_all add: BigInt_clamp xs_def)
  show "a \<in> P \<Longrightarrow> sets_pricing H ps P N (StorageBackedBigInt_SetSaturatingWithWarning (poster_word H ps a 0) v)
       (p\<lparr>pr_due := (pr_due p)(a := clampS 256 v)\<rparr>) w"
    unfolding BigInt_saturating_value using W(8) [OF refl] by (intro st) (simp_all add: BigInt_clamp xs_def)
  show "a \<in> P \<Longrightarrow> sets_pricing H ps P N (StorageBackedAddress_Set (poster_word H ps a 1) b) (p\<lparr>pr_payTo := (pr_payTo p)(a := b)\<rparr>) w"
    unfolding addr.put_word [OF TrueI] using W(9) [OF refl] by (intro st) (simp_all add: xs_def)
qed

section \<open>Posters\<close>

lemma represents_add:
  assumes r: "represents H ps P N p w" and a: "a \<in> P" "a \<notin> set (pr_posters p)" and n: "length (pr_posters p) < N"
  shows "sets_pricing H ps P N (AddressSet_Add H (posters_space H ps) a) (p\<lparr>pr_posters := pr_posters p @ [a]\<rparr>) w"
proof -
  define xs where "xs = pr_posters p"
  have ok: "pricing_ok H ps P N xs w" and p: "pricing_of H ps P xs w = p" using r by (auto simp: represents_def xs_def)
  have n: "length xs < N" and an: "a \<notin> set xs" using n a by (simp_all add: xs_def)
  note A = l1_words_apart [OF pricing_okD(1,2) [OF ok]]
  obtain w' where w': "AddressSet_Add H (posters_space H ps) a w = (Ok (), w')" "as_rep H (posters_space H ps) N w' (xs @ [a])"
    "same_except {set_word H ps 0, set_word H ps (Suc (length xs)), set_by H ps a} w w'"
    using Add_run [OF pricing_okD(3) [OF ok], of a] an n by auto
  have rd: "slot_read w' ss = slot_read w ss"
    if "ss \<noteq> set_word H ps 0" "ss \<noteq> set_word H ps (Suc (length xs))" "ss \<noteq> set_by H ps a" for ss
    using same_exceptD [OF w'(3)] that by simp
  have l1: "slot_read w' (l1_word H ps i) = slot_read w (l1_word H ps i)" if "i < 13" for i
    using A(3,4) [OF that] n by (intro rd) simp_all
  have tot: "slot_read w' (total_word H ps) = slot_read w (total_word H ps)"
    using A(6,7) n by (intro rd) simp_all
  have pos: "slot_read w' (poster_word H ps b i) = slot_read w (poster_word H ps b i)" if "b \<in> P" "i < 2" for b i
    using A(9) [OF _ that, of 0, symmetric] A(9) [OF _ that, of "Suc (length xs)", symmetric] A(10) [OF that, of a, symmetric] n
    by (intro rd) simp_all
  have "pricing_ok H ps P N (xs @ [a]) w'" using ok w'(2) a(1) l1 by (simp add: pricing_ok_def)
  moreover have "pricing_of H ps P (xs @ [a]) w' = p\<lparr>pr_posters := xs @ [a]\<rparr>"
    unfolding p [symmetric] by (simp add: pricing_of_def l1 tot pos fun_eq_iff)
  ultimately show ?thesis using w' by (simp add: sets_pricing_def represents_def same_except_def xs_def)
qed

definition add_poster :: "address \<Rightarrow> address \<Rightarrow> pricing \<Rightarrow> pricing" where
  "add_poster a b p = p\<lparr>pr_due := (pr_due p)(a := 0), pr_payTo := (pr_payTo p)(a := b), pr_posters := pr_posters p @ [a]\<rparr>"

lemma sets_pricing_run:
  assumes "sets_pricing H ps P N m p w"
  obtains w' where "m w = (Ok (), w')" "represents H ps P N p w'" "balance_of w' = balance_of w"
  using assms by (auto simp: sets_pricing_def)

lemma IsMember_pricing:
  assumes r: "represents H ps P N p w"
  shows "AddressSet_IsMember H (posters_space H ps) a w = (Ok (a \<in> set (pr_posters p)), tick StorageAccessRead StorageReadCost w)"
proof -
  have "pricing_ok H ps P N (pr_posters p) w" using r by (simp add: represents_def)
  from IsMember_run [OF pricing_okD(3) [OF this]] show ?thesis .
qed

lemma AddPoster_run:
  assumes r: "represents H ps P N p w" and a: "a \<in> P" "a \<notin> set (pr_posters p)" and n: "length (pr_posters p) < N"
  shows "\<exists>w'. BPT_AddPoster H (L1_BatchPosterTable H ps) a b w = (Ok (poster H ps a), w')
    \<and> represents H ps P N (add_poster a b p) w' \<and> balance_of w' = balance_of w"
proof -
  have z: "StorageBackedBigInt_SetChecked (poster_word H ps a 0) 0 = StorageBackedBigInt_SetSaturatingWithWarning (poster_word H ps a 0) 0"
    using twoToThe255_pos by (simp add: BigInt_saturating_value clampS_256 bigint.put_word inS_256)
  have z': "clampS 256 0 = 0" using twoToThe255_pos by (simp add: clampS_256)
  let ?w0 = "tick StorageAccessRead StorageReadCost w"
  have r0: "represents H ps P N p ?w0" using r by simp
  obtain w1 where w1: "StorageBackedBigInt_SetSaturatingWithWarning (poster_word H ps a 0) 0 ?w0 = (Ok (), w1)"
    "represents H ps P N (p\<lparr>pr_due := (pr_due p)(a := 0)\<rparr>) w1" "balance_of w1 = balance_of w"
    using pricing_writes(8) [OF r0 a(1), of 0] by (auto simp: z' elim: sets_pricing_run)
  obtain w2 where w2: "StorageBackedAddress_Set (poster_word H ps a 1) b w1 = (Ok (), w2)"
    "represents H ps P N (p\<lparr>pr_due := (pr_due p)(a := 0), pr_payTo := (pr_payTo p)(a := b)\<rparr>) w2" "balance_of w2 = balance_of w"
    using pricing_writes(9) [OF w1(2) a(1), of b] w1(3) by (auto elim: sets_pricing_run)
  obtain w3 where w3: "AddressSet_Add H (posters_space H ps) a w2 = (Ok (), w3)"
    "represents H ps P N (add_poster a b p) w3" "balance_of w3 = balance_of w"
    using represents_add [OF w2(2) a(1)] a(2) n w2(3) by (auto simp: add_poster_def elim: sets_pricing_run)
  show ?thesis
    using w1 w2 w3 a(2)
    by (simp add: BPT_AddPoster_def Let_def table_words IsMember_pricing [OF r] poster_def [symmetric] z op_simps)
qed

definition ensure_poster :: "address \<Rightarrow> pricing \<Rightarrow> pricing" where
  "ensure_poster a p = (if a \<in> set (pr_posters p) then p else add_poster a a p)"

lemma OpenPoster_run:
  assumes r: "represents H ps P N p w" and a: "a \<in> P" and n: "a \<in> set (pr_posters p) \<or> length (pr_posters p) < N"
  shows "\<exists>w'. BPT_OpenPoster H (L1_BatchPosterTable H ps) a True w = (Ok (poster H ps a), w')
    \<and> represents H ps P N (ensure_poster a p) w' \<and> balance_of w' = balance_of w"
proof (cases "a \<in> set (pr_posters p)")
  case True
  then show ?thesis using r IsMember_pricing [OF r, of a]
    by (simp add: BPT_OpenPoster_def table_words op_simps ensure_poster_def poster_def)
next
  case False
  have "represents H ps P N p (tick StorageAccessRead StorageReadCost w)" using r by simp
  from AddPoster_run [OF this a False, of a] False n IsMember_pricing [OF r, of a] show ?thesis
    by (auto simp: BPT_OpenPoster_def table_words op_simps ensure_poster_def)
qed

lemma SetFundsDue_run:
  assumes r: "represents H ps P N p w" and a: "a \<in> P"
    and rng: "inS 256 v" "inS 256 (pr_total p + v - pr_due p a)"
  shows "sets_pricing H ps P N (BPS_SetFundsDue (poster H ps a) v)
    (p\<lparr>pr_total := pr_total p + v - pr_due p a, pr_due := (pr_due p)(a := v)\<rparr>) w"
proof -
  let ?t = "tick StorageAccessRead StorageReadCost"
  have d: "StorageBackedBigInt_Get (poster_word H ps a 0) w = (Ok (pr_due p a), ?t w)"
    using pricing_reads(13) [OF r a] by (simp add: BPS_FundsDue_def table_words)
  have t: "StorageBackedBigInt_Get (total_word H ps) (?t w) = (Ok (pr_total p), ?t (?t w))"
    using pricing_reads(12) [of H ps P N p "?t w"] r by (simp add: BPT_TotalFundsDue_def table_words)
  have r2: "represents H ps P N p (?t (?t w))" using r by simp
  obtain w1 where w1: "StorageBackedBigInt_SetSaturatingWithWarning (total_word H ps) (pr_total p + v - pr_due p a) (?t (?t w)) = (Ok (), w1)"
    "represents H ps P N (p\<lparr>pr_total := pr_total p + v - pr_due p a\<rparr>) w1" "balance_of w1 = balance_of w"
    using pricing_writes(7) [OF r2, of "pr_total p + v - pr_due p a"] rng by (auto simp: clampS_id elim: sets_pricing_run)
  show ?thesis
    using pricing_writes(8) [OF w1(2) a, of v] rng(1) w1 d t
    by (auto simp: sets_pricing_def BPS_SetFundsDue_def table_words BigAdd_def BigSub_def op_simps clampS_id)
qed

section \<open>Stages of an update\<close>

text \<open>The fraction of units an update accounts for; \<open>None\<close> when its time is invalid.\<close>

definition fraction :: "u64 \<Rightarrow> u64 \<Rightarrow> u64 \<Rightarrow> (u64 \<times> u64) option" where
  "fraction stored updateTime currentTime =
     (let last = (if stored = 0 \<and> updateTime > 0 then updateTime - 1 else stored) in
      if updateTime > currentTime \<or> updateTime < last then None
      else if currentTime = last then Some (1, 1)
      else Some (updateTime - last, currentTime - last))"

lemma fraction_le:
  assumes "fraction stored ut ct = Some (n, d)"
  shows "n \<le> d" "0 < d"
proof -
  define last where "last = (if stored = 0 \<and> ut > 0 then ut - 1 else stored)"
  have f: "\<not> ut > ct" "\<not> ut < last" "(n, d) = (if ct = last then (1, 1) else (ut - last, ct - last))"
    using assms by (auto simp: fraction_def Let_def last_def split: if_splits)
  have le: "last \<le> ut" "ut \<le> ct" using f by auto
  then have "ut - last \<le> ct - last" "ct \<noteq> last \<Longrightarrow> 0 < ct - last"
    by (simp_all add: word_le_nat_alt unat_sub word_less_nat_alt word_unat_eq_iff order.strict_iff_order)
  then show "n \<le> d" "0 < d" using f(3) by (auto split: if_splits)
qed

lemma allocationFraction_run:
  assumes r: "represents H ps P N p w"
  shows "allocationFraction H ps ut ct w =
    ((case fraction (pr_updated p) ut ct of None \<Rightarrow> Err ErrInvalidTime | Some f \<Rightarrow> Ok f), tick StorageAccessRead StorageReadCost w)"
  using pricing_reads(3) [OF r]
  by (simp add: allocationFraction_def fraction_def Let_def op_simps)

definition allocated :: "u64 \<Rightarrow> u64 \<times> u64 \<Rightarrow> u64" where
  "allocated units f = SaturatingUMul units (fst f) div snd f"

lemma allocated_le:
  assumes "fraction stored ut ct = Some f"
  shows "allocated units f \<le> units"
proof -
  obtain n d where f: "f = (n, d)" by fastforce
  have nd: "unat n \<le> unat d" "0 < unat d" using fraction_le [of stored ut ct n d] assms
    by (simp_all add: f word_le_nat_alt word_less_nat_alt)
  have "unat (SaturatingUMul units n) \<le> unat units * unat n" by (simp add: SaturatingUMul_unat)
  also have "\<dots> \<le> unat units * unat d" using nd(1) by simp
  finally have "unat (SaturatingUMul units n) div unat d \<le> unat units"
    using nd(2) by (metis div_le_mono div_mult_self_is_m)
  then show ?thesis by (simp add: allocated_def f word_le_nat_alt unat_div_distrib)
qed

lemma allocateUnits_run:
  assumes r: "represents H ps P N p w" and d: "0 < snd f"
  shows "\<exists>w'. allocateUnits H ps (fst f) (snd f) w = (Ok (allocated (pr_units p) f), w')
    \<and> represents H ps P N (p\<lparr>pr_units := pr_units p - allocated (pr_units p) f\<rparr>) w' \<and> balance_of w' = balance_of w"
proof -
  let ?u = "allocated (pr_units p) f"
  have "represents H ps P N p (tick StorageAccessRead StorageReadCost w)" using r by simp
  from pricing_writes(5) [OF this, of "pr_units p - ?u"]
  obtain w' where "L1_SetUnitsSinceUpdate H ps (pr_units p - ?u) (tick StorageAccessRead StorageReadCost w) = (Ok (), w')"
    "represents H ps P N (p\<lparr>pr_units := pr_units p - ?u\<rparr>) w'" "balance_of w' = balance_of w"
    by (auto elim: sets_pricing_run)
  then show ?thesis using pricing_reads(4) [OF r] d
    by (simp add: allocateUnits_def op_simps goDivU_def allocated_def)
qed

definition capped :: "u64 \<Rightarrow> int \<Rightarrow> int \<Rightarrow> u64 \<Rightarrow> int" where
  "capped capBips weiSpent l1Basefee units = (if capBips = 0 then weiSpent
     else min weiSpent (l1Basefee * uint units * SaturatingCastToBips capBips div 10000))"

lemma capWeiSpent_run:
  assumes r: "represents H ps P N p w" and v: "3 \<le> ver"
  shows "capWeiSpent H ps ver wei fee units w =
    (Ok (capped (pr_capBips p) wei fee units), tick StorageAccessRead StorageReadCost w)"
  using pricing_reads(5) [OF r] v
  by (simp add: capWeiSpent_def op_simps BigMulByBips_def BigMulByFrac_def BigDiv_def OneInBips_def BigMulByUint_def
      BigLessThan_def capped_def min_def)

lemma creditPoster_run:
  assumes r: "represents H ps P N p w" and a: "a \<in> P"
    and rng: "inS 256 (pr_due p a + wei)" "inS 256 (pr_total p + wei)" "inS 256 (pr_rewards p + uint units * uint (pr_perUnitReward p))"
  shows "\<exists>w'. creditPoster H ps (poster H ps a) (pr_rewards p) wei units w =
      (Ok (pr_perUnitReward p, pr_rewards p + uint units * uint (pr_perUnitReward p)), w')
    \<and> represents H ps P N (p\<lparr>pr_total := pr_total p + wei, pr_due := (pr_due p)(a := pr_due p a + wei),
        pr_rewards := pr_rewards p + uint units * uint (pr_perUnitReward p)\<rparr>) w' \<and> balance_of w' = balance_of w"
proof -
  let ?t = "tick StorageAccessRead StorageReadCost" and ?d = "pr_rewards p + uint units * uint (pr_perUnitReward p)"
  let ?p1 = "p\<lparr>pr_total := pr_total p + wei, pr_due := (pr_due p)(a := pr_due p a + wei)\<rparr>"
  have "represents H ps P N p (?t w)" using r by simp
  from SetFundsDue_run [OF this a, of "pr_due p a + wei"] rng
  obtain w1 where w1: "BPS_SetFundsDue (poster H ps a) (pr_due p a + wei) (?t w) = (Ok (), w1)"
    "represents H ps P N ?p1 w1" "balance_of w1 = balance_of w" by (auto elim: sets_pricing_run)
  have "represents H ps P N ?p1 (?t w1)" using w1(2) by simp
  from pricing_writes(1) [OF this, of ?d] rng(3)
  obtain w2 where w2: "L1_SetFundsDueForRewards H ps ?d (?t w1) = (Ok (), w2)"
    "represents H ps P N (?p1\<lparr>pr_rewards := ?d\<rparr>) w2" "balance_of w2 = balance_of w"
    using w1(3) by (auto simp: clampS_id elim: sets_pricing_run)
  show ?thesis
    using pricing_reads(13) [OF r a] pricing_reads(6) [OF w1(2)] w1(1) w2
    by (simp add: creditPoster_def Let_def op_simps BigAdd_def BigMulByUint_def UintToBig_def)
qed

text \<open>Paying from the fees collected: the pool has at least the fees.\<close>

lemma TransferFromL1FeesAvailable_run:
  assumes r: "represents H ps P N p w" and v: "0 \<le> v" "v \<le> pr_fees p" and pool: "pr_fees p \<le> balance_of w L1PricerFundsPoolAddress"
    and e: "evm_ok evm" "funds_ok w" "\<not> traced_outside evm sc" and f: "pr_fees p < twoToThe256"
  shows "\<exists>w'. L1_TransferFromL1FeesAvailable H ps a v evm sc w = (Ok (pr_fees p - v), w')
    \<and> represents H ps P N (p\<lparr>pr_fees := pr_fees p - v\<rparr>) w'
    \<and> balance_of w' = moved (balance_of w) L1PricerFundsPoolAddress a v \<and> funds_ok w'
    \<and> pr_fees p - v \<le> balance_of w' L1PricerFundsPoolAddress"
proof -
  let ?t = "tick StorageAccessRead StorageReadCost"
  have vb: "v \<le> balance_of w L1PricerFundsPoolAddress" using v pool by linarith
  obtain w1 where w1: "TransferBalance (Some L1PricerFundsPoolAddress) (Some a) v evm sc w = (Ok (), w1)" "sysw w1"
    "\<And>ss. slot_read w1 ss = slot_read w ss" "balance_of w1 = moved (balance_of w) L1PricerFundsPoolAddress a v" "funds_ok w1"
    using funds_transfer [OF e represents_sys [OF r] v(1) vb] by blast
  have r1: "represents H ps P N p w1" using r w1(2,3) by (rule represents_same)
  then have "represents H ps P N p (?t w1)" by simp
  from pricing_writes(4) [OF this, of "pr_fees p - v"] v f
  obtain w2 where w2: "L1_SetL1FeesAvailable H ps (pr_fees p - v) (?t w1) = (Ok (), w2)"
    "represents H ps P N (p\<lparr>pr_fees := pr_fees p - v\<rparr>) w2" "balance_of w2 = balance_of w1"
    by (auto elim: sets_pricing_run)
  have "funds_ok w2" using w1(5) w2(3) by (simp add: funds_ok_def balances_ok_def total_supply_def)
  moreover have "pr_fees p - v \<le> balance_of w2 L1PricerFundsPoolAddress"
    using pool v by (simp add: w2(3) w1(4) moved_def)
  moreover have "L1_TransferFromL1FeesAvailable H ps a v evm sc w = (Ok (pr_fees p - v), w2)"
    using w1(1) pricing_reads(2) [OF r1] w2(1) v
    by (simp add: L1_TransferFromL1FeesAvailable_def Let_def op_simps)
  ultimately show ?thesis using w2 w1(4) by auto
qed

lemma inS_BigInt_decode: "inS 256 (BigInt_decode h)"
proof -
  have h: "0 \<le> uint h" "uint h < 2 * twoToThe255" using uint_lt_pow [of h] by (simp_all add: twoToThe255_def)
  have "- t \<le> (if t \<le> u then u - 2 * t else u) \<and> (if t \<le> u then u - 2 * t else u) < t"
    if "0 \<le> u" "u < 2 * t" for t u :: int
    using that by auto
  from this [OF h] show ?thesis unfolding BigInt_decode_def inS_256 twoToThe256_double bit_255_uint .
qed

lemma represents_ranges:
  assumes "represents H ps P N p w"
  shows "0 \<le> pr_fees p" "pr_fees p < twoToThe256" "inS 256 (pr_rewards p)" "inS 256 (pr_total p)" "inS 256 (pr_due p a)"
    "0 \<le> pr_price p" "0 \<le> pr_equilUnits p" "inS 256 (pr_surplus p)"
proof -
  define xs where "xs = pr_posters p"
  have p: "p = pricing_of H ps P xs w" using assms by (simp add: represents_def xs_def)
  have z: "inS 256 0" using twoToThe255_pos by (simp add: inS_256)
  show "0 \<le> pr_fees p" "pr_fees p < twoToThe256" "inS 256 (pr_rewards p)" "inS 256 (pr_total p)"
    "0 \<le> pr_price p" "0 \<le> pr_equilUnits p" "inS 256 (pr_surplus p)" using uint_lt_pow [of "slot_read w (l1_l1FeesAvailable H ps)"]
    by (simp_all add: p inS_BigInt_decode twoToThe256_def)
  show "inS 256 (pr_due p a)" using z by (simp add: p pricing_of_def inS_BigInt_decode)
qed

lemma payRewards_run:
  assumes r: "represents H ps P N p w" and pool: "pr_fees p \<le> balance_of w L1PricerFundsPoolAddress"
    and e: "evm_ok evm" "funds_ok w" "\<not> traced_outside evm sc"
    and owed: "owed = uint reward * uint units" and paid: "paid = min (pr_fees p) owed"
    and rng: "inS 256 (pr_rewards p - owed)"
  shows "\<exists>w'. payRewards H ps (pr_fees p) (pr_rewards p) reward units evm sc w = (Ok (pr_fees p - paid), w')
    \<and> represents H ps P N (p\<lparr>pr_rewards := pr_rewards p - paid, pr_fees := pr_fees p - paid\<rparr>) w'
    \<and> balance_of w' = moved (balance_of w) L1PricerFundsPoolAddress (pr_payRewardsTo p) paid \<and> funds_ok w'
    \<and> pr_fees p - paid \<le> balance_of w' L1PricerFundsPoolAddress"
proof -
  let ?t = "tick StorageAccessRead StorageReadCost" and ?p1 = "p\<lparr>pr_rewards := pr_rewards p - paid\<rparr>"
  note R = represents_ranges [OF r]
  have pd: "0 \<le> paid" "paid \<le> pr_fees p" "paid \<le> owed" using R(1) by (simp_all add: paid owed)
  have "inS 256 (pr_rewards p - paid)" using R(3) rng pd unfolding inS_256 by linarith
  with pricing_writes(1) [OF r, of "pr_rewards p - paid"]
  obtain w1 where w1: "L1_SetFundsDueForRewards H ps (pr_rewards p - paid) w = (Ok (), w1)"
    "represents H ps P N ?p1 w1" "balance_of w1 = balance_of w" by (auto simp: clampS_id elim: sets_pricing_run)
  have r1: "represents H ps P N ?p1 (?t w1)" using w1(2) by simp
  have f1: "funds_ok (?t w1)" using e(2) w1(3) by (simp add: funds_ok_def balances_ok_def total_supply_def)
  from TransferFromL1FeesAvailable_run [OF r1 _ _ _ e(1) f1 e(3), of paid "pr_payRewardsTo p"] pd pool w1(3) R(2)
  obtain w2 where w2: "L1_TransferFromL1FeesAvailable H ps (pr_payRewardsTo p) paid evm sc (?t w1) = (Ok (pr_fees p - paid), w2)"
    "represents H ps P N (?p1\<lparr>pr_fees := pr_fees p - paid\<rparr>) w2"
    "balance_of w2 = moved (balance_of w) L1PricerFundsPoolAddress (pr_payRewardsTo p) paid" "funds_ok w2"
    "pr_fees p - paid \<le> balance_of w2 L1PricerFundsPoolAddress" by auto
  have m: "BigMulByUint (UintToBig reward) units = owed" "(if pr_fees p < owed then pr_fees p else owed) = paid"
    by (simp_all add: owed paid BigMulByUint_def UintToBig_def)
  have "payRewards H ps (pr_fees p) (pr_rewards p) reward units evm sc w = (Ok (pr_fees p - paid), w2)"
    unfolding payRewards_def Let_def BigLessThan_def BigSub_def m
    using w1(1) w2(1) pricing_reads(7) [OF w1(2)] by (simp add: op_simps)
  then show ?thesis using w2 by auto
qed

lemma settlePoster_run:
  assumes r: "represents H ps P N p w" and a: "a \<in> P" and pool: "pr_fees p \<le> balance_of w L1PricerFundsPoolAddress"
    and e: "evm_ok evm" "funds_ok w" "\<not> traced_outside evm sc"
    and paid: "paid = max 0 (min (pr_fees p) (pr_due p a))" and rng: "inS 256 (pr_total p - pr_due p a)"
  shows "\<exists>w'. settlePoster H ps (poster H ps a) (pr_fees p) evm sc w = (Ok (pr_fees p - paid), w')
    \<and> represents H ps P N (p\<lparr>pr_fees := pr_fees p - paid, pr_total := pr_total p - paid,
        pr_due := (pr_due p)(a := pr_due p a - paid)\<rparr>) w'
    \<and> balance_of w' = (if 0 < paid then moved (balance_of w) L1PricerFundsPoolAddress (pr_payTo p a) paid else balance_of w)
    \<and> funds_ok w' \<and> pr_fees p - paid \<le> balance_of w' L1PricerFundsPoolAddress"
proof (cases "0 < paid")
  case False
  let ?t = "tick StorageAccessRead StorageReadCost"
  have z: "paid = 0" using False paid by simp
  have m: "\<not> (if pr_fees p < pr_due p a then pr_fees p else pr_due p a) > 0" using False by (auto simp: paid not_less)
  have "settlePoster H ps (poster H ps a) (pr_fees p) evm sc w = (Ok (pr_fees p), ?t w)"
    using m pricing_reads(13) [OF r a] by (simp add: settlePoster_def Let_def BigLessThan_def op_simps)
  then show ?thesis using r pool e(2) z by (simp add: funds_ok_def balances_ok_def total_supply_def)
next
  case True
  let ?t = "tick StorageAccessRead StorageReadCost" and ?p1 = "p\<lparr>pr_fees := pr_fees p - paid\<rparr>"
  note R = represents_ranges [OF r]
  have pd: "0 \<le> paid" "paid \<le> pr_fees p" "paid \<le> pr_due p a" using True by (auto simp: paid)
  have r1: "represents H ps P N p (?t (?t w))" using r by simp
  have f1: "funds_ok (?t (?t w))" using e(2) by (simp add: funds_ok_def balances_ok_def total_supply_def)
  from TransferFromL1FeesAvailable_run [OF r1 _ _ _ e(1) f1 e(3), of paid "pr_payTo p a"] pd pool R(2)
  obtain w2 where w2: "L1_TransferFromL1FeesAvailable H ps (pr_payTo p a) paid evm sc (?t (?t w)) = (Ok (pr_fees p - paid), w2)"
    "represents H ps P N ?p1 w2" "balance_of w2 = moved (balance_of w) L1PricerFundsPoolAddress (pr_payTo p a) paid" "funds_ok w2"
    "pr_fees p - paid \<le> balance_of w2 L1PricerFundsPoolAddress" by auto
  have i: "inS 256 (pr_due p a - paid)" "inS 256 (pr_total p - paid)" using R(4) R(5) [of a] rng pd twoToThe255_pos
    unfolding inS_256 by linarith+
  with SetFundsDue_run [OF w2(2) a, of "pr_due p a - paid"]
  obtain w3 where w3: "BPS_SetFundsDue (poster H ps a) (pr_due p a - paid) w2 = (Ok (), w3)"
    "represents H ps P N (?p1\<lparr>pr_total := pr_total p - paid, pr_due := (pr_due p)(a := pr_due p a - paid)\<rparr>) w3"
    "balance_of w3 = balance_of w2" by (auto elim: sets_pricing_run)
  have m: "(if pr_fees p < pr_due p a then pr_fees p else pr_due p a) = paid" using True by (auto simp: paid max_def split: if_splits)
  have "settlePoster H ps (poster H ps a) (pr_fees p) evm sc w = (Ok (pr_fees p - paid), w3)"
    using True m w2(1) w3(1) pricing_reads(13) [OF r a] pricing_reads(14) [of H ps P N p "?t w" a] r a
    by (simp add: settlePoster_def Let_def BigLessThan_def BigSub_def op_simps)
  then show ?thesis using True w2 w3 by (auto simp: funds_ok_def balances_ok_def total_supply_def)
qed

text \<open>The change of the price.\<close>

definition price_step :: "int \<Rightarrow> int \<Rightarrow> int \<Rightarrow> u64 \<Rightarrow> u64 \<Rightarrow> int" where
  "price_step surplus oldSurplus equilUnits inertia units =
     (- surplus div equilUnits - (surplus - oldSurplus) div uint units) * uint units
       div (equilUnits div uint inertia + uint units)"

definition adjust :: "u64 \<Rightarrow> pricing \<Rightarrow> pricing" where
  "adjust units p = (if units = 0 then p
     else let s = pr_fees p - (pr_total p + pr_rewards p)
       in p\<lparr>pr_surplus := clampS 256 s,
            pr_price := max 0 (pr_price p + price_step s (pr_surplus p) (pr_equilUnits p) (pr_inertia p) units)\<rparr>)"

lemma adjustPrice_run:
  assumes r: "represents H ps P N p w" and v: "7 \<le> ver" and nz: "units \<noteq> 0 \<Longrightarrow> pr_equilUnits p \<noteq> 0 \<and> pr_inertia p \<noteq> 0"
    and rng: "pr_price (adjust units p) < twoToThe256"
  shows "sets_pricing H ps P N (adjustPrice H ps ver units (pr_fees p)) (adjust units p) w"
proof (cases "units = 0")
  case True
  then show ?thesis using r by (simp add: adjustPrice_def adjust_def sets_pricing_def op_simps)
next
  case False
  let ?t = "tick StorageAccessRead StorageReadCost" and ?s = "pr_fees p - (pr_total p + pr_rewards p)"
  let ?c = "price_step ?s (pr_surplus p) (pr_equilUnits p) (pr_inertia p) units"
  let ?w = "?t (?t (?t (?t (?t (?t w)))))"
  have pos: "0 < pr_equilUnits p" "0 < uint (pr_inertia p)" "0 < uint units"
    using nz [OF False] False represents_ranges(7) [OF r] by (simp_all add: word_neq_0_conv [symmetric] uint_0_iff order.strict_iff_order)
  have den: "0 < pr_equilUnits p div uint (pr_inertia p) + uint units"
    using pos by (intro add_nonneg_pos) (simp_all add: pos_imp_zdiv_nonneg_iff)
  have pc: "priceChange ?s (pr_surplus p) (pr_equilUnits p) units (pr_equilUnits p div uint (pr_inertia p) + uint units) u = (Ok ?c, u)" for u
    using pos den by (simp add: priceChange_def BigDiv_def BigDivByUint_def UintToBig_def BigSub_def BigMulByUint_def price_step_def op_simps)
  have r6: "represents H ps P N p ?w" using r by simp
  from pricing_writes(2) [OF r6 v, of ?s] obtain w1 where w1: "L1_SetLastSurplus H ps ?s ver ?w = (Ok (), w1)"
    "represents H ps P N (p\<lparr>pr_surplus := clampS 256 ?s\<rparr>) w1" "balance_of w1 = balance_of w" by (auto elim: sets_pricing_run)
  have np: "(if pr_price p + ?c < 0 then 0 else pr_price p + ?c) = max 0 (pr_price p + ?c)" by simp
  from pricing_writes(3) [OF w1(2), of "max 0 (pr_price p + ?c)"] rng False
  obtain w2 where w2: "L1_SetPricePerUnit H ps (max 0 (pr_price p + ?c)) w1 = (Ok (), w2)"
    "represents H ps P N (adjust units p) w2" "balance_of w2 = balance_of w"
    using w1(3) by (auto simp: adjust_def Let_def elim: sets_pricing_run)
  have u0: "0 < units" using False by (simp add: word_neq_0_conv [symmetric])
  have "adjustPrice H ps ver units (pr_fees p) w = (Ok (), w2)"
    using pos nz [OF False] unfolding adjustPrice_def
    by (simp add: pricing_reads [where P = P and N = N and p = p] r u0 op_simps Let_def BigSub_def BigAdd_def BigDivByUint_def UintToBig_def BigDiv_def BigAddByUint_def pc w1(1) np w2(1))
  then show ?thesis using w2 by (auto simp: sets_pricing_def)
qed

section \<open>The whole update\<close>

text \<open>The update of version 10 as a function on records, for a poster that is known or gets registered: the
  units allocated, what the poster is credited, what the rewards and the poster are paid.\<close>

definition batch_units :: "u64 \<times> u64 \<Rightarrow> pricing \<Rightarrow> u64" where
  "batch_units f p = allocated (pr_units p) f"

definition batch_spent :: "u64 \<times> u64 \<Rightarrow> int \<Rightarrow> int \<Rightarrow> pricing \<Rightarrow> int" where
  "batch_spent f wei fee p = capped (pr_capBips p) wei fee (batch_units f p)"

definition batch_reward :: "u64 \<times> u64 \<Rightarrow> pricing \<Rightarrow> int" where
  "batch_reward f p = uint (batch_units f p) * uint (pr_perUnitReward p)"

definition reward_payment :: "u64 \<times> u64 \<Rightarrow> pricing \<Rightarrow> int" where
  "reward_payment f p = min (pr_fees p) (batch_reward f p)"

definition poster_payment :: "u64 \<times> u64 \<Rightarrow> address \<Rightarrow> int \<Rightarrow> int \<Rightarrow> pricing \<Rightarrow> int" where
  "poster_payment f a wei fee p = max 0 (min (pr_fees p - reward_payment f p) (pr_due (ensure_poster a p) a + batch_spent f wei fee p))"

definition batch_settle :: "u64 \<times> u64 \<Rightarrow> address \<Rightarrow> int \<Rightarrow> int \<Rightarrow> u64 \<Rightarrow> pricing \<Rightarrow> pricing" where
  "batch_settle f a wei fee ut p = (let q = ensure_poster a p; spent = batch_spent f wei fee p; paid = poster_payment f a wei fee p in
     q\<lparr>pr_units := pr_units p - batch_units f p,
       pr_rewards := pr_rewards p + batch_reward f p - reward_payment f p,
       pr_fees := pr_fees p - reward_payment f p - paid,
       pr_total := pr_total p + spent - paid,
       pr_due := (pr_due q)(a := pr_due q a + spent - paid),
       pr_updated := ut\<rparr>)"

definition batch_update :: "u64 \<times> u64 \<Rightarrow> address \<Rightarrow> int \<Rightarrow> int \<Rightarrow> u64 \<Rightarrow> pricing \<Rightarrow> pricing" where
  "batch_update f a wei fee ut p = adjust (batch_units f p) (batch_settle f a wei fee ut p)"

text \<open>No counter leaves the range of its type, and the parameters do not make the price adjustment divide by
  zero or overflow.\<close>

definition batch_fits :: "u64 \<times> u64 \<Rightarrow> address \<Rightarrow> int \<Rightarrow> int \<Rightarrow> u64 \<Rightarrow> pricing \<Rightarrow> bool" where
  "batch_fits f a wei fee ut p \<longleftrightarrow>
     inS 256 (pr_due (ensure_poster a p) a + batch_spent f wei fee p) \<and> inS 256 (pr_total p + batch_spent f wei fee p)
   \<and> inS 256 (pr_total p - pr_due (ensure_poster a p) a) \<and> inS 256 (pr_rewards p + batch_reward f p)
   \<and> pr_price (batch_update f a wei fee ut p) < twoToThe256 \<and> pr_equilUnits p \<noteq> 0 \<and> pr_inertia p \<noteq> 0"

lemma ensure_poster_fields [simp]:
  "pr_total (ensure_poster a p) = pr_total p" "pr_rewards (ensure_poster a p) = pr_rewards p" "pr_units (ensure_poster a p) = pr_units p"
  "pr_updated (ensure_poster a p) = pr_updated p" "pr_price (ensure_poster a p) = pr_price p" "pr_surplus (ensure_poster a p) = pr_surplus p"
  "pr_fees (ensure_poster a p) = pr_fees p" "pr_payRewardsTo (ensure_poster a p) = pr_payRewardsTo p"
  "pr_equilUnits (ensure_poster a p) = pr_equilUnits p" "pr_inertia (ensure_poster a p) = pr_inertia p"
  "pr_perUnitReward (ensure_poster a p) = pr_perUnitReward p" "pr_capBips (ensure_poster a p) = pr_capBips p"
  by (simp_all add: ensure_poster_def add_poster_def)

lemma UpdateForBatchPosterSpending_run:
  assumes r: "represents H ps P N p w" and a: "a \<in> P" "a \<in> set (pr_posters p) \<or> length (pr_posters p) < N"
    and fr: "fraction (pr_updated p) ut ct = Some f" and ver: "10 \<le> ver"
    and pool: "pr_fees p \<le> balance_of w L1PricerFundsPoolAddress"
    and e: "evm_ok evm" "funds_ok w" "\<not> traced_outside evm sc"
    and fit: "batch_fits f a wei fee ut p"
  shows "\<exists>w'. UpdateForBatchPosterSpending H ps evm ver ut ct a wei fee sc w = (Ok (), w')
    \<and> represents H ps P N (batch_update f a wei fee ut p) w' \<and> funds_ok w'
    \<and> balance_of w' = (let b = moved (balance_of w) L1PricerFundsPoolAddress (pr_payRewardsTo p) (reward_payment f p);
          paid = poster_payment f a wei fee p
        in if 0 < paid then moved b L1PricerFundsPoolAddress (pr_payTo (ensure_poster a p) a) paid else b)
    \<and> pr_fees (batch_update f a wei fee ut p) \<le> balance_of w' L1PricerFundsPoolAddress"
proof -
  let ?t = "tick StorageAccessRead StorageReadCost" and ?q = "ensure_poster a p"
  define units where "units = batch_units f p"
  define spent where "spent = batch_spent f wei fee p"
  define reward where "reward = batch_reward f p"
  define paid1 where "paid1 = reward_payment f p"
  define paid2 where "paid2 = poster_payment f a wei fee p"
  have v7: "7 \<le> ver" "3 \<le> ver" using ver by (rule order_trans [rotated], simp)+
  obtain n d where f: "f = (n, d)" by fastforce
  have d: "0 < snd f" using fraction_le [of _ ut ct n d] fr f by auto
  obtain w1 where w1: "BPT_OpenPoster H (L1_BatchPosterTable H ps) a True w = (Ok (poster H ps a), w1)"
    "represents H ps P N ?q w1" "balance_of w1 = balance_of w" using OpenPoster_run [OF r a] by blast
  let ?w2 = "?t (?t (?t w1))"
  have r2: "represents H ps P N ?q ?w2" using w1(2) by simp
  obtain w3 where w3: "allocateUnits H ps (fst f) (snd f) ?w2 = (Ok units, w3)"
    "represents H ps P N (?q\<lparr>pr_units := pr_units p - units\<rparr>) w3" "balance_of w3 = balance_of w"
    using allocateUnits_run [OF r2 d] w1(3) by (auto simp: units_def batch_units_def)
  let ?q3 = "?q\<lparr>pr_units := pr_units p - units\<rparr>"
  have c: "capWeiSpent H ps ver wei fee units w3 = (Ok spent, ?t w3)"
    using capWeiSpent_run [OF w3(2) v7(2)] by (simp add: spent_def batch_spent_def units_def)
  have r4: "represents H ps P N ?q3 (?t w3)" using w3(2) by simp
  let ?q4 = "?q3\<lparr>pr_total := pr_total p + spent, pr_due := (pr_due ?q)(a := pr_due ?q a + spent), pr_rewards := pr_rewards p + reward\<rparr>"
  have fit': "inS 256 (pr_due ?q a + spent)" "inS 256 (pr_total p + spent)" "inS 256 (pr_total p - pr_due ?q a)" "inS 256 (pr_rewards p + reward)"
    using fit by (simp_all add: batch_fits_def spent_def reward_def)
  have rw: "uint units * uint (pr_perUnitReward p) = reward" by (simp add: reward_def batch_reward_def units_def)
  obtain w5 where w5: "creditPoster H ps (poster H ps a) (pr_rewards p) spent units (?t w3) = (Ok (pr_perUnitReward p, pr_rewards p + reward), w5)"
    "represents H ps P N ?q4 w5" "balance_of w5 = balance_of w"
    using creditPoster_run [OF r4 a(1), of spent units] fit' w3(3) by (auto simp: rw)
  have f5: "funds_ok w5" using e(2) w5(3) by (simp add: funds_ok_def balances_ok_def total_supply_def)
  have p1: "paid1 = min (pr_fees ?q4) (uint (pr_perUnitReward p) * uint units)" by (simp add: paid1_def reward_payment_def rw [symmetric] reward_def [symmetric] mult.commute)
  have g5: "inS 256 (pr_rewards ?q4 - uint (pr_perUnitReward p) * uint units)"
    using represents_ranges(3) [OF r] by (simp add: rw [symmetric] mult.commute)
  obtain w6 where w6: "payRewards H ps (pr_fees p) (pr_rewards p + reward) (pr_perUnitReward p) units evm sc w5 = (Ok (pr_fees p - paid1), w6)"
    "represents H ps P N (?q4\<lparr>pr_rewards := pr_rewards p + reward - paid1, pr_fees := pr_fees p - paid1\<rparr>) w6"
    "balance_of w6 = moved (balance_of w) L1PricerFundsPoolAddress (pr_payRewardsTo p) paid1" "funds_ok w6"
    "pr_fees p - paid1 \<le> balance_of w6 L1PricerFundsPoolAddress"
    using payRewards_run [OF w5(2) _ e(1) f5 e(3) refl p1 g5] pool w5(3) by auto
  let ?q6 = "?q4\<lparr>pr_rewards := pr_rewards p + reward - paid1, pr_fees := pr_fees p - paid1\<rparr>"
  have p2: "paid2 = max 0 (min (pr_fees ?q6) (pr_due ?q6 a))" by (simp add: paid2_def poster_payment_def spent_def paid1_def)
  let ?q7 = "?q6\<lparr>pr_fees := pr_fees p - paid1 - paid2, pr_total := pr_total p + spent - paid2,
        pr_due := (pr_due ?q)(a := pr_due ?q a + spent - paid2)\<rparr>"
  obtain w7 where w7: "settlePoster H ps (poster H ps a) (pr_fees p - paid1) evm sc w6 = (Ok (pr_fees p - paid1 - paid2), w7)"
    "represents H ps P N ?q7 w7"
    "balance_of w7 = (if 0 < paid2 then moved (balance_of w6) L1PricerFundsPoolAddress (pr_payTo ?q a) paid2 else balance_of w6)" "funds_ok w7"
    "pr_fees p - paid1 - paid2 \<le> balance_of w7 L1PricerFundsPoolAddress"
    using settlePoster_run [OF w6(2) a(1) _ e(1) w6(4) e(3) p2] w6(5) fit'(3) by (auto cong: if_cong)
  have q7: "?q7\<lparr>pr_updated := ut\<rparr> = batch_settle f a wei fee ut p"
    by (simp add: batch_settle_def Let_def units_def spent_def reward_def paid1_def paid2_def)
  obtain w8 where w8: "L1_SetLastUpdateTime H ps ut w7 = (Ok (), w8)" "represents H ps P N (batch_settle f a wei fee ut p) w8"
    "balance_of w8 = balance_of w7"
    using pricing_writes(6) [OF w7(2), of ut] unfolding q7 by (auto elim: sets_pricing_run)
  have fs: "pr_fees (batch_settle f a wei fee ut p) = pr_fees p - paid1 - paid2"
    "pr_equilUnits (batch_settle f a wei fee ut p) = pr_equilUnits p" "pr_inertia (batch_settle f a wei fee ut p) = pr_inertia p"
    by (simp_all add: batch_settle_def Let_def paid1_def paid2_def)
  obtain w9 where w9: "adjustPrice H ps ver units (pr_fees p - paid1 - paid2) w8 = (Ok (), w9)"
    "represents H ps P N (batch_update f a wei fee ut p) w9" "balance_of w9 = balance_of w7"
    using adjustPrice_run [OF w8(2) v7(1), of units] fit w8(3) unfolding fs batch_update_def units_def [symmetric]
    by (auto simp: batch_fits_def batch_update_def units_def [symmetric] elim: sets_pricing_run)
  have af: "allocationFraction H ps ut ct (?t (?t w1)) = (Ok (fst f, snd f), ?w2)"
    using allocationFraction_run [OF represents_tick [OF represents_tick [OF w1(2)]]] fr by simp
  have "UpdateForBatchPosterSpending H ps evm ver ut ct a wei fee sc w = (Ok (), w9)"
    unfolding UpdateForBatchPosterSpending_def
    using ver w1(1) pricing_reads(1) [OF w1(2)] pricing_reads(2) [OF represents_tick [OF w1(2)]] af w3(1) c w5(1) w6(1) w7(1) w8(1) w9(1)
    by (simp add: f op_simps not_less [symmetric])
  moreover have "funds_ok w9" using w7(4) w9(3) by (simp add: funds_ok_def balances_ok_def total_supply_def)
  moreover have "pr_fees (batch_update f a wei fee ut p) = pr_fees p - paid1 - paid2"
    by (simp add: batch_update_def adjust_def Let_def fs)
  ultimately show ?thesis using w9 w7(3,5) w6(3) by (simp add: Let_def paid1_def paid2_def)
qed

section \<open>Accounts\<close>

text \<open>What the fees available exceed the funds owed by, and the books balancing.\<close>

definition surplus :: "pricing \<Rightarrow> int" where
  "surplus p = pr_fees p - (pr_total p + pr_rewards p)"

definition balanced :: "pricing \<Rightarrow> bool" where
  "balanced p \<longleftrightarrow> pr_total p = (\<Sum>a\<in>set (pr_posters p). pr_due p a)"

lemma sum_upd: "finite S \<Longrightarrow> a \<in> S \<Longrightarrow> (\<Sum>x\<in>S. (g(a := v)) x) = (\<Sum>x\<in>S. g x) - g a + (v :: int)"
proof -
  assume S: "finite S" "a \<in> S"
  have "(\<Sum>x\<in>S - {a}. (g(a := v)) x) = (\<Sum>x\<in>S - {a}. g x)" by (rule sum.cong) auto
  then show ?thesis using sum.remove [OF S, of g] sum.remove [OF S, of "g(a := v)"] by simp
qed

lemma ensure_poster_balanced:
  "balanced p \<Longrightarrow> balanced (ensure_poster a p)" "a \<in> set (pr_posters (ensure_poster a p))"
proof -
  have "(\<Sum>x\<in>set (pr_posters p). if x = a then 0 else pr_due p x) = (\<Sum>x\<in>set (pr_posters p). pr_due p x)"
    if "a \<notin> set (pr_posters p)" using that by (intro sum.cong) auto
  then show "balanced p \<Longrightarrow> balanced (ensure_poster a p)"
    by (simp add: balanced_def ensure_poster_def add_poster_def fun_upd_def)
qed (simp add: ensure_poster_def add_poster_def)

lemma batch_update_fields:
  "pr_posters (batch_update f a wei fee ut p) = pr_posters (ensure_poster a p)"
  "pr_due (batch_update f a wei fee ut p) = (pr_due (ensure_poster a p))(a := pr_due (ensure_poster a p) a
     + batch_spent f wei fee p - poster_payment f a wei fee p)"
  "pr_total (batch_update f a wei fee ut p) = pr_total p + batch_spent f wei fee p - poster_payment f a wei fee p"
  "pr_rewards (batch_update f a wei fee ut p) = pr_rewards p + batch_reward f p - reward_payment f p"
  "pr_fees (batch_update f a wei fee ut p) = pr_fees p - reward_payment f p - poster_payment f a wei fee p"
  "pr_units (batch_update f a wei fee ut p) = pr_units p - batch_units f p"
  "pr_updated (batch_update f a wei fee ut p) = ut"
  by (simp_all add: batch_update_def adjust_def batch_settle_def Let_def)

lemma batch_update_balanced: "balanced p \<Longrightarrow> balanced (batch_update f a wei fee ut p)"
  using ensure_poster_balanced [where p = p and a = a] sum_upd [of "set (pr_posters (ensure_poster a p))" a "pr_due (ensure_poster a p)"
      "pr_due (ensure_poster a p) a + batch_spent f wei fee p - poster_payment f a wei fee p"]
  by (simp add: balanced_def batch_update_fields del: fun_upd_apply)

lemma batch_update_surplus:
  "surplus (batch_update f a wei fee ut p) = surplus p - batch_spent f wei fee p - batch_reward f p"
  by (simp add: surplus_def batch_update_fields)

text \<open>The price goes up when the deficit is not shrinking and down when the surplus is not shrinking.\<close>

lemma price_step_sign:
  assumes "0 < equil" "units \<noteq> 0"
  shows "s \<le> 0 \<Longrightarrow> s \<le> old \<Longrightarrow> 0 \<le> price_step s old equil inertia units"
    and "0 \<le> s \<Longrightarrow> old \<le> s \<Longrightarrow> price_step s old equil inertia units \<le> 0"
proof -
  have u: "0 < uint units" using assms(2) by (simp add: uint_0_iff order.strict_iff_order)
  have i: "0 \<le> equil div uint inertia"
    using assms(1) by (cases "inertia = 0") (simp_all add: pos_imp_zdiv_nonneg_iff uint_0_iff order.strict_iff_order)
  have den: "0 < equil div uint inertia + uint units" using u i by linarith
  show "0 \<le> price_step s old equil inertia units" if s: "s \<le> 0" "s \<le> old"
  proof -
    have "0 \<le> - s div equil" "(s - old) div uint units \<le> 0"
      using s assms(1) u by (simp_all add: pos_imp_zdiv_nonneg_iff div_nonpos_pos_le0)
    then show ?thesis using den u by (simp add: price_step_def pos_imp_zdiv_nonneg_iff)
  qed
  show "price_step s old equil inertia units \<le> 0" if s: "0 \<le> s" "old \<le> s"
  proof -
    have "- s div equil \<le> 0" "0 \<le> (s - old) div uint units"
      using s assms(1) u by (simp_all add: pos_imp_zdiv_nonneg_iff div_nonpos_pos_le0)
    then have "(- s div equil - (s - old) div uint units) * uint units \<le> 0"
      using u by (intro mult_nonpos_nonneg) simp_all
    then show ?thesis using den by (simp add: price_step_def div_nonpos_pos_le0)
  qed
qed

lemma batch_runs_from:
  assumes "represents H ps P N p w" and "a \<in> P" and "a \<in> set (pr_posters p) \<or> length (pr_posters p) < N"
    and "fraction (pr_updated p) ut ct = Some f" and "10 \<le> ver" and "pr_fees p \<le> balance_of w L1PricerFundsPoolAddress"
    and "evm_ok evm" and "funds_ok w" and "\<not> traced_outside evm sc" and "batch_fits f a wei fee ut p"
  shows "\<exists>w'. UpdateForBatchPosterSpending H ps evm ver ut ct a wei fee sc w = (Ok (), w')
    \<and> represents H ps P N (batch_update f a wei fee ut p) w' \<and> funds_ok w' \<and> total_supply w' = total_supply w
    \<and> pr_fees (batch_update f a wei fee ut p) \<le> balance_of w' L1PricerFundsPoolAddress"
proof -
  obtain w' where w': "UpdateForBatchPosterSpending H ps evm ver ut ct a wei fee sc w = (Ok (), w')"
    "represents H ps P N (batch_update f a wei fee ut p) w'" "funds_ok w'"
    "balance_of w' = (let b = moved (balance_of w) L1PricerFundsPoolAddress (pr_payRewardsTo p) (reward_payment f p);
          paid = poster_payment f a wei fee p
        in if 0 < paid then moved b L1PricerFundsPoolAddress (pr_payTo (ensure_poster a p) a) paid else b)"
    "pr_fees (batch_update f a wei fee ut p) \<le> balance_of w' L1PricerFundsPoolAddress"
    using UpdateForBatchPosterSpending_run [OF assms] by blast
  have "total_supply w' = total_supply w" using w'(4) by (simp add: total_supply_def moved_supply Let_def)
  then show ?thesis using w' by blast
qed


text \<open>C13: The price per unit follows the surplus. When the update leaves a deficit that is no smaller than the last
  one recorded the price does not fall, when it leaves a surplus that is no smaller than the last
  one it does not rise, and the price never becomes negative.\<close>

theorem price_follows_surplus:
  assumes "represents H ps P N p w" and "a \<in> P" and "a \<in> set (pr_posters p) \<or> length (pr_posters p) < N"
    and "fraction (pr_updated p) ut ct = Some f" and "10 \<le> ver" and "pr_fees p \<le> balance_of w L1PricerFundsPoolAddress"
    and "evm_ok evm" and "funds_ok w" and "\<not> traced_outside evm sc" and "batch_fits f a wei fee ut p"
  shows "\<exists>p' w'. UpdateForBatchPosterSpending H ps evm ver ut ct a wei fee sc w = (Ok (), w') \<and> represents H ps P N p' w'
    \<and> 0 \<le> pr_price p' \<and> (surplus p' \<le> 0 \<and> surplus p' \<le> pr_surplus p \<longrightarrow> pr_price p \<le> pr_price p')
    \<and> (0 \<le> surplus p' \<and> pr_surplus p \<le> surplus p' \<longrightarrow> pr_price p' \<le> pr_price p)"
proof -
  let ?p' = "batch_update f a wei fee ut p" and ?q = "batch_settle f a wei fee ut p"
  obtain w' where w': "UpdateForBatchPosterSpending H ps evm ver ut ct a wei fee sc w = (Ok (), w')" "represents H ps P N ?p' w'"
    using batch_runs_from [OF assms] by blast
  have e: "0 < pr_equilUnits p" using represents_ranges(7) [OF assms(1)] assms(10) by (auto simp: batch_fits_def)
  have pr: "0 \<le> pr_price p" using represents_ranges(6) [OF assms(1)] .
  have q: "pr_price ?q = pr_price p" "pr_surplus ?q = pr_surplus p" "pr_equilUnits ?q = pr_equilUnits p" "pr_inertia ?q = pr_inertia p"
    by (simp_all add: batch_settle_def Let_def)
  have s: "pr_fees ?q - (pr_total ?q + pr_rewards ?q) = surplus ?p'"
    by (simp add: surplus_def batch_update_def adjust_def Let_def)
  have "pr_price ?p' = (if batch_units f p = 0 then pr_price p
      else max 0 (pr_price p + price_step (surplus ?p') (pr_surplus p) (pr_equilUnits p) (pr_inertia p) (batch_units f p)))"
    unfolding s [symmetric] by (simp add: batch_update_def adjust_def Let_def q)
  then show ?thesis
    using w' pr price_step_sign [OF e, of "batch_units f p"] by (intro exI [of _ ?p'] exI [of _ w']) (auto simp: max_def)
qed

text \<open>A report whose time lies in the future, or before the last update, is refused; the poster may have
  been registered, everything else is as before.\<close>

theorem invalid_report_time:
  assumes "represents H ps P N p w" and "a \<in> P" and "a \<in> set (pr_posters p) \<or> length (pr_posters p) < N" and "10 \<le> ver"
    and "ct < ut \<or> ut < pr_updated p"
  shows "\<exists>w'. UpdateForBatchPosterSpending H ps evm ver ut ct a wei fee sc w = (Err ErrInvalidTime, w')
    \<and> represents H ps P N (ensure_poster a p) w' \<and> balance_of w' = balance_of w"
proof -
  obtain w1 where w1: "BPT_OpenPoster H (L1_BatchPosterTable H ps) a True w = (Ok (poster H ps a), w1)"
    "represents H ps P N (ensure_poster a p) w1" "balance_of w1 = balance_of w" using OpenPoster_run [OF assms(1-3)] by blast
  have "fraction (pr_updated p) ut ct = None" using assms(5) by (auto simp: fraction_def Let_def)
  with allocationFraction_run [OF represents_tick [OF represents_tick [OF w1(2)]], where ut = ut and ct = ct]
  have "allocationFraction H ps ut ct (tick k b (tick k' b' w1)) = (Err ErrInvalidTime, tick StorageAccessRead StorageReadCost
      (tick k b (tick k' b' w1)))" for k b k' b' by simp
  then have "UpdateForBatchPosterSpending H ps evm ver ut ct a wei fee sc w = (Err ErrInvalidTime,
      tick StorageAccessRead StorageReadCost (tick StorageAccessRead StorageReadCost (tick StorageAccessRead StorageReadCost w1)))"
    using assms(4) w1(1) pricing_reads(1) [OF w1(2)] pricing_reads(2) [OF represents_tick [OF w1(2)]]
    by (simp add: UpdateForBatchPosterSpending_def op_simps not_less [symmetric])
  then show ?thesis using w1 by simp
qed

section \<open>A concrete pricing state\<close>

lemma pricing_start:
  assumes lay: "layout H (l1_storage ps) (l1_locs P N)" "N < 2 ^ 63" and sys: "sysw w"
    and z: "slot_read w (set_word H ps 0) = 0" "\<And>a. slot_read w (set_by H ps a) = 0"
    and f: "\<forall>i\<in>{2, 3, 4, 6, 10}. fits 64 (slot_read w (l1_word H ps i))"
  shows "represents H ps P N (pricing_of H ps P [] w) w"
proof -
  note A = l1_words_apart [OF lay]
  have "index_layout H (posters_space H ps) (as_byAddress H (posters_space H ps)) N"
    using A(12-14) lay(2) by (auto simp: index_layout_def distinct_words_def inj_def inj_on_def)
  then have "as_rep H (posters_space H ps) N w []" using sys z by (simp add: as_rep_def indexed_def)
  then show ?thesis using lay f by (simp add: represents_def pricing_ok_def)
qed

definition demo_l1 :: L1PricingState where
  "demo_l1 = OpenL1PricingState tree_root 50"

definition demo_books :: world where
  "demo_books = slot_write (l1_word wide_hash demo_l1 1) 100 (slot_write (l1_word wide_hash demo_l1 2) 10
     (slot_write (l1_word wide_hash demo_l1 3) 1 (slot_write (l1_word wide_hash demo_l1 6) 20
     (slot_write (l1_word wide_hash demo_l1 11) 50 (demo_world\<lparr>balance_of := (\<lambda>_. 0)(L1PricerFundsPoolAddress := 70)\<rparr>)))))"

definition demo_l1_pricing :: pricing where
  "demo_l1_pricing = pricing_of wide_hash demo_l1 {7} [] demo_books"

lemma demo_books_layout: "layout wide_hash (l1_storage demo_l1) (l1_locs {7} 2)"
proof -
  let ?S = "{[0], [1], be_bytes 20 7}"
  have len: "length (be_bytes 20 7) = 20" "be_bytes 20 7 \<noteq> []" by (metis length_be_bytes, metis length_be_bytes list.size(3) zero_neq_numeral)
  then have "inj_on short_code ?S" "\<forall>i\<in>?S. length i \<noteq> 31" by (auto simp: inj_on_def short_code_def)
  moreover have "unat (AddressToHash a) < 2 ^ 160" for a using unat_lt_pow [of a] by (simp add: unat_AddressToHash)
  moreover have "i < 2 ^ 63 \<Longrightarrow> unat (UintToHash (of_nat i)) < 2 ^ 160" for i by (simp add: unat_of_nat_u64)
  ultimately have "layout wide_hash tree_root (l1_locs {7} 2)"
    by (intro wide_layout [of ?S]) (auto simp: l1_locs_def)
  then show ?thesis by (simp add: demo_l1_def OpenL1PricingState_def)
qed

lemma demo_books_reads:
  "i < 13 \<Longrightarrow> slot_read demo_books (l1_word wide_hash demo_l1 i) =
     (if i = 1 then 100 else if i = 2 then 10 else if i = 3 then 1 else if i = 6 then 20 else if i = 11 then 50 else 0)"
  "slot_read demo_books (total_word wide_hash demo_l1) = 0" "i \<le> 2 \<Longrightarrow> slot_read demo_books (set_word wide_hash demo_l1 i) = 0"
  "slot_read demo_books (set_by wide_hash demo_l1 a) = 0"
  "i < 2 \<Longrightarrow> slot_read demo_books (poster_word wide_hash demo_l1 7 i) = 0"
proof -
  have N: "(2::nat) < 2 ^ 63" by simp
  note A = l1_words_apart [OF demo_books_layout N]
  have b: "slot_read (demo_world\<lparr>balance_of := b\<rparr>) ss = 0" for b ss by (simp add: slot_read_def demo_world_def)
  show "i < 13 \<Longrightarrow> slot_read demo_books (l1_word wide_hash demo_l1 i) =
     (if i = 1 then 100 else if i = 2 then 10 else if i = 3 then 1 else if i = 6 then 20 else if i = 11 then 50 else 0)"
    unfolding demo_books_def by (simp add: slot_read_write A(1) b)
  show "slot_read demo_books (total_word wide_hash demo_l1) = 0"
    unfolding demo_books_def by (simp add: slot_read_write A(2) [symmetric] b)
  show "i \<le> 2 \<Longrightarrow> slot_read demo_books (set_word wide_hash demo_l1 i) = 0"
    unfolding demo_books_def by (simp add: slot_read_write A(3) [symmetric] b)
  show "slot_read demo_books (set_by wide_hash demo_l1 a) = 0"
    unfolding demo_books_def by (simp add: slot_read_write A(4) [symmetric] b)
  show "i < 2 \<Longrightarrow> slot_read demo_books (poster_word wide_hash demo_l1 7 i) = 0"
    unfolding demo_books_def by (simp add: slot_read_write A(5) [symmetric] b)
qed

lemma demo_l1_pricing_fields:
  "represents wide_hash demo_l1 {7} 2 demo_l1_pricing demo_books" "pr_posters demo_l1_pricing = []" "pr_updated demo_l1_pricing = 0"
  "pr_units demo_l1_pricing = 20" "pr_fees demo_l1_pricing = 50" "pr_total demo_l1_pricing = 0" "pr_rewards demo_l1_pricing = 0"
  "pr_perUnitReward demo_l1_pricing = 1" "pr_capBips demo_l1_pricing = 0" "pr_equilUnits demo_l1_pricing = 100" "pr_inertia demo_l1_pricing = 10"
  "pr_price demo_l1_pricing = 0" "pr_surplus demo_l1_pricing = 0" "pr_due demo_l1_pricing = (\<lambda>_. 0)"
proof -
  have z: "BigInt_decode 0 = 0" by (simp add: BigInt_decode_def)
  have sys: "sysw demo_books" by (simp add: demo_books_def sysw_def demo_world_def NewSystemBurner_def)
  have "fits 64 (slot_read demo_books (l1_word wide_hash demo_l1 i))" if "i \<in> {2, 3, 4, 6, 10}" for i
    using that by (auto simp: demo_books_reads fits_def)
  then show "represents wide_hash demo_l1 {7} 2 demo_l1_pricing demo_books"
    unfolding demo_l1_pricing_def using demo_books_layout sys demo_books_reads(3) [of 0] demo_books_reads(4)
    by (intro pricing_start) simp_all
  show "pr_posters demo_l1_pricing = []" "pr_updated demo_l1_pricing = 0"
    "pr_units demo_l1_pricing = 20" "pr_fees demo_l1_pricing = 50" "pr_total demo_l1_pricing = 0" "pr_rewards demo_l1_pricing = 0"
    "pr_perUnitReward demo_l1_pricing = 1" "pr_capBips demo_l1_pricing = 0" "pr_equilUnits demo_l1_pricing = 100" "pr_inertia demo_l1_pricing = 10"
    "pr_price demo_l1_pricing = 0" "pr_surplus demo_l1_pricing = 0" "pr_due demo_l1_pricing = (\<lambda>_. 0)"
    using demo_books_reads(5) [of 0] by (simp_all add: demo_l1_pricing_def pricing_of_def demo_books_reads z fun_eq_iff)
qed

lemma demo_books_funds: "funds_ok demo_books" "balance_of demo_books L1PricerFundsPoolAddress = 70"
proof -
  have b: "balance_of demo_books = (\<lambda>_. 0)(L1PricerFundsPoolAddress := 70)" by (simp add: demo_books_def)
  have "total_supply demo_books = 70" by (simp only: total_supply_def b supply_upd) simp
  then show "funds_ok demo_books" by (simp add: funds_ok_def balances_ok_def b)
  show "balance_of demo_books L1PricerFundsPoolAddress = 70" by (simp add: b)
qed

lemma demo_batch:
  "fraction (pr_updated demo_l1_pricing) 5 5 = Some (1, 1)" "batch_units (1, 1) demo_l1_pricing = 20"
  "batch_fits (1, 1) 7 30 9 5 demo_l1_pricing" "balanced demo_l1_pricing" "surplus demo_l1_pricing = 50"
proof -
  show f: "fraction (pr_updated demo_l1_pricing) 5 5 = Some (1, 1)" by (simp add: demo_l1_pricing_fields fraction_def)
  show u: "batch_units (1, 1) demo_l1_pricing = 20" by (simp add: batch_units_def allocated_def demo_l1_pricing_fields SaturatingUMul_def)
  show "balanced demo_l1_pricing" "surplus demo_l1_pricing = 50" by (simp_all add: balanced_def surplus_def demo_l1_pricing_fields)
  have q: "pr_due (ensure_poster 7 demo_l1_pricing) = (\<lambda>_. 0)"
    by (simp add: ensure_poster_def add_poster_def demo_l1_pricing_fields fun_eq_iff)
  have s: "batch_spent (1, 1) 30 9 demo_l1_pricing = 30" "batch_reward (1, 1) demo_l1_pricing = 20"
    by (simp_all add: batch_spent_def batch_reward_def u capped_def demo_l1_pricing_fields)
  have p: "reward_payment (1, 1) demo_l1_pricing = 20" "poster_payment (1, 1) 7 30 9 demo_l1_pricing = 30"
    by (simp_all add: reward_payment_def poster_payment_def s q demo_l1_pricing_fields)
  have b: "pr_price (batch_update (1, 1) 7 30 9 5 demo_l1_pricing) = 0"
    by (simp add: batch_update_def adjust_def batch_settle_def Let_def u s p q demo_l1_pricing_fields price_step_def)
  show "batch_fits (1, 1) 7 30 9 5 demo_l1_pricing"
    by (simp add: batch_fits_def s q b demo_l1_pricing_fields inS_def twoToThe256_def)
qed


lemma price_follows_surplus_witness:
  "\<exists>p' w'. UpdateForBatchPosterSpending wide_hash demo_l1 demo_evm 10 5 5 7 30 9 TracingBeforeEVM demo_books = (Ok (), w')
    \<and> represents wide_hash demo_l1 {7} 2 p' w' \<and> 0 \<le> pr_price p'"
  using price_follows_surplus [OF demo_l1_pricing_fields(1) _ _ demo_batch(1), of 7 10 demo_evm TracingBeforeEVM 30 9]
    demo_batch demo_evm_ok demo_books_funds
  by (force simp: demo_l1_pricing_fields)

end
