(* ===== verification/Retryables.thy ===== *)
theory Retryables
  imports Util StorageQueue
begin

text \<open>
  Retryable tickets (\<^verbatim>\<open>arbos/retryables/retryable.go\<close>). A ticket lives in the sub-space named by its
  id, its calldata in a sub-space of that; a queue holds the ids in the order in which their
  timeouts are to be looked at. A keepalive adds a duplicate of the id to the queue and a window to
  the ticket; reaping takes an entry from the queue and either consumes a window or deletes the
  ticket, paying what is left in its escrow to the beneficiary.
\<close>

section \<open>State\<close>

definition RetryableLifetimeSeconds :: u64 where
  "RetryableLifetimeSeconds = 7 * 24 * 60 * 60"

definition RetryableReapPrice :: u64 where
  "RetryableReapPrice = 58000"

definition ArbosVersion_60 :: u64 where
  "ArbosVersion_60 = 60"

record RetryableState =
  rs_retryables :: Storage
  rs_ArbosVersion :: u64

abbreviation (input) timeoutQueueKey :: bytes where "timeoutQueueKey \<equiv> [0]"
abbreviation (input) calldataKey :: bytes where "calldataKey \<equiv> [1]"

definition rs_TimeoutQueue :: "(bytes \<Rightarrow> bytes) \<Rightarrow> RetryableState \<Rightarrow> Storage" where
  "rs_TimeoutQueue H rs = OpenSubStorage H (rs_retryables rs) timeoutQueueKey"

definition InitializeRetryableState :: "(bytes \<Rightarrow> bytes) \<Rightarrow> Storage \<Rightarrow> (world, unit) op" where
  "InitializeRetryableState H sto = InitializeQueue H (OpenSubStorage H sto timeoutQueueKey)"

definition OpenRetryableState :: "Storage \<Rightarrow> u64 \<Rightarrow> RetryableState" where
  "OpenRetryableState sto arbosVersion = \<lparr>rs_retryables = sto, rs_ArbosVersion = arbosVersion\<rparr>"

text \<open>The fields of a ticket are opened at fixed offsets of its space.\<close>

record Retryable =
  ret_id :: hash
  ret_backingStorage :: Storage

abbreviation (input) numTriesOffset :: u64 where "numTriesOffset \<equiv> 0"
abbreviation (input) fromOffset :: u64 where "fromOffset \<equiv> 1"
abbreviation (input) toOffset :: u64 where "toOffset \<equiv> 2"
abbreviation (input) callvalueOffset :: u64 where "callvalueOffset \<equiv> 3"
abbreviation (input) beneficiaryOffset :: u64 where "beneficiaryOffset \<equiv> 4"
abbreviation (input) timeoutOffset :: u64 where "timeoutOffset \<equiv> 5"
abbreviation (input) timeoutWindowsLeftOffset :: u64 where "timeoutWindowsLeftOffset \<equiv> 6"

definition ret_numTries :: "(bytes \<Rightarrow> bytes) \<Rightarrow> Retryable \<Rightarrow> StorageSlot" where
  "ret_numTries H r = NewSlot H (ret_backingStorage r) numTriesOffset"
definition ret_from :: "(bytes \<Rightarrow> bytes) \<Rightarrow> Retryable \<Rightarrow> StorageSlot" where
  "ret_from H r = NewSlot H (ret_backingStorage r) fromOffset"
definition ret_to :: "(bytes \<Rightarrow> bytes) \<Rightarrow> Retryable \<Rightarrow> StorageSlot" where
  "ret_to H r = NewSlot H (ret_backingStorage r) toOffset"
definition ret_callvalue :: "(bytes \<Rightarrow> bytes) \<Rightarrow> Retryable \<Rightarrow> StorageSlot" where
  "ret_callvalue H r = NewSlot H (ret_backingStorage r) callvalueOffset"
definition ret_beneficiary :: "(bytes \<Rightarrow> bytes) \<Rightarrow> Retryable \<Rightarrow> StorageSlot" where
  "ret_beneficiary H r = NewSlot H (ret_backingStorage r) beneficiaryOffset"
definition ret_calldata :: "(bytes \<Rightarrow> bytes) \<Rightarrow> Retryable \<Rightarrow> Storage" where
  "ret_calldata H r = OpenSubStorage H (ret_backingStorage r) calldataKey"
definition ret_timeout :: "(bytes \<Rightarrow> bytes) \<Rightarrow> Retryable \<Rightarrow> StorageSlot" where
  "ret_timeout H r = NewSlot H (ret_backingStorage r) timeoutOffset"
definition ret_timeoutWindowsLeft :: "(bytes \<Rightarrow> bytes) \<Rightarrow> Retryable \<Rightarrow> StorageSlot" where
  "ret_timeoutWindowsLeft H r = NewSlot H (ret_backingStorage r) timeoutWindowsLeftOffset"

lemmas retryable_fields = ret_numTries_def ret_from_def ret_to_def ret_callvalue_def ret_beneficiary_def
  ret_calldata_def ret_timeout_def ret_timeoutWindowsLeft_def

section \<open>Creating and opening\<close>

definition CreateRetryable ::
  "(bytes \<Rightarrow> bytes) \<Rightarrow> RetryableState \<Rightarrow> hash \<Rightarrow> u64 \<Rightarrow> address \<Rightarrow> address option \<Rightarrow> int \<Rightarrow> address \<Rightarrow> bytes
    \<Rightarrow> (world, Retryable) op" where
  "CreateRetryable H rs tid timeout from to callvalue beneficiary calldata =
     (let sto = OpenSubStorage H (rs_retryables rs) (hash_Bytes tid);
          r = \<lparr>ret_id = tid, ret_backingStorage = sto\<rparr> in
      bnd (ignore (StorageBackedUint64_Set (ret_numTries H r) 0)) (\<lambda>_.
      bnd (ignore (StorageBackedAddress_Set (ret_from H r) from)) (\<lambda>_.
      bnd (ignore (StorageBackedAddressOrNil_Set (ret_to H r) to)) (\<lambda>_.
      bnd (ignore (StorageBackedBigUint_SetChecked (ret_callvalue H r) callvalue)) (\<lambda>_.
      bnd (ignore (StorageBackedAddress_Set (ret_beneficiary H r) beneficiary)) (\<lambda>_.
      bnd (ignore (StorageBackedBytes_Set H (ret_calldata H r) calldata)) (\<lambda>_.
      bnd (ignore (StorageBackedUint64_Set (ret_timeout H r) timeout)) (\<lambda>_.
      bnd (ignore (StorageBackedUint64_Set (ret_timeoutWindowsLeft H r) 0)) (\<lambda>_.
      bnd (Queue_Put H (rs_TimeoutQueue H rs) tid) (\<lambda>_.
      ret r))))))))))"

definition effectiveTimeout :: "(bytes \<Rightarrow> bytes) \<Rightarrow> RetryableState \<Rightarrow> Retryable \<Rightarrow> u64 \<Rightarrow> (world, u64) op" where
  "effectiveTimeout H rs r timeout =
     (if rs_ArbosVersion rs \<ge> ArbosVersion_60
      then bnd (StorageBackedUint64_Get (ret_timeoutWindowsLeft H r)) (\<lambda>windowsLeft.
           ret (timeout + windowsLeft * RetryableLifetimeSeconds))
      else ret timeout)"

definition OpenRetryable ::
  "(bytes \<Rightarrow> bytes) \<Rightarrow> RetryableState \<Rightarrow> hash \<Rightarrow> u64 \<Rightarrow> (world, Retryable option) op" where
  "OpenRetryable H rs tid currentTimestamp =
     (let sto = OpenSubStorage H (rs_retryables rs) (hash_Bytes tid);
          r = \<lparr>ret_id = tid, ret_backingStorage = sto\<rparr> in
      bnd (StorageBackedUint64_Get (ret_timeout H r)) (\<lambda>timeout.
      if timeout = 0 then ret None
      else if timeout < currentTimestamp
      then bnd (effectiveTimeout H rs r timeout) (\<lambda>effective.
           if effective < currentTimestamp then ret None else ret (Some r))
      else ret (Some r)))"

section \<open>Accessors\<close>

definition Retryable_NumTries :: "(bytes \<Rightarrow> bytes) \<Rightarrow> Retryable \<Rightarrow> (world, u64) op" where
  "Retryable_NumTries H r = StorageBackedUint64_Get (ret_numTries H r)"
definition Retryable_IncrementNumTries :: "(bytes \<Rightarrow> bytes) \<Rightarrow> Retryable \<Rightarrow> (world, u64) op" where
  "Retryable_IncrementNumTries H r = StorageBackedUint64_Increment (ret_numTries H r)"
definition Retryable_Beneficiary :: "(bytes \<Rightarrow> bytes) \<Rightarrow> Retryable \<Rightarrow> (world, address) op" where
  "Retryable_Beneficiary H r = StorageBackedAddress_Get (ret_beneficiary H r)"
definition Retryable_CalculateTimeout :: "(bytes \<Rightarrow> bytes) \<Rightarrow> Retryable \<Rightarrow> (world, u64) op" where
  "Retryable_CalculateTimeout H r =
     bnd (StorageBackedUint64_Get (ret_timeout H r)) (\<lambda>timeout.
     bnd (StorageBackedUint64_Get (ret_timeoutWindowsLeft H r)) (\<lambda>windows.
     ret (timeout + windows * RetryableLifetimeSeconds)))"
definition Retryable_SetTimeout :: "(bytes \<Rightarrow> bytes) \<Rightarrow> Retryable \<Rightarrow> u64 \<Rightarrow> (world, unit) op" where
  "Retryable_SetTimeout H r val = StorageBackedUint64_Set (ret_timeout H r) val"
definition Retryable_TimeoutWindowsLeft :: "(bytes \<Rightarrow> bytes) \<Rightarrow> Retryable \<Rightarrow> (world, u64) op" where
  "Retryable_TimeoutWindowsLeft H r = StorageBackedUint64_Get (ret_timeoutWindowsLeft H r)"
definition Retryable_From :: "(bytes \<Rightarrow> bytes) \<Rightarrow> Retryable \<Rightarrow> (world, address) op" where
  "Retryable_From H r = StorageBackedAddress_Get (ret_from H r)"
definition Retryable_To :: "(bytes \<Rightarrow> bytes) \<Rightarrow> Retryable \<Rightarrow> (world, address option) op" where
  "Retryable_To H r = StorageBackedAddressOrNil_Get (ret_to H r)"
definition Retryable_Callvalue :: "(bytes \<Rightarrow> bytes) \<Rightarrow> Retryable \<Rightarrow> (world, int) op" where
  "Retryable_Callvalue H r = StorageBackedBigUint_Get (ret_callvalue H r)"
definition Retryable_Calldata :: "(bytes \<Rightarrow> bytes) \<Rightarrow> Retryable \<Rightarrow> (world, bytes) op" where
  "Retryable_Calldata H r = StorageBackedBytes_Get H (ret_calldata H r)"
definition Retryable_CalldataSize :: "(bytes \<Rightarrow> bytes) \<Rightarrow> Retryable \<Rightarrow> (world, u64) op" where
  "Retryable_CalldataSize H r = StorageBackedBytes_Size H (ret_calldata H r)"

definition RetryableSizeBytes :: "(bytes \<Rightarrow> bytes) \<Rightarrow> RetryableState \<Rightarrow> hash \<Rightarrow> u64 \<Rightarrow> (world, u64) op" where
  "RetryableSizeBytes H rs tid currentTime =
     bnd (OpenRetryable H rs tid currentTime) (\<lambda>retryable. case retryable of
       None \<Rightarrow> ret 0
     | Some r \<Rightarrow>
         bnd (Retryable_CalldataSize H r) (\<lambda>n.
         ret (6 * 32 + (32 + 32 * WordsForBytes n))))"

record ArbitrumRetryTx =
  rtx_ChainId :: int
  rtx_Nonce :: u64
  rtx_From :: address
  rtx_GasFeeCap :: int
  rtx_Gas :: u64
  rtx_To :: "address option"
  rtx_Value :: int
  rtx_Data :: bytes
  rtx_TicketId :: hash
  rtx_RefundTo :: address
  rtx_MaxRefund :: int
  rtx_SubmissionFeeRefund :: int

definition Retryable_MakeTx ::
  "(bytes \<Rightarrow> bytes) \<Rightarrow> Retryable \<Rightarrow> int \<Rightarrow> u64 \<Rightarrow> int \<Rightarrow> u64 \<Rightarrow> hash \<Rightarrow> address \<Rightarrow> int \<Rightarrow> int
    \<Rightarrow> (world, ArbitrumRetryTx) op" where
  "Retryable_MakeTx H r chainId nonce gasFeeCap gas ticketId refundTo maxRefund submissionFeeRefund =
     bnd (Retryable_From H r) (\<lambda>from.
     bnd (Retryable_To H r) (\<lambda>to.
     bnd (Retryable_Callvalue H r) (\<lambda>callvalue.
     bnd (Retryable_Calldata H r) (\<lambda>calldata.
     ret \<lparr>rtx_ChainId = chainId, rtx_Nonce = nonce, rtx_From = from, rtx_GasFeeCap = gasFeeCap,
        rtx_Gas = gas, rtx_To = to, rtx_Value = callvalue, rtx_Data = calldata, rtx_TicketId = ticketId,
        rtx_RefundTo = refundTo, rtx_MaxRefund = maxRefund, rtx_SubmissionFeeRefund = submissionFeeRefund\<rparr>))))"

section \<open>Deleting, keeping alive, reaping\<close>

definition retryable_escrow :: bytes where
  "retryable_escrow = map (of_nat \<circ> of_char) ''retryable escrow''"

definition RetryableEscrowAddress :: "(bytes \<Rightarrow> bytes) \<Rightarrow> hash \<Rightarrow> address" where
  "RetryableEscrowAddress H ticketId = BytesToAddress (H (retryable_escrow @ hash_Bytes ticketId))"

definition RetryableSubmissionFee :: "nat \<Rightarrow> int \<Rightarrow> int" where
  "RetryableSubmissionFee calldataLengthInBytes l1BaseFee =
     BigMulByUint l1BaseFee (1400 + 6 * of_nat calldataLengthInBytes)"

definition DeleteRetryable ::
  "(bytes \<Rightarrow> bytes) \<Rightarrow> RetryableState \<Rightarrow> hash \<Rightarrow> EVM \<Rightarrow> TracingScenario \<Rightarrow> (world, bool) op" where
  "DeleteRetryable H rs tid evm scenario =
     (let retStorage = OpenSubStorage H (rs_retryables rs) (hash_Bytes tid) in
      bnd (Storage_GetByUint64 H retStorage timeoutOffset) (\<lambda>timeout.
      if timeout = 0 then ret False
      else
      bnd (or_zero 0 (Storage_GetByUint64 H retStorage beneficiaryOffset)) (\<lambda>beneficiary.
      let escrowAddress = RetryableEscrowAddress H tid;
          beneficiaryAddress = BytesToAddress (hash_Bytes beneficiary) in
      bnd (\<lambda>w. TransferBalance (Some escrowAddress) (Some beneficiaryAddress)
                (GetBalance escrowAddress w) evm scenario w) (\<lambda>_.
      bnd (ignore (Storage_ClearByUint64 H retStorage numTriesOffset)) (\<lambda>_.
      bnd (ignore (Storage_ClearByUint64 H retStorage fromOffset)) (\<lambda>_.
      bnd (ignore (Storage_ClearByUint64 H retStorage toOffset)) (\<lambda>_.
      bnd (ignore (Storage_ClearByUint64 H retStorage callvalueOffset)) (\<lambda>_.
      bnd (ignore (Storage_ClearByUint64 H retStorage beneficiaryOffset)) (\<lambda>_.
      bnd (ignore (Storage_ClearByUint64 H retStorage timeoutOffset)) (\<lambda>_.
      bnd (ignore (Storage_ClearByUint64 H retStorage timeoutWindowsLeftOffset)) (\<lambda>_.
      bnd (Storage_ClearBytes H (OpenSubStorage H retStorage calldataKey)) (\<lambda>_.
      ret True))))))))))))"

definition Keepalive ::
  "(bytes \<Rightarrow> bytes) \<Rightarrow> RetryableState \<Rightarrow> hash \<Rightarrow> u64 \<Rightarrow> u64 \<Rightarrow> u64 \<Rightarrow> (world, u64) op" where
  "Keepalive H rs ticketId currentTimestamp limitBeforeAdd timeToAdd =
     bnd (OpenRetryable H rs ticketId currentTimestamp) (\<lambda>retryable. case retryable of
       None \<Rightarrow> throw (ErrMsg ''ticketId not found'')
     | Some r \<Rightarrow>
         bnd (Retryable_CalculateTimeout H r) (\<lambda>timeout.
         if timeout > limitBeforeAdd then throw (ErrMsg ''timeout too far into the future'')
         else
         bnd (Queue_Put H (rs_TimeoutQueue H rs) (ret_id r)) (\<lambda>_.
         bnd (StorageBackedUint64_Increment (ret_timeoutWindowsLeft H r)) (\<lambda>_.
         bnd (w_Burn Computation RetryableReapPrice) (\<lambda>_.
         ret (timeout + RetryableLifetimeSeconds))))))"

definition reapExpired ::
  "(bytes \<Rightarrow> bytes) \<Rightarrow> RetryableState \<Rightarrow> Retryable \<Rightarrow> u64 \<Rightarrow> u64 \<Rightarrow> EVM \<Rightarrow> TracingScenario \<Rightarrow> (world, unit) op" where
  "reapExpired H rs r timeout windowsLeft evm scenario =
     bnd (Queue_Get H (rs_TimeoutQueue H rs)) (\<lambda>_.
     if windowsLeft = 0
     then bnd (DeleteRetryable H rs (ret_id r) evm scenario) (\<lambda>_. ret ())
     else
     bnd (StorageBackedUint64_Set (ret_timeout H r) (timeout + RetryableLifetimeSeconds)) (\<lambda>_.
     StorageBackedUint64_Set (ret_timeoutWindowsLeft H r) (windowsLeft - 1)))"

definition TryToReapOneRetryable ::
  "(bytes \<Rightarrow> bytes) \<Rightarrow> RetryableState \<Rightarrow> u64 \<Rightarrow> EVM \<Rightarrow> TracingScenario \<Rightarrow> (world, unit) op" where
  "TryToReapOneRetryable H rs currentTimestamp evm scenario =
     bnd (Queue_Peek H (rs_TimeoutQueue H rs)) (\<lambda>peeked. case peeked of
       None \<Rightarrow> ret ()
     | Some tid \<Rightarrow>
         (let r = \<lparr>ret_id = tid, ret_backingStorage = OpenSubStorage H (rs_retryables rs) (hash_Bytes tid)\<rparr> in
          bnd (StorageBackedUint64_Get (ret_timeout H r)) (\<lambda>timeout.
          if timeout = 0 then bnd (Queue_Get H (rs_TimeoutQueue H rs)) (\<lambda>_. ret ())
          else
          bnd (StorageBackedUint64_Get (ret_timeoutWindowsLeft H r)) (\<lambda>windowsLeft.
          if timeout \<ge> currentTimestamp then ret ()
          else reapExpired H rs r timeout windowsLeft evm scenario))))"

section \<open>Where tickets live\<close>

text \<open>The words of the queue, of a ticket and of its calldata.\<close>

definition ticket_space :: "(bytes \<Rightarrow> bytes) \<Rightarrow> RetryableState \<Rightarrow> hash \<Rightarrow> Storage" where
  "ticket_space H rs t = OpenSubStorage H (rs_retryables rs) (hash_Bytes t)"

definition data_space :: "(bytes \<Rightarrow> bytes) \<Rightarrow> RetryableState \<Rightarrow> hash \<Rightarrow> Storage" where
  "data_space H rs t = OpenSubStorage H (ticket_space H rs t) calldataKey"

abbreviation qword :: "(bytes \<Rightarrow> bytes) \<Rightarrow> RetryableState \<Rightarrow> nat \<Rightarrow> StorageSlot" where
  "qword H rs i \<equiv> word_slot H (rs_TimeoutQueue H rs) i"

abbreviation tword :: "(bytes \<Rightarrow> bytes) \<Rightarrow> RetryableState \<Rightarrow> hash \<Rightarrow> nat \<Rightarrow> StorageSlot" where
  "tword H rs t i \<equiv> word_slot H (ticket_space H rs t) i"

abbreviation dword :: "(bytes \<Rightarrow> bytes) \<Rightarrow> RetryableState \<Rightarrow> hash \<Rightarrow> nat \<Rightarrow> StorageSlot" where
  "dword H rs t i \<equiv> word_slot H (data_space H rs t) i"

definition ret_locs :: "hash set \<Rightarrow> nat \<Rightarrow> loc set" where
  "ret_locs I N = (\<lambda>i. ([[0]], UintToHash (of_nat i))) ` {..N}
     \<union> (\<lambda>(t, i). ([hash_Bytes t], UintToHash (of_nat i))) ` (I \<times> {..<7})
     \<union> (\<lambda>(t, i). ([hash_Bytes t, [1]], UintToHash (of_nat i))) ` (I \<times> {..N})"

lemma hash_Bytes_inject [simp]: "hash_Bytes a = hash_Bytes b \<longleftrightarrow> a = b"
  by (metis BytesToHash_hash_Bytes)

lemma ret_word_locs:
  "qword H rs i = loc_slot H (rs_retryables rs) ([[0]], UintToHash (of_nat i))"
  "tword H rs t i = loc_slot H (rs_retryables rs) ([hash_Bytes t], UintToHash (of_nat i))"
  "dword H rs t i = loc_slot H (rs_retryables rs) ([hash_Bytes t, [1]], UintToHash (of_nat i))"
  by (simp_all add: word_slot_def rs_TimeoutQueue_def ticket_space_def data_space_def
      OpenSubStorage_path NewSlot_loc loc_slot_path open_path_append)

lemma ret_words_apart:
  assumes lay: "layout H (rs_retryables rs) (ret_locs I N)" and N: "N < 2 ^ 63"
  shows "t \<in> I \<Longrightarrow> t' \<in> I \<Longrightarrow> i < 7 \<Longrightarrow> j < 7 \<Longrightarrow> tword H rs t i = tword H rs t' j \<longleftrightarrow> t = t' \<and> i = j"
    and "t \<in> I \<Longrightarrow> i < 7 \<Longrightarrow> j \<le> N \<Longrightarrow> tword H rs t i \<noteq> qword H rs j"
    and "t \<in> I \<Longrightarrow> t' \<in> I \<Longrightarrow> i < 7 \<Longrightarrow> j \<le> N \<Longrightarrow> tword H rs t i \<noteq> dword H rs t' j"
    and "t \<in> I \<Longrightarrow> i \<le> N \<Longrightarrow> j \<le> N \<Longrightarrow> qword H rs i \<noteq> dword H rs t j"
    and "t \<in> I \<Longrightarrow> t' \<in> I \<Longrightarrow> i \<le> N \<Longrightarrow> j \<le> N \<Longrightarrow> dword H rs t i = dword H rs t' j \<longleftrightarrow> t = t' \<and> i = j"
    and "i \<le> N \<Longrightarrow> j \<le> N \<Longrightarrow> qword H rs i = qword H rs j \<longleftrightarrow> i = j"
proof -
  note d = layoutD [OF lay]
  have u: "i < 2 ^ 63 \<Longrightarrow> j < 2 ^ 63 \<Longrightarrow> UintToHash (of_nat i) = UintToHash (of_nat j) \<longleftrightarrow> i = j" for i j
    using of_nat_u64_inject [of i j] by simp
  have uN: "i \<le> N \<Longrightarrow> j \<le> N \<Longrightarrow> UintToHash (of_nat i) = UintToHash (of_nat j) \<longleftrightarrow> i = j" for i j
    using u [of i j] N by linarith
  have m: "i \<le> N \<Longrightarrow> ([[0]], UintToHash (of_nat i)) \<in> ret_locs I N"
    "t \<in> I \<Longrightarrow> i < 7 \<Longrightarrow> ([hash_Bytes t], UintToHash (of_nat i)) \<in> ret_locs I N"
    "t \<in> I \<Longrightarrow> i \<le> N \<Longrightarrow> ([hash_Bytes t, [1]], UintToHash (of_nat i)) \<in> ret_locs I N" for i t
    by (auto simp: ret_locs_def)
  have ne: "hash_Bytes t \<noteq> [0]" for t
    using length_hash_Bytes [of t] by (metis length_Cons list.size(3) One_nat_def numeral_eq_one_iff semiring_norm(85))
  show "t \<in> I \<Longrightarrow> t' \<in> I \<Longrightarrow> i < 7 \<Longrightarrow> j < 7 \<Longrightarrow> tword H rs t i = tword H rs t' j \<longleftrightarrow> t = t' \<and> i = j"
    unfolding ret_word_locs using d [OF m(2) m(2), of t i t' j] u [of i j] by (simp del: UintToHash_inject)
  show "t \<in> I \<Longrightarrow> i < 7 \<Longrightarrow> j \<le> N \<Longrightarrow> tword H rs t i \<noteq> qword H rs j"
    unfolding ret_word_locs using d [OF m(2) m(1), of t i j] ne [of t] by simp
  show "t \<in> I \<Longrightarrow> t' \<in> I \<Longrightarrow> i < 7 \<Longrightarrow> j \<le> N \<Longrightarrow> tword H rs t i \<noteq> dword H rs t' j"
    unfolding ret_word_locs using d [OF m(2) m(3), of t i t' j] by simp
  show "t \<in> I \<Longrightarrow> i \<le> N \<Longrightarrow> j \<le> N \<Longrightarrow> qword H rs i \<noteq> dword H rs t j"
    unfolding ret_word_locs using d [OF m(1) m(3), of i t j] by simp
  show "t \<in> I \<Longrightarrow> t' \<in> I \<Longrightarrow> i \<le> N \<Longrightarrow> j \<le> N \<Longrightarrow> dword H rs t i = dword H rs t' j \<longleftrightarrow> t = t' \<and> i = j"
    unfolding ret_word_locs using d [OF m(3) m(3), of t i t' j] uN [of i j] by (simp del: UintToHash_inject)
  show "i \<le> N \<Longrightarrow> j \<le> N \<Longrightarrow> qword H rs i = qword H rs j \<longleftrightarrow> i = j"
    unfolding ret_word_locs using d [OF m(1) m(1), of i j] uN [of i j] by (simp del: UintToHash_inject)
qed

lemma ret_distinct:
  assumes lay: "layout H (rs_retryables rs) (ret_locs I N)" and N: "N < 2 ^ 63"
  shows "distinct_words H (rs_TimeoutQueue H rs) N" "t \<in> I \<Longrightarrow> distinct_words H (data_space H rs t) N"
  using ret_words_apart(5,6) [OF assms] by (auto simp: distinct_words_def inj_on_def)

section \<open>Tickets as values\<close>

record tickets =
  tk_queue :: "hash list"
  tk_timeout :: "hash \<Rightarrow> u64"
  tk_windows :: "hash \<Rightarrow> u64"

definition create_ticket :: "hash \<Rightarrow> u64 \<Rightarrow> tickets \<Rightarrow> tickets" where
  "create_ticket t timeout s = s\<lparr>tk_queue := tk_queue s @ [t], tk_timeout := (tk_timeout s)(t := timeout),
     tk_windows := (tk_windows s)(t := 0)\<rparr>"

definition delete_ticket :: "hash \<Rightarrow> tickets \<Rightarrow> tickets" where
  "delete_ticket t s = s\<lparr>tk_timeout := (tk_timeout s)(t := 0), tk_windows := (tk_windows s)(t := 0)\<rparr>"

definition keepalive_ticket :: "hash \<Rightarrow> tickets \<Rightarrow> tickets" where
  "keepalive_ticket t s = s\<lparr>tk_queue := tk_queue s @ [t], tk_windows := (tk_windows s)(t := tk_windows s t + 1)\<rparr>"

definition reap_ticket :: "u64 \<Rightarrow> tickets \<Rightarrow> tickets" where
  "reap_ticket now s = (case tk_queue s of
      [] \<Rightarrow> s
    | t # q \<Rightarrow>
        if tk_timeout s t = 0 then s\<lparr>tk_queue := q\<rparr>
        else if tk_timeout s t \<ge> now then s
        else if tk_windows s t = 0 then delete_ticket t (s\<lparr>tk_queue := q\<rparr>)
        else s\<lparr>tk_queue := q, tk_timeout := (tk_timeout s)(t := tk_timeout s t + RetryableLifetimeSeconds),
               tk_windows := (tk_windows s)(t := tk_windows s t - 1)\<rparr>)"

definition tickets_of :: "(bytes \<Rightarrow> bytes) \<Rightarrow> RetryableState \<Rightarrow> hash set \<Rightarrow> world \<Rightarrow> tickets" where
  "tickets_of H rs I w = \<lparr>tk_queue = queue_items H (rs_TimeoutQueue H rs) w,
     tk_timeout = (\<lambda>t. if t \<in> I then ucast (slot_read w (tword H rs t 5)) else 0),
     tk_windows = (\<lambda>t. if t \<in> I then ucast (slot_read w (tword H rs t 6)) else 0)\<rparr>"

text \<open>The states in which the operations run: the ids in use are \<open>I\<close>, the words up to \<open>N\<close> of queue and
  calldata do not overlap, and the words of a ticket hold what their types allow.\<close>

definition retryables_ok :: "(bytes \<Rightarrow> bytes) \<Rightarrow> RetryableState \<Rightarrow> hash set \<Rightarrow> nat \<Rightarrow> world \<Rightarrow> bool" where
  "retryables_ok H rs I N w \<longleftrightarrow> layout H (rs_retryables rs) (ret_locs I N) \<and> N < 2 ^ 63
     \<and> queue_inv H (rs_TimeoutQueue H rs) N w \<and> set (queue_items H (rs_TimeoutQueue H rs) w) \<subseteq> I
     \<and> (\<forall>t\<in>I. fits 64 (slot_read w (tword H rs t 0)) \<and> fits 64 (slot_read w (tword H rs t 5))
         \<and> fits 64 (slot_read w (tword H rs t 6)) \<and> (unat (ucast (slot_read w (dword H rs t 0)) :: u64) + 31) div 32 \<le> N)"

section \<open>Opening\<close>

definition ticket :: "(bytes \<Rightarrow> bytes) \<Rightarrow> RetryableState \<Rightarrow> hash \<Rightarrow> Retryable" where
  "ticket H rs t = \<lparr>ret_id = t, ret_backingStorage = ticket_space H rs t\<rparr>"

lemma ticket_fold: "\<lparr>ret_id = t, ret_backingStorage = OpenSubStorage H (rs_retryables rs) (hash_Bytes t)\<rparr> = ticket H rs t"
  by (simp add: ticket_def ticket_space_def)

lemma ticket_words:
  "ret_numTries H (ticket H rs t) = tword H rs t 0"
  "ret_from H (ticket H rs t) = tword H rs t 1"
  "ret_to H (ticket H rs t) = tword H rs t 2"
  "ret_callvalue H (ticket H rs t) = tword H rs t 3"
  "ret_beneficiary H (ticket H rs t) = tword H rs t 4"
  "ret_calldata H (ticket H rs t) = data_space H rs t"
  "ret_timeout H (ticket H rs t) = tword H rs t 5"
  "ret_timeoutWindowsLeft H (ticket H rs t) = tword H rs t 6"
  "ret_id (ticket H rs t) = t"
  by (simp_all add: retryable_fields ticket_def word_slot_def data_space_def)

lemma queue_frame:
  assumes inv: "queue_inv H q N w" and sys: "sysw w'"
    and same: "\<And>i. i \<le> N \<Longrightarrow> slot_read w' (word_slot H q i) = slot_read w (word_slot H q i)"
  shows "queue_inv H q N w'" "queue_items H q w' = queue_items H q w" "queue_room H q N w' = queue_room H q N w"
proof -
  have N: "1 \<le> N" using inv by (auto simp: queue_inv_def)
  have off: "put_off H q w' = put_off H q w" "get_off H q w' = get_off H q w"
    using same [of 0] same [of 1] N by (simp_all add: put_off_def get_off_def)
  show "queue_inv H q N w'" using inv sys by (simp add: queue_inv_def off)
  show "queue_room H q N w' = queue_room H q N w" by (simp add: queue_room_def off)
  show "queue_items H q w' = queue_items H q w"
    unfolding queue_items_def off using inv by (intro map_cong refl same) (auto simp: queue_inv_def)
qed

abbreviation timeout_at :: "(bytes \<Rightarrow> bytes) \<Rightarrow> RetryableState \<Rightarrow> hash \<Rightarrow> world \<Rightarrow> u64" where
  "timeout_at H rs t w \<equiv> ucast (slot_read w (tword H rs t 5))"

abbreviation windows_at :: "(bytes \<Rightarrow> bytes) \<Rightarrow> RetryableState \<Rightarrow> hash \<Rightarrow> world \<Rightarrow> u64" where
  "windows_at H rs t w \<equiv> ucast (slot_read w (tword H rs t 6))"

lemma okD:
  assumes "retryables_ok H rs I N w"
  shows "layout H (rs_retryables rs) (ret_locs I N)" "N < 2 ^ 63" "queue_inv H (rs_TimeoutQueue H rs) N w" "sysw w"
    "set (queue_items H (rs_TimeoutQueue H rs) w) \<subseteq> I"
    "t \<in> I \<Longrightarrow> fits 64 (slot_read w (tword H rs t 0))" "t \<in> I \<Longrightarrow> fits 64 (slot_read w (tword H rs t 5))"
    "t \<in> I \<Longrightarrow> fits 64 (slot_read w (tword H rs t 6))"
    "t \<in> I \<Longrightarrow> (unat (ucast (slot_read w (dword H rs t 0)) :: u64) + 31) div 32 \<le> N"
  using assms by (auto simp: retryables_ok_def queue_inv_def)

lemma ok_quiet:
  assumes ok: "retryables_ok H rs I N w" and q: "quiet w w'"
  shows "retryables_ok H rs I N w'" "tickets_of H rs I w' = tickets_of H rs I w"
    "queue_room H (rs_TimeoutQueue H rs) N w' = queue_room H (rs_TimeoutQueue H rs) N w"
proof -
  note r = quiet_read [OF q] and s = quiet_sysw [OF q]
  note f = queue_frame [OF okD(3) [OF ok] s r]
  show "retryables_ok H rs I N w'" using ok f by (simp add: retryables_ok_def r)
  show "tickets_of H rs I w' = tickets_of H rs I w" unfolding tickets_of_def r f(2) ..
  show "queue_room H (rs_TimeoutQueue H rs) N w' = queue_room H (rs_TimeoutQueue H rs) N w" by (rule f(3))
qed

text \<open>A ticket is open until the timeout it has, counting from version 60 the windows it is still owed.\<close>

definition effective :: "u64 \<Rightarrow> tickets \<Rightarrow> hash \<Rightarrow> u64" where
  "effective version s t = (if version \<ge> ArbosVersion_60 then tk_timeout s t + tk_windows s t * RetryableLifetimeSeconds
     else tk_timeout s t)"

definition is_open :: "u64 \<Rightarrow> u64 \<Rightarrow> tickets \<Rightarrow> hash \<Rightarrow> bool" where
  "is_open version now s t \<longleftrightarrow> tk_timeout s t \<noteq> 0 \<and> (now \<le> tk_timeout s t \<or> now \<le> effective version s t)"

lemma OpenRetryable_run:
  assumes ok: "retryables_ok H rs I N w" and t: "t \<in> I"
  shows "\<exists>w'. OpenRetryable H rs t now w = (Ok (if is_open (rs_ArbosVersion rs) now (tickets_of H rs I w) t
      then Some (ticket H rs t) else None), w') \<and> quiet w w'"
proof -
  have f: "fits 64 (slot_read w (tword H rs t 5))" "fits 64 (slot_read w (tword H rs t 6))" "sysw w"
    using okD [OF ok] t by blast+
  have tk: "tk_timeout (tickets_of H rs I w) t = timeout_at H rs t w" "tk_windows (tickets_of H rs I w) t = windows_at H rs t w"
    using t by (simp_all add: tickets_of_def)
  have q: "quiet w w" using f by (simp add: quiet_refl)
  let ?w1 = "tick StorageAccessRead StorageReadCost w"
  have e: "\<exists>w'. effectiveTimeout H rs (ticket H rs t) (timeout_at H rs t w) ?w1 =
      (Ok (effective (rs_ArbosVersion rs) (tickets_of H rs I w) t), w') \<and> quiet w w'"
    using f q by (simp add: effectiveTimeout_def effective_def tk ticket_words op_simps sys_simps)
  then obtain w2 where w2: "effectiveTimeout H rs (ticket H rs t) (timeout_at H rs t w) ?w1 =
      (Ok (effective (rs_ArbosVersion rs) (tickets_of H rs I w) t), w2)" "quiet w w2" by blast
  have g: "StorageBackedUint64_Get (ret_timeout H (ticket H rs t)) w = (Ok (timeout_at H rs t w), ?w1)"
    using f by (simp add: ticket_words sys_simps)
  show ?thesis
    unfolding OpenRetryable_def Let_def ticket_fold
    using w2 q g by (auto simp: op_simps is_open_def tk not_less)
qed

lemma CalculateTimeout_run:
  assumes ok: "retryables_ok H rs I N w" and t: "t \<in> I"
  shows "\<exists>w'. Retryable_CalculateTimeout H (ticket H rs t) w =
     (Ok (timeout_at H rs t w + windows_at H rs t w * RetryableLifetimeSeconds), w') \<and> quiet w w'"
  using okD [OF ok] t by (auto simp: Retryable_CalculateTimeout_def ticket_words op_simps sys_simps quiet_refl)

section \<open>Keeping alive\<close>

lemma tickets_eqI:
  assumes "queue_items H (rs_TimeoutQueue H rs) w' = tk_queue s"
    and "\<And>t. t \<in> I \<Longrightarrow> timeout_at H rs t w' = tk_timeout s t" and "\<And>t. t \<notin> I \<Longrightarrow> tk_timeout s t = 0"
    and "\<And>t. t \<in> I \<Longrightarrow> windows_at H rs t w' = tk_windows s t" and "\<And>t. t \<notin> I \<Longrightarrow> tk_windows s t = 0"
  shows "tickets_of H rs I w' = s"
  using assms by (auto simp: tickets_of_def fun_eq_iff)

lemma Increment_run:
  assumes "sysw w" and "fits 64 (slot_read w ss)" and "ucast (slot_read w ss) \<noteq> (- 1 :: u64)"
  shows "\<exists>w'. StorageBackedUint64_Increment ss w = (Ok (ucast (slot_read w ss) + 1), w') \<and> sysw w'
    \<and> same_except {ss} w w' \<and> slot_read w' ss = ucast (ucast (slot_read w ss) + 1 :: u64)"
  using assms by (auto simp: StorageBackedUint64_Increment_def sys_simps op_simps overflow_iff intro!: same_except_write)

lemma Keepalive_run:
  assumes ok: "retryables_ok H rs I N w" and t: "t \<in> I" and op: "is_open (rs_ArbosVersion rs) now (tickets_of H rs I w) t"
    and lim: "timeout_at H rs t w + windows_at H rs t w * RetryableLifetimeSeconds \<le> limit"
    and room: "0 < queue_room H (rs_TimeoutQueue H rs) N w" and win: "windows_at H rs t w \<noteq> - 1"
  shows "\<exists>w'. Keepalive H rs t now limit add w =
      (Ok (timeout_at H rs t w + windows_at H rs t w * RetryableLifetimeSeconds + RetryableLifetimeSeconds), w')
    \<and> retryables_ok H rs I N w' \<and> tickets_of H rs I w' = keepalive_ticket t (tickets_of H rs I w)
    \<and> same_except (qword H rs ` {..N} \<union> {tword H rs t 6}) w w'"
proof -
  obtain w1 where w1: "OpenRetryable H rs t now w = (Ok (Some (ticket H rs t)), w1)" "quiet w w1"
    using OpenRetryable_run [OF ok t, of now] op by auto
  note ok1 = ok_quiet [OF ok w1(2)] and r1 = quiet_read [OF w1(2)]
  obtain w2 where w2: "Retryable_CalculateTimeout H (ticket H rs t) w1 =
      (Ok (timeout_at H rs t w + windows_at H rs t w * RetryableLifetimeSeconds), w2)" "quiet w1 w2"
    using CalculateTimeout_run [OF ok1(1) t] unfolding r1 by blast
  have q2: "quiet w w2" using quiet_trans [OF w1(2) w2(2)] .
  note ok2 = ok_quiet [OF ok q2] and r2 = quiet_read [OF q2]
  let ?q = "rs_TimeoutQueue H rs"
  obtain w3 where w3: "Queue_Put H ?q t w2 = (Ok (), w3)" "queue_inv H ?q N w3"
    "queue_items H ?q w3 = queue_items H ?q w2 @ [t]" "same_except (qword H rs ` {..N}) w2 w3"
    using Queue_Put_run [OF okD(3) [OF ok2(1)], of t] room ok2(3) by auto
  note a = ret_words_apart [OF okD(1,2) [OF ok]]
  have r3: "t' \<in> I \<Longrightarrow> i < 7 \<Longrightarrow> slot_read w3 (tword H rs t' i) = slot_read w (tword H rs t' i)" for t' i
    using same_exceptD [OF w3(4), of "tword H rs t' i"] a(2) r2 by auto
  have d3: "t' \<in> I \<Longrightarrow> i \<le> N \<Longrightarrow> slot_read w3 (dword H rs t' i) = slot_read w (dword H rs t' i)" for t' i
    using same_exceptD [OF w3(4), of "dword H rs t' i"] a(4) r2 by fastforce
  have s3: "sysw w3" using w3(2) by (simp add: queue_inv_def)
  obtain w4 where w4: "StorageBackedUint64_Increment (tword H rs t 6) w3 = (Ok (windows_at H rs t w + 1), w4)" "sysw w4"
    "same_except {tword H rs t 6} w3 w4" "slot_read w4 (tword H rs t 6) = ucast (windows_at H rs t w + 1)"
    using Increment_run [OF s3, of "tword H rs t 6"] r3 [OF t, of 6] okD(8) [OF ok t] win by auto
  have r4: "ss \<noteq> tword H rs t 6 \<Longrightarrow> slot_read w4 ss = slot_read w3 ss" for ss using same_exceptD [OF w4(3)] by blast
  have q4: "slot_read w4 (qword H rs i) = slot_read w3 (qword H rs i)" if "i \<le> N" for i
    using r4 a(2) [OF t _ that, of 6] by simp
  note f4 = queue_frame [OF w3(2) w4(2) q4]
  let ?w5 = "tick Computation RetryableReapPrice w4"
  have run: "Keepalive H rs t now limit add w =
      (Ok (timeout_at H rs t w + windows_at H rs t w * RetryableLifetimeSeconds + RetryableLifetimeSeconds), ?w5)"
    using w1(1) w2(1) w3(1) w4(1,2) lim by (simp add: Keepalive_def op_simps ticket_words w_Burn_sys not_less)
  have w5: "t' \<in> I \<Longrightarrow> i < 7 \<Longrightarrow> slot_read w4 (tword H rs t' i) =
      (if t' = t \<and> i = 6 then ucast (windows_at H rs t w + 1) else slot_read w (tword H rs t' i))" for t' i
    using r4 [of "tword H rs t' i"] r3 w4(4) a(1) [OF _ t, of t' i 6] by auto
  have d5: "t' \<in> I \<Longrightarrow> slot_read w4 (dword H rs t' 0) = slot_read w (dword H rs t' 0)" for t'
    using r4 [of "dword H rs t' 0"] d3 [of t' 0] a(3) [OF t, of t' 6 0] by fastforce
  have items: "queue_items H ?q ?w5 = queue_items H ?q w @ [t]"
  proof -
    have "queue_items H ?q ?w5 = queue_items H ?q w4" by (simp add: queue_items_def)
    then show ?thesis using f4(2) w3(3) ok2(2) by (simp add: tickets_of_def)
  qed
  have inv5: "queue_inv H ?q N ?w5" using f4(1) by simp
  have "retryables_ok H rs I N ?w5"
    using ok t inv5 items w5 d5 unfolding retryables_ok_def by auto
  moreover have "tickets_of H rs I ?w5 = keepalive_ticket t (tickets_of H rs I w)"
    by (rule tickets_eqI) (use t items w5 in \<open>auto simp: keepalive_ticket_def tickets_of_def\<close>)
  moreover have "same_except (qword H rs ` {..N} \<union> {tword H rs t 6}) w ?w5"
  proof -
    have "same_except ({} \<union> qword H rs ` {..N}) w w3" 
      by (rule same_except_trans [OF _ w3(4)]) (use q2 in \<open>simp add: quiet_def\<close>)
    from same_except_trans [OF this w4(3)] show ?thesis by simp
  qed
  ultimately show ?thesis using run by blast
qed

section \<open>Deleting\<close>

lemma escrow_transfer:
  assumes "evm_ok evm" and "funds_ok w" and "\<not> traced_outside evm sc" and "sysw w"
  shows "\<exists>w'. TransferBalance (Some a) (Some b) (GetBalance a w) evm sc w = (Ok (), w') \<and> sysw w'
    \<and> (\<forall>ss. slot_read w' ss = slot_read w ss) \<and> balance_of w' = moved (balance_of w) a b (balance_of w a) \<and> funds_ok w'"
  using funds_transfer [OF assms, of "balance_of w a" a b] assms(2)
  by (simp add: GetBalance_def funds_ok_def balances_ok_def)

text \<open>Clearing the words of a ticket.\<close>

lemma clear_fields_run:
  "sysw w \<Longrightarrow> \<exists>w'. for_each is (\<lambda>i. ignore (Storage_ClearByUint64 H sto (of_nat i))) w = (Ok (), w') \<and> sysw w'
     \<and> same_except (word_slot H sto ` set is) w w' \<and> (\<forall>i \<in> set is. slot_read w' (word_slot H sto i) = 0)
     \<and> (\<forall>ss. slot_read w ss = 0 \<longrightarrow> slot_read w' ss = 0)"
proof (induction "is" arbitrary: w)
  case (Cons i "is")
  let ?w1 = "slot_write (word_slot H sto i) 0 (tick StorageAccessWrite (WriteCost 0) w)"
  have "sysw ?w1" using Cons.prems by simp
  from Cons.IH [OF this] obtain w' where w': "for_each is (\<lambda>i. ignore (Storage_ClearByUint64 H sto (of_nat i))) ?w1 = (Ok (), w')"
    "sysw w'" "same_except (word_slot H sto ` set is) ?w1 w'" "\<forall>i \<in> set is. slot_read w' (word_slot H sto i) = 0"
    "\<forall>ss. slot_read ?w1 ss = 0 \<longrightarrow> slot_read w' ss = 0" by blast
  have "for_each (i # is) (\<lambda>i. ignore (Storage_ClearByUint64 H sto (of_nat i))) w = (Ok (), w')"
    using w'(1) Cons.prems by (simp add: op_simps word_ops sys_simps)
  moreover have "same_except (word_slot H sto ` set (i # is)) w w'"
    using w'(3) by (rule same_except_step) auto
  moreover have "slot_read w' (word_slot H sto i) = 0" using w'(5) by simp
  ultimately show ?case using w' by (auto simp: slot_read_write)
qed (simp add: op_simps)


lemma Delete_clears:
  "DeleteRetryable H rs t evm sc =
     bnd (Storage_GetByUint64 H (ticket_space H rs t) 5) (\<lambda>timeout.
      if timeout = 0 then ret False
      else
      bnd (or_zero 0 (Storage_GetByUint64 H (ticket_space H rs t) 4)) (\<lambda>beneficiary.
      bnd (\<lambda>w. TransferBalance (Some (RetryableEscrowAddress H t)) (Some (BytesToAddress (hash_Bytes beneficiary)))
                (GetBalance (RetryableEscrowAddress H t) w) evm sc w) (\<lambda>_.
      bnd (for_each [0..<7] (\<lambda>i. ignore (Storage_ClearByUint64 H (ticket_space H rs t) (of_nat i)))) (\<lambda>_.
      bnd (Storage_ClearBytes H (data_space H rs t)) (\<lambda>_.
      ret True)))))"
proof -
  have "bnd (for_each [0..<7] (\<lambda>i. ignore (Storage_ClearByUint64 H st (of_nat i)))) (\<lambda>_. G) =
      bnd (ignore (Storage_ClearByUint64 H st 0)) (\<lambda>_. bnd (ignore (Storage_ClearByUint64 H st 1)) (\<lambda>_.
      bnd (ignore (Storage_ClearByUint64 H st 2)) (\<lambda>_. bnd (ignore (Storage_ClearByUint64 H st 3)) (\<lambda>_.
      bnd (ignore (Storage_ClearByUint64 H st 4)) (\<lambda>_. bnd (ignore (Storage_ClearByUint64 H st 5)) (\<lambda>_.
      bnd (ignore (Storage_ClearByUint64 H st 6)) (\<lambda>_. G)))))))" for st and G :: "(world, bool) op"
    by (simp add: upt_conv_Cons bnd_assoc)
  then show ?thesis
    unfolding DeleteRetryable_def Let_def ticket_space_def [symmetric] data_space_def by (simp only:)
qed

lemma DeleteRetryable_run:
  assumes ok: "retryables_ok H rs I N w" and t: "t \<in> I" and nz: "timeout_at H rs t w \<noteq> 0"
    and evm: "evm_ok evm" and funds: "funds_ok w" and tr: "\<not> traced_outside evm sc"
  shows "\<exists>w'. DeleteRetryable H rs t evm sc w = (Ok True, w')
    \<and> retryables_ok H rs I N w' \<and> tickets_of H rs I w' = delete_ticket t (tickets_of H rs I w)
    \<and> funds_ok w'
    \<and> balance_of w' = moved (balance_of w) (RetryableEscrowAddress H t)
        (BytesToAddress (hash_Bytes (slot_read w (tword H rs t 4)))) (balance_of w (RetryableEscrowAddress H t))
    \<and> (\<forall>i<7. slot_read w' (tword H rs t i) = 0) \<and> slot_read w' (dword H rs t 0) = 0
    \<and> (\<forall>ss. ss \<notin> tword H rs t ` {..<7} \<union> dword H rs t ` {..N} \<longrightarrow> slot_read w' ss = slot_read w ss)"
proof -
  let ?q = "rs_TimeoutQueue H rs"
  note o = okD [OF ok] and a = ret_words_apart [OF okD(1,2) [OF ok]]
  let ?e = "RetryableEscrowAddress H t" and ?b = "BytesToAddress (hash_Bytes (slot_read w (tword H rs t 4)))"
  let ?w1 = "tick StorageAccessRead StorageReadCost (tick StorageAccessRead StorageReadCost w)"
  have nz': "slot_read w (tword H rs t 5) \<noteq> 0" using nz by auto
  have g: "Storage_GetByUint64 H (ticket_space H rs t) 5 = StorageSlot_Get (tword H rs t 5)"
    "Storage_GetByUint64 H (ticket_space H rs t) 4 = StorageSlot_Get (tword H rs t 4)"
    using word_ops(1) [of H "ticket_space H rs t" 5] word_ops(1) [of H "ticket_space H rs t" 4] by simp_all
  have "funds_ok ?w1" using funds by (simp add: funds_ok_def balances_ok_def total_supply_def)
  from escrow_transfer [OF evm this tr, of ?e ?b] obtain w2 where
    w2: "TransferBalance (Some ?e) (Some ?b) (GetBalance ?e ?w1) evm sc ?w1 = (Ok (), w2)" "sysw w2"
      "\<And>ss. slot_read w2 ss = slot_read w ss" "balance_of w2 = moved (balance_of w) ?e ?b (balance_of w ?e)" "funds_ok w2"
    using o(4) by auto
  obtain w3 where w3: "for_each [0..<7] (\<lambda>i. ignore (Storage_ClearByUint64 H (ticket_space H rs t) (of_nat i))) w2 = (Ok (), w3)" "sysw w3"
    "same_except (tword H rs t ` set [0..<7]) w2 w3" "\<forall>i\<in>set [0..<7]. slot_read w3 (tword H rs t i) = 0"
    using clear_fields_run [OF w2(2), of "[0..<7]" H "ticket_space H rs t"] by blast
  have d3: "slot_read w3 (dword H rs t 0) = slot_read w (dword H rs t 0)"
    using same_exceptD [OF w3(3), of "dword H rs t 0"] w2(3) a(3) [OF t t, of _ 0] by fastforce
  obtain w4 where w4: "Storage_ClearBytes H (data_space H rs t) w3 = (Ok (), w4)" "sysw w4"
    "same_except (dword H rs t ` {..(unat (ucast (slot_read w (dword H rs t 0)) :: u64) + 31) div 32}) w3 w4"
    "slot_read w4 (dword H rs t 0) = 0"
    using ClearBytes_run [OF w3(2), of H "data_space H rs t"] unfolding d3 by blast
  have f4: "same_except (dword H rs t ` {..N}) w3 w4" using w4(3) o(9) [OF t] by (rule_tac same_except_mono) auto
  have run: "DeleteRetryable H rs t evm sc w = (Ok True, w4)"
    unfolding Delete_clears using o(4) nz' w2(1) w3(1) w4(1) by (simp add: g op_simps sys_simps)
  have r: "slot_read w4 ss = slot_read w ss" if "ss \<notin> tword H rs t ` {..<7} \<union> dword H rs t ` {..N}" for ss
    using same_exceptD [OF f4, of ss] same_exceptD [OF w3(3), of ss] w2(3) [of ss] that by (auto simp: lessThan_atLeast0)
  have z: "slot_read w4 (tword H rs t i) = 0" if "i < 7" for i
    using same_exceptD [OF f4, of "tword H rs t i"] w3(4) a(3) [OF t t that] that by fastforce
  have q: "slot_read w4 (qword H rs i) = slot_read w (qword H rs i)" if "i \<le> N" for i
    using r [of "qword H rs i"] a(2) [OF t _ that] a(4) [OF t that] by fastforce
  note fr = queue_frame [OF o(3) w4(2) q]
  have tw: "slot_read w4 (tword H rs t' i) = (if t' = t then 0 else slot_read w (tword H rs t' i))" if "t' \<in> I" "i < 7" for t' i
  proof (cases "t' = t")
    case False
    have "tword H rs t' i \<notin> tword H rs t ` {..<7}" "tword H rs t' i \<notin> dword H rs t ` {..N}"
      using a(1) [OF that(1) t that(2)] a(3) [OF that(1) t that(2)] False by auto
    then show ?thesis using r [of "tword H rs t' i"] False by simp
  qed (use z [OF that(2)] in simp)
  have dw: "slot_read w4 (dword H rs t' 0) = (if t' = t then 0 else slot_read w (dword H rs t' 0))" if "t' \<in> I" for t'
  proof (cases "t' = t")
    case False
    have "dword H rs t' 0 \<noteq> tword H rs t i" if "i < 7" for i using a(3) [OF t \<open>t' \<in> I\<close> that, of 0] by simp
    moreover have "dword H rs t' 0 \<noteq> dword H rs t i" if "i \<le> N" for i using a(5) [OF \<open>t' \<in> I\<close> t _ that, of 0] False by simp
    ultimately have "dword H rs t' 0 \<notin> tword H rs t ` {..<7} \<union> dword H rs t ` {..N}" by auto
    then show ?thesis using r False by simp
  qed (use w4(4) in simp)
  have "retryables_ok H rs I N w4"
    unfolding retryables_ok_def using ok fr tw dw by (auto simp: retryables_ok_def)
  moreover have "tickets_of H rs I w4 = delete_ticket t (tickets_of H rs I w)"
    by (rule tickets_eqI) (use fr tw t in \<open>auto simp: delete_ticket_def tickets_of_def\<close>)
  moreover have "balance_of w4 = moved (balance_of w) ?e ?b (balance_of w ?e)"
    using w2(4) w3(3) f4 by (simp add: same_except_def)
  moreover have "funds_ok w4" using w2(5) w3(3) f4 by (simp add: same_except_def funds_ok_def balances_ok_def total_supply_def)
  ultimately show ?thesis using run z w4(4) r by blast
qed

section \<open>Reaping\<close>

text \<open>Writes to the words of one ticket keep the state well-formed.\<close>

lemma ticket_write:
  assumes ok: "retryables_ok H rs I N w" and t: "t \<in> I" and sys: "sysw w'"
    and same: "same_except (tword H rs t ` {..<7}) w w'"
    and fit: "fits 64 (slot_read w' (tword H rs t 0))" "fits 64 (slot_read w' (tword H rs t 5))" "fits 64 (slot_read w' (tword H rs t 6))"
  shows "retryables_ok H rs I N w'"
    "tickets_of H rs I w' = (tickets_of H rs I w)\<lparr>tk_timeout := (tk_timeout (tickets_of H rs I w))(t := timeout_at H rs t w'),
       tk_windows := (tk_windows (tickets_of H rs I w))(t := windows_at H rs t w')\<rparr>"
    "queue_room H (rs_TimeoutQueue H rs) N w' = queue_room H (rs_TimeoutQueue H rs) N w"
proof -
  note o = okD [OF ok] and a = ret_words_apart [OF okD(1,2) [OF ok]]
  have q: "slot_read w' (qword H rs i) = slot_read w (qword H rs i)" if "i \<le> N" for i
  proof -
    have "qword H rs i \<notin> tword H rs t ` {..<7}" using a(2) [OF t _ that] by fastforce
    then show ?thesis by (rule same_exceptD [OF same])
  qed
  note fr = queue_frame [OF o(3) sys q]
  have tw: "slot_read w' (tword H rs t' i) = slot_read w (tword H rs t' i)" if "t' \<in> I" "i < 7" "t' \<noteq> t" for t' i
  proof -
    have "tword H rs t' i \<notin> tword H rs t ` {..<7}" using a(1) [OF that(1) t that(2)] that(3) by auto
    then show ?thesis by (rule same_exceptD [OF same])
  qed
  have dw: "slot_read w' (dword H rs t' 0) = slot_read w (dword H rs t' 0)" if "t' \<in> I" for t'
  proof -
    have "dword H rs t' 0 \<notin> tword H rs t ` {..<7}" using a(3) [OF t that, of _ 0] by fastforce
    then show ?thesis by (rule same_exceptD [OF same])
  qed
  have tw': "slot_read w' (tword H rs t' i) = slot_read w (tword H rs t' i) \<or> t' = t" if "t' \<in> I" "i < 7" for t' i
    using tw that by blast
  have "fits 64 (slot_read w' (tword H rs t' 0)) \<and> fits 64 (slot_read w' (tword H rs t' 5)) \<and> fits 64 (slot_read w' (tword H rs t' 6))
     \<and> (unat (ucast (slot_read w' (dword H rs t' 0)) :: u64) + 31) div 32 \<le> N" if "t' \<in> I" for t'
    using fit o(6-9) [OF that] dw [OF that] tw [OF that] by (cases "t' = t") simp_all
  then show "retryables_ok H rs I N w'" using ok fr by (simp add: retryables_ok_def)
  show "tickets_of H rs I w' = (tickets_of H rs I w)\<lparr>tk_timeout := (tk_timeout (tickets_of H rs I w))(t := timeout_at H rs t w'),
       tk_windows := (tk_windows (tickets_of H rs I w))(t := windows_at H rs t w')\<rparr>"
    by (rule tickets_eqI) (use t fr tw in \<open>auto simp: tickets_of_def\<close>)
  show "queue_room H (rs_TimeoutQueue H rs) N w' = queue_room H (rs_TimeoutQueue H rs) N w" by (rule fr(3))
qed

text \<open>Operations on the queue leave the tickets alone.\<close>

lemma queue_change:
  assumes ok: "retryables_ok H rs I N w" and inv: "queue_inv H (rs_TimeoutQueue H rs) N w'"
    and same: "same_except (qword H rs ` {..N}) w w'" and items: "set (queue_items H (rs_TimeoutQueue H rs) w') \<subseteq> I"
  shows "retryables_ok H rs I N w'"
    "tickets_of H rs I w' = (tickets_of H rs I w)\<lparr>tk_queue := queue_items H (rs_TimeoutQueue H rs) w'\<rparr>"
    "t \<in> I \<Longrightarrow> i < 7 \<Longrightarrow> slot_read w' (tword H rs t i) = slot_read w (tword H rs t i)"
    "t \<in> I \<Longrightarrow> i \<le> N \<Longrightarrow> slot_read w' (dword H rs t i) = slot_read w (dword H rs t i)"
proof -
  note a = ret_words_apart [OF okD(1,2) [OF ok]]
  have tw: "slot_read w' (tword H rs t i) = slot_read w (tword H rs t i)" if "t \<in> I" "i < 7" for t i
  proof -
    have "tword H rs t i \<notin> qword H rs ` {..N}" using a(2) [OF that] by auto
    then show ?thesis by (rule same_exceptD [OF same])
  qed
  have dw: "slot_read w' (dword H rs t i) = slot_read w (dword H rs t i)" if "t \<in> I" "i \<le> N" for t i
  proof -
    have "dword H rs t i \<notin> qword H rs ` {..N}" using a(4) [OF that(1) _ that(2)] by fastforce
    then show ?thesis by (rule same_exceptD [OF same])
  qed
  show "t \<in> I \<Longrightarrow> i < 7 \<Longrightarrow> slot_read w' (tword H rs t i) = slot_read w (tword H rs t i)" by (rule tw)
  show "t \<in> I \<Longrightarrow> i \<le> N \<Longrightarrow> slot_read w' (dword H rs t i) = slot_read w (dword H rs t i)" by (rule dw)
  show "retryables_ok H rs I N w'" using ok inv items tw dw by (simp add: retryables_ok_def)
  show "tickets_of H rs I w' = (tickets_of H rs I w)\<lparr>tk_queue := queue_items H (rs_TimeoutQueue H rs) w'\<rparr>"
    by (rule tickets_eqI) (use tw in \<open>auto simp: tickets_of_def\<close>)
qed

lemma dequeue_run:
  assumes ok: "retryables_ok H rs I N w" and items: "queue_items H (rs_TimeoutQueue H rs) w = t # q"
  shows "\<exists>w'. Queue_Get H (rs_TimeoutQueue H rs) w = (Ok (Some t), w') \<and> retryables_ok H rs I N w'
    \<and> tickets_of H rs I w' = (tickets_of H rs I w)\<lparr>tk_queue := q\<rparr> \<and> balance_of w' = balance_of w
    \<and> (\<forall>t\<in>I. \<forall>i<7. slot_read w' (tword H rs t i) = slot_read w (tword H rs t i))"
proof -
  obtain w' where w': "Queue_Get H (rs_TimeoutQueue H rs) w = (Ok (Some t), w')" "queue_inv H (rs_TimeoutQueue H rs) N w'"
    "queue_items H (rs_TimeoutQueue H rs) w' = q" "same_except (qword H rs ` {..N}) w w'"
    using Queue_Get_run [OF okD(3) [OF ok] items] by blast
  have "set (queue_items H (rs_TimeoutQueue H rs) w') \<subseteq> I" using okD(5) [OF ok] items w'(3) by auto
  note c = queue_change [OF ok w'(2,4) this]
  show ?thesis using w' c by (auto simp: same_except_def)
qed

lemma funds_quiet: "funds_ok w \<Longrightarrow> balance_of w' = balance_of w \<Longrightarrow> funds_ok w'"
  by (simp add: funds_ok_def balances_ok_def total_supply_def)

lemma reapExpired_run:
  assumes ok: "retryables_ok H rs I N w" and items: "queue_items H (rs_TimeoutQueue H rs) w = t # q"
    and nz: "timeout_at H rs t w \<noteq> 0"
    and evm: "evm_ok evm" and funds: "funds_ok w" and tr: "\<not> traced_outside evm sc"
  shows "\<exists>w'. reapExpired H rs (ticket H rs t) (timeout_at H rs t w) (windows_at H rs t w) evm sc w = (Ok (), w')
    \<and> retryables_ok H rs I N w' \<and> funds_ok w'
    \<and> tickets_of H rs I w' = (let s = tickets_of H rs I w in
         if windows_at H rs t w = 0 then delete_ticket t (s\<lparr>tk_queue := q\<rparr>)
         else s\<lparr>tk_queue := q, tk_timeout := (tk_timeout s)(t := tk_timeout s t + RetryableLifetimeSeconds),
               tk_windows := (tk_windows s)(t := tk_windows s t - 1)\<rparr>)"
proof -
  have t: "t \<in> I" using okD(5) [OF ok] items by auto
  obtain w1 where w1: "Queue_Get H (rs_TimeoutQueue H rs) w = (Ok (Some t), w1)" "retryables_ok H rs I N w1"
    "tickets_of H rs I w1 = (tickets_of H rs I w)\<lparr>tk_queue := q\<rparr>" "balance_of w1 = balance_of w"
    "\<forall>t\<in>I. \<forall>i<7. slot_read w1 (tword H rs t i) = slot_read w (tword H rs t i)"
    using dequeue_run [OF ok items] by blast
  have f1: "funds_ok w1" by (rule funds_quiet [OF funds w1(4)])
  have r1: "slot_read w1 (tword H rs t i) = slot_read w (tword H rs t i)" if "i < 7" for i using w1(5) t that by blast
  show ?thesis
  proof (cases "windows_at H rs t w = 0")
    case True
    have "timeout_at H rs t w1 \<noteq> 0" using nz r1 [of 5] by simp
    from DeleteRetryable_run [OF w1(2) t this evm f1 tr] obtain w2 where
      w2: "DeleteRetryable H rs t evm sc w1 = (Ok True, w2)" "retryables_ok H rs I N w2"
        "tickets_of H rs I w2 = delete_ticket t (tickets_of H rs I w1)" "funds_ok w2" by blast
    show ?thesis using w1 w2 True by (simp add: reapExpired_def op_simps ticket_words)
  next
    case False
    let ?w2 = "slot_write (tword H rs t 5) (ucast (timeout_at H rs t w + RetryableLifetimeSeconds))
      (tick StorageAccessWrite (WriteCost (ucast (timeout_at H rs t w + RetryableLifetimeSeconds))) w1)"
    let ?w3 = "slot_write (tword H rs t 6) (ucast (windows_at H rs t w - 1))
      (tick StorageAccessWrite (WriteCost (ucast (windows_at H rs t w - 1))) ?w2)"
    have run: "reapExpired H rs (ticket H rs t) (timeout_at H rs t w) (windows_at H rs t w) evm sc w = (Ok (), ?w3)"
      using w1(1) False okD(4) [OF w1(2)] by (simp add: reapExpired_def op_simps ticket_words sys_simps)
    have d: "tword H rs t 5 \<noteq> tword H rs t 6" "tword H rs t 0 \<noteq> tword H rs t 6" "tword H rs t 0 \<noteq> tword H rs t 5"
      using ret_words_apart(1) [OF okD(1,2) [OF ok] t t] by simp_all
    have s3: "sysw ?w3" "same_except (tword H rs t ` {..<7}) w1 ?w3"
      using okD(4) [OF w1(2)] by (simp_all add: same_except_write)
    have v: "slot_read ?w3 (tword H rs t 0) = slot_read w1 (tword H rs t 0)"
      "slot_read ?w3 (tword H rs t 5) = ucast (timeout_at H rs t w + RetryableLifetimeSeconds)"
      "slot_read ?w3 (tword H rs t 6) = ucast (windows_at H rs t w - 1)"
      using d by (simp_all add: slot_read_write)
    have fit: "fits 64 (slot_read ?w3 (tword H rs t 0))" "fits 64 (slot_read ?w3 (tword H rs t 5))" "fits 64 (slot_read ?w3 (tword H rs t 6))"
      using okD(6) [OF w1(2) t] unfolding v by simp_all
    note tk = ticket_write [OF w1(2) t s3 fit]
    have "timeout_at H rs t ?w3 = tk_timeout (tickets_of H rs I w) t + RetryableLifetimeSeconds"
      "windows_at H rs t ?w3 = tk_windows (tickets_of H rs I w) t - 1" using t unfolding v by (simp_all add: tickets_of_def)
    then have "tickets_of H rs I ?w3 = (let s = tickets_of H rs I w in
       s\<lparr>tk_queue := q, tk_timeout := (tk_timeout s)(t := tk_timeout s t + RetryableLifetimeSeconds),
               tk_windows := (tk_windows s)(t := tk_windows s t - 1)\<rparr>)"
      using tk(2) w1(3) by (simp add: Let_def)
    moreover have "funds_ok ?w3" by (rule funds_quiet [OF f1]) simp
    ultimately show ?thesis using run tk(1) False by (simp add: Let_def)
  qed
qed

lemma TryToReap_run:
  assumes ok: "retryables_ok H rs I N w" and evm: "evm_ok evm" and funds: "funds_ok w" and tr: "\<not> traced_outside evm sc"
  shows "\<exists>w'. TryToReapOneRetryable H rs now evm sc w = (Ok (), w') \<and> retryables_ok H rs I N w' \<and> funds_ok w'
    \<and> tickets_of H rs I w' = reap_ticket now (tickets_of H rs I w)"
proof -
  let ?q = "rs_TimeoutQueue H rs"
  obtain w1 where w1: "Queue_Peek H ?q w = (Ok (case queue_items H ?q w of [] \<Rightarrow> None | x # _ \<Rightarrow> Some x), w1)"
    "queue_inv H ?q N w1" "same_except {} w w1" using Queue_Peek_run [OF okD(3) [OF ok]] by blast
  have q1: "quiet w w1" using w1 by (simp add: quiet_def queue_inv_def)
  note ok1 = ok_quiet [OF ok q1] and r1 = quiet_read [OF q1]
  show ?thesis
  proof (cases "queue_items H ?q w")
    case Nil
    have "funds_ok w1" by (rule funds_quiet [OF funds]) (use w1(3) in \<open>simp add: same_except_def\<close>)
    then show ?thesis using w1(1) Nil ok1 by (simp add: TryToReapOneRetryable_def op_simps reap_ticket_def tickets_of_def)
  next
    case (Cons t q)
    have t: "t \<in> I" using okD(5) [OF ok] Cons by auto
    have f: "fits 64 (slot_read w (tword H rs t 5))" "fits 64 (slot_read w (tword H rs t 6))" using okD(7,8) [OF ok t] by blast+
    let ?w2 = "tick StorageAccessRead StorageReadCost w1"
    let ?w3 = "tick StorageAccessRead StorageReadCost ?w2"
    have qt: "quiet w ?w2" "quiet w ?w3" using q1 by simp_all
    have it: "queue_items H ?q ?w2 = t # q" "queue_items H ?q ?w3 = t # q"
      using queue_same(1) [of w ?w2] queue_same(1) [of w ?w3] qt Cons by (simp_all add: quiet_def)
    have fu: "funds_ok ?w3" "funds_ok ?w2" by (rule funds_quiet [OF funds], use w1(3) in \<open>simp add: same_except_def\<close>)+
    have g: "StorageBackedUint64_Get (tword H rs t 5) w1 = (Ok (timeout_at H rs t w), ?w2)"
      "StorageBackedUint64_Get (tword H rs t 6) ?w2 = (Ok (windows_at H rs t w), ?w3)"
      using f quiet_sysw [OF q1] by (simp_all add: sys_simps r1)
    have tk: "tk_timeout (tickets_of H rs I w) t = timeout_at H rs t w" "tk_windows (tickets_of H rs I w) t = windows_at H rs t w"
      "tk_queue (tickets_of H rs I w) = t # q" using t Cons by (simp_all add: tickets_of_def)
    consider "timeout_at H rs t w = 0" | "timeout_at H rs t w \<noteq> 0" "now \<le> timeout_at H rs t w"
      | "timeout_at H rs t w \<noteq> 0" "\<not> now \<le> timeout_at H rs t w" by blast
    then show ?thesis
    proof cases
      case 1
      obtain w4 where w4: "Queue_Get H ?q ?w2 = (Ok (Some t), w4)" "retryables_ok H rs I N w4"
        "tickets_of H rs I w4 = (tickets_of H rs I ?w2)\<lparr>tk_queue := q\<rparr>" "balance_of w4 = balance_of ?w2"
        using dequeue_run [OF ok_quiet(1) [OF ok qt(1)] it(1)] by blast
      have "funds_ok w4" by (rule funds_quiet [OF fu(2) w4(4)])
      then show ?thesis using w1(1) Cons g w4 1 ok_quiet(2) [OF ok qt(1)]
        by (simp add: TryToReapOneRetryable_def Let_def op_simps ticket_fold ticket_words reap_ticket_def tk)
    next
      case 2
      then show ?thesis using w1(1) Cons g ok_quiet(1,2) [OF ok qt(2)] fu
        by (simp add: TryToReapOneRetryable_def Let_def op_simps ticket_fold ticket_words reap_ticket_def tk)
    next
      case 3
      have nz: "timeout_at H rs t ?w3 \<noteq> 0" using 3(1) r1 by simp
      obtain w4 where w4: "reapExpired H rs (ticket H rs t) (timeout_at H rs t ?w3) (windows_at H rs t ?w3) evm sc ?w3 = (Ok (), w4)"
        "retryables_ok H rs I N w4" "funds_ok w4"
        "tickets_of H rs I w4 = (let s = tickets_of H rs I ?w3 in
         if windows_at H rs t ?w3 = 0 then delete_ticket t (s\<lparr>tk_queue := q\<rparr>)
         else s\<lparr>tk_queue := q, tk_timeout := (tk_timeout s)(t := tk_timeout s t + RetryableLifetimeSeconds),
               tk_windows := (tk_windows s)(t := tk_windows s t - 1)\<rparr>)"
        using reapExpired_run [OF ok_quiet(1) [OF ok qt(2)] it(2) nz evm fu(1) tr] by blast
      have run: "TryToReapOneRetryable H rs now evm sc w = (Ok (), w4)"
        using w1(1) Cons g w4(1) 3
        by (simp add: TryToReapOneRetryable_def Let_def op_simps ticket_fold ticket_words r1)
      moreover have "tickets_of H rs I w4 = reap_ticket now (tickets_of H rs I w)"
        unfolding w4(4) ok_quiet(2) [OF ok qt(2)] using 3 by (simp add: Let_def reap_ticket_def tk r1)
      ultimately show ?thesis using w4(2,3) by blast
    qed
  qed
qed

section \<open>Creating\<close>

lemma writes_run:
  "sysw w \<Longrightarrow> \<exists>w'. for_each ps (\<lambda>(ss, v). ignore (StorageSlot_Set ss v)) w = (Ok (), w') \<and> sysw w'
    \<and> same_except (fst ` set ps) w w' \<and> (distinct (map fst ps) \<longrightarrow> (\<forall>(ss, v) \<in> set ps. slot_read w' ss = v))"
proof (induction ps arbitrary: w)
  case (Cons p ps)
  obtain ss v where p: "p = (ss, v)" by fastforce
  let ?w1 = "slot_write ss v (tick StorageAccessWrite (WriteCost v) w)"
  have "sysw ?w1" using Cons.prems by simp
  from Cons.IH [OF this] obtain w' where w': "for_each ps (\<lambda>(ss, v). ignore (StorageSlot_Set ss v)) ?w1 = (Ok (), w')" "sysw w'"
    "same_except (fst ` set ps) ?w1 w'" "distinct (map fst ps) \<longrightarrow> (\<forall>(ss, v) \<in> set ps. slot_read w' ss = v)" by blast
  have "for_each (p # ps) (\<lambda>(ss, v). ignore (StorageSlot_Set ss v)) w = (Ok (), w')"
    using w'(1) Cons.prems p by (simp add: op_simps sys_simps)
  moreover have "same_except (fst ` set (p # ps)) w w'"
    using w'(3) p by (force simp: same_except_def slot_read_write)
  moreover have "slot_read w' ss = v" if "distinct (map fst (p # ps))"
    using that p same_exceptD [OF w'(3), of ss] by (force simp: slot_read_write)
  ultimately show ?case using w' p by auto
qed (simp add: op_simps)

lemma Create_writes:
  assumes "0 \<le> callvalue" "callvalue < twoToThe256"
  shows "CreateRetryable H rs t timeout from to callvalue beneficiary calldata =
     bnd (for_each [(tword H rs t 0, 0), (tword H rs t 1, AddressToHash from), (tword H rs t 2, AddressOrNil_encode to),
          (tword H rs t 3, BigBytesToHash callvalue), (tword H rs t 4, AddressToHash beneficiary)]
        (\<lambda>(ss, v). ignore (StorageSlot_Set ss v))) (\<lambda>_.
     bnd (ignore (Storage_SetBytes H (data_space H rs t) calldata)) (\<lambda>_.
     bnd (for_each [(tword H rs t 5, ucast timeout), (tword H rs t 6, 0)] (\<lambda>(ss, v). ignore (StorageSlot_Set ss v))) (\<lambda>_.
     bnd (Queue_Put H (rs_TimeoutQueue H rs) t) (\<lambda>_. ret (ticket H rs t)))))"
  unfolding CreateRetryable_def Let_def ticket_fold ticket_words
  using assms by (simp add: biguint.put_word addr_or_nil.put_word uint64.put_word addr.put_word bnd_assoc StorageBackedBytes_Set_def)

text \<open>The fields that creating a ticket stores.\<close>

definition holds_ticket ::
  "(bytes \<Rightarrow> bytes) \<Rightarrow> RetryableState \<Rightarrow> hash \<Rightarrow> address \<Rightarrow> address option \<Rightarrow> int \<Rightarrow> address \<Rightarrow> bytes \<Rightarrow> world \<Rightarrow> bool" where
  "holds_ticket H rs t from to callvalue beneficiary calldata w \<longleftrightarrow>
     slot_read w (tword H rs t 1) = AddressToHash from \<and> slot_read w (tword H rs t 2) = AddressOrNil_encode to
     \<and> slot_read w (tword H rs t 3) = BigBytesToHash callvalue \<and> slot_read w (tword H rs t 4) = AddressToHash beneficiary
     \<and> stores_bytes H (data_space H rs t) w calldata"

lemma stores_bytes_frame:
  assumes "stores_bytes H s w b" and "1 + length b div 32 \<le> N"
    and "\<And>i. i \<le> N \<Longrightarrow> slot_read w' (word_slot H s i) = slot_read w (word_slot H s i)"
  shows "stores_bytes H s w' b"
  using assms by (auto simp: stores_bytes_def holds_words_def length_chunks)

lemma data_write:
  assumes ok: "retryables_ok H rs I N w" and t: "t \<in> I" and sys: "sysw w'"
    and same: "same_except (dword H rs t ` {..N}) w w'"
    and len: "(unat (ucast (slot_read w' (dword H rs t 0)) :: u64) + 31) div 32 \<le> N"
  shows "retryables_ok H rs I N w'" "tickets_of H rs I w' = tickets_of H rs I w"
    "queue_room H (rs_TimeoutQueue H rs) N w' = queue_room H (rs_TimeoutQueue H rs) N w"
    "t' \<in> I \<Longrightarrow> i < 7 \<Longrightarrow> slot_read w' (tword H rs t' i) = slot_read w (tword H rs t' i)"
proof -
  note o = okD [OF ok] and a = ret_words_apart [OF okD(1,2) [OF ok]]
  have q: "slot_read w' (qword H rs i) = slot_read w (qword H rs i)" if "i \<le> N" for i
  proof -
    have "qword H rs i \<notin> dword H rs t ` {..N}" using a(4) [OF t that] by auto
    then show ?thesis by (rule same_exceptD [OF same])
  qed
  note fr = queue_frame [OF o(3) sys q]
  have tw: "slot_read w' (tword H rs t' i) = slot_read w (tword H rs t' i)" if "t' \<in> I" "i < 7" for t' i
  proof -
    have "tword H rs t' i \<notin> dword H rs t ` {..N}" using a(3) [OF that(1) t that(2)] by auto
    then show ?thesis by (rule same_exceptD [OF same])
  qed
  have dw: "slot_read w' (dword H rs t' 0) = slot_read w (dword H rs t' 0)" if "t' \<in> I" "t' \<noteq> t" for t'
  proof -
    have "dword H rs t' 0 \<notin> dword H rs t ` {..N}" using a(5) [OF that(1) t, of 0] that(2) by auto
    then show ?thesis by (rule same_exceptD [OF same])
  qed
  have "(unat (ucast (slot_read w' (dword H rs t' 0)) :: u64) + 31) div 32 \<le> N" if "t' \<in> I" for t'
    using len o(9) [OF that] dw [OF that] by (cases "t' = t") simp_all
  then show "retryables_ok H rs I N w'" using ok fr tw by (simp add: retryables_ok_def)
  show "tickets_of H rs I w' = tickets_of H rs I w"
    by (rule tickets_eqI) (use fr tw in \<open>auto simp: tickets_of_def\<close>)
  show "queue_room H (rs_TimeoutQueue H rs) N w' = queue_room H (rs_TimeoutQueue H rs) N w" by (rule fr(3))
  show "t' \<in> I \<Longrightarrow> i < 7 \<Longrightarrow> slot_read w' (tword H rs t' i) = slot_read w (tword H rs t' i)" by (rule tw)
qed

lemma CreateRetryable_run:
  assumes ok: "retryables_ok H rs I N w" and t: "t \<in> I" and room: "0 < queue_room H (rs_TimeoutQueue H rs) N w"
    and cv: "0 \<le> callvalue" "callvalue < twoToThe256" and len: "1 + length calldata div 32 \<le> N" "length calldata < 2 ^ 64"
  shows "\<exists>w'. CreateRetryable H rs t timeout from to callvalue beneficiary calldata w = (Ok (ticket H rs t), w')
    \<and> retryables_ok H rs I N w' \<and> tickets_of H rs I w' = create_ticket t timeout (tickets_of H rs I w)
    \<and> holds_ticket H rs t from to callvalue beneficiary calldata w' \<and> slot_read w' (tword H rs t 0) = 0
    \<and> balance_of w' = balance_of w"
proof -
  let ?q = "rs_TimeoutQueue H rs"
  note o = okD [OF ok] and a = ret_words_apart [OF okD(1,2) [OF ok]]
  have dist: "distinct (map (tword H rs t) [0, 1, 2, 3, 4])" "distinct (map (tword H rs t) [5, 6])"
    using a(1) [OF t t] by simp_all
  let ?ps = "[(tword H rs t 0, 0), (tword H rs t 1, AddressToHash from), (tword H rs t 2, AddressOrNil_encode to),
          (tword H rs t 3, BigBytesToHash callvalue), (tword H rs t 4, AddressToHash beneficiary)]"
  let ?qs = "[(tword H rs t 5, ucast timeout), (tword H rs t 6, 0 :: hash)]"
  obtain w1 where w1: "for_each ?ps (\<lambda>(ss, v). ignore (StorageSlot_Set ss v)) w = (Ok (), w1)" "sysw w1"
    "same_except (fst ` set ?ps) w w1" "\<forall>(ss, v) \<in> set ?ps. slot_read w1 ss = v"
    using writes_run [OF o(4), of ?ps] dist(1) by auto
  have f1: "same_except (tword H rs t ` {..<7}) w w1" using w1(3) by (rule same_except_mono) auto
  have fit1: "fits 64 (slot_read w1 (tword H rs t 0))" "fits 64 (slot_read w1 (tword H rs t 5))" "fits 64 (slot_read w1 (tword H rs t 6))"
    using w1(4) same_exceptD [OF w1(3), of "tword H rs t 5"] same_exceptD [OF w1(3), of "tword H rs t 6"] o(7,8) [OF t] a(1) [OF t t] by auto
  note ok1 = ticket_write [OF ok t w1(2) f1 fit1]
  have "distinct_words H (data_space H rs t) (1 + length calldata div 32)"
    using ret_distinct(2) [OF o(1,2) t] len(1) by (auto simp: distinct_words_def elim!: inj_on_subset)
  from SetBytes_run [OF w1(2) this] obtain w2 where
    w2: "Storage_SetBytes H (data_space H rs t) calldata w1 = (Ok (), w2)" "sysw w2"
      "same_except (dword H rs t ` {..max ((unat (ucast (slot_read w1 (dword H rs t 0)) :: u64) + 31) div 32) (1 + length calldata div 32)}) w1 w2"
      "stores_bytes H (data_space H rs t) w2 calldata" by blast
  have f2: "same_except (dword H rs t ` {..N}) w1 w2"
    using w2(3) by (rule same_except_mono) (use okD(9) [OF ok1(1) t] len(1) in auto)
  obtain w3 where w3: "for_each ?qs (\<lambda>(ss, v). ignore (StorageSlot_Set ss v)) w2 = (Ok (), w3)" "sysw w3"
    "same_except (fst ` set ?qs) w2 w3" "\<forall>(ss, v) \<in> set ?qs. slot_read w3 ss = v"
    using writes_run [OF w2(2), of ?qs] dist(2) by auto
  have z: "slot_read w2 (dword H rs t 0) = ucast (of_nat (length calldata) :: u64)"
    using w2(4) by (simp add: stores_bytes_def UintToHash_ucast)
  have "(length calldata + 31) div 32 \<le> 1 + length calldata div 32" by simp
  then have "(unat (ucast (slot_read w2 (dword H rs t 0)) :: u64) + 31) div 32 \<le> N"
    using len unfolding z by simp
  note ok2 = data_write [OF ok1(1) t w2(2) f2 this]
  have f3: "same_except (tword H rs t ` {..<7}) w2 w3" using w3(3) by (rule same_except_mono) auto
  have r3: "slot_read w3 (tword H rs t i) = slot_read w1 (tword H rs t i)" if "i < 5" for i
  proof -
    have "tword H rs t i \<notin> fst ` set ?qs" using a(1) [OF t t, of i] that by simp
    then show ?thesis using same_exceptD [OF w3(3)] ok2(4) [OF t] that by simp
  qed
  have v3: "slot_read w3 (tword H rs t 0) = 0" "slot_read w3 (tword H rs t 5) = ucast timeout" "slot_read w3 (tword H rs t 6) = 0"
    using w3(4) w1(4) r3 [of 0] by simp_all
  have fit3: "fits 64 (slot_read w3 (tword H rs t 0))" "fits 64 (slot_read w3 (tword H rs t 5))" "fits 64 (slot_read w3 (tword H rs t 6))"
    unfolding v3 by simp_all
  note ok3 = ticket_write [OF ok2(1) t w3(2) f3 fit3]
  have st3: "stores_bytes H (data_space H rs t) w3 calldata"
  proof (rule stores_bytes_frame [OF w2(4) len(1)])
    fix i assume "i \<le> N"
    then have "dword H rs t i \<notin> tword H rs t ` {..<7}" using a(3) [OF t t, of _ i] by fastforce
    then show "slot_read w3 (dword H rs t i) = slot_read w2 (dword H rs t i)" by (rule same_exceptD [OF f3])
  qed
  obtain w4 where w4: "Queue_Put H ?q t w3 = (Ok (), w4)" "queue_inv H ?q N w4" "queue_items H ?q w4 = queue_items H ?q w3 @ [t]"
    "same_except (qword H rs ` {..N}) w3 w4"
    using Queue_Put_run [OF okD(3) [OF ok3(1)], of t] room ok1(3) ok2(3) ok3(3) by auto
  have "set (queue_items H ?q w4) \<subseteq> I" using w4(3) okD(5) [OF ok3(1)] t by simp
  note ok4 = queue_change [OF ok3(1) w4(2,4) this]
  have st4: "stores_bytes H (data_space H rs t) w4 calldata" by (rule stores_bytes_frame [OF st3 len(1)]) (rule ok4(4) [OF t])
  have run: "CreateRetryable H rs t timeout from to callvalue beneficiary calldata w = (Ok (ticket H rs t), w4)"
    unfolding Create_writes [OF cv] using w1(1) w2(1) w3(1) w4(1) by (simp add: op_simps del: for_each.simps)
  have h: "holds_ticket H rs t from to callvalue beneficiary calldata w4"
    unfolding holds_ticket_def using st4 ok4(3) [OF t] r3 w1(4) by simp
  have tk: "tickets_of H rs I w4 = create_ticket t timeout (tickets_of H rs I w)"
  proof -
    have "queue_items H ?q w3 = queue_items H ?q w"
      using arg_cong [OF ok3(2), of tk_queue] arg_cong [OF ok2(2), of tk_queue] arg_cong [OF ok1(2), of tk_queue]
      by (simp add: tickets_of_def)
    then show ?thesis unfolding ok4(2) w4(3) ok3(2) ok2(2) ok1(2) v3 by (simp add: create_ticket_def tickets_of_def)
  qed
  have "balance_of w4 = balance_of w" using w4(4) f3 f2 f1 by (simp add: same_except_def)
  then show ?thesis using run ok4(1) tk h ok4(3) [OF t, of 0] v3(1) by simp
qed

section \<open>Properties of tickets\<close>

lemma is_open_created:
  "timeout \<noteq> 0 \<Longrightarrow> is_open version now (create_ticket t timeout s) t \<longleftrightarrow> now \<le> timeout"
  by (simp add: is_open_def create_ticket_def effective_def)

text \<open>C24: A retryable ticket that is created is found under its id until its timeout and not after it; the
  transaction made from it has the sender, destination, value and calldata it was created with,
  its beneficiary is the one given, and no attempt has been counted.\<close>

theorem retryable_round_trip:
  assumes ok: "retryables_ok H rs I N w" and t: "t \<in> I" and room: "0 < queue_room H (rs_TimeoutQueue H rs) N w"
    and cv: "0 \<le> callvalue" "callvalue < twoToThe256" and len: "1 + length calldata div 32 \<le> N" "length calldata < 2 ^ 64"
    and tm: "timeout \<noteq> 0"
  shows "\<exists>r w'. CreateRetryable H rs t timeout from to callvalue beneficiary calldata w = (Ok r, w')
    \<and> fst (OpenRetryable H rs t now w') = Ok (if now \<le> timeout then Some r else None)
    \<and> fst (Retryable_MakeTx H r chainId nonce gasFeeCap gas t refundTo maxRefund submissionFeeRefund w') =
       Ok \<lparr>rtx_ChainId = chainId, rtx_Nonce = nonce, rtx_From = from, rtx_GasFeeCap = gasFeeCap,
        rtx_Gas = gas, rtx_To = to, rtx_Value = callvalue, rtx_Data = calldata, rtx_TicketId = t,
        rtx_RefundTo = refundTo, rtx_MaxRefund = maxRefund, rtx_SubmissionFeeRefund = submissionFeeRefund\<rparr>
    \<and> fst (Retryable_Beneficiary H r w') = Ok beneficiary \<and> fst (Retryable_NumTries H r w') = Ok 0"
proof -
  obtain w' where w': "CreateRetryable H rs t timeout from to callvalue beneficiary calldata w = (Ok (ticket H rs t), w')"
    "retryables_ok H rs I N w'" "tickets_of H rs I w' = create_ticket t timeout (tickets_of H rs I w)"
    "holds_ticket H rs t from to callvalue beneficiary calldata w'" "slot_read w' (tword H rs t 0) = 0"
    using CreateRetryable_run [OF ok t room cv len] by blast
  note h = w'(4)[unfolded holds_ticket_def] and s = okD(4) [OF w'(2)]
  have op: "fst (OpenRetryable H rs t now w') = Ok (if now \<le> timeout then Some (ticket H rs t) else None)"
    using OpenRetryable_run [OF w'(2) t, of now] is_open_created [OF tm, of "rs_ArbosVersion rs" now t] w'(3) by auto
  let ?w2 = "tick StorageAccessRead StorageReadCost (tick StorageAccessRead StorageReadCost (tick StorageAccessRead StorageReadCost w'))"
  have "stores_bytes H (data_space H rs t) ?w2 calldata" using h by (simp add: stores_bytes_def)
  from GetBytes_run [OF _ this len(2)] obtain w3 where w3: "Storage_GetBytes H (data_space H rs t) ?w2 = (Ok calldata, w3)"
    using s by auto
  have g: "Retryable_From H (ticket H rs t) w' = (Ok from, tick StorageAccessRead StorageReadCost w')"
    "Retryable_To H (ticket H rs t) (tick StorageAccessRead StorageReadCost w') = (Ok to, tick StorageAccessRead StorageReadCost (tick StorageAccessRead StorageReadCost w'))"
    "Retryable_Callvalue H (ticket H rs t) (tick StorageAccessRead StorageReadCost (tick StorageAccessRead StorageReadCost w')) = (Ok callvalue, ?w2)"
    "Retryable_Calldata H (ticket H rs t) ?w2 = (Ok calldata, w3)"
    using h s w3 cv addr_or_nil.dec_enc [of to] biguint.dec_enc [of callvalue]
    by (simp_all add: Retryable_From_def Retryable_To_def Retryable_Callvalue_def Retryable_Calldata_def ticket_words sys_simps
        StorageBackedBytes_Get_def)
  have "fst (Retryable_Beneficiary H (ticket H rs t) w') = Ok beneficiary" "fst (Retryable_NumTries H (ticket H rs t) w') = Ok 0"
    using h s w'(5) by (simp_all add: Retryable_Beneficiary_def Retryable_NumTries_def ticket_words sys_simps)
  then show ?thesis using w'(1) op g by (simp add: Retryable_MakeTx_def op_simps)
qed


section \<open>Windows and queue entries\<close>

text \<open>Every live ticket has one entry in the queue per window it is owed, and one more.\<close>

definition entries_match :: "tickets \<Rightarrow> bool" where
  "entries_match s \<longleftrightarrow> (\<forall>t. tk_timeout s t \<noteq> 0 \<longrightarrow> count_list (tk_queue s) t = unat (tk_windows s t) + 1)"

lemma entries_match_create:
  "entries_match s \<Longrightarrow> t \<notin> set (tk_queue s) \<Longrightarrow> entries_match (create_ticket t timeout s)"
  by (auto simp: entries_match_def create_ticket_def)

lemma entries_match_delete: "entries_match s \<Longrightarrow> entries_match (delete_ticket t s)"
  by (simp add: entries_match_def delete_ticket_def)

lemma entries_match_keepalive:
  "entries_match s \<Longrightarrow> tk_windows s t \<noteq> - 1 \<Longrightarrow> entries_match (keepalive_ticket t s)"
  using unat_plus_one [of "tk_windows s t"] by (auto simp: entries_match_def keepalive_ticket_def)

lemma entries_match_reap: "entries_match s \<Longrightarrow> entries_match (reap_ticket now s)"
proof (cases "tk_queue s")
  case (Cons t q)
  assume e: "entries_match s"
  have u: "unat (tk_windows s t - 1) = unat (tk_windows s t) - 1" "0 < unat (tk_windows s t)" if "tk_windows s t \<noteq> 0"
    using that by (simp_all add: unat_minus_one unat_gt_0)
  have c: "count_list q t' + (if t = t' then 1 else 0) = unat (tk_windows s t') + 1" if "tk_timeout s t' \<noteq> 0" for t'
    using e that Cons by (auto simp: entries_match_def)
  have "count_list (tk_queue (reap_ticket now s)) t' = unat (tk_windows (reap_ticket now s) t') + 1"
    if "tk_timeout (reap_ticket now s) t' \<noteq> 0" for t'
  proof (cases "t' = t")
    case True
    then show ?thesis using that c [of t] Cons u by (auto simp: reap_ticket_def delete_ticket_def split: if_splits)
  next
    case False
    then show ?thesis using that c [of t'] Cons by (auto simp: reap_ticket_def delete_ticket_def split: if_splits)
  qed
  then show ?thesis by (simp add: entries_match_def)
qed (simp add: reap_ticket_def)


text \<open>The operations on tickets as steps, with ids from \<open>I\<close> and a queue that has room.\<close>

inductive ret_step :: "(bytes \<Rightarrow> bytes) \<Rightarrow> RetryableState \<Rightarrow> hash set \<Rightarrow> nat \<Rightarrow> EVM \<Rightarrow> TracingScenario \<Rightarrow> world \<Rightarrow> world \<Rightarrow> bool"
  for H rs I N evm sc where
  create: "CreateRetryable H rs t timeout from to callvalue beneficiary calldata w = (r, w') \<Longrightarrow> t \<in> I
    \<Longrightarrow> t \<notin> set (queue_items H (rs_TimeoutQueue H rs) w) \<Longrightarrow> 0 < queue_room H (rs_TimeoutQueue H rs) N w
    \<Longrightarrow> 0 \<le> callvalue \<Longrightarrow> callvalue < twoToThe256 \<Longrightarrow> 1 + length calldata div 32 \<le> N \<Longrightarrow> length calldata < 2 ^ 64
    \<Longrightarrow> ret_step H rs I N evm sc w w'"
| keepalive: "Keepalive H rs t now limit add w = (r, w') \<Longrightarrow> t \<in> I \<Longrightarrow> 0 < queue_room H (rs_TimeoutQueue H rs) N w
    \<Longrightarrow> windows_at H rs t w \<noteq> - 1 \<Longrightarrow> ret_step H rs I N evm sc w w'"
| delete: "DeleteRetryable H rs t evm sc w = (r, w') \<Longrightarrow> t \<in> I \<Longrightarrow> ret_step H rs I N evm sc w w'"
| reap: "TryToReapOneRetryable H rs now evm sc w = (r, w') \<Longrightarrow> ret_step H rs I N evm sc w w'"

lemma Keepalive_refused:
  assumes ok: "retryables_ok H rs I N w" and t: "t \<in> I"
    and no: "\<not> is_open (rs_ArbosVersion rs) now (tickets_of H rs I w) t
      \<or> limit < timeout_at H rs t w + windows_at H rs t w * RetryableLifetimeSeconds"
  shows "\<exists>e w'. Keepalive H rs t now limit add w = (Err e, w') \<and> quiet w w'"
proof -
  obtain w1 where w1: "OpenRetryable H rs t now w = (Ok (if is_open (rs_ArbosVersion rs) now (tickets_of H rs I w) t
      then Some (ticket H rs t) else None), w1)" "quiet w w1" using OpenRetryable_run [OF ok t] by blast
  show ?thesis
  proof (cases "is_open (rs_ArbosVersion rs) now (tickets_of H rs I w) t")
    case False
    then show ?thesis using w1 by (simp add: Keepalive_def op_simps)
  next
    case True
    obtain w2 where "Retryable_CalculateTimeout H (ticket H rs t) w1 =
        (Ok (timeout_at H rs t w + windows_at H rs t w * RetryableLifetimeSeconds), w2)" "quiet w1 w2"
      using CalculateTimeout_run [OF ok_quiet(1) [OF ok w1(2)] t] unfolding quiet_read [OF w1(2)] by blast
    then show ?thesis using w1 True no quiet_trans [OF w1(2)] by (simp add: Keepalive_def op_simps)
  qed
qed

lemma Delete_absent:
  assumes ok: "retryables_ok H rs I N w" and t: "t \<in> I" and z: "timeout_at H rs t w = 0"
  shows "\<exists>w'. DeleteRetryable H rs t evm sc w = (Ok False, w') \<and> quiet w w'"
proof -
  have g: "Storage_GetByUint64 H (ticket_space H rs t) 5 = StorageSlot_Get (tword H rs t 5)"
    using word_ops(1) [of H "ticket_space H rs t" 5] by simp
  have "slot_read w (tword H rs t 5) = 0"
  proof -
    have "unat (slot_read w (tword H rs t 5)) < 2 ^ 64" using okD(7) [OF ok t] by (simp add: fits_def)
    moreover have "unat (timeout_at H rs t w) = unat (slot_read w (tword H rs t 5)) mod 2 ^ 64" by (simp add: unsigned_ucast_eq take_bit_eq_mod)
    ultimately have "unat (slot_read w (tword H rs t 5)) = 0" using z by simp
    then show ?thesis by (simp add: unat_eq_0)
  qed
  then show ?thesis unfolding Delete_clears using okD(4) [OF ok] by (simp add: g op_simps sys_simps quiet_refl)
qed

lemma ret_step_keeps:
  assumes "ret_step H rs I N evm sc w w'" and ok: "retryables_ok H rs I N w" and f: "funds_ok w" and e: "entries_match (tickets_of H rs I w)"
    and evm: "evm_ok evm" and tr: "\<not> traced_outside evm sc"
  shows "retryables_ok H rs I N w' \<and> funds_ok w' \<and> entries_match (tickets_of H rs I w')"
  using assms(1)
proof cases
  case (create t timeout sender to callvalue beneficiary calldata r)
  have "t \<notin> set (tk_queue (tickets_of H rs I w))" using create by (simp add: tickets_of_def)
  then show ?thesis
    using CreateRetryable_run [OF ok create(2,4-8), of timeout sender to beneficiary] create(1) entries_match_create [OF e] funds_quiet [OF f]
    by auto
next
  case (keepalive t now limit add r)
  show ?thesis
  proof (cases "is_open (rs_ArbosVersion rs) now (tickets_of H rs I w) t
      \<and> timeout_at H rs t w + windows_at H rs t w * RetryableLifetimeSeconds \<le> limit")
    case True
    have "tk_windows (tickets_of H rs I w) t \<noteq> - 1" using keepalive by (simp add: tickets_of_def)
    then show ?thesis
      using Keepalive_run [OF ok keepalive(2) _ _ keepalive(3,4), of now limit add] True keepalive(1) entries_match_keepalive [OF e]
        funds_quiet [OF f] by (auto simp: same_except_def)
  next
    case False
    then show ?thesis using Keepalive_refused [OF ok keepalive(2), of now limit add] keepalive(1) ok_quiet [OF ok] e funds_quiet [OF f]
      by (auto simp: not_le quiet_def same_except_def)
  qed
next
  case (delete t r)
  show ?thesis
  proof (cases "timeout_at H rs t w = 0")
    case True
    then show ?thesis using Delete_absent [OF ok delete(2) True, of evm sc] delete(1) ok_quiet [OF ok] e funds_quiet [OF f]
      by (auto simp: quiet_def same_except_def)
  next
    case False
    then show ?thesis using DeleteRetryable_run [OF ok delete(2) False evm f tr] delete(1) entries_match_delete [OF e] by auto
  qed
next
  case (reap now r)
  then show ?thesis using TryToReap_run [OF ok evm f tr, of now] entries_match_reap [OF e] by auto
qed

section \<open>Invariant and progress\<close>

definition no_tickets :: tickets where
  "no_tickets = \<lparr>tk_queue = [], tk_timeout = (\<lambda>_. 0), tk_windows = (\<lambda>_. 0)\<rparr>"

lemma InitializeRetryables_run:
  assumes lay: "layout H (rs_retryables rs) (ret_locs I N)" "N < 2 ^ 63" "1 \<le> N" and w: "sysw w"
    and z: "\<And>t i. t \<in> I \<Longrightarrow> i < 7 \<Longrightarrow> slot_read w (tword H rs t i) = 0" "\<And>t. t \<in> I \<Longrightarrow> slot_read w (dword H rs t 0) = 0"
  shows "\<exists>w'. InitializeRetryableState H (rs_retryables rs) w = (Ok (), w') \<and> retryables_ok H rs I N w'
    \<and> tickets_of H rs I w' = no_tickets \<and> queue_room H (rs_TimeoutQueue H rs) N w' = N - 1 \<and> balance_of w' = balance_of w"
proof -
  let ?q = "rs_TimeoutQueue H rs"
  have N64: "Suc N < 2 ^ 64" using lay(2) by simp
  obtain w' where w': "InitializeQueue H ?q w = (Ok (), w')" "queue_inv H ?q N w'" "queue_items H ?q w' = []" "queue_room H ?q N w' = N - 1"
    using InitializeQueue_run [OF w ret_distinct(1) [OF lay(1,2)] lay(3) N64] by blast
  have s: "same_except (qword H rs ` {..N}) w w'"
  proof -
    have u1: "Storage_SetUint64ByUint64 H ?q 1 u = StorageSlot_Set (qword H rs 1) (UintToHash u)"
      and u0: "Storage_SetUint64ByUint64 H ?q 0 u = StorageSlot_Set (qword H rs 0) (UintToHash u)" for u
      using word_ops(4) [of H ?q 1 u] word_ops(4) [of H ?q 0 u] by simp_all
    have "w' = snd (InitializeQueue H ?q w)" using w'(1) by simp
    then show ?thesis using w lay(3) by (simp add: InitializeQueue_def op_simps u1 u0 sys_simps same_except_write)
  qed
  note a = ret_words_apart [OF lay(1,2)]
  have tw: "slot_read w' (tword H rs t i) = 0" if "t \<in> I" "i < 7" for t i
  proof -
    have "tword H rs t i \<notin> qword H rs ` {..N}" using a(2) [OF that] by auto
    then show ?thesis using same_exceptD [OF s] z(1) [OF that] by simp
  qed
  have dw: "slot_read w' (dword H rs t 0) = 0" if "t \<in> I" for t
  proof -
    have "dword H rs t 0 \<notin> qword H rs ` {..N}" using a(4) [OF that _, of _ 0] by fastforce
    then show ?thesis using same_exceptD [OF s] z(2) [OF that] by simp
  qed
  have "retryables_ok H rs I N w'" using lay w' tw dw by (simp add: retryables_ok_def)
  moreover have "tickets_of H rs I w' = no_tickets" by (rule tickets_eqI) (simp_all add: no_tickets_def w'(3) tw)
  moreover have "balance_of w' = balance_of w" using s by (simp add: same_except_def)
  ultimately show ?thesis using w' by (simp add: InitializeRetryableState_def rs_TimeoutQueue_def)
qed

lemma entries_match_none: "entries_match no_tickets"
  by (simp add: entries_match_def no_tickets_def)

text \<open>C6: Starting from an initialised and otherwise empty state, whatever tickets are created, kept alive,
  deleted and reaped, in any order: every live ticket has in the queue exactly one entry more than
  the windows it is owed, so that it is looked at once per lifetime it has been paid for; the
  stored state stays well-formed and the balances stay valid.\<close>

theorem windows_match_queue:
  assumes "InitializeRetryableState H (rs_retryables rs) w = (Ok (), w0)" and "(ret_step H rs I N evm sc)\<^sup>*\<^sup>* w0 w'"
    and "layout H (rs_retryables rs) (ret_locs I N)" and "N < 2 ^ 63" and "1 \<le> N" and "sysw w"
    and "\<And>t i. t \<in> I \<Longrightarrow> i < 7 \<Longrightarrow> slot_read w (tword H rs t i) = 0" and "\<And>t. t \<in> I \<Longrightarrow> slot_read w (dword H rs t 0) = 0"
    and "funds_ok w" and "evm_ok evm" and "\<not> traced_outside evm sc"
  shows "entries_match (tickets_of H rs I w') \<and> retryables_ok H rs I N w' \<and> funds_ok w'"
proof -
  have start: "retryables_ok H rs I N w0" "tickets_of H rs I w0 = no_tickets" "balance_of w0 = balance_of w"
    using InitializeRetryables_run [OF assms(3-8)] assms(1) by auto
  from assms(2) show ?thesis
  proof (induction rule: rtranclp_induct)
    case base
    then show ?case using start entries_match_none funds_quiet [OF assms(9) start(3)] by simp
  next
    case (step y z)
    then show ?case using ret_step_keeps [OF step(2) _ _ _ assms(10,11)] by blast
  qed
qed

section \<open>Progress of reaping\<close>

definition all_expired :: "u64 \<Rightarrow> tickets \<Rightarrow> bool" where
  "all_expired now s \<longleftrightarrow> (\<forall>t. tk_timeout s t \<noteq> 0 \<longrightarrow>
     unat (tk_timeout s t) + unat (tk_windows s t) * unat RetryableLifetimeSeconds < unat now)"

lemma unat_lifetime: "unat RetryableLifetimeSeconds = 604800"
  by (simp add: RetryableLifetimeSeconds_def)

lemma reap_expired:
  assumes "all_expired now s" and "tk_queue s = t # q"
  shows "all_expired now (reap_ticket now s) \<and> tk_queue (reap_ticket now s) = q"
proof -
  let ?L = RetryableLifetimeSeconds
  consider "tk_timeout s t = 0" | "tk_timeout s t \<noteq> 0" "tk_windows s t = 0" | "tk_timeout s t \<noteq> 0" "tk_windows s t \<noteq> 0" by blast
  then show ?thesis
  proof cases
    case 1
    then show ?thesis using assms by (simp add: reap_ticket_def all_expired_def)
  next
    case 2
    then have "tk_timeout s t < now" using assms by (auto simp: all_expired_def word_less_nat_alt)
    then show ?thesis using assms 2 by (simp add: reap_ticket_def all_expired_def delete_ticket_def not_le)
  next
    case 3
    have lt: "unat (tk_timeout s t) + unat (tk_windows s t) * unat ?L < unat now" using assms 3 by (simp add: all_expired_def)
    have w: "unat (tk_windows s t - 1) = unat (tk_windows s t) - 1" "0 < unat (tk_windows s t)"
      using 3 by (simp_all add: unat_minus_one unat_gt_0)
    then obtain k where k: "unat (tk_windows s t) = Suc k" using gr0_implies_Suc by blast
    have "unat (tk_timeout s t) + unat ?L < 2 ^ 64" using lt k unat_lt_pow [of now] by simp
    then have u: "unat (tk_timeout s t + ?L) = unat (tk_timeout s t) + unat ?L" by (simp add: unat_word_ariths)
    have "tk_timeout s t < now" using lt by (simp add: word_less_nat_alt)
    then have r: "reap_ticket now s = s\<lparr>tk_queue := q, tk_timeout := (tk_timeout s)(t := tk_timeout s t + ?L),
        tk_windows := (tk_windows s)(t := tk_windows s t - 1)\<rparr>" using assms(2) 3 by (simp add: reap_ticket_def not_le)
    have "unat (tk_timeout s t + ?L) + unat (tk_windows s t - 1) * unat ?L < unat now" using lt k u w(1) by simp
    then show ?thesis unfolding r using assms(1) by (auto simp: all_expired_def)
  qed
qed

lemma reap_all:
  assumes "retryables_ok H rs I N w" and "funds_ok w" and "entries_match (tickets_of H rs I w)" and "all_expired now (tickets_of H rs I w)"
    and evm: "evm_ok evm" and tr: "\<not> traced_outside evm sc"
  shows "\<exists>w'. repeat_op (length (tk_queue (tickets_of H rs I w))) (TryToReapOneRetryable H rs now evm sc) w = (Ok (), w')
    \<and> retryables_ok H rs I N w' \<and> entries_match (tickets_of H rs I w') \<and> tk_queue (tickets_of H rs I w') = []"
  using assms(1-4)
proof (induction "tk_queue (tickets_of H rs I w)" arbitrary: w)
  case Nil
  then show ?case by (auto simp: op_simps)
next
  case (Cons t q)
  obtain w1 where w1: "TryToReapOneRetryable H rs now evm sc w = (Ok (), w1)" "retryables_ok H rs I N w1" "funds_ok w1"
    "tickets_of H rs I w1 = reap_ticket now (tickets_of H rs I w)"
    using TryToReap_run [OF Cons.prems(1) evm Cons.prems(2) tr] by blast
  have e: "all_expired now (tickets_of H rs I w1)" "tk_queue (tickets_of H rs I w1) = q"
    using reap_expired [OF Cons.prems(4) Cons.hyps(2) [symmetric]] w1(4) by simp_all
  obtain w2 where "repeat_op (length q) (TryToReapOneRetryable H rs now evm sc) w1 = (Ok (), w2)"
    "retryables_ok H rs I N w2" "entries_match (tickets_of H rs I w2)" "tk_queue (tickets_of H rs I w2) = []"
    using Cons.hyps(1) [OF e(2) [symmetric] w1(2,3) _ e(1)] entries_match_reap [OF Cons.prems(3)] w1(4) e(2) by auto
  then show ?case using w1(1) by (simp add: Cons.hyps(2) [symmetric] op_simps)
qed

text \<open>C5: Reaping makes progress: once the time is past the timeout of every live ticket, windows included,
  as many calls as the queue has entries succeed, empty the queue and close every ticket; none of
  them can be opened at any time.\<close>

theorem expired_tickets_are_reaped:
  assumes "retryables_ok H rs I N w" and "funds_ok w" and "entries_match (tickets_of H rs I w)" and "all_expired now (tickets_of H rs I w)"
    and "evm_ok evm" and "\<not> traced_outside evm sc"
  shows "\<exists>w'. repeat_op (length (queue_items H (rs_TimeoutQueue H rs) w)) (TryToReapOneRetryable H rs now evm sc) w = (Ok (), w')
    \<and> queue_items H (rs_TimeoutQueue H rs) w' = [] \<and> (\<forall>t\<in>I. \<forall>later. fst (OpenRetryable H rs t later w') = Ok None)"
proof -
  obtain w' where w': "repeat_op (length (tk_queue (tickets_of H rs I w))) (TryToReapOneRetryable H rs now evm sc) w = (Ok (), w')"
    "retryables_ok H rs I N w'" "entries_match (tickets_of H rs I w')" "tk_queue (tickets_of H rs I w') = []"
    using reap_all [OF assms] by blast
  have "tk_timeout (tickets_of H rs I w') t = 0" for t using w'(3,4) by (fastforce simp: entries_match_def)
  then have "fst (OpenRetryable H rs t later w') = Ok None" if "t \<in> I" for t later
    using OpenRetryable_run [OF w'(2) that, of later] by (auto simp: is_open_def)
  then show ?thesis using w'(1,4) by (simp add: tickets_of_def)
qed


section \<open>A concrete instance\<close>

definition demo_rs :: RetryableState where
  "demo_rs = OpenRetryableState tree_root 60"

lemma demo_ret_layout: "layout tree_hash (rs_retryables demo_rs) (ret_locs {1, 2} 100)"
proof -
  have "layout tree_hash tree_root (ret_locs {1, 2} 100)"
  proof (rule tree_layout [where S = "{[0], [1], hash_Bytes 1, hash_Bytes 2}"])
    have c: "id_code (hash_Bytes h) = 32 # be_bytes 4 (unat h)" for h
    proof -
      have "be_bytes 32 (unat h) = be_bytes 28 (unat h div 256 ^ 4) @ be_bytes 4 (unat h)"
        using be_bytes_add [of 28 4 "unat h"] by simp
      then have "drop 28 (hash_Bytes h) = be_bytes 4 (unat h)" by (simp only: hash_Bytes_def) simp
      then show ?thesis by (simp add: id_code_def)
    qed
    have d: "be_bytes 4 (1::nat) \<noteq> be_bytes 4 2" using be_bytes_inject [of 1 4 2] by simp
    have "id_code [0] = [1, 0, 0, 0, 0]" "id_code [1] = [1, 0, 0, 0, 1]" by (simp_all add: id_code_def numeral_3_eq_3)
    moreover have "id_code (hash_Bytes 1) = 32 # be_bytes 4 1" "id_code (hash_Bytes 2) = 32 # be_bytes 4 2" using c by simp_all
    ultimately show "inj_on id_code {[0], [1], hash_Bytes 1, hash_Bytes 2}"
      using d unfolding inj_on_def by (auto simp del: be_bytes.simps)
    have small: "unat (of_nat i :: u64) < 2 ^ 40" if "i \<le> 100" for i
      using that unat_of_nat_u64 [of i] by simp
    then have "\<And>i. i \<le> 100 \<Longrightarrow> unat (UintToHash (of_nat i)) < 2 ^ 40" "\<And>i. i < 7 \<Longrightarrow> unat (UintToHash (of_nat i)) < 2 ^ 40"
      by (simp_all only: unat_UintToHash)
    then show "set p \<subseteq> {[0], [1], hash_Bytes 1, hash_Bytes 2} \<and> length p \<le> 5 \<and> unat k < 2 ^ 40"
      if "(p, k) \<in> ret_locs {1, 2} 100" for p k
      using that unfolding ret_locs_def by (elim UnE imageE) (auto simp del: unat_UintToHash)
  qed
  then show ?thesis by (simp add: demo_rs_def OpenRetryableState_def)
qed

lemma demo_funds_ok: "funds_ok demo_world"
  by (simp add: funds_ok_def balances_ok_def total_supply_def demo_world_def)

lemma demo_ret_start:
  "\<exists>w. InitializeRetryableState tree_hash (rs_retryables demo_rs) demo_world = (Ok (), w)
    \<and> retryables_ok tree_hash demo_rs {1, 2} 100 w \<and> tickets_of tree_hash demo_rs {1, 2} w = no_tickets
    \<and> queue_room tree_hash (rs_TimeoutQueue tree_hash demo_rs) 100 w = 99 \<and> funds_ok w"
  using InitializeRetryables_run [OF demo_ret_layout, of demo_world] funds_quiet [OF demo_funds_ok] by auto

lemma demo_ret_created:
  "\<exists>w. retryables_ok tree_hash demo_rs {1, 2} 100 w \<and> funds_ok w
    \<and> tickets_of tree_hash demo_rs {1, 2} w = create_ticket 1 500 no_tickets"
proof -
  obtain w where w: "retryables_ok tree_hash demo_rs {1, 2} 100 w" "tickets_of tree_hash demo_rs {1, 2} w = no_tickets"
    "queue_room tree_hash (rs_TimeoutQueue tree_hash demo_rs) 100 w = 99" "funds_ok w" using demo_ret_start by blast
  have "\<exists>w'. CreateRetryable tree_hash demo_rs 1 500 7 None 0 8 [1, 2] w = (Ok (ticket tree_hash demo_rs 1), w')
    \<and> retryables_ok tree_hash demo_rs {1, 2} 100 w' \<and> tickets_of tree_hash demo_rs {1, 2} w' = create_ticket 1 500 (tickets_of tree_hash demo_rs {1, 2} w)
    \<and> holds_ticket tree_hash demo_rs 1 7 None 0 8 [1, 2] w' \<and> slot_read w' (tword tree_hash demo_rs 1 0) = 0
    \<and> balance_of w' = balance_of w"
    by (rule CreateRetryable_run [OF w(1)]) (simp_all add: w(3) twoToThe256_def)
  then show ?thesis using w(2) funds_quiet [OF w(4)] by auto
qed

lemma retryable_round_trip_witness:
  "\<exists>w r w'. CreateRetryable tree_hash demo_rs 1 500 7 None 0 8 [1, 2] w = (Ok r, w')
     \<and> fst (OpenRetryable tree_hash demo_rs 1 400 w') = Ok (Some r)"
proof -
  obtain w where w: "retryables_ok tree_hash demo_rs {1, 2} 100 w"
    "queue_room tree_hash (rs_TimeoutQueue tree_hash demo_rs) 100 w = 99" using demo_ret_start by blast
  show ?thesis
    using retryable_round_trip [OF w(1), of 1 0 "[1, 2]" 500 7 None 8 400] by (simp add: w(2) twoToThe256_def) blast
qed


lemma windows_match_queue_witness:
  "\<exists>w w' r. InitializeRetryableState tree_hash (rs_retryables demo_rs) demo_world = (Ok (), w)
    \<and> CreateRetryable tree_hash demo_rs 1 500 7 None 0 8 [1, 2] w = (Ok r, w')
    \<and> entries_match (tickets_of tree_hash demo_rs {1, 2} w')"
proof -
  obtain w where w: "InitializeRetryableState tree_hash (rs_retryables demo_rs) demo_world = (Ok (), w)"
    "retryables_ok tree_hash demo_rs {1, 2} 100 w" "tickets_of tree_hash demo_rs {1, 2} w = no_tickets"
    "queue_room tree_hash (rs_TimeoutQueue tree_hash demo_rs) 100 w = 99" using demo_ret_start by blast
  have "\<exists>w'. CreateRetryable tree_hash demo_rs 1 500 7 None 0 8 [1, 2] w = (Ok (ticket tree_hash demo_rs 1), w')
    \<and> retryables_ok tree_hash demo_rs {1, 2} 100 w' \<and> tickets_of tree_hash demo_rs {1, 2} w' = create_ticket 1 500 (tickets_of tree_hash demo_rs {1, 2} w)
    \<and> holds_ticket tree_hash demo_rs 1 7 None 0 8 [1, 2] w' \<and> slot_read w' (tword tree_hash demo_rs 1 0) = 0
    \<and> balance_of w' = balance_of w"
    by (rule CreateRetryable_run [OF w(2)]) (simp_all add: w(4) twoToThe256_def)
  then obtain w' where c: "CreateRetryable tree_hash demo_rs 1 500 7 None 0 8 [1, 2] w = (Ok (ticket tree_hash demo_rs 1), w')" by blast
  have "queue_items tree_hash (rs_TimeoutQueue tree_hash demo_rs) w = []"
    using arg_cong [OF w(3), of tk_queue] by (simp add: tickets_of_def no_tickets_def)
  then have "ret_step tree_hash demo_rs {1, 2} 100 demo_evm TracingBeforeEVM w w'"
    by (intro ret_step.create [OF c]) (simp_all add: w(4) twoToThe256_def)
  then have "(ret_step tree_hash demo_rs {1, 2} 100 demo_evm TracingBeforeEVM)\<^sup>*\<^sup>* w w'" by blast
  from windows_match_queue [OF w(1) this demo_ret_layout _ _ _ _ _ demo_funds_ok demo_evm_ok] w(1) c show ?thesis by auto
qed

lemma expired_tickets_are_reaped_witness:
  "\<exists>w w'. repeat_op 1 (TryToReapOneRetryable tree_hash demo_rs 501 demo_evm TracingBeforeEVM) w = (Ok (), w')
    \<and> queue_items tree_hash (rs_TimeoutQueue tree_hash demo_rs) w = [1] \<and> fst (OpenRetryable tree_hash demo_rs 1 400 w') = Ok None"
proof -
  obtain w where w: "retryables_ok tree_hash demo_rs {1, 2} 100 w" "funds_ok w"
    "tickets_of tree_hash demo_rs {1, 2} w = create_ticket 1 500 no_tickets" using demo_ret_created by blast
  have q: "queue_items tree_hash (rs_TimeoutQueue tree_hash demo_rs) w = [1]"
    using arg_cong [OF w(3), of tk_queue] by (simp add: tickets_of_def create_ticket_def no_tickets_def)
  have e: "entries_match (tickets_of tree_hash demo_rs {1, 2} w)" "all_expired 501 (tickets_of tree_hash demo_rs {1, 2} w)"
    unfolding w(3) by (rule entries_match_create [OF entries_match_none], simp add: no_tickets_def)
      (simp add: all_expired_def create_ticket_def no_tickets_def)
  from expired_tickets_are_reaped [OF w(1,2) e demo_evm_ok] show ?thesis unfolding q using q by fastforce
qed

end
