(* ===== verification/GasConstraints.thy ===== *)
theory GasConstraints
  imports Layout
begin

text \<open>
  The gas constraints of the L2 pricer: \<^verbatim>\<open>arbos/l2pricing/gas_constraint.go\<close> (target, adjustment
  window and backlog of one resource), \<^verbatim>\<open>multi_gas_constraint.go\<close> (a constraint on a weighted
  sum of resource kinds) and \<^verbatim>\<open>multi_gas_fees.go\<close> (the base fee per resource kind of the
  current and of the next block). A constraint is handled through its storage space.
\<close>

section \<open>Single-gas constraints\<close>

definition gc_target :: "(bytes \<Rightarrow> bytes) \<Rightarrow> Storage \<Rightarrow> StorageSlot" where
  "gc_target H c = NewSlot H c 0"

definition gc_adjustmentWindow :: "(bytes \<Rightarrow> bytes) \<Rightarrow> Storage \<Rightarrow> StorageSlot" where
  "gc_adjustmentWindow H c = NewSlot H c 1"

definition gc_backlog :: "(bytes \<Rightarrow> bytes) \<Rightarrow> Storage \<Rightarrow> StorageSlot" where
  "gc_backlog H c = NewSlot H c 2"

definition GasConstraint_Clear :: "(bytes \<Rightarrow> bytes) \<Rightarrow> Storage \<Rightarrow> (world, unit) op" where
  "GasConstraint_Clear H c =
     bnd (StorageBackedUint64_Clear (gc_target H c)) (\<lambda>_.
     bnd (StorageBackedUint64_Clear (gc_adjustmentWindow H c)) (\<lambda>_.
     StorageBackedUint64_Clear (gc_backlog H c)))"

definition GasConstraint_Target :: "(bytes \<Rightarrow> bytes) \<Rightarrow> Storage \<Rightarrow> (world, u64) op" where
  "GasConstraint_Target H c = StorageBackedUint64_Get (gc_target H c)"

definition GasConstraint_SetTarget :: "(bytes \<Rightarrow> bytes) \<Rightarrow> Storage \<Rightarrow> u64 \<Rightarrow> (world, unit) op" where
  "GasConstraint_SetTarget H c val = StorageBackedUint64_Set (gc_target H c) val"

definition GasConstraint_AdjustmentWindow :: "(bytes \<Rightarrow> bytes) \<Rightarrow> Storage \<Rightarrow> (world, u64) op" where
  "GasConstraint_AdjustmentWindow H c = StorageBackedUint64_Get (gc_adjustmentWindow H c)"

definition GasConstraint_SetAdjustmentWindow :: "(bytes \<Rightarrow> bytes) \<Rightarrow> Storage \<Rightarrow> u64 \<Rightarrow> (world, unit) op" where
  "GasConstraint_SetAdjustmentWindow H c val = StorageBackedUint64_Set (gc_adjustmentWindow H c) val"

definition GasConstraint_Backlog :: "(bytes \<Rightarrow> bytes) \<Rightarrow> Storage \<Rightarrow> (world, u64) op" where
  "GasConstraint_Backlog H c = StorageBackedUint64_Get (gc_backlog H c)"

definition GasConstraint_SetBacklog :: "(bytes \<Rightarrow> bytes) \<Rightarrow> Storage \<Rightarrow> u64 \<Rightarrow> (world, unit) op" where
  "GasConstraint_SetBacklog H c val = StorageBackedUint64_Set (gc_backlog H c) val"

section \<open>Backlogs\<close>

datatype BacklogOperation = Shrink | Grow

definition applyGasDelta :: "BacklogOperation \<Rightarrow> u64 \<Rightarrow> u64 \<Rightarrow> u64" where
  "applyGasDelta op1 backlog delta = (case op1 of
      Grow \<Rightarrow> SaturatingUAdd backlog delta
    | Shrink \<Rightarrow> SaturatingUSub backlog delta)"

section \<open>Multi-gas constraints\<close>

definition NumResourceKind :: nat where
  "NumResourceKind = 9"

definition CheckResourceKind :: "u8 \<Rightarrow> (world, ResourceKind) op" where
  "CheckResourceKind k =
     (if 0 < k \<and> unat k < NumResourceKind then ret (all_kinds ! unat k)
      else throw (ErrMsg ''invalid resource kind''))"

definition mgc_target :: "(bytes \<Rightarrow> bytes) \<Rightarrow> Storage \<Rightarrow> StorageSlot" where
  "mgc_target H c = NewSlot H c 0"

definition mgc_adjustmentWindow :: "(bytes \<Rightarrow> bytes) \<Rightarrow> Storage \<Rightarrow> StorageSlot" where
  "mgc_adjustmentWindow H c = NewSlot H c 1"

definition mgc_backlog :: "(bytes \<Rightarrow> bytes) \<Rightarrow> Storage \<Rightarrow> StorageSlot" where
  "mgc_backlog H c = NewSlot H c 2"

definition mgc_maxWeight :: "(bytes \<Rightarrow> bytes) \<Rightarrow> Storage \<Rightarrow> StorageSlot" where
  "mgc_maxWeight H c = NewSlot H c 3"

definition mgc_weightedResources :: "(bytes \<Rightarrow> bytes) \<Rightarrow> Storage \<Rightarrow> nat \<Rightarrow> StorageSlot" where
  "mgc_weightedResources H c i = NewSlot H c (4 + of_nat i)"

definition MultiGasConstraint_Clear :: "(bytes \<Rightarrow> bytes) \<Rightarrow> Storage \<Rightarrow> (world, unit) op" where
  "MultiGasConstraint_Clear H c =
     bnd (StorageBackedUint64_Clear (mgc_target H c)) (\<lambda>_.
     bnd (StorageBackedUint32_Clear (mgc_adjustmentWindow H c)) (\<lambda>_.
     bnd (StorageBackedUint64_Clear (mgc_backlog H c)) (\<lambda>_.
     bnd (StorageBackedUint64_Clear (mgc_maxWeight H c)) (\<lambda>_.
     for_each [0..<NumResourceKind] (\<lambda>i. StorageBackedUint64_Clear (mgc_weightedResources H c i))))))"

text \<open>A Go map from \<^verbatim>\<open>uint8\<close> to \<^verbatim>\<open>uint64\<close>; reading an absent key gives 0.\<close>

definition MultiGasConstraint_SetResourceWeights ::
  "(bytes \<Rightarrow> bytes) \<Rightarrow> Storage \<Rightarrow> (u8 \<rightharpoonup> u64) \<Rightarrow> (world, unit) op" where
  "MultiGasConstraint_SetResourceWeights H c weights =
     bnd (for_each (filter (\<lambda>k. weights (of_nat k) \<noteq> None) [0..<256]) (\<lambda>k.
            bnd (CheckResourceKind (of_nat k)) (\<lambda>_. ret ()))) (\<lambda>_.
     bnd (fold_op (\<lambda>i maxWeight.
            let weight = (case weights (of_nat i) of None \<Rightarrow> 0 | Some v \<Rightarrow> v)
            in bnd (StorageBackedUint64_Set (mgc_weightedResources H c i) weight) (\<lambda>_.
               ret (if weight > maxWeight then weight else maxWeight)))
          [0..<NumResourceKind] 0) (\<lambda>maxWeight.
     StorageBackedUint64_Set (mgc_maxWeight H c) maxWeight))"

definition MultiGasConstraint_Target :: "(bytes \<Rightarrow> bytes) \<Rightarrow> Storage \<Rightarrow> (world, u64) op" where
  "MultiGasConstraint_Target H c = StorageBackedUint64_Get (mgc_target H c)"

definition MultiGasConstraint_SetTarget :: "(bytes \<Rightarrow> bytes) \<Rightarrow> Storage \<Rightarrow> u64 \<Rightarrow> (world, unit) op" where
  "MultiGasConstraint_SetTarget H c v = StorageBackedUint64_Set (mgc_target H c) v"

definition MultiGasConstraint_AdjustmentWindow :: "(bytes \<Rightarrow> bytes) \<Rightarrow> Storage \<Rightarrow> (world, u32) op" where
  "MultiGasConstraint_AdjustmentWindow H c = StorageBackedUint32_Get (mgc_adjustmentWindow H c)"

definition MultiGasConstraint_SetAdjustmentWindow :: "(bytes \<Rightarrow> bytes) \<Rightarrow> Storage \<Rightarrow> u32 \<Rightarrow> (world, unit) op" where
  "MultiGasConstraint_SetAdjustmentWindow H c v = StorageBackedUint32_Set (mgc_adjustmentWindow H c) v"

definition MultiGasConstraint_Backlog :: "(bytes \<Rightarrow> bytes) \<Rightarrow> Storage \<Rightarrow> (world, u64) op" where
  "MultiGasConstraint_Backlog H c = StorageBackedUint64_Get (mgc_backlog H c)"

definition MultiGasConstraint_SetBacklog :: "(bytes \<Rightarrow> bytes) \<Rightarrow> Storage \<Rightarrow> u64 \<Rightarrow> (world, unit) op" where
  "MultiGasConstraint_SetBacklog H c v = StorageBackedUint64_Set (mgc_backlog H c) v"

definition MultiGasConstraint_updateBacklog ::
  "(bytes \<Rightarrow> bytes) \<Rightarrow> Storage \<Rightarrow> BacklogOperation \<Rightarrow> MultiGas \<Rightarrow> (world, unit) op" where
  "MultiGasConstraint_updateBacklog H c op1 multiGas =
     bnd (StorageBackedUint64_Get (mgc_backlog H c)) (\<lambda>backlog.
     bnd (fold_op (\<lambda>i totalBacklog.
            bnd (StorageBackedUint64_Get (mgc_weightedResources H c i)) (\<lambda>weight.
            if weight = 0 then ret totalBacklog
            else let resourceAmount = mg_gas multiGas (all_kinds ! i);
                     weightedAmount = SaturatingUMul resourceAmount weight
                 in ret (applyGasDelta op1 totalBacklog weightedAmount)))
          [0..<NumResourceKind] backlog) (\<lambda>totalBacklog.
     MultiGasConstraint_SetBacklog H c totalBacklog))"

definition MultiGasConstraint_GrowBacklog ::
  "(bytes \<Rightarrow> bytes) \<Rightarrow> Storage \<Rightarrow> MultiGas \<Rightarrow> (world, unit) op" where
  "MultiGasConstraint_GrowBacklog H c multiGas = MultiGasConstraint_updateBacklog H c Grow multiGas"

definition MultiGasConstraint_ShrinkBacklog ::
  "(bytes \<Rightarrow> bytes) \<Rightarrow> Storage \<Rightarrow> MultiGas \<Rightarrow> (world, unit) op" where
  "MultiGasConstraint_ShrinkBacklog H c multiGas = MultiGasConstraint_updateBacklog H c Shrink multiGas"

definition MultiGasConstraint_ResourceWeight :: "(bytes \<Rightarrow> bytes) \<Rightarrow> Storage \<Rightarrow> u8 \<Rightarrow> (world, u64) op" where
  "MultiGasConstraint_ResourceWeight H c kind =
     bnd (CheckResourceKind kind) (\<lambda>_. StorageBackedUint64_Get (mgc_weightedResources H c (unat kind)))"

definition MultiGasConstraint_MaxWeight :: "(bytes \<Rightarrow> bytes) \<Rightarrow> Storage \<Rightarrow> (world, u64) op" where
  "MultiGasConstraint_MaxWeight H c = StorageBackedUint64_Get (mgc_maxWeight H c)"

definition MultiGasConstraint_GetResourceWeights :: "(bytes \<Rightarrow> bytes) \<Rightarrow> Storage \<Rightarrow> (world, u64 list) op" where
  "MultiGasConstraint_GetResourceWeights H c =
     collect [0..<NumResourceKind] (\<lambda>i. StorageBackedUint64_Get (mgc_weightedResources H c i))"

definition MultiGasConstraint_UsedResources :: "(bytes \<Rightarrow> bytes) \<Rightarrow> Storage \<Rightarrow> (world, nat list) op" where
  "MultiGasConstraint_UsedResources H c =
     fold_op (\<lambda>i used.
       bnd (StorageBackedUint64_Get (mgc_weightedResources H c i)) (\<lambda>weight.
       ret (if weight \<noteq> 0 then used @ [i] else used)))
     [0..<NumResourceKind] []"

section \<open>Fees per resource kind\<close>

definition mgf_next :: "(bytes \<Rightarrow> bytes) \<Rightarrow> Storage \<Rightarrow> nat \<Rightarrow> StorageSlot" where
  "mgf_next H bf kind = NewSlot H bf (of_nat kind)"

definition mgf_current :: "(bytes \<Rightarrow> bytes) \<Rightarrow> Storage \<Rightarrow> nat \<Rightarrow> StorageSlot" where
  "mgf_current H bf kind = NewSlot H bf (of_nat (NumResourceKind + kind))"

definition MultiGasFees_GetCurrentBlockFee :: "(bytes \<Rightarrow> bytes) \<Rightarrow> Storage \<Rightarrow> nat \<Rightarrow> (world, int) op" where
  "MultiGasFees_GetCurrentBlockFee H bf kind = StorageBackedBigInt_Get (mgf_current H bf kind)"

definition MultiGasFees_GetNextBlockFee :: "(bytes \<Rightarrow> bytes) \<Rightarrow> Storage \<Rightarrow> nat \<Rightarrow> (world, int) op" where
  "MultiGasFees_GetNextBlockFee H bf kind = StorageBackedBigInt_Get (mgf_next H bf kind)"

definition MultiGasFees_SetNextBlockFee :: "(bytes \<Rightarrow> bytes) \<Rightarrow> Storage \<Rightarrow> nat \<Rightarrow> int \<Rightarrow> (world, unit) op" where
  "MultiGasFees_SetNextBlockFee H bf kind v = StorageBackedBigInt_SetChecked (mgf_next H bf kind) v"

definition MultiGasFees_CommitNextToCurrent :: "(bytes \<Rightarrow> bytes) \<Rightarrow> Storage \<Rightarrow> (world, unit) op" where
  "MultiGasFees_CommitNextToCurrent H bf =
     for_each [0..<NumResourceKind] (\<lambda>i.
       bnd (StorageBackedBigInt_Get (mgf_next H bf i)) (\<lambda>cur.
       StorageBackedBigInt_SetChecked (mgf_current H bf i) cur))"

end
