(* ===== verification/ApproxExp.thy ===== *)
theory ApproxExp
  imports ArbMath Complex_Main
begin

text \<open>
  Accuracy of \<open>ApproxExpBasisPoints\<close> (\<^verbatim>\<open>util/arbmath/math.go\<close>) at the degree the pricing
  models use: on non-negative inputs it returns, never falls below one (10000 basis points)
  and never exceeds the true exponential. The integer Horner scheme is compared with the same
  scheme over the reals, round by round.
\<close>

section \<open>The Horner scheme over the reals\<close>

text \<open>The Horner polynomial the loop evaluates, over the reals: after \<open>i\<close> more rounds from \<open>r\<close>.\<close>

primrec horner_bips :: "nat \<Rightarrow> real \<Rightarrow> real \<Rightarrow> real" where
  "horner_bips 0 x r = r"
| "horner_bips (Suc i) x r = horner_bips i x (10000 + r * x / (real (Suc i) * 10000))"

lemma horner_bips_mono:
  "0 \<le> x \<Longrightarrow> r \<le> r' \<Longrightarrow> horner_bips i x r \<le> horner_bips i x r'"
  by (induction i arbitrary: r r') (simp_all add: mult_right_mono divide_right_mono)

lemma ApproxExp_round:
  assumes "i \<le> 1000"
  obtains q where "goDivU (SaturatingUMul r x) (of_nat (Suc i) * 10000 :: u64) s = (Ok q, s)"
    and "unat (10000 + q) = 10000 + unat q"
    and "real (unat q) \<le> real (unat r) * real (unat x) / (real (Suc i) * 10000)"
proof -
  define d :: u64 where "d = of_nat (Suc i) * 10000"
  define q where "q = SaturatingUMul r x div d"
  have ud: "unat d = Suc i * 10000"
    using assms by (simp add: d_def unat_word_ariths unat_of_nat)
  then have "d \<noteq> 0" by auto
  have uq: "unat q = min (unat r * unat x) (2 ^ 64 - 1) div (Suc i * 10000)"
    unfolding q_def unat_div ud SaturatingUMul_unat by simp
  have "unat q \<le> (2 ^ 64 - 1) div (Suc i * 10000)"
    unfolding uq by (intro div_le_mono) simp
  also have "\<dots> \<le> (2 ^ 64 - 1) div 10000" by (intro div_le_mono2) auto
  finally have "unat (10000 + q) = 10000 + unat q"
    by (simp add: unat_word_ariths)
  moreover have "real (unat q) \<le> real (unat r) * real (unat x) / (real (Suc i) * 10000)"
  proof -
    have "unat q \<le> unat r * unat x div (Suc i * 10000)"
      unfolding uq by (intro div_le_mono) simp
    then have "real (unat q) \<le> real (unat r * unat x div (Suc i * 10000))"
      by (rule of_nat_mono)
    also have "\<dots> \<le> real (unat r * unat x) / real (Suc i * 10000)"
      by (rule of_nat_div_le_of_nat)
    finally show ?thesis by (simp only: of_nat_mult of_nat_numeral)
  qed
  moreover have "goDivU (SaturatingUMul r x) d s = (Ok q, s)"
    unfolding q_def by (rule goDivU_run [OF \<open>d \<noteq> 0\<close>])
  ultimately show thesis using that unfolding d_def by blast
qed

lemma ApproxExp_loop_run:
  assumes "i \<le> 1000" and "10000 \<le> unat r"
  shows "\<exists>r'. ApproxExp_loop i x 10000 r s = (Ok r', s) \<and> 10000 \<le> unat r'
           \<and> real (unat r') \<le> horner_bips i (real (unat x)) (real (unat r))"
  using assms
proof (induction i arbitrary: r)
  case 0
  then show ?case by (simp add: op_simps)
next
  case (Suc i)
  then have "i \<le> 1000" by simp
  then obtain q where q: "goDivU (SaturatingUMul r x) (of_nat (Suc i) * 10000 :: u64) s = (Ok q, s)"
    "unat (10000 + q) = 10000 + unat q"
    "real (unat q) \<le> real (unat r) * real (unat x) / (real (Suc i) * 10000)"
    by (rule ApproxExp_round)
  obtain r' where r': "ApproxExp_loop i x 10000 (10000 + q) s = (Ok r', s)" "10000 \<le> unat r'"
      "real (unat r') \<le> horner_bips i (real (unat x)) (real (unat (10000 + q)))"
    using Suc.IH [of "10000 + q"] \<open>i \<le> 1000\<close> q(2) by auto
  note r'(3)
  also have "horner_bips i (real (unat x)) (real (unat (10000 + q)))
      \<le> horner_bips (Suc i) (real (unat x)) (real (unat r))"
    unfolding horner_bips.simps q(2) using q(3)
    by (intro horner_bips_mono of_nat_0_le_iff) simp
  finally show ?case
    using r'(1,2) q(1) by (simp add: bnd_def del: of_nat_Suc)
qed

lemma exp_taylor4_le:
  fixes y :: real
  assumes "0 \<le> y"
  shows "1 + y * (1 + y / 2 * (1 + y / 3 * (1 + y / 4))) \<le> exp y"
proof -
  have s: "summable (\<lambda>n. inverse (fact n) * y ^ n)" by (rule summable_exp)
  have "(\<Sum>n<5. inverse (fact n) * y ^ n) \<le> (\<Sum>n. inverse (fact n) * y ^ n)"
    using assms by (intro sum_le_suminf s) auto
  also have "\<dots> = exp y"
    by (simp add: exp_def scaleR_conv_of_real field_simps)
  finally show ?thesis
    by (simp add: numeral_eq_Suc lessThan_Suc field_simps)
qed

lemma horner_bips_exp:
  assumes "0 \<le> x"
  shows "horner_bips 3 x (10000 + x / 4) \<le> 10000 * exp (x / 10000)"
proof -
  let ?y = "x / 10000"
  have "horner_bips 3 x (10000 + x / 4) = 10000 * (1 + ?y * (1 + ?y / 2 * (1 + ?y / 3 * (1 + ?y / 4))))"
    by (simp add: numeral_3_eq_3 field_simps)
  also have "\<dots> \<le> 10000 * exp ?y"
    using assms by (intro mult_left_mono exp_taylor4_le) auto
  finally show ?thesis .
qed

lemma ApproxExpBasisPoints_nonneg:
  assumes "0 \<le> v" and "v < 2 ^ 63"
  shows "\<exists>r. ApproxExpBasisPoints v 4 s = (Ok r, s) \<and> OneInBips \<le> r \<and> r < 2 ^ 63
           \<and> real_of_int r \<le> 10000 * exp (real_of_int v / 10000)"
proof -
  let ?x = "word_of_int v :: u64"
  have ux: "uint ?x = v" using assms by (simp add: uint_word_of_int)
  have nx: "unat ?x = nat v" using ux by (metis unat_eq_nat_uint)
  have uq: "unat (?x div 4) = nat v div 4" by (simp add: unat_div nx)
  have ur: "unat (10000 + ?x div 4) = 10000 + nat v div 4"
    using assms uq by (simp add: unat_word_ariths(1) del: unat_div)
  obtain r where r: "ApproxExp_loop 3 ?x 10000 (10000 + ?x div 4) s = (Ok r, s)" "10000 \<le> unat r"
      "real (unat r) \<le> horner_bips 3 (real (unat ?x)) (real (unat (10000 + ?x div 4)))"
    using ApproxExp_loop_run [of 3 "10000 + ?x div 4" ?x s] by (auto simp: ur)
  have "real (unat (10000 + ?x div 4)) \<le> 10000 + real_of_int v / 4"
    using assms(1) of_nat_div_le_of_nat [of "nat v" 4] by (simp add: ur)
  then have "horner_bips 3 (real (unat ?x)) (real (unat (10000 + ?x div 4)))
      \<le> horner_bips 3 (real_of_int v) (10000 + real_of_int v / 4)"
    using assms(1) by (simp add: nx horner_bips_mono)
  with r(3) have "real (unat r) \<le> 10000 * exp (real_of_int v / 10000)"
    using horner_bips_exp [of "real_of_int v"] assms(1) by linarith
  moreover have "SaturatingCast 64 r \<le> uint r" by (simp add: SaturatingCast_min)
  then have "real_of_int (SaturatingCast 64 r) \<le> real_of_int (uint r)"
    by (simp only: of_int_le_iff)
  moreover have "real_of_int (uint r) = real (unat r)" by simp
  ultimately have "real_of_int (SaturatingCast 64 r) \<le> 10000 * exp (real_of_int v / 10000)"
    by linarith
  moreover have "ApproxExpBasisPoints v 4 s = (Ok (SaturatingCast 64 r), s)"
    using assms(1) r(1) goDivU_run [of 4 ?x s]
    by (simp add: ApproxExpBasisPoints_def OneInBips_def Let_def op_simps)
  moreover have "int 10000 \<le> int (unat r)" using r(2) by (simp only: of_nat_le_iff)
  then have "OneInBips \<le> SaturatingCast 64 r \<and> SaturatingCast 64 r < 2 ^ 63"
    by (auto simp: SaturatingCast_min OneInBips_def min_def)
  ultimately show ?thesis by blast
qed

section \<open>Property\<close>



end
