(* ===== verification/L2Pricing.thy ===== *)
theory L2Pricing
  imports GasConstraints ApproxExp
begin

text \<open>
  The L2 gas pricer (\<^verbatim>\<open>arbos/l2pricing/l2pricing.go\<close>, \<^verbatim>\<open>model.go\<close>). The pricer state is a storage
  space and the ArbOS version; its words are the parameters of the legacy model, its
  sub-spaces the two vectors of constraints and the fees per resource kind. The definitions
  follow the three models (legacy, single-gas constraints, multi-gas constraints): which one is
  in use, how executed gas changes the backlogs, and how the base fee follows from them. Texts of
  error messages are kept without their numeric arguments.
\<close>

section \<open>State\<close>

record L2PricingState =
  ps_storage :: Storage
  ps_ArbosVersion :: u64

definition ArbosVersion_SingleGasConstraintsVersion :: u64 where
  "ArbosVersion_SingleGasConstraintsVersion = 50"

definition ArbosVersion_MultiConstraintFix :: u64 where
  "ArbosVersion_MultiConstraintFix = 51"

definition ArbosVersion_MultiGasConstraintsVersion :: u64 where
  "ArbosVersion_MultiGasConstraintsVersion = 60"

definition ArbosVersion_MultiGasRefundFix :: u64 where
  "ArbosVersion_MultiGasRefundFix = 61"

lemmas arbos_versions = ArbosVersion_SingleGasConstraintsVersion_def ArbosVersion_MultiConstraintFix_def
  ArbosVersion_MultiGasConstraintsVersion_def ArbosVersion_MultiGasRefundFix_def

definition InitialSpeedLimitPerSecondV0 :: u64 where
  "InitialSpeedLimitPerSecondV0 = 1000000"

definition InitialPerBlockGasLimitV0 :: u64 where
  "InitialPerBlockGasLimitV0 = 20 * 1000000"

definition InitialSpeedLimitPerSecondV6 :: u64 where
  "InitialSpeedLimitPerSecondV6 = 7000000"

definition InitialPerBlockGasLimitV6 :: u64 where
  "InitialPerBlockGasLimitV6 = 32 * 1000000"

definition InitialMinimumBaseFeeWei :: u64 where
  "InitialMinimumBaseFeeWei = 1000000000 div 10"

definition InitialBaseFeeWei :: u64 where
  "InitialBaseFeeWei = InitialMinimumBaseFeeWei"

definition InitialPricingInertia :: u64 where
  "InitialPricingInertia = 102"

definition InitialBacklogTolerance :: u64 where
  "InitialBacklogTolerance = 10"

definition InitialPerTxGasLimitV50 :: u64 where
  "InitialPerTxGasLimitV50 = 32 * 1000000"

definition MultiConstraintStaticBacklogUpdateCost :: u64 where
  "MultiConstraintStaticBacklogUpdateCost = StorageReadCost + StorageWriteCost"

definition GasConstraintsMaxNum :: nat where
  "GasConstraintsMaxNum = 20"

definition MaxPricingExponentBips :: int where
  "MaxPricingExponentBips = 85000"

definition ps_word :: "(bytes \<Rightarrow> bytes) \<Rightarrow> L2PricingState \<Rightarrow> nat \<Rightarrow> StorageSlot" where
  "ps_word H ps i = NewSlot H (ps_storage ps) (of_nat i)"

abbreviation ps_speedLimitPerSecond where "ps_speedLimitPerSecond H ps \<equiv> ps_word H ps 0"
abbreviation ps_perBlockGasLimit where "ps_perBlockGasLimit H ps \<equiv> ps_word H ps 1"
abbreviation ps_baseFeeWei where "ps_baseFeeWei H ps \<equiv> ps_word H ps 2"
abbreviation ps_minBaseFeeWei where "ps_minBaseFeeWei H ps \<equiv> ps_word H ps 3"
abbreviation ps_gasBacklog where "ps_gasBacklog H ps \<equiv> ps_word H ps 4"
abbreviation ps_pricingInertia where "ps_pricingInertia H ps \<equiv> ps_word H ps 5"
abbreviation ps_backlogTolerance where "ps_backlogTolerance H ps \<equiv> ps_word H ps 6"
abbreviation ps_perTxGasLimit where "ps_perTxGasLimit H ps \<equiv> ps_word H ps 7"

definition ps_gasConstraints :: "(bytes \<Rightarrow> bytes) \<Rightarrow> L2PricingState \<Rightarrow> Storage" where
  "ps_gasConstraints H ps = OpenSubStorage H (ps_storage ps) [0]"

definition ps_multiGasConstraints :: "(bytes \<Rightarrow> bytes) \<Rightarrow> L2PricingState \<Rightarrow> Storage" where
  "ps_multiGasConstraints H ps = OpenSubStorage H (ps_storage ps) [1]"

definition ps_multiGasFees :: "(bytes \<Rightarrow> bytes) \<Rightarrow> L2PricingState \<Rightarrow> Storage" where
  "ps_multiGasFees H ps = OpenSubStorage H (ps_storage ps) [2]"

definition OpenL2PricingState :: "Storage \<Rightarrow> u64 \<Rightarrow> L2PricingState" where
  "OpenL2PricingState sto arbosVersion = \<lparr>ps_storage = sto, ps_ArbosVersion = arbosVersion\<rparr>"

definition InitializeL2PricingState :: "(bytes \<Rightarrow> bytes) \<Rightarrow> Storage \<Rightarrow> (world, unit) op" where
  "InitializeL2PricingState H sto =
     bnd (ignore (Storage_SetUint64ByUint64 H sto 0 InitialSpeedLimitPerSecondV0)) (\<lambda>_.
     bnd (ignore (Storage_SetUint64ByUint64 H sto 1 InitialPerBlockGasLimitV0)) (\<lambda>_.
     bnd (ignore (Storage_SetUint64ByUint64 H sto 2 InitialBaseFeeWei)) (\<lambda>_.
     bnd (ignore (Storage_SetUint64ByUint64 H sto 4 0)) (\<lambda>_.
     bnd (ignore (Storage_SetUint64ByUint64 H sto 5 InitialPricingInertia)) (\<lambda>_.
     bnd (ignore (Storage_SetUint64ByUint64 H sto 6 InitialBacklogTolerance)) (\<lambda>_.
     Storage_SetUint64ByUint64 H sto 3 InitialMinimumBaseFeeWei))))))"

definition L2_BaseFeeWei :: "(bytes \<Rightarrow> bytes) \<Rightarrow> L2PricingState \<Rightarrow> (world, int) op" where
  "L2_BaseFeeWei H ps = StorageBackedBigUint_Get (ps_baseFeeWei H ps)"

definition L2_SetBaseFeeWei :: "(bytes \<Rightarrow> bytes) \<Rightarrow> L2PricingState \<Rightarrow> int \<Rightarrow> (world, unit) op" where
  "L2_SetBaseFeeWei H ps val = StorageBackedBigUint_SetSaturatingWithWarning (ps_baseFeeWei H ps) val"

definition L2_MinBaseFeeWei :: "(bytes \<Rightarrow> bytes) \<Rightarrow> L2PricingState \<Rightarrow> (world, int) op" where
  "L2_MinBaseFeeWei H ps = StorageBackedBigUint_Get (ps_minBaseFeeWei H ps)"

definition L2_SetMinBaseFeeWei :: "(bytes \<Rightarrow> bytes) \<Rightarrow> L2PricingState \<Rightarrow> int \<Rightarrow> (world, unit) op" where
  "L2_SetMinBaseFeeWei H ps val = StorageBackedBigUint_SetChecked (ps_minBaseFeeWei H ps) val"

definition L2_SpeedLimitPerSecond :: "(bytes \<Rightarrow> bytes) \<Rightarrow> L2PricingState \<Rightarrow> (world, u64) op" where
  "L2_SpeedLimitPerSecond H ps = StorageBackedUint64_Get (ps_speedLimitPerSecond H ps)"

definition L2_SetSpeedLimitPerSecond :: "(bytes \<Rightarrow> bytes) \<Rightarrow> L2PricingState \<Rightarrow> u64 \<Rightarrow> (world, unit) op" where
  "L2_SetSpeedLimitPerSecond H ps limit = StorageBackedUint64_Set (ps_speedLimitPerSecond H ps) limit"

definition L2_PerBlockGasLimit :: "(bytes \<Rightarrow> bytes) \<Rightarrow> L2PricingState \<Rightarrow> (world, u64) op" where
  "L2_PerBlockGasLimit H ps = StorageBackedUint64_Get (ps_perBlockGasLimit H ps)"

definition L2_SetMaxPerBlockGasLimit :: "(bytes \<Rightarrow> bytes) \<Rightarrow> L2PricingState \<Rightarrow> u64 \<Rightarrow> (world, unit) op" where
  "L2_SetMaxPerBlockGasLimit H ps limit = StorageBackedUint64_Set (ps_perBlockGasLimit H ps) limit"

definition L2_PerTxGasLimit :: "(bytes \<Rightarrow> bytes) \<Rightarrow> L2PricingState \<Rightarrow> (world, u64) op" where
  "L2_PerTxGasLimit H ps = StorageBackedUint64_Get (ps_perTxGasLimit H ps)"

definition L2_SetMaxPerTxGasLimit :: "(bytes \<Rightarrow> bytes) \<Rightarrow> L2PricingState \<Rightarrow> u64 \<Rightarrow> (world, unit) op" where
  "L2_SetMaxPerTxGasLimit H ps limit = StorageBackedUint64_Set (ps_perTxGasLimit H ps) limit"

definition L2_GasBacklog :: "(bytes \<Rightarrow> bytes) \<Rightarrow> L2PricingState \<Rightarrow> (world, u64) op" where
  "L2_GasBacklog H ps = StorageBackedUint64_Get (ps_gasBacklog H ps)"

definition L2_SetGasBacklog :: "(bytes \<Rightarrow> bytes) \<Rightarrow> L2PricingState \<Rightarrow> u64 \<Rightarrow> (world, unit) op" where
  "L2_SetGasBacklog H ps backlog = StorageBackedUint64_Set (ps_gasBacklog H ps) backlog"

definition L2_PricingInertia :: "(bytes \<Rightarrow> bytes) \<Rightarrow> L2PricingState \<Rightarrow> (world, u64) op" where
  "L2_PricingInertia H ps = StorageBackedUint64_Get (ps_pricingInertia H ps)"

definition L2_SetPricingInertia :: "(bytes \<Rightarrow> bytes) \<Rightarrow> L2PricingState \<Rightarrow> u64 \<Rightarrow> (world, unit) op" where
  "L2_SetPricingInertia H ps val = StorageBackedUint64_Set (ps_pricingInertia H ps) val"

definition L2_BacklogTolerance :: "(bytes \<Rightarrow> bytes) \<Rightarrow> L2PricingState \<Rightarrow> (world, u64) op" where
  "L2_BacklogTolerance H ps = StorageBackedUint64_Get (ps_backlogTolerance H ps)"

definition L2_SetBacklogTolerance :: "(bytes \<Rightarrow> bytes) \<Rightarrow> L2PricingState \<Rightarrow> u64 \<Rightarrow> (world, unit) op" where
  "L2_SetBacklogTolerance H ps val = StorageBackedUint64_Set (ps_backlogTolerance H ps) val"

section \<open>Vectors of constraints\<close>

definition L2_AddGasConstraint ::
  "(bytes \<Rightarrow> bytes) \<Rightarrow> L2PricingState \<Rightarrow> u64 \<Rightarrow> u64 \<Rightarrow> u64 \<Rightarrow> (world, unit) op" where
  "L2_AddGasConstraint H ps target adjustmentWindow backlog =
     bnd (wrap_err ''failed to push constraint'' (SubStorageVector_Push H (ps_gasConstraints H ps))) (\<lambda>constraint.
     bnd (wrap_err ''failed to set target'' (GasConstraint_SetTarget H constraint target)) (\<lambda>_.
     bnd (wrap_err ''failed to set adjustment window''
            (GasConstraint_SetAdjustmentWindow H constraint adjustmentWindow)) (\<lambda>_.
     wrap_err ''failed to set backlog'' (GasConstraint_SetBacklog H constraint backlog))))"

definition L2_GasConstraintsLength :: "(bytes \<Rightarrow> bytes) \<Rightarrow> L2PricingState \<Rightarrow> (world, u64) op" where
  "L2_GasConstraintsLength H ps = SubStorageVector_Length H (ps_gasConstraints H ps)"

definition L2_OpenGasConstraintAt :: "(bytes \<Rightarrow> bytes) \<Rightarrow> L2PricingState \<Rightarrow> u64 \<Rightarrow> Storage" where
  "L2_OpenGasConstraintAt H ps i = SubStorageVector_At H (ps_gasConstraints H ps) i"

definition L2_ClearGasConstraints :: "(bytes \<Rightarrow> bytes) \<Rightarrow> L2PricingState \<Rightarrow> (world, unit) op" where
  "L2_ClearGasConstraints H ps =
     bnd (L2_GasConstraintsLength H ps) (\<lambda>len.
     repeat_op (unat len)
       (bnd (SubStorageVector_Pop H (ps_gasConstraints H ps)) (GasConstraint_Clear H)))"

definition L2_MultiGasConstraintsLength :: "(bytes \<Rightarrow> bytes) \<Rightarrow> L2PricingState \<Rightarrow> (world, u64) op" where
  "L2_MultiGasConstraintsLength H ps = SubStorageVector_Length H (ps_multiGasConstraints H ps)"

definition L2_OpenMultiGasConstraintAt :: "(bytes \<Rightarrow> bytes) \<Rightarrow> L2PricingState \<Rightarrow> u64 \<Rightarrow> Storage" where
  "L2_OpenMultiGasConstraintAt H ps i = SubStorageVector_At H (ps_multiGasConstraints H ps) i"

definition L2_AddMultiGasConstraint ::
  "(bytes \<Rightarrow> bytes) \<Rightarrow> L2PricingState \<Rightarrow> u64 \<Rightarrow> u32 \<Rightarrow> u64 \<Rightarrow> (u8 \<rightharpoonup> u64) \<Rightarrow> (world, unit) op" where
  "L2_AddMultiGasConstraint H ps target adjustmentWindow backlog weights =
     bnd (wrap_err ''failed to push multi-gas constraint''
            (SubStorageVector_Push H (ps_multiGasConstraints H ps))) (\<lambda>constraint.
     bnd (wrap_err ''failed to set target'' (MultiGasConstraint_SetTarget H constraint target)) (\<lambda>_.
     bnd (wrap_err ''failed to set adjustment window''
            (MultiGasConstraint_SetAdjustmentWindow H constraint adjustmentWindow)) (\<lambda>_.
     bnd (wrap_err ''failed to set backlog'' (MultiGasConstraint_SetBacklog H constraint backlog)) (\<lambda>_.
     wrap_err ''failed to set resource weights'' (MultiGasConstraint_SetResourceWeights H constraint weights)))))"

definition L2_ClearMultiGasConstraints :: "(bytes \<Rightarrow> bytes) \<Rightarrow> L2PricingState \<Rightarrow> (world, unit) op" where
  "L2_ClearMultiGasConstraints H ps =
     bnd (L2_MultiGasConstraintsLength H ps) (\<lambda>len.
     repeat_op (unat len)
       (bnd (SubStorageVector_Pop H (ps_multiGasConstraints H ps)) (MultiGasConstraint_Clear H)))"

definition setGasConstraintsFromLegacy :: "(bytes \<Rightarrow> bytes) \<Rightarrow> L2PricingState \<Rightarrow> (world, unit) op" where
  "setGasConstraintsFromLegacy H ps =
     bnd (L2_ClearGasConstraints H ps) (\<lambda>_.
     bnd (L2_SpeedLimitPerSecond H ps) (\<lambda>target.
     bnd (L2_PricingInertia H ps) (\<lambda>adjustmentWindow.
     bnd (L2_GasBacklog H ps) (\<lambda>oldBacklog.
     bnd (L2_BacklogTolerance H ps) (\<lambda>backlogTolerance.
     let backlog = SaturatingUSub oldBacklog (SaturatingUMul backlogTolerance target)
     in L2_AddGasConstraint H ps target adjustmentWindow backlog)))))"

text \<open>The resource kinds that a converted constraint weighs, by their numbers: all but \<^verbatim>\<open>Unknown\<close>
  and \<^verbatim>\<open>SingleDim\<close>.\<close>

definition equal_weights :: "u8 \<rightharpoonup> u64" where
  "equal_weights k = (if k \<in> {1, 2, 3, 4, 5, 7, 8} then Some 1 else None)"

definition setMultiGasConstraintsFromSingleGasConstraints ::
  "(bytes \<Rightarrow> bytes) \<Rightarrow> L2PricingState \<Rightarrow> (world, unit) op" where
  "setMultiGasConstraintsFromSingleGasConstraints H ps =
     bnd (L2_ClearMultiGasConstraints H ps) (\<lambda>_.
     bnd (L2_GasConstraintsLength H ps) (\<lambda>len.
     for_each (map of_nat [0..<unat len]) (\<lambda>i.
       let c = L2_OpenGasConstraintAt H ps i in
       bnd (wrap_err ''failed to read target from constraint'' (GasConstraint_Target H c)) (\<lambda>target.
       bnd (wrap_err ''failed to read adjustment window from constraint''
              (GasConstraint_AdjustmentWindow H c)) (\<lambda>window.
       bnd (wrap_err ''failed to read backlog from constraint'' (GasConstraint_Backlog H c)) (\<lambda>backlog.
       let adjustmentWindow = (if window > 0xFFFFFFFF then 0xFFFFFFFF else ucast window) in
       wrap_err ''failed to add multi-gas constraint''
         (L2_AddMultiGasConstraint H ps target adjustmentWindow backlog equal_weights)))))))"

section \<open>The pricing models\<close>

datatype GasModel = GasModelUnknown | GasModelLegacy | GasModelSingleGasConstraints | GasModelMultiGasConstraints

definition L2_GasModelToUse :: "(bytes \<Rightarrow> bytes) \<Rightarrow> L2PricingState \<Rightarrow> (world, GasModel) op" where
  "L2_GasModelToUse H ps =
     bnd (if ps_ArbosVersion ps \<ge> ArbosVersion_MultiGasConstraintsVersion
          then bnd (L2_MultiGasConstraintsLength H ps) (\<lambda>constraintsLength. ret (constraintsLength > 0))
          else ret False) (\<lambda>multi.
     if multi then ret GasModelMultiGasConstraints
     else
     bnd (if ps_ArbosVersion ps \<ge> ArbosVersion_SingleGasConstraintsVersion
          then bnd (L2_GasConstraintsLength H ps) (\<lambda>constraintsLength. ret (constraintsLength > 0))
          else ret False) (\<lambda>single.
     if single then ret GasModelSingleGasConstraints
     else ret GasModelLegacy))"

definition updateLegacyBacklog ::
  "(bytes \<Rightarrow> bytes) \<Rightarrow> L2PricingState \<Rightarrow> BacklogOperation \<Rightarrow> u64 \<Rightarrow> (world, unit) op" where
  "updateLegacyBacklog H ps op1 usedGas =
     bnd (L2_GasBacklog H ps) (\<lambda>backlog.
     L2_SetGasBacklog H ps (applyGasDelta op1 backlog usedGas))"

definition updateSingleGasConstraintsBacklogs ::
  "(bytes \<Rightarrow> bytes) \<Rightarrow> L2PricingState \<Rightarrow> BacklogOperation \<Rightarrow> u64 \<Rightarrow> (world, unit) op" where
  "updateSingleGasConstraintsBacklogs H ps op1 usedGas =
     bnd (SubStorageVector_Length H (ps_gasConstraints H ps)) (\<lambda>constraintsLength.
     for_each (map of_nat [0..<unat constraintsLength]) (\<lambda>i.
       let constraint = L2_OpenGasConstraintAt H ps i in
       bnd (GasConstraint_Backlog H constraint) (\<lambda>backlog.
       GasConstraint_SetBacklog H constraint (applyGasDelta op1 backlog usedGas))))"

definition updateMultiGasConstraintsBacklogs ::
  "(bytes \<Rightarrow> bytes) \<Rightarrow> L2PricingState \<Rightarrow> BacklogOperation \<Rightarrow> u64 \<Rightarrow> MultiGas \<Rightarrow> (world, unit) op" where
  "updateMultiGasConstraintsBacklogs H ps op1 usedGas usedMultiGas =
     bnd (SubStorageVector_Length H (ps_multiGasConstraints H ps)) (\<lambda>constraintsLength.
     for_each (map of_nat [0..<unat constraintsLength]) (\<lambda>i.
       MultiGasConstraint_updateBacklog H (L2_OpenMultiGasConstraintAt H ps i) op1 usedMultiGas))"

definition L2_updateBacklog ::
  "(bytes \<Rightarrow> bytes) \<Rightarrow> L2PricingState \<Rightarrow> BacklogOperation \<Rightarrow> u64 \<Rightarrow> MultiGas \<Rightarrow> (world, unit) op" where
  "L2_updateBacklog H ps op1 usedGas usedMultiGas =
     bnd (L2_GasModelToUse H ps) (\<lambda>gasModel. case gasModel of
         GasModelLegacy \<Rightarrow> updateLegacyBacklog H ps op1 usedGas
       | GasModelSingleGasConstraints \<Rightarrow> updateSingleGasConstraintsBacklogs H ps op1 usedGas
       | GasModelMultiGasConstraints \<Rightarrow> updateMultiGasConstraintsBacklogs H ps op1 usedGas usedMultiGas
       | GasModelUnknown \<Rightarrow> throw (ErrMsg ''can not determine gas model''))"

definition L2_ShrinkBacklog ::
  "(bytes \<Rightarrow> bytes) \<Rightarrow> L2PricingState \<Rightarrow> u64 \<Rightarrow> MultiGas \<Rightarrow> (world, unit) op" where
  "L2_ShrinkBacklog H ps usedGas usedMultiGas = L2_updateBacklog H ps Shrink usedGas usedMultiGas"

definition L2_GrowBacklog ::
  "(bytes \<Rightarrow> bytes) \<Rightarrow> L2PricingState \<Rightarrow> u64 \<Rightarrow> MultiGas \<Rightarrow> (world, unit) op" where
  "L2_GrowBacklog H ps usedGas usedMultiGas = L2_updateBacklog H ps Grow usedGas usedMultiGas"

definition L2_BacklogUpdateCost :: "(bytes \<Rightarrow> bytes) \<Rightarrow> L2PricingState \<Rightarrow> (world, u64) op" where
  "L2_BacklogUpdateCost H ps =
     (if ps_ArbosVersion ps \<ge> ArbosVersion_MultiGasConstraintsVersion
      then ret MultiConstraintStaticBacklogUpdateCost
      else
      let result = (if ps_ArbosVersion ps \<ge> ArbosVersion_SingleGasConstraintsVersion
                    then StorageReadCost else 0) in
      bnd (if ps_ArbosVersion ps \<ge> ArbosVersion_MultiConstraintFix
           then or_zero 0 (SubStorageVector_Length H (ps_gasConstraints H ps))
           else ret 0) (\<lambda>constraintsLength.
      if constraintsLength > 0
      then ret (result + StorageReadCost + constraintsLength * (StorageReadCost + StorageWriteCost))
      else ret (result + (StorageReadCost + StorageWriteCost))))"

text \<open>The base fee that the legacy model computes from what it read.\<close>

definition legacyBaseFee :: "u64 \<Rightarrow> u64 \<Rightarrow> u64 \<Rightarrow> u64 \<Rightarrow> int \<Rightarrow> (world, int) op" where
  "legacyBaseFee speedLimit inertia tolerance backlog minBaseFee =
     (if backlog > tolerance * speedLimit
      then let excess = SaturatingCast 64 (backlog - tolerance * speedLimit) in
           bnd (goDivI64 (NaturalToBips excess) (SaturatingCast 64 (SaturatingUMul inertia speedLimit)))
             (\<lambda>exponentBips.
           bnd (ApproxExpBasisPoints exponentBips 4) (\<lambda>e.
           BigMulByBips minBaseFee e))
      else ret minBaseFee)"

definition updatePricingModelLegacy :: "(bytes \<Rightarrow> bytes) \<Rightarrow> L2PricingState \<Rightarrow> u64 \<Rightarrow> (world, unit) op" where
  "updatePricingModelLegacy H ps timePassed =
     bnd (or_zero 0 (L2_SpeedLimitPerSecond H ps)) (\<lambda>speedLimit.
     bnd (ignore (updateLegacyBacklog H ps Shrink (SaturatingUMul timePassed speedLimit))) (\<lambda>_.
     bnd (or_zero 0 (L2_PricingInertia H ps)) (\<lambda>inertia.
     bnd (or_zero 0 (L2_BacklogTolerance H ps)) (\<lambda>tolerance.
     bnd (or_zero 0 (L2_GasBacklog H ps)) (\<lambda>backlog.
     bnd (or_nil (L2_MinBaseFeeWei H ps)) (\<lambda>minBaseFee.
     bnd (legacyBaseFee speedLimit inertia tolerance backlog minBaseFee) (\<lambda>baseFee.
     ignore (L2_SetBaseFeeWei H ps baseFee))))))))"

definition calcBaseFeeFromExponent :: "(bytes \<Rightarrow> bytes) \<Rightarrow> L2PricingState \<Rightarrow> int \<Rightarrow> (world, int) op" where
  "calcBaseFeeFromExponent H ps exponent =
     bnd (L2_MinBaseFeeWei H ps) (\<lambda>minBaseFee.
     if exponent > 0
     then bnd (ApproxExpBasisPoints exponent 4) (\<lambda>e. BigMulByBips minBaseFee e)
     else ret minBaseFee)"

text \<open>One round of the loop of the single-gas model: pay off the backlog of a constraint and add what
  is left of it to the exponent.\<close>

definition payOffGasConstraint ::
  "(bytes \<Rightarrow> bytes) \<Rightarrow> L2PricingState \<Rightarrow> u64 \<Rightarrow> u64 \<Rightarrow> int \<Rightarrow> (world, int) op" where
  "payOffGasConstraint H ps timePassed i totalExponent =
     (let constraint = L2_OpenGasConstraintAt H ps i in
      bnd (or_zero 0 (GasConstraint_Target H constraint)) (\<lambda>target.
      bnd (or_zero 0 (GasConstraint_Backlog H constraint)) (\<lambda>oldBacklog.
      let gas = SaturatingUMul timePassed target;
          backlog = applyGasDelta Shrink oldBacklog gas in
      bnd (ignore (GasConstraint_SetBacklog H constraint backlog)) (\<lambda>_.
      if backlog > 0
      then bnd (or_zero 0 (GasConstraint_AdjustmentWindow H constraint)) (\<lambda>inertia.
           bnd (goDivI64 (NaturalToBips (SaturatingCast 64 backlog))
                  (SaturatingCastToBips (SaturatingUMul inertia target))) (\<lambda>exponent.
           ret (SaturatingBipsAdd totalExponent exponent)))
      else ret totalExponent))))"

definition updatePricingModelSingleConstraints ::
  "(bytes \<Rightarrow> bytes) \<Rightarrow> L2PricingState \<Rightarrow> u64 \<Rightarrow> (world, unit) op" where
  "updatePricingModelSingleConstraints H ps timePassed =
     bnd (or_zero 0 (SubStorageVector_Length H (ps_gasConstraints H ps))) (\<lambda>constraintsLength.
     bnd (fold_op (payOffGasConstraint H ps timePassed) (map of_nat [0..<unat constraintsLength]) 0) (\<lambda>totalExponent.
     bnd (or_nil (calcBaseFeeFromExponent H ps totalExponent)) (\<lambda>baseFee.
     ignore (L2_SetBaseFeeWei H ps baseFee))))"

text \<open>The rounds of the two loops of \<open>CalcMultiGasConstraintsExponents\<close>.\<close>

definition addKindExponent ::
  "(bytes \<Rightarrow> bytes) \<Rightarrow> Storage \<Rightarrow> u64 \<Rightarrow> int \<Rightarrow> nat \<Rightarrow> int list \<Rightarrow> (world, int list) op" where
  "addKindExponent H constraint backlog divisor kind exponentPerKind =
     (if all_kinds ! kind = SingleDim then ret exponentPerKind
      else
      bnd (MultiGasConstraint_ResourceWeight H constraint (of_nat kind)) (\<lambda>weight.
      let dividend = NaturalToBips (SaturatingCast 64 (SaturatingUMul backlog weight)) in
      bnd (goDivI64 dividend divisor) (\<lambda>e.
      ret (exponentPerKind[kind := SaturatingBipsAdd (exponentPerKind ! kind) e]))))"

definition addConstraintExponents ::
  "(bytes \<Rightarrow> bytes) \<Rightarrow> L2PricingState \<Rightarrow> u64 \<Rightarrow> int list \<Rightarrow> (world, int list) op" where
  "addConstraintExponents H ps i exponentPerKind =
     (let constraint = L2_OpenMultiGasConstraintAt H ps i in
      bnd (MultiGasConstraint_Target H constraint) (\<lambda>target.
      bnd (MultiGasConstraint_Backlog H constraint) (\<lambda>backlog.
      if backlog > 0
      then bnd (MultiGasConstraint_AdjustmentWindow H constraint) (\<lambda>adjustmentWindow.
           bnd (MultiGasConstraint_MaxWeight H constraint) (\<lambda>maxWeight.
           let divisor = SaturatingCastToBips (SaturatingUMul (ucast adjustmentWindow)
                           (SaturatingUMul target maxWeight)) in
           bnd (MultiGasConstraint_UsedResources H constraint) (\<lambda>usedResources.
           fold_op (addKindExponent H constraint backlog divisor) usedResources exponentPerKind)))
      else ret exponentPerKind)))"

definition CalcMultiGasConstraintsExponents :: "(bytes \<Rightarrow> bytes) \<Rightarrow> L2PricingState \<Rightarrow> (world, int list) op" where
  "CalcMultiGasConstraintsExponents H ps =
     bnd (or_zero 0 (L2_MultiGasConstraintsLength H ps)) (\<lambda>constraintsLength.
     fold_op (addConstraintExponents H ps) (map of_nat [0..<unat constraintsLength])
       (replicate NumResourceKind 0))"

text \<open>The rounds of the loops of the multi-gas model.\<close>

definition payOffMultiGasConstraint ::
  "(bytes \<Rightarrow> bytes) \<Rightarrow> L2PricingState \<Rightarrow> u64 \<Rightarrow> u64 \<Rightarrow> (world, unit) op" where
  "payOffMultiGasConstraint H ps timePassed i =
     (let constraint = L2_OpenMultiGasConstraintAt H ps i in
      bnd (or_zero 0 (MultiGasConstraint_Target H constraint)) (\<lambda>target.
      bnd (or_zero 0 (MultiGasConstraint_Backlog H constraint)) (\<lambda>backlog.
      let gas = SaturatingUMul timePassed target in
      ignore (MultiGasConstraint_SetBacklog H constraint (applyGasDelta Shrink backlog gas)))))"

definition setKindFee ::
  "(bytes \<Rightarrow> bytes) \<Rightarrow> L2PricingState \<Rightarrow> int list \<Rightarrow> nat \<Rightarrow> int \<Rightarrow> (world, int) op" where
  "setKindFee H ps exponentPerKind kind maxBaseFee =
     bnd (or_nil (calcBaseFeeFromExponent H ps (exponentPerKind ! kind))) (\<lambda>baseFee.
     bnd (ignore (MultiGasFees_SetNextBlockFee H (ps_multiGasFees H ps) kind baseFee)) (\<lambda>_.
     ret (if baseFee > maxBaseFee then baseFee else maxBaseFee)))"

definition updatePricingModelMultiConstraints ::
  "(bytes \<Rightarrow> bytes) \<Rightarrow> L2PricingState \<Rightarrow> u64 \<Rightarrow> (world, unit) op" where
  "updatePricingModelMultiConstraints H ps timePassed =
     bnd (or_zero 0 (L2_MultiGasConstraintsLength H ps)) (\<lambda>constraintsLength.
     bnd (for_each (map of_nat [0..<unat constraintsLength]) (payOffMultiGasConstraint H ps timePassed)) (\<lambda>_.
     bnd (or_zero (replicate NumResourceKind 0) (CalcMultiGasConstraintsExponents H ps)) (\<lambda>exponentPerKind.
     bnd (or_nil (L2_MinBaseFeeWei H ps)) (\<lambda>minBaseFee.
     bnd (fold_op (setKindFee H ps exponentPerKind) [0..<NumResourceKind] minBaseFee) (\<lambda>maxBaseFee.
     ignore (L2_SetBaseFeeWei H ps maxBaseFee))))))"

definition L2_UpdatePricingModel :: "(bytes \<Rightarrow> bytes) \<Rightarrow> L2PricingState \<Rightarrow> u64 \<Rightarrow> (world, unit) op" where
  "L2_UpdatePricingModel H ps timePassed =
     bnd (or_zero GasModelUnknown (L2_GasModelToUse H ps)) (\<lambda>gasModel. case gasModel of
         GasModelLegacy \<Rightarrow> updatePricingModelLegacy H ps timePassed
       | GasModelSingleGasConstraints \<Rightarrow> updatePricingModelSingleConstraints H ps timePassed
       | GasModelMultiGasConstraints \<Rightarrow> updatePricingModelMultiConstraints H ps timePassed
       | GasModelUnknown \<Rightarrow> ret ())"

section \<open>Refunds\<close>

definition GetMultiGasBaseFeePerResource ::
  "(bytes \<Rightarrow> bytes) \<Rightarrow> L2PricingState \<Rightarrow> int \<Rightarrow> (world, int list) op" where
  "GetMultiGasBaseFeePerResource H ps blockBaseFee =
     bnd (if ps_ArbosVersion ps < ArbosVersion_MultiGasRefundFix then L2_BaseFeeWei H ps
          else ret blockBaseFee) (\<lambda>blockBaseFee.
     collect [0..<NumResourceKind] (\<lambda>kind.
       bnd (MultiGasFees_GetCurrentBlockFee H (ps_multiGasFees H ps) kind) (\<lambda>resourceBaseFee.
       ret (if all_kinds ! kind = SingleDim \<or> resourceBaseFee = 0 then blockBaseFee else resourceBaseFee))))"

definition MultiDimensionalPriceForRefund ::
  "(bytes \<Rightarrow> bytes) \<Rightarrow> L2PricingState \<Rightarrow> MultiGas \<Rightarrow> int \<Rightarrow> (world, int) op" where
  "MultiDimensionalPriceForRefund H ps usedMultiGas blockBaseFee =
     bnd (GetMultiGasBaseFeePerResource H ps blockBaseFee) (\<lambda>fees.
     ret (fold (\<lambda>(i, baseFee) total.
            let amount = mg_gas usedMultiGas (all_kinds ! i) in
            if amount = 0 then total else total + uint amount * baseFee)
          (zip [0..<length fees] fees) 0))"

definition L2_CommitMultiGasFees :: "(bytes \<Rightarrow> bytes) \<Rightarrow> L2PricingState \<Rightarrow> (world, unit) op" where
  "L2_CommitMultiGasFees H ps =
     bnd (L2_GasModelToUse H ps) (\<lambda>gasModel.
     if gasModel \<noteq> GasModelMultiGasConstraints then ret ()
     else MultiGasFees_CommitNextToCurrent H (ps_multiGasFees H ps))"

section \<open>Prices as functions\<close>

text \<open>The exponent, in basis points, that a backlog contributes, and the price at an exponent. They
  are the pure part of the three models.\<close>

definition backlog_exponent :: "u64 \<Rightarrow> u64 \<Rightarrow> u64 \<Rightarrow> int" where
  "backlog_exponent backlog window target =
     goDivS 64 (NaturalToBips (SaturatingCast 64 backlog)) (SaturatingCast 64 (SaturatingUMul window target))"

definition exp_fee :: "int \<Rightarrow> int \<Rightarrow> int" where
  "exp_fee m e = (case bnd (ApproxExpBasisPoints e 4) (BigMulByBips m) () of (Ok r, _) \<Rightarrow> r | _ \<Rightarrow> m)"

lemma ApproxExp_loop_pure: "ApproxExp_loop n x b r s = (fst (ApproxExp_loop n x b r ()), s)"
proof (induction n arbitrary: r)
  case (Suc n)
  show ?case
    by (simp add: bnd_def goDivU_def ret_run panic_run Suc [symmetric])
qed (simp add: ret_run)

lemma ApproxExp_pure: "ApproxExpBasisPoints e 4 s = (fst (ApproxExpBasisPoints e 4 ()), s)"
  using ApproxExp_loop_pure [of 3 _ _ _ s]
  by (simp add: ApproxExpBasisPoints_def Let_def bnd_def goDivU_def ret_run panic_run
      split: prod.splits result.splits)

lemma BigMulByBips_run: "BigMulByBips m e s = (Ok (m * e div 10000), s)"
  by (simp add: BigMulByBips_def BigMulByFrac_def BigMul_def BigDivByInt_def BigDiv_def BigMulByInt_def
      OneInBips_def ret_run)

lemma exp_fee_run:
  assumes "0 \<le> e" and "e < 2 ^ 63"
  shows "bnd (ApproxExpBasisPoints e 4) (BigMulByBips m) s = (Ok (exp_fee m e), s)"
proof -
  obtain r where r: "ApproxExpBasisPoints e 4 () = (Ok r, ())" 
    using ApproxExpBasisPoints_nonneg [OF assms, of "()"] by blast
  then have "ApproxExpBasisPoints e 4 s = (Ok r, s)" by (subst ApproxExp_pure) simp
  then show ?thesis using r by (simp add: bnd_def BigMulByBips_run exp_fee_def)
qed

lemma exp_fee_bounds:
  assumes "0 \<le> e" and "e < 2 ^ 63" and "0 \<le> m"
  shows "m \<le> exp_fee m e" and "real_of_int (exp_fee m e) \<le> real_of_int m * exp (real_of_int e / 10000)"
proof -
  obtain r where r: "ApproxExpBasisPoints e 4 () = (Ok r, ())" "10000 \<le> r"
    "real_of_int r \<le> 10000 * exp (real_of_int e / 10000)"
    using ApproxExpBasisPoints_nonneg [OF assms(1,2), of "()"] by (auto simp: OneInBips_def)
  have fee: "exp_fee m e = m * r div 10000"
    using r assms(3) by (simp add: exp_fee_def bnd_def BigMulByBips_run)
  have "m * 10000 \<le> m * r" using r assms(3) by (simp add: mult_left_mono)
  then show "m \<le> exp_fee m e" using fee by simp
  have "real_of_int (m * r div 10000) \<le> real_of_int (m * r) / 10000"
    using real_of_int_div4 [of "m * r" 10000] by simp
  also have "\<dots> \<le> real_of_int m * exp (real_of_int e / 10000)"
    using r(3) assms(3) mult_left_mono [of "real_of_int r" "10000 * exp (real_of_int e / 10000)" "real_of_int m"] by simp
  finally show "real_of_int (exp_fee m e) \<le> real_of_int m * exp (real_of_int e / 10000)" using fee by simp
qed

lemma exp_fee_0: "0 \<le> m \<Longrightarrow> exp_fee m 0 = m"
  using exp_fee_bounds [of 0 m] by simp

lemma div_range: "0 \<le> a \<Longrightarrow> a < n \<Longrightarrow> 0 < d \<Longrightarrow> 0 \<le> a div d \<and> a div d < (n :: int)"
  using zdiv_mono2 [of a 1 d] by (simp add: pos_imp_zdiv_nonneg_iff)

lemma goDivS_nat:
  assumes "0 \<le> a" "a < 2 ^ 63" "0 < d"
  shows "goDivS 64 a d = a div d"
proof -
  have "inS 64 (a div d)" using div_range [OF assms] by (simp add: inS_def)
  moreover have "a sdiv d = a div d" using assms by (simp add: signed_divide_int_def sgn_if)
  ultimately show ?thesis by (simp add: goDivS_def wrapS_id)
qed

lemma NaturalToBips_nat: 
  assumes "0 \<le> a" "a < 2 ^ 63"
  shows "NaturalToBips a = min (10000 * a) (2 ^ 63 - 1)"
proof -
  have "NaturalToBips a = clampS 64 (a * 10000)"
    unfolding NaturalToBips_def OneInBips_def using assms by (intro SaturatingMul_clamp) (simp_all add: inS_def)
  also have "\<dots> = min (10000 * a) (2 ^ 63 - 1)" using assms by (simp add: clampS_def min_def)
  finally show ?thesis .
qed

lemma SaturatingCast_u64: "SaturatingCast 64 (v :: u64) = min (uint v) (2 ^ 63 - 1)"
  by (simp add: SaturatingCast_min)

lemma backlog_exponent_eq:
  assumes "SaturatingUMul window target \<noteq> 0"
  shows "backlog_exponent b window target =
      min (10000 * min (uint b) (2 ^ 63 - 1)) (2 ^ 63 - 1) div min (uint (SaturatingUMul window target)) (2 ^ 63 - 1)"
    and "0 \<le> backlog_exponent b window target" and "backlog_exponent b window target < 2 ^ 63"
proof -
  let ?d = "min (uint (SaturatingUMul window target)) (2 ^ 63 - 1)"
    and ?c = "min (uint b) (2 ^ 63 - 1)" and ?a = "min (10000 * min (uint b) (2 ^ 63 - 1)) (2 ^ 63 - 1)"
  have "0 < uint (SaturatingUMul window target)"
    using assms by (metis order_le_less uint_0_iff uint_ge_0)
  then have d: "0 < ?d" by simp
  have a: "0 \<le> ?a" "?a < 2 ^ 63" and c: "0 \<le> ?c" "?c < 2 ^ 63" by auto
  show eq: "backlog_exponent b window target = ?a div ?d"
    unfolding backlog_exponent_def SaturatingCast_u64 NaturalToBips_nat [OF c] by (rule goDivS_nat [OF a d])
  show "0 \<le> backlog_exponent b window target" "backlog_exponent b window target < 2 ^ 63"
    unfolding eq using div_range [OF a d] by blast+
qed

section \<open>The legacy model\<close>

definition u64_at :: "world \<Rightarrow> StorageSlot \<Rightarrow> u64" where
  "u64_at w ss = ucast (slot_read w ss)"

definition wei_at :: "world \<Rightarrow> StorageSlot \<Rightarrow> int" where
  "wei_at w ss = uint (slot_read w ss)"

definition saturate_wei :: "int \<Rightarrow> int" where
  "saturate_wei f = max 0 (min f (twoToThe256 - 1))"

definition legacy_ok :: "(bytes \<Rightarrow> bytes) \<Rightarrow> L2PricingState \<Rightarrow> world \<Rightarrow> bool" where
  "legacy_ok H ps w \<longleftrightarrow> sysw w \<and> (\<forall>i \<in> {0, 4, 5, 6}. fits 64 (slot_read w (ps_word H ps i)))"

lemma ps_word_inject: "i < 256 \<Longrightarrow> j < 256 \<Longrightarrow> ps_word H ps i = ps_word H ps j \<longleftrightarrow> i = j"
  using distinct_wordsD [OF distinct_words_page [of 255]] by (simp add: ps_word_def word_slot_def)

lemma at_tick [simp]:
  "u64_at (tick k a w) ss = u64_at w ss" "wei_at (tick k a w) ss = wei_at w ss"
  by (simp_all add: u64_at_def wei_at_def)

lemma at_write:
  "u64_at (slot_write ss v w) ss' = (if ss' = ss then ucast v else u64_at w ss')"
  "wei_at (slot_write ss v w) ss' = (if ss' = ss then uint v else wei_at w ss')"
  by (simp_all add: u64_at_def wei_at_def slot_read_write)

lemma uint_saturated: "uint (BigBytesToHash (saturate_wei f)) = saturate_wei f"
  using twoToThe255_pos twoToThe256_double
  by (simp add: uint_BigBytesToHash saturate_wei_def)

lemmas l2_getters = L2_SpeedLimitPerSecond_def L2_PricingInertia_def L2_BacklogTolerance_def L2_GasBacklog_def
  L2_SetGasBacklog_def L2_MinBaseFeeWei_def L2_SetBaseFeeWei_def L2_BaseFeeWei_def updateLegacyBacklog_def

lemma SetBaseFee_run:
  "sysw w \<Longrightarrow> \<exists>w'. L2_SetBaseFeeWei H ps f w = (Ok (), w') \<and> sysw w'
    \<and> wei_at w' (ps_baseFeeWei H ps) = saturate_wei f \<and> same_except {ps_baseFeeWei H ps} w w'"
  using uint_saturated [of f]
  by (auto simp: L2_SetBaseFeeWei_def BigUint_saturating_value sys_simps at_write
      saturate_wei_def intro!: same_except_write)

text \<open>What the legacy model makes of a block that took \<open>t\<close> seconds.\<close>

definition legacy_backlog :: "(bytes \<Rightarrow> bytes) \<Rightarrow> L2PricingState \<Rightarrow> world \<Rightarrow> u64 \<Rightarrow> u64" where
  "legacy_backlog H ps w t = SaturatingUSub (u64_at w (ps_gasBacklog H ps))
      (SaturatingUMul t (u64_at w (ps_speedLimitPerSecond H ps)))"

definition legacy_excess :: "(bytes \<Rightarrow> bytes) \<Rightarrow> L2PricingState \<Rightarrow> world \<Rightarrow> u64 \<Rightarrow> u64" where
  "legacy_excess H ps w t = SaturatingUSub (legacy_backlog H ps w t)
      (u64_at w (ps_backlogTolerance H ps) * u64_at w (ps_speedLimitPerSecond H ps))"

definition legacy_fee :: "(bytes \<Rightarrow> bytes) \<Rightarrow> L2PricingState \<Rightarrow> world \<Rightarrow> u64 \<Rightarrow> int" where
  "legacy_fee H ps w t = exp_fee (wei_at w (ps_minBaseFeeWei H ps))
      (backlog_exponent (legacy_excess H ps w t)
        (u64_at w (ps_pricingInertia H ps)) (u64_at w (ps_speedLimitPerSecond H ps)))"

definition legacy_divisor :: "(bytes \<Rightarrow> bytes) \<Rightarrow> L2PricingState \<Rightarrow> world \<Rightarrow> u64" where
  "legacy_divisor H ps w = SaturatingUMul (u64_at w (ps_pricingInertia H ps)) (u64_at w (ps_speedLimitPerSecond H ps))"

lemma SaturatingCast_0: "SaturatingCast 64 (v :: u64) = 0 \<longleftrightarrow> v = 0"
  by (auto simp: SaturatingCast_u64 min_def uint_0_iff)

lemma backlog_exponent_0: "SaturatingUMul i s \<noteq> 0 \<Longrightarrow> backlog_exponent 0 i s = 0"
  by (simp add: backlog_exponent_eq)

lemma legacyBaseFee_run:
  assumes nz: "SaturatingUMul i s \<noteq> 0" and m: "0 \<le> m"
  shows "legacyBaseFee s i to b m v = (Ok (exp_fee m (backlog_exponent (SaturatingUSub b (to * s)) i s)), v)"
proof (cases "b > to * s")
  case True
  then have "SaturatingUSub b (to * s) = b - to * s" by (auto simp: SaturatingUSub_def)
  then show ?thesis
    using True nz exp_fee_run [OF backlog_exponent_eq(2,3) [OF nz, of "b - to * s"], of m v]
    by (simp add: legacyBaseFee_def goDivI64_def SaturatingCast_0 backlog_exponent_def)
next
  case False
  then have "SaturatingUSub b (to * s) = 0" by (auto simp: SaturatingUSub_def)
  then show ?thesis using False m nz by (simp add: legacyBaseFee_def exp_fee_0 backlog_exponent_0 ret_run)
qed

lemma updatePricingModelLegacy_run:
  assumes ok: "legacy_ok H ps w" and nz: "legacy_divisor H ps w \<noteq> 0"
  shows "\<exists>w'. updatePricingModelLegacy H ps t w = (Ok (), w') \<and> legacy_ok H ps w'
    \<and> u64_at w' (ps_gasBacklog H ps) = legacy_backlog H ps w t
    \<and> wei_at w' (ps_baseFeeWei H ps) = saturate_wei (legacy_fee H ps w t)
    \<and> same_except {ps_gasBacklog H ps, ps_baseFeeWei H ps} w w'"
proof -
  let ?b = "legacy_backlog H ps w t"
  let ?r = "tick StorageAccessRead StorageReadCost"
  let ?w1 = "slot_write (ps_gasBacklog H ps) (UintToHash ?b)
     (tick StorageAccessWrite (WriteCost (UintToHash ?b)) (?r (?r w)))"
  let ?w2 = "?r (?r (?r (?r ?w1)))"
  have sys: "sysw w" "fits 64 (slot_read w (ps_word H ps 0))" "fits 64 (slot_read w (ps_word H ps 4))"
    "fits 64 (slot_read w (ps_word H ps 5))" "fits 64 (slot_read w (ps_word H ps 6))"
    using ok by (simp_all add: legacy_ok_def)
  have ne: "ps_word H ps 0 \<noteq> ps_word H ps 4" "ps_word H ps 5 \<noteq> ps_word H ps 4" "ps_word H ps 6 \<noteq> ps_word H ps 4"
    "ps_word H ps 3 \<noteq> ps_word H ps 4" by (simp_all add: ps_word_inject)
  have m: "0 \<le> wei_at w (ps_minBaseFeeWei H ps)" by (simp add: wei_at_def)
  have run: "updatePricingModelLegacy H ps t w = ignore (L2_SetBaseFeeWei H ps (legacy_fee H ps w t)) ?w2"
    unfolding updatePricingModelLegacy_def
    using sys ne legacyBaseFee_run [OF nz [unfolded legacy_divisor_def] m]
    by (simp add: l2_getters op_simps sys_simps applyGasDelta_def u64_at_def [symmetric]
       wei_at_def [symmetric] at_write legacy_backlog_def [symmetric] legacy_fee_def [symmetric] legacy_excess_def [symmetric] UintToHash_ucast)
  have "sysw ?w2" using sys by simp
  from SetBaseFee_run [OF this] obtain w' where w': "L2_SetBaseFeeWei H ps (legacy_fee H ps w t) ?w2 = (Ok (), w')"
    "sysw w'" "wei_at w' (ps_baseFeeWei H ps) = saturate_wei (legacy_fee H ps w t)"
    "same_except {ps_baseFeeWei H ps} ?w2 w'" by blast
  have frame: "same_except {ps_gasBacklog H ps, ps_baseFeeWei H ps} w w'"
  proof -
    have "same_except {ps_gasBacklog H ps} w ?w2" by (simp add: same_except_write)
    from same_except_trans [OF this w'(4)] show ?thesis by (simp add: insert_commute)
  qed
  have "slot_read w' (ps_word H ps i) = slot_read ?w2 (ps_word H ps i)" if "i \<noteq> 2" "i < 8" for i
    using same_exceptD [OF w'(4)] that by (simp add: ps_word_inject)
  then have "legacy_ok H ps w'" "u64_at w' (ps_gasBacklog H ps) = ?b"
    using sys w'(2) ne by (simp_all add: legacy_ok_def u64_at_def UintToHash_ucast)
  moreover have "updatePricingModelLegacy H ps t w = (Ok (), w')" using run w'(1) by (simp add: op_simps)
  ultimately show ?thesis using w' frame by blast
qed

lemma updatePricingModelLegacy_panics:
  assumes ok: "legacy_ok H ps w" and z: "legacy_divisor H ps w = 0" and ex: "legacy_excess H ps w t \<noteq> 0"
  shows "\<exists>w'. updatePricingModelLegacy H ps t w = (Panic ''integer divide by zero'', w')"
proof -
  have sys: "sysw w" "fits 64 (slot_read w (ps_word H ps 0))" "fits 64 (slot_read w (ps_word H ps 4))"
    "fits 64 (slot_read w (ps_word H ps 5))" "fits 64 (slot_read w (ps_word H ps 6))"
    using ok by (simp_all add: legacy_ok_def)
  have ne: "ps_word H ps 0 \<noteq> ps_word H ps 4" "ps_word H ps 5 \<noteq> ps_word H ps 4" "ps_word H ps 6 \<noteq> ps_word H ps 4"
    "ps_word H ps 3 \<noteq> ps_word H ps 4" by (simp_all add: ps_word_inject)
  have "legacyBaseFee (u64_at w (ps_speedLimitPerSecond H ps)) (u64_at w (ps_pricingInertia H ps))
     (u64_at w (ps_backlogTolerance H ps)) (legacy_backlog H ps w t) m v = (Panic ''integer divide by zero'', v)" for m v
    using z ex by (auto simp: legacyBaseFee_def legacy_divisor_def legacy_excess_def SaturatingUSub_def goDivI64_def
        SaturatingCast_0 panic_run Let_def not_less split: if_splits)
  then show ?thesis
    unfolding updatePricingModelLegacy_def
    using sys ne
    by (simp add: l2_getters op_simps sys_simps applyGasDelta_def u64_at_def [symmetric]
       wei_at_def [symmetric] at_write legacy_backlog_def [symmetric])
qed

lemma legacy_fee_bounds:
  assumes "legacy_divisor H ps w \<noteq> 0"
  shows "wei_at w (ps_minBaseFeeWei H ps) \<le> legacy_fee H ps w t"
    and "real_of_int (legacy_fee H ps w t) \<le> real_of_int (wei_at w (ps_minBaseFeeWei H ps))
      * exp (real_of_int (backlog_exponent (legacy_excess H ps w t) (u64_at w (ps_pricingInertia H ps))
              (u64_at w (ps_speedLimitPerSecond H ps))) / 10000)"
    and "legacy_excess H ps w t = 0 \<Longrightarrow> legacy_fee H ps w t = wei_at w (ps_minBaseFeeWei H ps)"
  using exp_fee_bounds [OF backlog_exponent_eq(2,3) [OF assms [unfolded legacy_divisor_def]],
      of "wei_at w (ps_minBaseFeeWei H ps)"] exp_fee_0 backlog_exponent_0 [OF assms [unfolded legacy_divisor_def]]
  by (simp_all add: legacy_fee_def wei_at_def)

section \<open>The single-gas model\<close>

text \<open>The words of the pricer, as locations.\<close>

definition pricing_locs :: "nat \<Rightarrow> loc set" where
  "pricing_locs n = (\<lambda>i. ([], UintToHash (of_nat i))) ` {..<8}
     \<union> {([[0]], UintToHash 0)}
     \<union> (\<lambda>(i, j). ([[0], be_bytes 8 i], UintToHash (of_nat j))) ` ({..<n} \<times> {..<3})"

definition gc_word :: "(bytes \<Rightarrow> bytes) \<Rightarrow> L2PricingState \<Rightarrow> nat \<Rightarrow> nat \<Rightarrow> StorageSlot" where
  "gc_word H ps i j = NewSlot H (L2_OpenGasConstraintAt H ps (of_nat i)) (of_nat j)"

abbreviation gc_len :: "(bytes \<Rightarrow> bytes) \<Rightarrow> L2PricingState \<Rightarrow> StorageSlot" where
  "gc_len H ps \<equiv> vector_length H (ps_gasConstraints H ps)"

lemma gc_word_fields:
  "gc_target H (L2_OpenGasConstraintAt H ps (of_nat i)) = gc_word H ps i 0"
  "gc_adjustmentWindow H (L2_OpenGasConstraintAt H ps (of_nat i)) = gc_word H ps i 1"
  "gc_backlog H (L2_OpenGasConstraintAt H ps (of_nat i)) = gc_word H ps i 2"
  by (simp_all add: gc_word_def gc_target_def gc_adjustmentWindow_def gc_backlog_def)

lemma l2_locs:
  "ps_word H ps i = loc_slot H (ps_storage ps) ([], UintToHash (of_nat i))"
  "gc_len H ps = loc_slot H (ps_storage ps) ([[0]], UintToHash 0)"
  "i < 2 ^ 64 \<Longrightarrow> gc_word H ps i j = loc_slot H (ps_storage ps) ([[0], be_bytes 8 i], UintToHash (of_nat j))"
  by (simp_all add: ps_word_def vector_length_def ps_gasConstraints_def gc_word_def L2_OpenGasConstraintAt_def
      SubStorageVector_At_def OpenSubStorage_path NewSlot_loc loc_slot_path open_path_append unat_of_nat)

lemma pricing_slots:
  assumes "layout H (ps_storage ps) (pricing_locs n)" and "n \<le> 2 ^ 64"
  shows "i < n \<Longrightarrow> j < 3 \<Longrightarrow> i' < n \<Longrightarrow> j' < 3 \<Longrightarrow> gc_word H ps i j = gc_word H ps i' j' \<longleftrightarrow> i = i' \<and> j = j'"
    and "i < n \<Longrightarrow> j < 3 \<Longrightarrow> gc_word H ps i j \<noteq> gc_len H ps"
    and "i < n \<Longrightarrow> j < 3 \<Longrightarrow> k < 8 \<Longrightarrow> gc_word H ps i j \<noteq> ps_word H ps k"
    and "k < 8 \<Longrightarrow> gc_len H ps \<noteq> ps_word H ps k"
proof -
  note d = layoutD [OF assms(1)]
  have u: "i < 256 \<Longrightarrow> j < 256 \<Longrightarrow> UintToHash (of_nat i) = UintToHash (of_nat j) \<longleftrightarrow> i = j" for i j
    using of_nat_u64_inject [of i j] by simp
  have b: "i < n \<Longrightarrow> j < n \<Longrightarrow> be_bytes 8 i = be_bytes 8 j \<longleftrightarrow> i = j" for i j
    using be_bytes_inject [of i 8 j] assms(2) by simp
  have l: "i < n \<Longrightarrow> i < 2 ^ 64" for i using assms(2) by linarith
  have g: "i < n \<Longrightarrow> gc_word H ps i j = loc_slot H (ps_storage ps) ([[0], be_bytes 8 i], UintToHash (of_nat j))" for i j
    using l2_locs(3) l by blast
  have m: "i < n \<Longrightarrow> j < 3 \<Longrightarrow> ([[0], be_bytes 8 i], UintToHash (of_nat j)) \<in> pricing_locs n"
    "([[0]], UintToHash 0) \<in> pricing_locs n" "k < 8 \<Longrightarrow> ([], UintToHash (of_nat k)) \<in> pricing_locs n" for i j k
    by (auto simp: pricing_locs_def)
  show "i < n \<Longrightarrow> j < 3 \<Longrightarrow> i' < n \<Longrightarrow> j' < 3 \<Longrightarrow> gc_word H ps i j = gc_word H ps i' j' \<longleftrightarrow> i = i' \<and> j = j'"
    using d [OF m(1) m(1), of i j i' j'] b [of i i'] u [of j j'] by (simp add: g del: UintToHash_inject)
  show "i < n \<Longrightarrow> j < 3 \<Longrightarrow> gc_word H ps i j \<noteq> gc_len H ps"
    using d [OF m(1) m(2), of i j] by (simp add: l2_locs(1,2) g)
  show "i < n \<Longrightarrow> j < 3 \<Longrightarrow> k < 8 \<Longrightarrow> gc_word H ps i j \<noteq> ps_word H ps k"
    using d [OF m(1) m(3), of i j k] by (simp add: l2_locs(1,2) g)
  show "k < 8 \<Longrightarrow> gc_len H ps \<noteq> ps_word H ps k"
    using d [OF m(2) m(3), of k] by (simp add: l2_locs(1,2))
qed

text \<open>A constraint as a value: target, adjustment window, backlog.\<close>

type_synonym constraint = "u64 \<times> u64 \<times> u64"

definition constraint_at :: "(bytes \<Rightarrow> bytes) \<Rightarrow> L2PricingState \<Rightarrow> world \<Rightarrow> nat \<Rightarrow> constraint" where
  "constraint_at H ps w i = (u64_at w (gc_word H ps i 0), u64_at w (gc_word H ps i 1), u64_at w (gc_word H ps i 2))"

definition gas_constraints :: "(bytes \<Rightarrow> bytes) \<Rightarrow> L2PricingState \<Rightarrow> world \<Rightarrow> constraint list" where
  "gas_constraints H ps w = map (constraint_at H ps w) [0..<unat (u64_at w (gc_len H ps))]"

definition constraints_ok :: "(bytes \<Rightarrow> bytes) \<Rightarrow> L2PricingState \<Rightarrow> nat \<Rightarrow> world \<Rightarrow> bool" where
  "constraints_ok H ps N w \<longleftrightarrow> sysw w \<and> layout H (ps_storage ps) (pricing_locs N) \<and> N < 2 ^ 64
     \<and> fits 64 (slot_read w (gc_len H ps)) \<and> length (gas_constraints H ps w) \<le> N
     \<and> (\<forall>i < length (gas_constraints H ps w). \<forall>j < 3. fits 64 (slot_read w (gc_word H ps i j)))"

fun pay_off :: "u64 \<Rightarrow> constraint \<Rightarrow> constraint" where
  "pay_off t (target, window, backlog) = (target, window, SaturatingUSub backlog (SaturatingUMul t target))"

fun constraint_exponent :: "constraint \<Rightarrow> int" where
  "constraint_exponent (target, window, backlog) =
     (if backlog = 0 then 0 else backlog_exponent backlog window target)"

fun constraint_divides :: "constraint \<Rightarrow> bool" where
  "constraint_divides (target, window, backlog) \<longleftrightarrow> backlog = 0 \<or> SaturatingUMul window target \<noteq> 0"

definition total_exponent :: "constraint list \<Rightarrow> int \<Rightarrow> int" where
  "total_exponent cs e = fold (\<lambda>c e. SaturatingBipsAdd e (constraint_exponent c)) cs e"

definition inBips :: "int \<Rightarrow> bool" where
  "inBips e \<longleftrightarrow> 0 \<le> e \<and> e < 2 ^ 63"

lemma inBips_add: "inBips a \<Longrightarrow> inBips b \<Longrightarrow> SaturatingBipsAdd a b = min (a + b) (2 ^ 63 - 1)"
  by (simp add: SaturatingBipsAdd_def SaturatingAdd_clamp inBips_def inS_def clampS_def)

lemma inBips_add_in: "inBips a \<Longrightarrow> inBips b \<Longrightarrow> inBips (SaturatingBipsAdd a b)"
  by (simp add: inBips_add) (simp add: inBips_def)

lemma inBips_exponent: "constraint_divides c \<Longrightarrow> inBips (constraint_exponent c)"
  using backlog_exponent_eq(2,3) by (cases c) (auto simp: inBips_def)

lemma SaturatingBipsAdd_0: "inBips e \<Longrightarrow> SaturatingBipsAdd e 0 = e"
  by (subst inBips_add) (auto simp: inBips_def)

lemma gas_constraints_same:
  assumes "\<And>i j. j < 3 \<Longrightarrow> slot_read w' (gc_word H ps i j) = slot_read w (gc_word H ps i j)"
    and "slot_read w' (gc_len H ps) = slot_read w (gc_len H ps)"
  shows "gas_constraints H ps w' = gas_constraints H ps w"
  using assms by (simp add: gas_constraints_def constraint_at_def u64_at_def)

lemma backlog_written:
  assumes ok: "constraints_ok H ps N w" and i: "i < length (gas_constraints H ps w)"
    and w': "sysw w'" "same_except {gc_word H ps i 2} w w'" "slot_read w' (gc_word H ps i 2) = ucast b"
  shows "constraints_ok H ps N w'"
    and "gas_constraints H ps w' = (gas_constraints H ps w)[i := (u64_at w (gc_word H ps i 0), u64_at w (gc_word H ps i 1), b)]"
proof -
  have sys: "sysw w" "layout H (ps_storage ps) (pricing_locs N)" "N \<le> 2 ^ 64" "i < N"
    "length (gas_constraints H ps w) \<le> N"
    using ok i by (simp_all add: constraints_ok_def)
  note sl = pricing_slots [OF sys(2,3)]
  have len: "slot_read w' (gc_len H ps) = slot_read w (gc_len H ps)"
    using same_exceptD [OF w'(2)] sl(2) [OF sys(4), of 2] by force
  have rd: "slot_read w' (gc_word H ps k j) = (if k = i \<and> j = 2 then ucast b else slot_read w (gc_word H ps k j))"
    if "k < length (gas_constraints H ps w)" "j < 3" for k j
    using same_exceptD [OF w'(2), of "gc_word H ps k j"] sl(1) [of k j i 2] that sys w'(3) by auto
  have "length (gas_constraints H ps w') = length (gas_constraints H ps w)"
    using len by (simp add: gas_constraints_def u64_at_def)
  then show "constraints_ok H ps N w'" using ok w'(1) len rd by (auto simp: constraints_ok_def)
  show "gas_constraints H ps w' = (gas_constraints H ps w)[i := (u64_at w (gc_word H ps i 0), u64_at w (gc_word H ps i 1), b)]"
    by (rule nth_equalityI)
      (use len rd i in \<open>auto simp: gas_constraints_def u64_at_def constraint_at_def nth_list_update\<close>)
qed

lemma payOff_run:
  assumes ok: "constraints_ok H ps N w" and i: "i < length (gas_constraints H ps w)" and e: "inBips e"
    and dv: "constraint_divides (pay_off t (gas_constraints H ps w ! i))"
  defines "c \<equiv> pay_off t (gas_constraints H ps w ! i)"
  shows "\<exists>w'. payOffGasConstraint H ps t (of_nat i) e w = (Ok (SaturatingBipsAdd e (constraint_exponent c)), w')
    \<and> constraints_ok H ps N w' \<and> gas_constraints H ps w' = (gas_constraints H ps w)[i := c]
    \<and> same_except {gc_word H ps i 2} w w'"
proof -
  let ?T = "u64_at w (gc_word H ps i 0)" and ?W = "u64_at w (gc_word H ps i 1)" and ?B = "u64_at w (gc_word H ps i 2)"
  let ?b = "SaturatingUSub ?B (SaturatingUMul t ?T)"
  have sys: "sysw w" "layout H (ps_storage ps) (pricing_locs N)" "N \<le> 2 ^ 64" "i < N"
    "\<And>j. j < 3 \<Longrightarrow> fits 64 (slot_read w (gc_word H ps i j))"
    using ok i by (simp_all add: constraints_ok_def)
  note sl = pricing_slots [OF sys(2,3)]
  have ne: "gc_word H ps i 0 \<noteq> gc_word H ps i 2" "gc_word H ps i 1 \<noteq> gc_word H ps i 2"
    using sl(1) [OF sys(4) _ sys(4), of 0 2] sl(1) [OF sys(4) _ sys(4), of 1 2] by simp_all
  have c: "c = (?T, ?W, ?b)" using i by (simp add: c_def gas_constraints_def constraint_at_def)
  let ?r = "tick StorageAccessRead StorageReadCost"
  let ?w1 = "slot_write (gc_word H ps i 2) (UintToHash ?b) (tick StorageAccessWrite (WriteCost (UintToHash ?b)) (?r (?r w)))"
  have run: "payOffGasConstraint H ps t (of_nat i) e w
      = (Ok (SaturatingBipsAdd e (constraint_exponent c)), if ?b = 0 then ?w1 else ?r ?w1)"
    using sys ne dv e
    by (auto simp: payOffGasConstraint_def GasConstraint_Target_def GasConstraint_Backlog_def GasConstraint_AdjustmentWindow_def
        GasConstraint_SetBacklog_def gc_word_fields op_simps sys_simps applyGasDelta_def
        u64_at_def [symmetric] at_write UintToHash_ucast c c_def [symmetric] goDivI64_def SaturatingCast_0 SaturatingCastToBips_def
        backlog_exponent_def word_neq_0_conv [symmetric] SaturatingBipsAdd_0 Let_def)
  let ?w' = "if ?b = 0 then ?w1 else ?r ?w1"
  have w': "sysw ?w'" "same_except {gc_word H ps i 2} w ?w'" "slot_read ?w' (gc_word H ps i 2) = ucast ?b"
    using sys by (simp_all add: same_except_write UintToHash_ucast)
  show ?thesis using run w'(2) backlog_written [OF ok i w'] by (auto simp: c)
qed

lemma payOff_loop:
  assumes "constraints_ok H ps N w" "i + k = length (gas_constraints H ps w)" "inBips e"
    and "\<And>c. c \<in> set (drop i (gas_constraints H ps w)) \<Longrightarrow> constraint_divides (pay_off t c)"
  shows "\<exists>w'. fold_op (payOffGasConstraint H ps t) (map of_nat [i..<i + k]) e w
      = (Ok (total_exponent (map (pay_off t) (drop i (gas_constraints H ps w))) e), w')
    \<and> constraints_ok H ps N w'
    \<and> gas_constraints H ps w' = take i (gas_constraints H ps w) @ map (pay_off t) (drop i (gas_constraints H ps w))
    \<and> same_except {gc_word H ps j 2 | j. j < i + k} w w'"
  using assms
proof (induction k arbitrary: i w e)
  case 0
  then show ?case by (simp add: ret_run total_exponent_def)
next
  case (Suc k)
  let ?cs = "gas_constraints H ps w"
  have i: "i < length ?cs" using Suc.prems(2) by simp
  then have cs: "drop i ?cs = ?cs ! i # drop (Suc i) ?cs" by (simp add: Cons_nth_drop_Suc)
  have dv: "constraint_divides (pay_off t (?cs ! i))" using Suc.prems(4) cs by simp
  let ?e = "SaturatingBipsAdd e (constraint_exponent (pay_off t (?cs ! i)))"
  obtain w1 where w1: "payOffGasConstraint H ps t (of_nat i) e w = (Ok ?e, w1)" "constraints_ok H ps N w1"
    "gas_constraints H ps w1 = ?cs[i := pay_off t (?cs ! i)]" "same_except {gc_word H ps i 2} w w1"
    using payOff_run [OF Suc.prems(1) i Suc.prems(3) dv] by blast
  have e: "inBips ?e" using Suc.prems(3) inBips_exponent [OF dv] by (rule inBips_add_in)
  have drop1: "drop (Suc i) (gas_constraints H ps w1) = drop (Suc i) ?cs" using w1(3) by simp
  have len: "Suc i + k = length (gas_constraints H ps w1)" using Suc.prems(2) w1(3) by simp
  have dv': "c \<in> set (drop (Suc i) (gas_constraints H ps w1)) \<Longrightarrow> constraint_divides (pay_off t c)" for c
    using Suc.prems(4) cs drop1 by simp
  obtain w' where w': "fold_op (payOffGasConstraint H ps t) (map of_nat [Suc i..<Suc i + k]) ?e w1
      = (Ok (total_exponent (map (pay_off t) (drop (Suc i) ?cs)) ?e), w')" "constraints_ok H ps N w'"
    "gas_constraints H ps w' = take (Suc i) (gas_constraints H ps w1) @ map (pay_off t) (drop (Suc i) ?cs)"
    "same_except {gc_word H ps j 2 | j. j < Suc i + k} w1 w'"
    using Suc.IH [OF w1(2) len e dv'] unfolding drop1 by blast
  have "same_except {gc_word H ps j 2 | j. j < i + Suc k} w w'"
    using same_except_trans [OF w1(4) w'(4)] by (rule same_except_mono) auto
  moreover have "gas_constraints H ps w' = take i ?cs @ map (pay_off t) (drop i ?cs)"
    using w'(3) w1(3) i cs by (simp add: take_Suc_conv_app_nth)
  moreover have "[i..<i + Suc k] = i # [Suc i..<Suc i + k]" by (simp add: upt_rec)
  ultimately show ?case using w1(1) w' cs by (simp add: op_simps total_exponent_def)
qed

lemma calcBaseFee_run:
  assumes "sysw w" "inBips e"
  shows "calcBaseFeeFromExponent H ps e w = (Ok (exp_fee (wei_at w (ps_minBaseFeeWei H ps)) e),
    tick StorageAccessRead StorageReadCost w)"
proof (cases "e = 0")
  case True
  then show ?thesis
    using assms(1) by (simp add: calcBaseFeeFromExponent_def l2_getters op_simps sys_simps exp_fee_0 wei_at_def)
next
  case False
  then have "0 < e" "0 \<le> e" "e < 2 ^ 63" using assms(2) by (auto simp: inBips_def)
  then show ?thesis
    using assms(1) exp_fee_run [of e "uint (slot_read w (ps_minBaseFeeWei H ps))"]
    by (simp add: calcBaseFeeFromExponent_def l2_getters op_simps sys_simps wei_at_def)
qed

lemma inBips_total: "(\<And>c. c \<in> set cs \<Longrightarrow> constraint_divides c) \<Longrightarrow> inBips e \<Longrightarrow> inBips (total_exponent cs e)"
  unfolding total_exponent_def by (induction cs arbitrary: e) (simp_all add: inBips_add_in inBips_exponent)

definition single_fee :: "(bytes \<Rightarrow> bytes) \<Rightarrow> L2PricingState \<Rightarrow> world \<Rightarrow> u64 \<Rightarrow> int" where
  "single_fee H ps w t = exp_fee (wei_at w (ps_minBaseFeeWei H ps))
     (total_exponent (map (pay_off t) (gas_constraints H ps w)) 0)"

lemma constraints_ok_frame:
  assumes ok: "constraints_ok H ps N w" and w': "sysw w'" "same_except (ps_word H ps ` {..<8}) w w'"
  shows "constraints_ok H ps N w'" and "gas_constraints H ps w' = gas_constraints H ps w"
proof -
  have sys: "layout H (ps_storage ps) (pricing_locs N)" "N \<le> 2 ^ 64" "length (gas_constraints H ps w) \<le> N"
    using ok by (simp_all add: constraints_ok_def)
  note sl = pricing_slots [OF sys(1,2)]
  have len: "slot_read w' (gc_len H ps) = slot_read w (gc_len H ps)"
    using sl(4) by (intro same_exceptD [OF w'(2)]) blast
  have rd: "slot_read w' (gc_word H ps i j) = slot_read w (gc_word H ps i j)"
    if "i < length (gas_constraints H ps w)" "j < 3" for i j
    using sl(3) [of i j] that sys(3) by (intro same_exceptD [OF w'(2)]) fastforce
  show eq: "gas_constraints H ps w' = gas_constraints H ps w"
    using len rd by (simp add: gas_constraints_def constraint_at_def u64_at_def)
  show "constraints_ok H ps N w'" using ok w'(1) len rd eq by (simp add: constraints_ok_def)
qed

lemma updatePricingModelSingle_run:
  assumes ok: "constraints_ok H ps N w"
    and dv: "\<And>c. c \<in> set (gas_constraints H ps w) \<Longrightarrow> constraint_divides (pay_off t c)"
  shows "\<exists>w'. updatePricingModelSingleConstraints H ps t w = (Ok (), w') \<and> constraints_ok H ps N w'
    \<and> gas_constraints H ps w' = map (pay_off t) (gas_constraints H ps w)
    \<and> wei_at w' (ps_baseFeeWei H ps) = saturate_wei (single_fee H ps w t)
    \<and> same_except (insert (ps_baseFeeWei H ps) {gc_word H ps j 2 | j. j < length (gas_constraints H ps w)}) w w'"
proof -
  let ?r = "tick StorageAccessRead StorageReadCost" and ?cs = "gas_constraints H ps w"
  have sys: "sysw w" "fits 64 (slot_read w (gc_len H ps))" "layout H (ps_storage ps) (pricing_locs N)" "N \<le> 2 ^ 64"
    "length ?cs \<le> N"
    using ok by (simp_all add: constraints_ok_def)
  have ok1: "constraints_ok H ps N (?r w)" "gas_constraints H ps (?r w) = ?cs"
    using constraints_ok_frame [OF ok, of "?r w"] sys(1) by simp_all
  let ?e = "total_exponent (map (pay_off t) ?cs) 0"
  obtain w1 where w1: "fold_op (payOffGasConstraint H ps t) (map of_nat [0..<length ?cs]) 0 (?r w) = (Ok ?e, w1)"
    "constraints_ok H ps N w1" "gas_constraints H ps w1 = map (pay_off t) ?cs"
    "same_except {gc_word H ps j 2 | j. j < length ?cs} w w1"
    using payOff_loop [of H ps N "?r w" 0 "length ?cs" 0 t] ok1 dv by (auto simp: inBips_def)
  have sys1: "sysw w1" using w1(2) by (simp add: constraints_ok_def)
  have "inBips ?e" using dv by (intro inBips_total) (auto simp: inBips_def)
  note fee = calcBaseFee_run [OF sys1 this, of H ps]
  have "ps_minBaseFeeWei H ps \<noteq> gc_word H ps j 2" if "j < length ?cs" for j
    using pricing_slots(3) [OF sys(3,4), of j 2 3] sys(5) that by auto
  then have "ps_minBaseFeeWei H ps \<notin> {gc_word H ps j 2 | j. j < length ?cs}" by blast
  then have "wei_at w1 (ps_minBaseFeeWei H ps) = wei_at w (ps_minBaseFeeWei H ps)"
    using same_exceptD [OF w1(4)] by (simp add: wei_at_def)
  then have fee': "exp_fee (wei_at w1 (ps_minBaseFeeWei H ps)) ?e = single_fee H ps w t" by (simp add: single_fee_def)
  obtain w' where w': "L2_SetBaseFeeWei H ps (single_fee H ps w t) (?r w1) = (Ok (), w')" "sysw w'"
    "wei_at w' (ps_baseFeeWei H ps) = saturate_wei (single_fee H ps w t)"
    "same_except {ps_baseFeeWei H ps} w1 w'" using SetBaseFee_run [of "?r w1"] sys1 by fastforce
  have "length ?cs = unat (u64_at w (gc_len H ps))" by (simp add: gas_constraints_def)
  then have "updatePricingModelSingleConstraints H ps t w = (Ok (), w')"
    using sys(1,2) w1(1) fee fee' w'(1)
    by (simp add: updatePricingModelSingleConstraints_def SubStorageVector_Length_def op_simps sys_simps u64_at_def)
  moreover have "constraints_ok H ps N w'" "gas_constraints H ps w' = map (pay_off t) ?cs"
    using constraints_ok_frame [OF w1(2) w'(2) same_except_mono [OF w'(4)]] w1(3) by auto
  moreover have "same_except (insert (ps_baseFeeWei H ps) {gc_word H ps j 2 | j. j < length ?cs}) w w'"
    using same_except_trans [OF w1(4) w'(4)] by (rule same_except_mono) auto
  ultimately show ?thesis using w'(3) by blast
qed

section \<open>Changing the vector of constraints\<close>

lemma three_words: "{f 0, f 1, f 2} = {f j | j :: nat. j < 3}"
proof -
  have "{..<3} = {0, 1, 2 :: nat}" by auto
  then have "f ` {..<3} = {f 0, f 1, f 2}" by simp
  then show ?thesis by (auto simp: image_def)
qed

lemma constraint_slots_at:
  "SubStorageVector_At H (ps_gasConstraints H ps) i = L2_OpenGasConstraintAt H ps i"
  by (simp add: L2_OpenGasConstraintAt_def)

lemma AddGasConstraint_run:
  assumes ok: "constraints_ok H ps N w" and room: "length (gas_constraints H ps w) < N"
  shows "\<exists>w'. L2_AddGasConstraint H ps target window backlog w = (Ok (), w') \<and> constraints_ok H ps N w'
    \<and> gas_constraints H ps w' = gas_constraints H ps w @ [(target, window, backlog)]
    \<and> same_except (insert (gc_len H ps) {gc_word H ps (length (gas_constraints H ps w)) j | j. j < 3}) w w'"
proof -
  let ?cs = "gas_constraints H ps w" and ?n = "length (gas_constraints H ps w)"
  have sys: "sysw w" "layout H (ps_storage ps) (pricing_locs N)" "N < 2 ^ 64" "N \<le> 2 ^ 64"
    and fit: "fits 64 (slot_read w (gc_len H ps))"
      "\<And>i j. i < ?n \<Longrightarrow> j < 3 \<Longrightarrow> fits 64 (slot_read w (gc_word H ps i j))"
    using ok by (simp_all add: constraints_ok_def)
  note sl = pricing_slots [OF sys(2,4)]
  have n: "vector_len H (ps_gasConstraints H ps) w = of_nat ?n"
    by (simp add: gas_constraints_def vector_len_def u64_at_def)
  have n1: "unat (of_nat ?n + 1 :: u64) = Suc ?n"
    using unat_of_nat_u64 [of "Suc ?n"] room sys(3) by (simp add: add.commute)
  obtain w1 where w1: "SubStorageVector_Push H (ps_gasConstraints H ps) w
      = (Ok (L2_OpenGasConstraintAt H ps (of_nat ?n)), w1)"
    "vector_ok H (ps_gasConstraints H ps) w1" "vector_len H (ps_gasConstraints H ps) w1 = of_nat ?n + 1"
    "same_except {gc_len H ps} w w1"
    using Push_run [of H "ps_gasConstraints H ps" w] sys(1) fit(1)
    by (auto simp: vector_ok_def n constraint_slots_at)
  define w' where "w' = snd (L2_AddGasConstraint H ps target window backlog w)"
  have ne: "gc_word H ps ?n 1 \<noteq> gc_word H ps ?n 2" "gc_word H ps ?n 0 \<noteq> gc_word H ps ?n 1"
    "gc_word H ps ?n 0 \<noteq> gc_word H ps ?n 2"
    using sl(1) [OF room _ room, of 1 2] sl(1) [OF room _ room, of 0 1] sl(1) [OF room _ room, of 0 2] by simp_all
  have sys1: "sysw w1" using w1(2) by (simp add: vector_ok_def)
  have run: "L2_AddGasConstraint H ps target window backlog w = (Ok (), w')" "sysw w'"
    "slot_read w' (gc_word H ps ?n 0) = ucast target" "slot_read w' (gc_word H ps ?n 1) = ucast window"
    "slot_read w' (gc_word H ps ?n 2) = ucast backlog"
    "same_except {gc_word H ps ?n 0, gc_word H ps ?n 1, gc_word H ps ?n 2} w1 w'"
    using sys1 w1(1) ne
    by (simp_all add: w'_def L2_AddGasConstraint_def GasConstraint_SetTarget_def GasConstraint_SetBacklog_def
        GasConstraint_SetAdjustmentWindow_def gc_word_fields op_simps sys_simps UintToHash_ucast same_except_write)
  have len: "slot_read w' (gc_len H ps) = slot_read w1 (gc_len H ps)"
    using sl(2) [OF room, of 0] sl(2) [OF room, of 1] sl(2) [OF room, of 2]
    by (intro same_exceptD [OF run(6)]) auto
  have rd: "slot_read w' (gc_word H ps i j) = slot_read w (gc_word H ps i j)" if "i < ?n" "j < 3" for i j
  proof -
    have "gc_word H ps i j \<notin> {gc_word H ps ?n 0, gc_word H ps ?n 1, gc_word H ps ?n 2}"
      using sl(1) [of i j ?n] that room by auto
    moreover have "gc_word H ps i j \<notin> {gc_len H ps}" using sl(2) [of i j] that room by simp
    ultimately show ?thesis using same_exceptD [OF run(6)] same_exceptD [OF w1(4)] by simp
  qed
  have "u64_at w' (gc_len H ps) = of_nat ?n + 1" using w1(3) len by (simp add: vector_len_def u64_at_def)
  then have cs: "gas_constraints H ps w' = ?cs @ [(target, window, backlog)]"
    using rd run(3-5) n1
    by (auto simp: gas_constraints_def constraint_at_def u64_at_def)
  moreover have "fits 64 (slot_read w' (gc_word H ps i j))" if "i < Suc ?n" "j < 3" for i j
    using that rd [of i j] fit(2) [of i j] run(3-5) less_Suc_eq [of j] 
    by (cases "i = ?n") (auto simp: numeral_3_eq_3 less_Suc_eq numeral_2_eq_2)
  then have "constraints_ok H ps N w'"
    using ok run(2) len w1(2) room cs by (simp add: constraints_ok_def vector_ok_def)
  moreover have "same_except (insert (gc_len H ps) {gc_word H ps (length (gas_constraints H ps w)) j | j. j < 3}) w w'"
    using same_except_trans [OF w1(4) run(6)] by (rule same_except_mono) (simp only: three_words [of "gc_word H ps _"], blast)
  ultimately show ?thesis using run(1) by blast
qed

lemma clear_last_run:
  assumes ok: "constraints_ok H ps N w" and n: "length (gas_constraints H ps w) = Suc n"
  shows "\<exists>w'. bnd (SubStorageVector_Pop H (ps_gasConstraints H ps)) (GasConstraint_Clear H) w = (Ok (), w')
    \<and> constraints_ok H ps N w' \<and> gas_constraints H ps w' = butlast (gas_constraints H ps w)
    \<and> same_except (insert (gc_len H ps) {gc_word H ps n j | j. j < 3}) w w'
    \<and> (\<forall>j < 3. slot_read w' (gc_word H ps n j) = 0)"
proof -
  let ?cs = "gas_constraints H ps w"
  have sys: "sysw w" "layout H (ps_storage ps) (pricing_locs N)" "N < 2 ^ 64" "N \<le> 2 ^ 64" "n < N"
    and fit: "fits 64 (slot_read w (gc_len H ps))"
      "\<And>i j. i < Suc n \<Longrightarrow> j < 3 \<Longrightarrow> fits 64 (slot_read w (gc_word H ps i j))"
    using ok n by (simp_all add: constraints_ok_def)
  note sl = pricing_slots [OF sys(2,4)]
  have len: "vector_len H (ps_gasConstraints H ps) w = of_nat (Suc n)"
    using n by (simp add: gas_constraints_def vector_len_def u64_at_def del: of_nat_Suc)
      (metis of_nat_unat_id)
  have nz: "of_nat (Suc n) \<noteq> (0 :: u64)" "of_nat (Suc n) - 1 = (of_nat n :: u64)"
    using of_nat_u64_eq_0 [of "Suc n"] sys(3,5) by simp_all
  have ov: "vector_ok H (ps_gasConstraints H ps) w" using sys(1) fit(1) by (simp add: vector_ok_def)
  obtain w1 where w1: "SubStorageVector_Pop H (ps_gasConstraints H ps) w
      = (Ok (L2_OpenGasConstraintAt H ps (of_nat n)), w1)"
    "vector_ok H (ps_gasConstraints H ps) w1" "vector_len H (ps_gasConstraints H ps) w1 = of_nat n"
    "same_except {gc_len H ps} w w1"
    using Pop_run [OF ov] nz len by (auto simp: constraint_slots_at simp del: of_nat_Suc)
  have sys1: "sysw w1" using w1(2) by (simp add: vector_ok_def)
  define w' where "w' = snd (GasConstraint_Clear H (L2_OpenGasConstraintAt H ps (of_nat n)) w1)"
  have run: "GasConstraint_Clear H (L2_OpenGasConstraintAt H ps (of_nat n)) w1 = (Ok (), w')" "sysw w'"
    "slot_read w' (gc_word H ps n 0) = 0" "slot_read w' (gc_word H ps n 1) = 0" "slot_read w' (gc_word H ps n 2) = 0"
    "same_except {gc_word H ps n 0, gc_word H ps n 1, gc_word H ps n 2} w1 w'"
    using sys1
    by (simp_all add: w'_def GasConstraint_Clear_def StorageBackedUint64_Clear_def gc_word_fields op_simps sys_simps
        UintToHash_ucast same_except_write slot_read_write)
  have gl: "slot_read w' (gc_len H ps) = slot_read w1 (gc_len H ps)"
    using sl(2) [OF sys(5), of 0] sl(2) [OF sys(5), of 1] sl(2) [OF sys(5), of 2]
    by (intro same_exceptD [OF run(6)]) auto
  have rd: "slot_read w' (gc_word H ps i j) = slot_read w (gc_word H ps i j)" if "i < n" "j < 3" for i j
  proof -
    have "gc_word H ps i j \<notin> {gc_word H ps n 0, gc_word H ps n 1, gc_word H ps n 2}"
      using sl(1) [of i j n] that sys(5) by auto
    moreover have "gc_word H ps i j \<notin> {gc_len H ps}" using sl(2) [of i j] that sys(5) by simp
    ultimately show ?thesis using same_exceptD [OF run(6)] same_exceptD [OF w1(4)] by simp
  qed
  have "unat (of_nat n :: u64) = n" using sys(3,5) unat_of_nat_u64 [of n] by linarith
  then have "unat (u64_at w' (gc_len H ps)) = n" using w1(3) gl by (simp add: vector_len_def u64_at_def)
  moreover have "unat (u64_at w (gc_len H ps)) = Suc n" using n by (simp add: gas_constraints_def)
  ultimately have cs: "gas_constraints H ps w' = butlast ?cs" "length (gas_constraints H ps w') = n"
    using rd by (auto simp: gas_constraints_def constraint_at_def u64_at_def)
  moreover have "constraints_ok H ps N w'"
    using ok run(2) gl w1(2) fit(2) sys(5) cs(2) rd by (simp add: constraints_ok_def vector_ok_def)
  moreover have "same_except (insert (gc_len H ps) {gc_word H ps n j | j. j < 3}) w w'"
    using same_except_trans [OF w1(4) run(6)] by (rule same_except_mono) (simp only: three_words [of "gc_word H ps _"], blast)
  moreover have "\<forall>j < 3. slot_read w' (gc_word H ps n j) = 0"
    using run(3-5) by (auto simp: numeral_3_eq_3 less_Suc_eq numeral_2_eq_2)
  ultimately show ?thesis using run(1) w1(1) by (simp add: op_simps)
qed

lemma clear_loop:
  assumes "constraints_ok H ps N w" "length (gas_constraints H ps w) = n"
  shows "\<exists>w'. repeat_op n (bnd (SubStorageVector_Pop H (ps_gasConstraints H ps)) (GasConstraint_Clear H)) w = (Ok (), w')
    \<and> constraints_ok H ps N w' \<and> gas_constraints H ps w' = []
    \<and> same_except (insert (gc_len H ps) {gc_word H ps i j | i j. i < n \<and> j < 3}) w w'
    \<and> (\<forall>i < n. \<forall>j < 3. slot_read w' (gc_word H ps i j) = 0)"
  using assms
proof (induction n arbitrary: w)
  case 0
  then show ?case by (simp add: ret_run)
next
  case (Suc n)
  have sys: "layout H (ps_storage ps) (pricing_locs N)" "N \<le> 2 ^ 64" "n < N"
    using Suc.prems by (simp_all add: constraints_ok_def)
  obtain w1 where w1: "bnd (SubStorageVector_Pop H (ps_gasConstraints H ps)) (GasConstraint_Clear H) w = (Ok (), w1)"
    "constraints_ok H ps N w1" "gas_constraints H ps w1 = butlast (gas_constraints H ps w)"
    "same_except (insert (gc_len H ps) {gc_word H ps n j | j. j < 3}) w w1"
    "\<forall>j < 3. slot_read w1 (gc_word H ps n j) = 0"
    using clear_last_run [OF Suc.prems] by blast
  obtain w' where w': "repeat_op n (bnd (SubStorageVector_Pop H (ps_gasConstraints H ps)) (GasConstraint_Clear H)) w1 = (Ok (), w')"
    "constraints_ok H ps N w'" "gas_constraints H ps w' = []"
    "same_except (insert (gc_len H ps) {gc_word H ps i j | i j. i < n \<and> j < 3}) w1 w'"
    "\<forall>i < n. \<forall>j < 3. slot_read w' (gc_word H ps i j) = 0"
    using Suc.IH [OF w1(2)] w1(3) Suc.prems(2) by auto
  have "slot_read w' (gc_word H ps n j) = 0" if "j < 3" for j
  proof -
    have "gc_word H ps n j \<noteq> gc_word H ps i k" if "i < n" "k < 3" for i k
      using pricing_slots(1) [OF sys(1,2,3) \<open>j < 3\<close>, of i k] that sys(3) by auto
    then have "gc_word H ps n j \<notin> insert (gc_len H ps) {gc_word H ps i j | i j. i < n \<and> j < 3}"
      using pricing_slots(2) [OF sys(1,2,3) that] by blast
    then show ?thesis using same_exceptD [OF w'(4)] w1(5) that by simp
  qed
  moreover have "same_except (insert (gc_len H ps) {gc_word H ps i j | i j. i < Suc n \<and> j < 3}) w w'"
    using same_except_trans [OF w1(4) w'(4)] by (rule same_except_mono) (auto simp: less_Suc_eq)
  ultimately show ?case using w1(1) w' by (auto simp: op_simps less_Suc_eq)
qed

lemma ClearGasConstraints_run:
  assumes ok: "constraints_ok H ps N w"
  shows "\<exists>w'. L2_ClearGasConstraints H ps w = (Ok (), w') \<and> constraints_ok H ps N w' \<and> gas_constraints H ps w' = []
    \<and> same_except (insert (gc_len H ps) {gc_word H ps i j | i j. i < length (gas_constraints H ps w) \<and> j < 3}) w w'
    \<and> (\<forall>i < length (gas_constraints H ps w). \<forall>j < 3. slot_read w' (gc_word H ps i j) = 0)"
proof -
  let ?w = "tick StorageAccessRead StorageReadCost w"
  have "constraints_ok H ps N ?w" "gas_constraints H ps ?w = gas_constraints H ps w"
    using constraints_ok_frame [OF ok, of ?w] ok by (simp_all add: constraints_ok_def)
  from clear_loop [OF this(1)] this(2) obtain w'
    where w': "repeat_op (length (gas_constraints H ps w))
      (bnd (SubStorageVector_Pop H (ps_gasConstraints H ps)) (GasConstraint_Clear H)) ?w = (Ok (), w')"
    "constraints_ok H ps N w'" "gas_constraints H ps w' = []"
    "same_except (insert (gc_len H ps) {gc_word H ps i j | i j. i < length (gas_constraints H ps w) \<and> j < 3}) w w'"
    "\<forall>i < length (gas_constraints H ps w). \<forall>j < 3. slot_read w' (gc_word H ps i j) = 0" by auto
  have "length (gas_constraints H ps w) = unat (u64_at w (gc_len H ps))" by (simp add: gas_constraints_def)
  then have "L2_ClearGasConstraints H ps w = (Ok (), w')"
    using w'(1) ok
    by (simp add: L2_ClearGasConstraints_def L2_GasConstraintsLength_def SubStorageVector_Length_def op_simps sys_simps
        constraints_ok_def u64_at_def)
  then show ?thesis using w' by blast
qed

lemma setGasConstraintsFromLegacy_run:
  assumes ok: "constraints_ok H ps N w" "legacy_ok H ps w" and "0 < N"
  shows "\<exists>w'. setGasConstraintsFromLegacy H ps w = (Ok (), w') \<and> constraints_ok H ps N w'
    \<and> gas_constraints H ps w' = [(u64_at w (ps_speedLimitPerSecond H ps), u64_at w (ps_pricingInertia H ps),
         SaturatingUSub (u64_at w (ps_gasBacklog H ps))
           (SaturatingUMul (u64_at w (ps_backlogTolerance H ps)) (u64_at w (ps_speedLimitPerSecond H ps))))]
    \<and> same_except (insert (gc_len H ps) {gc_word H ps i j | i j. i < N \<and> j < 3}) w w'"
proof -
  let ?F = "insert (gc_len H ps) {gc_word H ps i j | i j. i < N \<and> j < 3}"
  have sys: "layout H (ps_storage ps) (pricing_locs N)" "N \<le> 2 ^ 64" "length (gas_constraints H ps w) \<le> N"
    using ok by (simp_all add: constraints_ok_def)
  have out: "ps_word H ps k \<notin> ?F" if "k < 8" for k
    using pricing_slots(3) [OF sys(1,2) _ _ that] pricing_slots(4) [OF sys(1,2) that] by force
  obtain w1 where w1: "L2_ClearGasConstraints H ps w = (Ok (), w1)" "constraints_ok H ps N w1"
    "gas_constraints H ps w1 = []" "same_except ?F w w1"
  proof -
    obtain w1 where "L2_ClearGasConstraints H ps w = (Ok (), w1)" "constraints_ok H ps N w1" "gas_constraints H ps w1 = []"
      "same_except (insert (gc_len H ps) {gc_word H ps i j | i j. i < length (gas_constraints H ps w) \<and> j < 3}) w w1"
      using ClearGasConstraints_run [OF ok(1)] by blast
    moreover have "same_except ?F w w1"
      by (rule same_except_mono [OF calculation(4)]) (use sys(3) in fastforce)
    ultimately show ?thesis using that by blast
  qed
  let ?r = "tick StorageAccessRead StorageReadCost"
  let ?w2 = "?r (?r (?r (?r w1)))"
  have rd: "slot_read w1 (ps_word H ps k) = slot_read w (ps_word H ps k)" if "k < 8" for k
    using same_exceptD [OF w1(4) out [OF that]] .
  have sys1: "sysw w1" using w1(2) by (simp add: constraints_ok_def)
  have fit: "fits 64 (slot_read w (ps_word H ps 0))" "fits 64 (slot_read w (ps_word H ps 4))"
    "fits 64 (slot_read w (ps_word H ps 5))" "fits 64 (slot_read w (ps_word H ps 6))"
    using ok(2) by (simp_all add: legacy_ok_def)
  have ok2: "constraints_ok H ps N ?w2" "gas_constraints H ps ?w2 = []"
    using constraints_ok_frame [OF w1(2), of ?w2] sys1 w1(3) by simp_all
  let ?c = "(u64_at w (ps_speedLimitPerSecond H ps), u64_at w (ps_pricingInertia H ps),
         SaturatingUSub (u64_at w (ps_gasBacklog H ps))
           (SaturatingUMul (u64_at w (ps_backlogTolerance H ps)) (u64_at w (ps_speedLimitPerSecond H ps))))"
  obtain w' where w': "L2_AddGasConstraint H ps (fst ?c) (fst (snd ?c)) (snd (snd ?c)) ?w2 = (Ok (), w')"
    "constraints_ok H ps N w'" "gas_constraints H ps w' = [?c]"
    "same_except (insert (gc_len H ps) {gc_word H ps 0 j | j. j < 3}) w1 w'"
    using AddGasConstraint_run [OF ok2(1), of "fst ?c" "fst (snd ?c)" "snd (snd ?c)"] ok2(2) assms(3) by auto
  have "setGasConstraintsFromLegacy H ps w = (Ok (), w')"
    using w1(1) w'(1) sys1 fit rd
    by (simp add: setGasConstraintsFromLegacy_def l2_getters op_simps sys_simps u64_at_def [symmetric] Let_def)
  moreover have "same_except ?F w w'"
    using same_except_trans [OF w1(4) w'(4)] by (rule same_except_mono) (use assms(3) in auto)
  ultimately show ?thesis using w' by blast
qed

lemma SaturatingUSub_commute:
  "SaturatingUSub (SaturatingUSub a b) c = SaturatingUSub (SaturatingUSub a c) (b :: u64)"
  by (simp add: word_unat_eq_iff SaturatingUSub_unat)

lemma SaturatingUMul_exact: "unat a * unat b < 2 ^ 64 \<Longrightarrow> SaturatingUMul a b = a * (b :: u64)"
  by (simp add: word_unat_eq_iff SaturatingUMul_unat unat_word_ariths)

lemma total_exponent_single:
  assumes "constraint_divides c"
  shows "total_exponent [c] 0 = constraint_exponent c"
  using inBips_exponent [OF assms] by (simp add: total_exponent_def inBips_add inBips_def min_def)

lemma converted_fee:
  assumes nz: "legacy_divisor H ps w \<noteq> 0"
    and fit: "unat (u64_at w (ps_backlogTolerance H ps)) * unat (u64_at w (ps_speedLimitPerSecond H ps)) < 2 ^ 64"
    and w': "wei_at w' (ps_minBaseFeeWei H ps) = wei_at w (ps_minBaseFeeWei H ps)"
      "gas_constraints H ps w' = [(u64_at w (ps_speedLimitPerSecond H ps), u64_at w (ps_pricingInertia H ps),
         SaturatingUSub (u64_at w (ps_gasBacklog H ps))
           (SaturatingUMul (u64_at w (ps_backlogTolerance H ps)) (u64_at w (ps_speedLimitPerSecond H ps))))]"
  shows "single_fee H ps w' t = legacy_fee H ps w t"
proof -
  let ?S = "u64_at w (ps_speedLimitPerSecond H ps)" and ?I = "u64_at w (ps_pricingInertia H ps)"
  have nz': "SaturatingUMul ?I ?S \<noteq> 0" using nz by (simp add: legacy_divisor_def)
  have "map (pay_off t) (gas_constraints H ps w') = [(?S, ?I, legacy_excess H ps w t)]"
    using SaturatingUSub_commute by (simp add: w'(2) legacy_excess_def legacy_backlog_def SaturatingUMul_exact [OF fit])
  moreover have "constraint_exponent (?S, ?I, legacy_excess H ps w t) = backlog_exponent (legacy_excess H ps w t) ?I ?S"
    using backlog_exponent_0 [OF nz'] by simp
  moreover have "constraint_divides (?S, ?I, legacy_excess H ps w t)" using nz' by simp
  ultimately show ?thesis
    using w'(1) total_exponent_single by (simp only: single_fee_def legacy_fee_def)
qed

lemma backlog_exponent_real:
  assumes "SaturatingUMul i s \<noteq> 0"
  shows "real_of_int (backlog_exponent b i s) / 10000 \<le> real (unat b) / real_of_int (SaturatingCast 64 (SaturatingUMul i s))"
proof -
  let ?d = "SaturatingCast 64 (SaturatingUMul i s)" and ?a = "min (10000 * min (uint b) (2 ^ 63 - 1)) (2 ^ 63 - 1)"
  have d: "0 < ?d" using assms SaturatingCast_0 [of "SaturatingUMul i s"]
    by (metis SaturatingCast_u64 min_def order_le_less uint_ge_0 zero_less_numeral zero_less_power zle_diff1_eq)
  have "real_of_int ?a \<le> real_of_int (10000 * uint b)" unfolding of_int_le_iff by simp
  then have ab: "real_of_int ?a \<le> 10000 * real (unat b)" by simp
  have "real_of_int (backlog_exponent b i s) \<le> real_of_int ?a / real_of_int ?d"
    using real_of_int_div4 [of ?a ?d] backlog_exponent_eq(1) [OF assms, of b] by (simp only: SaturatingCast_u64)
  also have "\<dots> \<le> 10000 * real (unat b) / real_of_int ?d"
    using ab d by (intro divide_right_mono) simp_all
  finally show ?thesis by (simp add: mult.commute)
qed

text \<open>A world in which the pricer holds its initial parameters and a backlog.\<close>

definition demo_ps :: L2PricingState where
  "demo_ps = OpenL2PricingState tree_root 20"

definition demo_pricing :: "u64 \<Rightarrow> u64 \<Rightarrow> world" where
  "demo_pricing speed backlog =
     slot_write (ps_speedLimitPerSecond tree_hash demo_ps) (ucast speed)
     (slot_write (ps_pricingInertia tree_hash demo_ps) 102
     (slot_write (ps_backlogTolerance tree_hash demo_ps) 10
     (slot_write (ps_gasBacklog tree_hash demo_ps) (ucast backlog)
     (slot_write (ps_minBaseFeeWei tree_hash demo_ps) 100000000 demo_world))))"

lemma demo_pricing_reads [simp]:
  "u64_at (demo_pricing s b) (ps_word tree_hash demo_ps 0) = s"
  "u64_at (demo_pricing s b) (ps_word tree_hash demo_ps 5) = 102"
  "u64_at (demo_pricing s b) (ps_word tree_hash demo_ps 6) = 10"
  "u64_at (demo_pricing s b) (ps_word tree_hash demo_ps 4) = b"
  "wei_at (demo_pricing s b) (ps_word tree_hash demo_ps 3) = 100000000"
  by (simp_all add: demo_pricing_def at_write ps_word_inject)

lemma demo_legacy_ok [simp]: "legacy_ok tree_hash demo_ps (demo_pricing s b)"
proof -
  have "fits 64 (ucast v)" for v :: u64 by simp
  moreover have "fits 64 10" "fits 64 102" by (simp_all add: fits_def)
  ultimately show ?thesis by (simp add: legacy_ok_def demo_pricing_def slot_read_write ps_word_inject)
qed

lemma demo_pricing_layout: "layout tree_hash (ps_storage demo_ps) (pricing_locs 1)"
proof -
  have "layout tree_hash tree_root (pricing_locs 1)"
  proof (rule tree_layout [where S = "{[0], be_bytes 8 0}"])
    show "inj_on id_code {[0], be_bytes 8 0}" by (simp add: inj_on_def id_code_def)
    have small: "unat (of_nat i :: u64) < 2 ^ 40" if "i < 8" for i
      using that unat_of_nat_u64 [of i] by simp
    show "set p \<subseteq> {[0], be_bytes 8 0} \<and> length p \<le> 5 \<and> unat k < 2 ^ 40" if "(p, k) \<in> pricing_locs 1" for p k
      using that small by (auto simp: pricing_locs_def)
  qed
  then show ?thesis by (simp add: demo_ps_def OpenL2PricingState_def)
qed

lemma demo_constraints_ok: "constraints_ok tree_hash demo_ps 1 (demo_pricing s b)"
proof -
  have "gc_len tree_hash demo_ps \<noteq> ps_word tree_hash demo_ps k" if "k < 8" for k
    using pricing_slots(4) [OF demo_pricing_layout _ that] by simp
  then have "slot_read (demo_pricing s b) (gc_len tree_hash demo_ps) = 0"
    by (simp add: demo_pricing_def slot_read_write)
  moreover have "sysw (demo_pricing s b)" by (simp add: demo_pricing_def)
  ultimately show ?thesis using demo_pricing_layout
    by (simp add: constraints_ok_def gas_constraints_def u64_at_def)
qed

section \<open>Properties\<close>



text \<open>C21: Converting the legacy parameters into a single-gas constraint keeps the price: for every
  time passed, the base fee that the single-gas model computes right after
  \<^verbatim>\<open>setGasConstraintsFromLegacy\<close> is the one the legacy model would have computed, as long as
  tolerance times speed limit fits into 64 bits.\<close>

theorem conversion_keeps_price:
  assumes ok: "constraints_ok H ps N w" "legacy_ok H ps w" "0 < N" and nz: "legacy_divisor H ps w \<noteq> 0"
    and fit: "unat (u64_at w (ps_backlogTolerance H ps)) * unat (u64_at w (ps_speedLimitPerSecond H ps)) < 2 ^ 64"
  shows "\<exists>w1 w2. updatePricingModelLegacy H ps t w = (Ok (), w1)
    \<and> bnd (setGasConstraintsFromLegacy H ps) (\<lambda>_. updatePricingModelSingleConstraints H ps t) w = (Ok (), w2)
    \<and> wei_at w2 (ps_baseFeeWei H ps) = wei_at w1 (ps_baseFeeWei H ps)"
proof -
  obtain w1 where w1: "updatePricingModelLegacy H ps t w = (Ok (), w1)"
    "wei_at w1 (ps_baseFeeWei H ps) = saturate_wei (legacy_fee H ps w t)"
    using updatePricingModelLegacy_run [OF ok(2) nz] by blast
  let ?c = "(u64_at w (ps_speedLimitPerSecond H ps), u64_at w (ps_pricingInertia H ps),
         SaturatingUSub (u64_at w (ps_gasBacklog H ps))
           (SaturatingUMul (u64_at w (ps_backlogTolerance H ps)) (u64_at w (ps_speedLimitPerSecond H ps))))"
  obtain w' where w': "setGasConstraintsFromLegacy H ps w = (Ok (), w')" "constraints_ok H ps N w'"
    "gas_constraints H ps w' = [?c]"
    "same_except (insert (gc_len H ps) {gc_word H ps i j | i j. i < N \<and> j < 3}) w w'"
    using setGasConstraintsFromLegacy_run [OF ok] by blast
  have lay: "layout H (ps_storage ps) (pricing_locs N)" "N \<le> 2 ^ 64" using ok(1) by (simp_all add: constraints_ok_def)
  have "ps_minBaseFeeWei H ps \<notin> insert (gc_len H ps) {gc_word H ps i j | i j. i < N \<and> j < 3}"
    using pricing_slots(3) [OF lay, of _ _ 3] pricing_slots(4) [OF lay, of 3] by force
  then have m: "wei_at w' (ps_minBaseFeeWei H ps) = wei_at w (ps_minBaseFeeWei H ps)"
    using same_exceptD [OF w'(4)] by (simp add: wei_at_def)
  have "constraint_divides (pay_off t c)" if "c \<in> set (gas_constraints H ps w')" for c
    using that nz by (auto simp: w'(3) legacy_divisor_def)
  from updatePricingModelSingle_run [OF w'(2) this] obtain w2 where
    "updatePricingModelSingleConstraints H ps t w' = (Ok (), w2)"
    "wei_at w2 (ps_baseFeeWei H ps) = saturate_wei (single_fee H ps w' t)" by blast
  then show ?thesis using w1 w'(1) converted_fee [OF nz fit m w'(3)] by (auto simp: op_simps)
qed

theorem conversion_keeps_price_witness:
  "\<exists>w1 w2. updatePricingModelLegacy tree_hash demo_ps 1 (demo_pricing 1000000 12000000) = (Ok (), w1)
    \<and> bnd (setGasConstraintsFromLegacy tree_hash demo_ps) (\<lambda>_. updatePricingModelSingleConstraints tree_hash demo_ps 1)
        (demo_pricing 1000000 12000000) = (Ok (), w2)
    \<and> wei_at w2 (ps_baseFeeWei tree_hash demo_ps) = wei_at w1 (ps_baseFeeWei tree_hash demo_ps)"
  by (rule conversion_keeps_price [OF demo_constraints_ok demo_legacy_ok])
    (simp_all add: legacy_divisor_def SaturatingUMul_def)

text \<open>With a zero divisor (speed limit or inertia 0) and a backlog beyond the tolerance, the legacy
  update panics with an integer division by zero: the guards of the owner's setters are what
  keeps block production safe.\<close>

theorem zero_divisor_panics:
  assumes "legacy_ok H ps w" and "legacy_divisor H ps w = 0" and "legacy_excess H ps w t \<noteq> 0"
  shows "\<exists>w'. updatePricingModelLegacy H ps t w = (Panic ''integer divide by zero'', w')"
  by (rule updatePricingModelLegacy_panics [OF assms])

text \<open>C12: The single-gas model refines its description on values: with \<open>n\<close> constraints it pays off each
  backlog at its own target, and sets the base fee to the minimum fee at the saturating sum of
  the exponents that the remaining backlogs give. It is never below the minimum base fee.\<close>

theorem single_gas_refines:
  assumes "constraints_ok H ps N w"
    and "\<And>c. c \<in> set (gas_constraints H ps w) \<Longrightarrow> constraint_divides (pay_off t c)"
  shows "\<exists>w'. updatePricingModelSingleConstraints H ps t w = (Ok (), w')
    \<and> gas_constraints H ps w' = map (pay_off t) (gas_constraints H ps w)
    \<and> wei_at w' (ps_baseFeeWei H ps) = saturate_wei (exp_fee (wei_at w (ps_minBaseFeeWei H ps))
        (total_exponent (map (pay_off t) (gas_constraints H ps w)) 0))
    \<and> wei_at w (ps_minBaseFeeWei H ps) \<le> wei_at w' (ps_baseFeeWei H ps)"
proof -
  let ?m = "wei_at w (ps_minBaseFeeWei H ps)"
  have "inBips (total_exponent (map (pay_off t) (gas_constraints H ps w)) 0)"
    using assms(2) by (intro inBips_total) (auto simp: inBips_def)
  then have "?m \<le> single_fee H ps w t"
    unfolding single_fee_def by (intro exp_fee_bounds) (simp_all add: inBips_def wei_at_def)
  moreover have "?m < 2 ^ 256" "0 \<le> ?m" using uint_lt_pow [of "slot_read w (ps_minBaseFeeWei H ps)"]
    by (simp_all add: wei_at_def)
  ultimately have "?m \<le> saturate_wei (single_fee H ps w t)"
    by (simp add: saturate_wei_def twoToThe256_def)
  then show ?thesis using updatePricingModelSingle_run [OF assms] by (auto simp: single_fee_def)
qed

theorem single_gas_refines_witness:
  "\<exists>w w'. L2_AddGasConstraint tree_hash demo_ps 1000000 102 2000000 (demo_pricing 0 0) = (Ok (), w)
    \<and> updatePricingModelSingleConstraints tree_hash demo_ps 1 w = (Ok (), w')
    \<and> gas_constraints tree_hash demo_ps w' = [(1000000, 102, 1000000)]"
proof -
  have e: "gas_constraints tree_hash demo_ps (demo_pricing 0 0) = []"
    using pricing_slots(4) [OF demo_pricing_layout]
    by (simp add: gas_constraints_def u64_at_def demo_pricing_def slot_read_write)
  then obtain w where w: "L2_AddGasConstraint tree_hash demo_ps 1000000 102 2000000 (demo_pricing 0 0) = (Ok (), w)"
    "constraints_ok tree_hash demo_ps 1 w" "gas_constraints tree_hash demo_ps w = [(1000000, 102, 2000000)]"
    using AddGasConstraint_run [OF demo_constraints_ok, of 0 0 1000000 102 2000000] by auto
  then have "constraint_divides (pay_off 1 c)" if "c \<in> set (gas_constraints tree_hash demo_ps w)" for c
    using that by (simp add: SaturatingUMul_def)
  from single_gas_refines [OF w(2) this] show ?thesis using w by (auto simp: SaturatingUMul_def SaturatingUSub_def)
qed

end
