(* ===== verification/MultiGasPricing.thy ===== *)
theory MultiGasPricing
  imports L2Pricing
begin

text \<open>
  The multi-gas model of the L2 pricer: what its update does, in terms of the constraints as
  values. The exponents per resource kind, the fees they give, and the price of a transaction.
\<close>

declare quiet_refl [simp] quiet_read [simp]

section \<open>The words of the multi-gas model\<close>

definition multi_locs :: "nat \<Rightarrow> loc set" where
  "multi_locs n = (\<lambda>i. ([], UintToHash (of_nat i))) ` {..<8}
     \<union> {([[1]], UintToHash 0)}
     \<union> (\<lambda>(i, j). ([[1], be_bytes 8 i], UintToHash (of_nat j))) ` ({..<n} \<times> {..<13})
     \<union> (\<lambda>k. ([[2]], UintToHash (of_nat k))) ` {..<18}"

definition mc_word :: "(bytes \<Rightarrow> bytes) \<Rightarrow> L2PricingState \<Rightarrow> nat \<Rightarrow> nat \<Rightarrow> StorageSlot" where
  "mc_word H ps i j = NewSlot H (L2_OpenMultiGasConstraintAt H ps (of_nat i)) (of_nat j)"

abbreviation mc_len :: "(bytes \<Rightarrow> bytes) \<Rightarrow> L2PricingState \<Rightarrow> StorageSlot" where
  "mc_len H ps \<equiv> vector_length H (ps_multiGasConstraints H ps)"

abbreviation next_fee :: "(bytes \<Rightarrow> bytes) \<Rightarrow> L2PricingState \<Rightarrow> nat \<Rightarrow> StorageSlot" where
  "next_fee H ps k \<equiv> mgf_next H (ps_multiGasFees H ps) k"

abbreviation current_fee :: "(bytes \<Rightarrow> bytes) \<Rightarrow> L2PricingState \<Rightarrow> nat \<Rightarrow> StorageSlot" where
  "current_fee H ps k \<equiv> mgf_current H (ps_multiGasFees H ps) k"

lemma mc_word_fields:
  "mgc_target H (L2_OpenMultiGasConstraintAt H ps (of_nat i)) = mc_word H ps i 0"
  "mgc_adjustmentWindow H (L2_OpenMultiGasConstraintAt H ps (of_nat i)) = mc_word H ps i 1"
  "mgc_backlog H (L2_OpenMultiGasConstraintAt H ps (of_nat i)) = mc_word H ps i 2"
  "mgc_maxWeight H (L2_OpenMultiGasConstraintAt H ps (of_nat i)) = mc_word H ps i 3"
  "mgc_weightedResources H (L2_OpenMultiGasConstraintAt H ps (of_nat i)) k = mc_word H ps i (4 + k)"
  by (simp_all add: mc_word_def mgc_target_def mgc_adjustmentWindow_def mgc_backlog_def mgc_maxWeight_def
      mgc_weightedResources_def)

lemma multi_loc_slots:
  "mc_len H ps = loc_slot H (ps_storage ps) ([[1]], UintToHash 0)"
  "i < 2 ^ 64 \<Longrightarrow> mc_word H ps i j = loc_slot H (ps_storage ps) ([[1], be_bytes 8 i], UintToHash (of_nat j))"
  "next_fee H ps k = loc_slot H (ps_storage ps) ([[2]], UintToHash (of_nat k))"
  "current_fee H ps k = loc_slot H (ps_storage ps) ([[2]], UintToHash (of_nat (9 + k)))"
  by (simp_all add: vector_length_def ps_multiGasConstraints_def ps_multiGasFees_def mc_word_def
      L2_OpenMultiGasConstraintAt_def SubStorageVector_At_def OpenSubStorage_path NewSlot_loc loc_slot_path open_path_append
      unat_of_nat mgf_next_def mgf_current_def NumResourceKind_def)

lemma of_nat_hash_inject: "i < 256 \<Longrightarrow> j < 256 \<Longrightarrow> UintToHash (of_nat i) = UintToHash (of_nat j) \<longleftrightarrow> i = j"
  using of_nat_u64_inject [of i j] by simp

lemma multi_slots:
  assumes "layout H (ps_storage ps) (multi_locs n)" and "n \<le> 2 ^ 64"
  shows "i < n \<Longrightarrow> j < 13 \<Longrightarrow> i' < n \<Longrightarrow> j' < 13 \<Longrightarrow> mc_word H ps i j = mc_word H ps i' j' \<longleftrightarrow> i = i' \<and> j = j'"
    and "i < n \<Longrightarrow> j < 13 \<Longrightarrow> mc_word H ps i j \<noteq> mc_len H ps"
    and "i < n \<Longrightarrow> j < 13 \<Longrightarrow> k < 8 \<Longrightarrow> mc_word H ps i j \<noteq> ps_word H ps k"
    and "k < 8 \<Longrightarrow> mc_len H ps \<noteq> ps_word H ps k"
    and "i < n \<Longrightarrow> j < 13 \<Longrightarrow> k < 9 \<Longrightarrow> mc_word H ps i j \<noteq> next_fee H ps k"
    and "k < 9 \<Longrightarrow> mc_len H ps \<noteq> next_fee H ps k"
    and "k < 9 \<Longrightarrow> i < 8 \<Longrightarrow> next_fee H ps k \<noteq> ps_word H ps i"
    and "k < 9 \<Longrightarrow> i < 9 \<Longrightarrow> next_fee H ps k = next_fee H ps i \<longleftrightarrow> k = i"
    and "k < 9 \<Longrightarrow> i < 9 \<Longrightarrow> current_fee H ps k = current_fee H ps i \<longleftrightarrow> k = i"
    and "k < 9 \<Longrightarrow> i < 9 \<Longrightarrow> current_fee H ps k \<noteq> next_fee H ps i"
proof -
  note d = layoutD [OF assms(1)] and u = of_nat_hash_inject
  have b: "i < n \<Longrightarrow> j < n \<Longrightarrow> be_bytes 8 i = be_bytes 8 j \<longleftrightarrow> i = j" for i j
    using be_bytes_inject [of i 8 j] assms(2) by simp
  have l: "i < n \<Longrightarrow> i < 2 ^ 64" for i using assms(2) by linarith
  have g: "i < n \<Longrightarrow> mc_word H ps i j = loc_slot H (ps_storage ps) ([[1], be_bytes 8 i], UintToHash (of_nat j))" for i j
    using multi_loc_slots(2) l by blast
  have m: "i < n \<Longrightarrow> j < 13 \<Longrightarrow> ([[1], be_bytes 8 i], UintToHash (of_nat j)) \<in> multi_locs n"
    "([[1]], UintToHash 0) \<in> multi_locs n" "k < 8 \<Longrightarrow> ([], UintToHash (of_nat k)) \<in> multi_locs n"
    "k < 18 \<Longrightarrow> ([[2]], UintToHash (of_nat k)) \<in> multi_locs n" for i j k
    by (auto simp: multi_locs_def)
  note s = multi_loc_slots(1,3,4) l2_locs(1)
  show "i < n \<Longrightarrow> j < 13 \<Longrightarrow> i' < n \<Longrightarrow> j' < 13 \<Longrightarrow> mc_word H ps i j = mc_word H ps i' j' \<longleftrightarrow> i = i' \<and> j = j'"
    using d [OF m(1) m(1), of i j i' j'] b [of i i'] u [of j j'] by (simp add: g del: UintToHash_inject)
  show "i < n \<Longrightarrow> j < 13 \<Longrightarrow> mc_word H ps i j \<noteq> mc_len H ps"
    using d [OF m(1) m(2), of i j] by (simp add: s g)
  show "i < n \<Longrightarrow> j < 13 \<Longrightarrow> k < 8 \<Longrightarrow> mc_word H ps i j \<noteq> ps_word H ps k"
    using d [OF m(1) m(3), of i j k] by (simp add: s g)
  show "k < 8 \<Longrightarrow> mc_len H ps \<noteq> ps_word H ps k"
    using d [OF m(2) m(3), of k] by (simp add: s)
  show "i < n \<Longrightarrow> j < 13 \<Longrightarrow> k < 9 \<Longrightarrow> mc_word H ps i j \<noteq> next_fee H ps k"
    using d [OF m(1) m(4), of i j k] by (simp add: s g)
  show "k < 9 \<Longrightarrow> mc_len H ps \<noteq> next_fee H ps k"
    using d [OF m(2) m(4), of k] by (simp add: s)
  show "k < 9 \<Longrightarrow> i < 8 \<Longrightarrow> next_fee H ps k \<noteq> ps_word H ps i"
    using d [OF m(4) m(3), of k i] by (simp add: s)
  show "k < 9 \<Longrightarrow> i < 9 \<Longrightarrow> next_fee H ps k = next_fee H ps i \<longleftrightarrow> k = i"
    using d [OF m(4) m(4), of k i] u [of k i] by (simp add: s del: UintToHash_inject)
  show "k < 9 \<Longrightarrow> i < 9 \<Longrightarrow> current_fee H ps k = current_fee H ps i \<longleftrightarrow> k = i"
    using d [OF m(4) m(4), of "9 + k" "9 + i"] u [of "9 + k" "9 + i"] by (simp add: s del: UintToHash_inject of_nat_add)
  show "k < 9 \<Longrightarrow> i < 9 \<Longrightarrow> current_fee H ps k \<noteq> next_fee H ps i"
    using d [OF m(4) m(4), of "9 + k" i] u [of "9 + k" i] by (simp add: s del: UintToHash_inject of_nat_add)
qed

section \<open>Constraints as values\<close>

record multi_constraint =
  mc_target :: u64
  mc_window :: u32
  mc_backlog :: u64
  mc_maxWeight :: u64
  mc_weights :: "u64 list"

definition multi_at :: "(bytes \<Rightarrow> bytes) \<Rightarrow> L2PricingState \<Rightarrow> world \<Rightarrow> nat \<Rightarrow> multi_constraint" where
  "multi_at H ps w i = \<lparr>mc_target = u64_at w (mc_word H ps i 0), mc_window = ucast (slot_read w (mc_word H ps i 1)),
     mc_backlog = u64_at w (mc_word H ps i 2), mc_maxWeight = u64_at w (mc_word H ps i 3),
     mc_weights = map (\<lambda>k. u64_at w (mc_word H ps i (4 + k))) [0..<9]\<rparr>"

definition multi_constraints :: "(bytes \<Rightarrow> bytes) \<Rightarrow> L2PricingState \<Rightarrow> world \<Rightarrow> multi_constraint list" where
  "multi_constraints H ps w = map (multi_at H ps w) [0..<unat (u64_at w (mc_len H ps))]"

definition multi_ok :: "(bytes \<Rightarrow> bytes) \<Rightarrow> L2PricingState \<Rightarrow> nat \<Rightarrow> world \<Rightarrow> bool" where
  "multi_ok H ps N w \<longleftrightarrow> sysw w \<and> layout H (ps_storage ps) (multi_locs N) \<and> N < 2 ^ 64
     \<and> fits 64 (slot_read w (mc_len H ps)) \<and> length (multi_constraints H ps w) \<le> N
     \<and> (\<forall>i < length (multi_constraints H ps w). fits 32 (slot_read w (mc_word H ps i 1))
          \<and> (\<forall>j < 13. fits 64 (slot_read w (mc_word H ps i j))))"

definition mc_divisor :: "multi_constraint \<Rightarrow> u64" where
  "mc_divisor c = SaturatingUMul (ucast (mc_window c)) (SaturatingUMul (mc_target c) (mc_maxWeight c))"

definition mc_exponent :: "multi_constraint \<Rightarrow> nat \<Rightarrow> int" where
  "mc_exponent c k = goDivS 64 (NaturalToBips (SaturatingCast 64 (SaturatingUMul (mc_backlog c) (mc_weights c ! k))))
     (SaturatingCast 64 (mc_divisor c))"

text \<open>What a constraint adds to the exponent of a kind.\<close>

definition kind_exponent :: "multi_constraint \<Rightarrow> nat \<Rightarrow> int" where
  "kind_exponent c k = (if mc_backlog c = 0 \<or> mc_weights c ! k = 0 \<or> k = 6 then 0 else mc_exponent c k)"

definition mc_good :: "multi_constraint \<Rightarrow> bool" where
  "mc_good c \<longleftrightarrow> length (mc_weights c) = 9 \<and> (mc_backlog c = 0 \<or> mc_divisor c \<noteq> 0 \<and> mc_weights c ! 0 = 0)"

definition add_kind :: "multi_constraint \<Rightarrow> nat \<Rightarrow> int list \<Rightarrow> int list" where
  "add_kind c k es = (if k = 6 then es else es[k := SaturatingBipsAdd (es ! k) (mc_exponent c k)])"

definition add_exponents :: "multi_constraint \<Rightarrow> int list \<Rightarrow> int list" where
  "add_exponents c es = (if mc_backlog c = 0 then es
     else fold (add_kind c) (filter (\<lambda>k. mc_weights c ! k \<noteq> 0) [0..<9]) es)"

definition exponents_ok :: "int list \<Rightarrow> bool" where
  "exponents_ok es \<longleftrightarrow> length es = 9 \<and> (\<forall>k < 9. inBips (es ! k))"

lemma mc_exponent_bips: "mc_divisor c \<noteq> 0 \<Longrightarrow> inBips (mc_exponent c k)"
  using backlog_exponent_eq(2,3) [of "ucast (mc_window c)" "SaturatingUMul (mc_target c) (mc_maxWeight c)"
      "SaturatingUMul (mc_backlog c) (mc_weights c ! k)"]
  by (simp add: mc_exponent_def mc_divisor_def backlog_exponent_def inBips_def)

lemma kind_exponent_bips: "mc_good c \<Longrightarrow> inBips (kind_exponent c k)"
  using mc_exponent_bips [of c k] by (auto simp: kind_exponent_def mc_good_def inBips_def)

lemma exponents_ok_update: "exponents_ok es \<Longrightarrow> inBips e \<Longrightarrow> k < 9 \<Longrightarrow> exponents_ok (es[k := SaturatingBipsAdd (es ! k) e])"
  by (auto simp: exponents_ok_def nth_list_update inBips_add_in)

lemma add_kind_ok: "exponents_ok es \<Longrightarrow> mc_divisor c \<noteq> 0 \<Longrightarrow> k < 9 \<Longrightarrow> exponents_ok (add_kind c k es)"
  by (simp add: add_kind_def exponents_ok_update mc_exponent_bips)

lemma fold_add_kind:
  assumes "distinct ks" "set ks \<subseteq> {..<9}" "exponents_ok es" "mc_divisor c \<noteq> 0"
  shows "exponents_ok (fold (add_kind c) ks es)
    \<and> (\<forall>k < 9. fold (add_kind c) ks es ! k
        = (if k \<in> set ks \<and> k \<noteq> 6 then SaturatingBipsAdd (es ! k) (mc_exponent c k) else es ! k))"
  using assms
proof (induction ks arbitrary: es)
  case (Cons k ks)
  have "exponents_ok (add_kind c k es)" using Cons.prems by (intro add_kind_ok) auto
  moreover have "\<forall>j < 9. add_kind c k es ! j = (if j = k \<and> k \<noteq> 6 then SaturatingBipsAdd (es ! j) (mc_exponent c j) else es ! j)"
    using Cons.prems by (auto simp: add_kind_def exponents_ok_def nth_list_update)
  ultimately show ?case using Cons.IH [of "add_kind c k es"] Cons.prems by auto
qed simp

lemma add_exponents_nth:
  assumes "mc_good c" "exponents_ok es"
  shows "exponents_ok (add_exponents c es)"
    and "k < 9 \<Longrightarrow> add_exponents c es ! k = SaturatingBipsAdd (es ! k) (kind_exponent c k)"
proof -
  let ?ks = "filter (\<lambda>k. mc_weights c ! k \<noteq> 0) [0..<9]"
  have es: "k < 9 \<Longrightarrow> inBips (es ! k)" for k using assms(2) by (simp add: exponents_ok_def)
  have f: "mc_backlog c \<noteq> 0 \<Longrightarrow> exponents_ok (fold (add_kind c) ?ks es)
    \<and> (\<forall>k < 9. fold (add_kind c) ?ks es ! k
        = (if k \<in> set ?ks \<and> k \<noteq> 6 then SaturatingBipsAdd (es ! k) (mc_exponent c k) else es ! k))"
    using assms by (intro fold_add_kind) (auto simp: mc_good_def)
  show "exponents_ok (add_exponents c es)" using f assms(2) by (auto simp: add_exponents_def)
  show "k < 9 \<Longrightarrow> add_exponents c es ! k = SaturatingBipsAdd (es ! k) (kind_exponent c k)"
    using f es by (auto simp: add_exponents_def kind_exponent_def SaturatingBipsAdd_0)
qed

section \<open>Exponents\<close>

lemma multi_okD:
  assumes "multi_ok H ps N w" "i < length (multi_constraints H ps w)"
  shows "fits 32 (slot_read w (mc_word H ps i 1))" "\<And>j. j < 13 \<Longrightarrow> fits 64 (slot_read w (mc_word H ps i j))"
    "multi_constraints H ps w ! i = multi_at H ps w i" "i < N" "sysw w"
  using assms by (auto simp: multi_ok_def multi_constraints_def)

lemma UsedResources_run:
  assumes ok: "multi_ok H ps N w" "i < length (multi_constraints H ps w)" and "quiet w u"
  shows "\<exists>u'. MultiGasConstraint_UsedResources H (L2_OpenMultiGasConstraintAt H ps (of_nat i)) u
      = (Ok (filter (\<lambda>k. mc_weights (multi_at H ps w i) ! k \<noteq> 0) [0..<9]), u') \<and> quiet w u'"
proof -
  let ?g = "\<lambda>k used. if mc_weights (multi_at H ps w i) ! k \<noteq> 0 then used @ [k] else used"
  have "\<exists>u'. fold_op (\<lambda>k used. bnd (StorageBackedUint64_Get
        (mgc_weightedResources H (L2_OpenMultiGasConstraintAt H ps (of_nat i)) k)) (\<lambda>weight.
       ret (if weight \<noteq> 0 then used @ [k] else used))) [0..<NumResourceKind] [] u
      = (Ok (fold ?g [0..<NumResourceKind] []), u') \<and> quiet w u' \<and> True"
  proof (rule fold_reads)
    fix k used v assume k: "k \<in> set [0..<NumResourceKind]" and v: "quiet w v"
    then have "fits 64 (slot_read w (mc_word H ps i (4 + k)))"
      using multi_okD(2) [OF ok] by (simp add: NumResourceKind_def)
    then show "\<exists>u'. bnd (StorageBackedUint64_Get
        (mgc_weightedResources H (L2_OpenMultiGasConstraintAt H ps (of_nat i)) k)) (\<lambda>weight.
       ret (if weight \<noteq> 0 then used @ [k] else used)) v = (Ok (?g k used), u') \<and> quiet w u' \<and> True"
      using v k quiet_sysw [OF v]
      by (simp add: mc_word_fields op_simps sys_simps multi_at_def NumResourceKind_def u64_at_def del: upt_Suc)
  qed (use assms(3) in simp_all)
  moreover have "fold ?g xs ys = ys @ filter (\<lambda>k. mc_weights (multi_at H ps w i) ! k \<noteq> 0) xs" for xs ys
    by (induction xs arbitrary: ys) simp_all
  ultimately show ?thesis by (simp add: MultiGasConstraint_UsedResources_def NumResourceKind_def)
qed

lemma CheckResourceKind_run: "0 < k \<Longrightarrow> k < 9 \<Longrightarrow> CheckResourceKind (of_nat k) = ret (all_kinds ! k)"
proof -
  assume "0 < k" "k < 9"
  moreover from this have u: "unat (of_nat k :: u8) = k" by (simp add: unat_of_nat)
  moreover from this \<open>0 < k\<close> have "(0 :: u8) < of_nat k" by (simp add: word_less_nat_alt)
  ultimately show ?thesis by (simp add: CheckResourceKind_def NumResourceKind_def)
qed

lemma length_all_kinds: "length all_kinds = 9"
  by (simp add: all_kinds_def)

lemma all_kinds_SingleDim: "k < 9 \<Longrightarrow> all_kinds ! k = SingleDim \<longleftrightarrow> k = 6"
  by (auto simp: all_kinds_def nth_Cons' split: if_splits)

lemma addKindExponent_run:
  assumes ok: "multi_ok H ps N w" "i < length (multi_constraints H ps w)" and u: "quiet w u"
    and k: "0 < k" "k < 9" and nz: "mc_divisor (multi_at H ps w i) \<noteq> 0"
  shows "\<exists>u'. addKindExponent H (L2_OpenMultiGasConstraintAt H ps (of_nat i)) (mc_backlog (multi_at H ps w i))
        (SaturatingCast 64 (mc_divisor (multi_at H ps w i))) k es u
      = (Ok (add_kind (multi_at H ps w i) k es), u') \<and> quiet w u'"
proof (cases "k = 6")
  case True
  then show ?thesis using k u by (simp add: addKindExponent_def all_kinds_SingleDim add_kind_def ret_run)
next
  case False
  have "fits 64 (slot_read w (mc_word H ps i (4 + k)))" using multi_okD(2) [OF ok] k by simp
  moreover have "unat (of_nat k :: u8) = k" using k by (simp add: unat_of_nat)
  moreover have "mc_weights (multi_at H ps w i) ! k = u64_at w (mc_word H ps i (4 + k))"
    using k by (simp add: multi_at_def)
  ultimately show ?thesis
    using False k u nz quiet_sysw [OF u]
    by (simp add: addKindExponent_def all_kinds_SingleDim MultiGasConstraint_ResourceWeight_def CheckResourceKind_run
        mc_word_fields op_simps sys_simps goDivI64_def SaturatingCast_0 add_kind_def mc_exponent_def u64_at_def Let_def)
qed

lemma addConstraintExponents_run:
  assumes ok: "multi_ok H ps N w" "i < length (multi_constraints H ps w)" and u: "quiet w u"
    and good: "mc_good (multi_at H ps w i)" and es: "exponents_ok es"
  shows "\<exists>u'. addConstraintExponents H ps (of_nat i) es u = (Ok (add_exponents (multi_at H ps w i) es), u') \<and> quiet w u'"
proof -
  let ?c = "multi_at H ps w i" and ?C = "L2_OpenMultiGasConstraintAt H ps (of_nat i)"
  let ?r = "tick StorageAccessRead StorageReadCost"
  let ?ks = "filter (\<lambda>k. mc_weights ?c ! k \<noteq> 0) [0..<9]"
  have fit: "fits 64 (slot_read w (mc_word H ps i 0))" "fits 64 (slot_read w (mc_word H ps i 2))"
    "fits 64 (slot_read w (mc_word H ps i 3))" "fits 32 (slot_read w (mc_word H ps i 1))"
    using multi_okD(1,2) [OF ok] by simp_all
  have fields: "ucast (slot_read w (mc_word H ps i 0)) = mc_target ?c" "ucast (slot_read w (mc_word H ps i 2)) = mc_backlog ?c"
    "ucast (slot_read w (mc_word H ps i 3)) = mc_maxWeight ?c" "ucast (slot_read w (mc_word H ps i 1)) = mc_window ?c"
    by (simp_all add: multi_at_def u64_at_def)
  note defs = addConstraintExponents_def MultiGasConstraint_Target_def MultiGasConstraint_Backlog_def
    MultiGasConstraint_AdjustmentWindow_def MultiGasConstraint_MaxWeight_def mc_word_fields SaturatingCastToBips_def
    mc_divisor_def [symmetric] Let_def
  show ?thesis
  proof (cases "mc_backlog ?c = 0")
    case True
    then show ?thesis
      using u quiet_sysw [OF u] fit fields by (simp add: defs op_simps sys_simps add_exponents_def)
  next
    case False
    then have nz: "mc_divisor ?c \<noteq> 0" "mc_weights ?c ! 0 = 0" using good by (simp_all add: mc_good_def)
    obtain u1 where u1: "MultiGasConstraint_UsedResources H ?C (?r (?r (?r (?r u)))) = (Ok ?ks, u1)" "quiet w u1"
      using UsedResources_run [OF ok, of "?r (?r (?r (?r u)))"] u by auto
    have "\<exists>u'. fold_op (addKindExponent H ?C (mc_backlog ?c) (SaturatingCast 64 (mc_divisor ?c))) ?ks es u1
        = (Ok (fold (add_kind ?c) ?ks es), u') \<and> quiet w u' \<and> True"
    proof (rule fold_reads [OF _ u1(2)])
      fix k a v assume k: "k \<in> set ?ks" and v: "quiet w v"
      then have "k \<noteq> 0" "k < 9" using nz(2) by (auto intro: gr0I)
      then show "\<exists>u'. addKindExponent H ?C (mc_backlog ?c) (SaturatingCast 64 (mc_divisor ?c)) k a v
          = (Ok (add_kind ?c k a), u') \<and> quiet w u' \<and> True"
        using addKindExponent_run [OF ok v _ _ nz(1), of k a] by auto
    qed simp
    then obtain u' where u': "fold_op (addKindExponent H ?C (mc_backlog ?c) (SaturatingCast 64 (mc_divisor ?c))) ?ks es u1
        = (Ok (fold (add_kind ?c) ?ks es), u')" "quiet w u'" by blast
    have "addConstraintExponents H ps (of_nat i) es u = (Ok (fold (add_kind ?c) ?ks es), u')"
      using False u quiet_sysw [OF u] fit fields u1(1) u'(1)
      by (simp add: defs op_simps sys_simps word_neq_0_conv del: upt_Suc)
    then show ?thesis using u'(2) False by (simp add: add_exponents_def)
  qed
qed

definition kind_exponents :: "multi_constraint list \<Rightarrow> int list" where
  "kind_exponents cs = fold add_exponents cs (replicate 9 0)"

lemma kind_exponents_ok:
  assumes "\<And>c. c \<in> set cs \<Longrightarrow> mc_good c"
  shows "exponents_ok (kind_exponents cs)"
proof -
  have "exponents_ok es \<Longrightarrow> exponents_ok (fold add_exponents cs es)" for es
    using assms by (induction cs arbitrary: es) (simp_all add: add_exponents_nth(1))
  moreover have "exponents_ok (replicate 9 0)" by (simp add: exponents_ok_def inBips_def)
  ultimately show ?thesis by (simp add: kind_exponents_def)
qed

text \<open>Kind by kind, the exponent is the saturating sum over the constraints.\<close>

lemma kind_exponents_nth:
  assumes "\<And>c. c \<in> set cs \<Longrightarrow> mc_good c" "k < 9"
  shows "kind_exponents cs ! k = fold (\<lambda>c e. SaturatingBipsAdd e (kind_exponent c k)) cs 0"
proof -
  have "exponents_ok es \<Longrightarrow> fold add_exponents cs es ! k = fold (\<lambda>c e. SaturatingBipsAdd e (kind_exponent c k)) cs (es ! k)" for es
    using assms(1)
  proof (induction cs arbitrary: es)
    case (Cons c cs)
    then have "exponents_ok (add_exponents c es)" by (simp add: add_exponents_nth(1))
    then show ?case using Cons add_exponents_nth(2) [of c es k] assms(2) by simp
  qed simp
  moreover have "exponents_ok (replicate 9 0)" by (simp add: exponents_ok_def inBips_def)
  ultimately show ?thesis using assms(2) by (simp add: kind_exponents_def)
qed

lemma fold_map_index: "fold g (map f xs) a = fold (\<lambda>x. g (f x)) xs a"
  by (simp add: fold_map comp_def)

lemma CalcExponents_run:
  assumes ok: "multi_ok H ps N w" and good: "\<And>c. c \<in> set (multi_constraints H ps w) \<Longrightarrow> mc_good c" and u: "quiet w u"
  shows "\<exists>u'. CalcMultiGasConstraintsExponents H ps u = (Ok (kind_exponents (multi_constraints H ps w)), u') \<and> quiet w u'"
proof -
  let ?r = "tick StorageAccessRead StorageReadCost" and ?n = "unat (u64_at w (mc_len H ps))"
  have n: "length (multi_constraints H ps w) = ?n" by (simp add: multi_constraints_def)
  have fold_of: "fold_op f (map g xs) a = fold_op (\<lambda>x. f (g x)) xs a" for f g xs a
    by (induction xs arbitrary: a) (simp_all, metis)
  have "\<exists>u'. fold_op (\<lambda>i. addConstraintExponents H ps (of_nat i)) [0..<?n] (replicate 9 0) (?r u)
      = (Ok (fold (\<lambda>i. add_exponents (multi_at H ps w i)) [0..<?n] (replicate 9 0)), u') \<and> quiet w u'
      \<and> exponents_ok (fold (\<lambda>i. add_exponents (multi_at H ps w i)) [0..<?n] (replicate 9 0))"
  proof (rule fold_reads)
    fix i es v assume i: "i \<in> set [0..<?n]" and es: "exponents_ok es" and v: "quiet w v"
    then have i': "i < length (multi_constraints H ps w)" by (simp add: n)
    then have g: "mc_good (multi_at H ps w i)" using good multi_okD(3) [OF ok i'] by (metis nth_mem)
    show "\<exists>u'. addConstraintExponents H ps (of_nat i) es v = (Ok (add_exponents (multi_at H ps w i) es), u') \<and> quiet w u'
        \<and> exponents_ok (add_exponents (multi_at H ps w i) es)"
      using addConstraintExponents_run [OF ok i' v g es] add_exponents_nth(1) [OF g es] by blast
  qed (use u in \<open>simp_all add: exponents_ok_def inBips_def\<close>)
  moreover have "kind_exponents (multi_constraints H ps w)
      = fold (\<lambda>i. add_exponents (multi_at H ps w i)) [0..<?n] (replicate 9 0)"
    by (simp add: kind_exponents_def multi_constraints_def fold_map_index)
  ultimately show ?thesis
    using u quiet_sysw [OF u] ok
    by (simp add: CalcMultiGasConstraintsExponents_def L2_MultiGasConstraintsLength_def SubStorageVector_Length_def
        op_simps sys_simps multi_ok_def NumResourceKind_def fold_of u64_at_def) blast
qed

section \<open>Paying off the backlogs\<close>

definition mc_pay_off :: "u64 \<Rightarrow> multi_constraint \<Rightarrow> multi_constraint" where
  "mc_pay_off t c = c\<lparr>mc_backlog := SaturatingUSub (mc_backlog c) (SaturatingUMul t (mc_target c))\<rparr>"

lemma multi_backlog_written:
  assumes ok: "multi_ok H ps N w" and i: "i < length (multi_constraints H ps w)"
    and w': "sysw w'" "same_except {mc_word H ps i 2} w w'" "slot_read w' (mc_word H ps i 2) = ucast b"
  shows "multi_ok H ps N w'"
    and "multi_constraints H ps w' = (multi_constraints H ps w)[i := (multi_constraints H ps w ! i)\<lparr>mc_backlog := b\<rparr>]"
proof -
  have sys: "layout H (ps_storage ps) (multi_locs N)" "N \<le> 2 ^ 64" "i < N" "length (multi_constraints H ps w) \<le> N"
    using ok i by (simp_all add: multi_ok_def)
  note sl = multi_slots [OF sys(1,2)]
  have len: "slot_read w' (mc_len H ps) = slot_read w (mc_len H ps)"
    using sl(2) [OF sys(3), of 2] by (intro same_exceptD [OF w'(2)]) auto
  have rd: "slot_read w' (mc_word H ps k j) = (if k = i \<and> j = 2 then ucast b else slot_read w (mc_word H ps k j))"
    if "k < length (multi_constraints H ps w)" "j < 13" for k j
    using same_exceptD [OF w'(2), of "mc_word H ps k j"] sl(1) [of k j i 2] that sys w'(3) by auto
  have eq: "length (multi_constraints H ps w') = length (multi_constraints H ps w)"
    using len by (simp add: multi_constraints_def u64_at_def)
  show "multi_ok H ps N w'" using ok w'(1) len rd eq by (auto simp: multi_ok_def)
  have "multi_at H ps w' k = (if k = i then (multi_at H ps w i)\<lparr>mc_backlog := b\<rparr> else multi_at H ps w k)"
    if "k < length (multi_constraints H ps w)" for k
    using rd [OF that] by (cases "k = i") (auto simp: multi_at_def u64_at_def)
  then show "multi_constraints H ps w' = (multi_constraints H ps w)[i := (multi_constraints H ps w ! i)\<lparr>mc_backlog := b\<rparr>]"
    using eq i by (intro nth_equalityI) (simp_all add: multi_constraints_def nth_list_update)
qed

lemma payOffMulti_run:
  assumes ok: "multi_ok H ps N w" and i: "i < length (multi_constraints H ps w)"
  shows "\<exists>w'. payOffMultiGasConstraint H ps t (of_nat i) w = (Ok (), w') \<and> multi_ok H ps N w'
    \<and> multi_constraints H ps w' = (multi_constraints H ps w)[i := mc_pay_off t (multi_constraints H ps w ! i)]
    \<and> same_except {mc_word H ps i 2} w w'"
proof -
  let ?c = "multi_at H ps w i" and ?r = "tick StorageAccessRead StorageReadCost"
  let ?b = "SaturatingUSub (mc_backlog ?c) (SaturatingUMul t (mc_target ?c))"
  let ?w' = "slot_write (mc_word H ps i 2) (ucast ?b) (tick StorageAccessWrite (WriteCost (ucast ?b)) (?r (?r w)))"
  have fit: "sysw w" "fits 64 (slot_read w (mc_word H ps i 0))" "fits 64 (slot_read w (mc_word H ps i 2))"
    using multi_okD [OF ok i] by simp_all
  have run: "payOffMultiGasConstraint H ps t (of_nat i) w = (Ok (), ?w')"
    using fit by (simp add: payOffMultiGasConstraint_def MultiGasConstraint_Target_def MultiGasConstraint_Backlog_def
        MultiGasConstraint_SetBacklog_def mc_word_fields op_simps sys_simps applyGasDelta_def multi_at_def u64_at_def
        UintToHash_ucast Let_def)
  have "sysw ?w'" "same_except {mc_word H ps i 2} w ?w'" "slot_read ?w' (mc_word H ps i 2) = ucast ?b"
    using fit by (simp_all add: same_except_write)
  from this(2) multi_backlog_written [OF ok i this] show ?thesis
    using run multi_okD(3) [OF ok i] by (auto simp: mc_pay_off_def)
qed

lemma payOffMulti_loop:
  assumes "multi_ok H ps N w" "i + k = length (multi_constraints H ps w)"
  shows "\<exists>w'. for_each (map of_nat [i..<i + k]) (payOffMultiGasConstraint H ps t) w = (Ok (), w') \<and> multi_ok H ps N w'
    \<and> multi_constraints H ps w' = take i (multi_constraints H ps w) @ map (mc_pay_off t) (drop i (multi_constraints H ps w))
    \<and> same_except {mc_word H ps j 2 | j. j < i + k} w w'"
  using assms
proof (induction k arbitrary: i w)
  case 0
  then show ?case by (simp add: ret_run)
next
  case (Suc k)
  let ?cs = "multi_constraints H ps w"
  have i: "i < length ?cs" using Suc.prems(2) by simp
  then have cs: "drop i ?cs = ?cs ! i # drop (Suc i) ?cs" by (simp add: Cons_nth_drop_Suc)
  obtain w1 where w1: "payOffMultiGasConstraint H ps t (of_nat i) w = (Ok (), w1)" "multi_ok H ps N w1"
    "multi_constraints H ps w1 = ?cs[i := mc_pay_off t (?cs ! i)]" "same_except {mc_word H ps i 2} w w1"
    using payOffMulti_run [OF Suc.prems(1) i] by blast
  have len: "Suc i + k = length (multi_constraints H ps w1)" using Suc.prems(2) w1(3) by simp
  obtain w' where w': "for_each (map of_nat [Suc i..<Suc i + k]) (payOffMultiGasConstraint H ps t) w1 = (Ok (), w')"
    "multi_ok H ps N w'" "multi_constraints H ps w' = take (Suc i) (multi_constraints H ps w1)
       @ map (mc_pay_off t) (drop (Suc i) (multi_constraints H ps w1))"
    "same_except {mc_word H ps j 2 | j. j < Suc i + k} w1 w'"
    using Suc.IH [OF w1(2) len] by blast
  have "same_except {mc_word H ps j 2 | j. j < i + Suc k} w w'"
    using same_except_trans [OF w1(4) w'(4)] by (rule same_except_mono) auto
  moreover have "multi_constraints H ps w' = take i ?cs @ map (mc_pay_off t) (drop i ?cs)"
    using w'(3) w1(3) i cs by (simp add: take_Suc_conv_app_nth)
  moreover have "[i..<i + Suc k] = i # [Suc i..<Suc i + k]" by (simp add: upt_rec)
  ultimately show ?case using w1(1) w' by (simp add: op_simps)
qed

section \<open>Fees\<close>

lemma exp_fee_upper:
  assumes "inBips e" "0 \<le> m" "m < 2 ^ 192"
  shows "inS 256 (exp_fee m e)"
proof -
  obtain r where r: "ApproxExpBasisPoints e 4 () = (Ok r, ())" "10000 \<le> r" "r < 2 ^ 63"
    using ApproxExpBasisPoints_nonneg [of e "()"] assms(1) by (auto simp: OneInBips_def inBips_def)
  have fee: "exp_fee m e = m * r div 10000"
    using r by (simp add: exp_fee_def bnd_def BigMulByBips_run)
  have "m * r \<le> 2 ^ 192 * 2 ^ 63" using assms r by (intro mult_mono) simp_all
  then have "m * r \<le> 2 ^ 255" by simp
  moreover have "0 \<le> m * r" using assms r by simp
  ultimately have "0 \<le> m * r div 10000 \<and> m * r div 10000 < 2 ^ 255" using div_range [of "m * r" "2 ^ 255 + 1" 10000] by auto
  then show ?thesis by (simp add: fee inS_def)
qed

lemma setKindFee_run:
  assumes "sysw w" "inBips (es ! k)" "wei_at w (ps_minBaseFeeWei H ps) < 2 ^ 192"
  defines "fee \<equiv> exp_fee (wei_at w (ps_minBaseFeeWei H ps)) (es ! k)"
  shows "\<exists>w'. setKindFee H ps es k m w = (Ok (max m fee), w') \<and> sysw w' \<and> same_except {next_fee H ps k} w w'
    \<and> slot_read w' (next_fee H ps k) = BigInt_encode fee"
proof -
  have "inS 256 fee" unfolding fee_def using assms by (intro exp_fee_upper) (simp_all add: wei_at_def)
  then show ?thesis
    using assms(1,2) calcBaseFee_run [OF assms(1,2), of H ps]
    by (simp add: setKindFee_def MultiGasFees_SetNextBlockFee_def op_simps sys_simps fee_def [symmetric] same_except_write
        max_def)
qed

lemma setKindFees_run:
  assumes lay: "layout H (ps_storage ps) (multi_locs N)" "N \<le> 2 ^ 64"
    and w: "sysw w" "exponents_ok es" "wei_at w (ps_minBaseFeeWei H ps) < 2 ^ 192" and k: "k \<le> 9"
  defines "fee \<equiv> \<lambda>j. exp_fee (wei_at w (ps_minBaseFeeWei H ps)) (es ! j)"
  shows "\<exists>w'. fold_op (setKindFee H ps es) [0..<k] m w = (Ok (fold (\<lambda>j m. max m (fee j)) [0..<k] m), w') \<and> sysw w'
    \<and> same_except {next_fee H ps j | j. j < k} w w' \<and> (\<forall>j < k. slot_read w' (next_fee H ps j) = BigInt_encode (fee j))"
  using k
proof (induction k)
  case 0
  then show ?case using w(1) by (simp add: ret_run)
next
  case (Suc k)
  let ?m = "fold (\<lambda>j m. max m (fee j)) [0..<k] m"
  obtain w1 where w1: "fold_op (setKindFee H ps es) [0..<k] m w = (Ok ?m, w1)" "sysw w1"
    "same_except {next_fee H ps j | j. j < k} w w1" "\<forall>j < k. slot_read w1 (next_fee H ps j) = BigInt_encode (fee j)"
    using Suc by auto
  have "ps_minBaseFeeWei H ps \<noteq> next_fee H ps j" if "j < k" for j
    using multi_slots(7) [OF lay, of j 3] that Suc.prems by auto
  then have "ps_minBaseFeeWei H ps \<notin> {next_fee H ps j | j. j < k}" by blast
  then have m1: "wei_at w1 (ps_minBaseFeeWei H ps) = wei_at w (ps_minBaseFeeWei H ps)"
    using same_exceptD [OF w1(3)] by (simp add: wei_at_def)
  have "inBips (es ! k)" using w(2) Suc.prems by (simp add: exponents_ok_def)
  from setKindFee_run [OF w1(2) this, of H ps ?m] w(3) m1 obtain w' where
    w': "setKindFee H ps es k ?m w1 = (Ok (max ?m (fee k)), w')" "sysw w'" "same_except {next_fee H ps k} w1 w'"
      "slot_read w' (next_fee H ps k) = BigInt_encode (fee k)" by (auto simp: fee_def)
  have "slot_read w' (next_fee H ps j) = BigInt_encode (fee j)" if "j < Suc k" for j
  proof (cases "j = k")
    case False
    then have "next_fee H ps j \<noteq> next_fee H ps k" using multi_slots(8) [OF lay, of j k] that Suc.prems by auto
    then show ?thesis using same_exceptD [OF w'(3)] w1(4) that False by (simp add: less_Suc_eq)
  qed (simp add: w'(4))
  moreover have "same_except {next_fee H ps j | j. j < Suc k} w w'"
    using same_except_trans [OF w1(3) w'(3)] by (rule same_except_mono) (auto simp: less_Suc_eq)
  ultimately show ?case using w1(1) w' by (simp add: fold_op_append op_simps)
qed

text \<open>The fee of a kind after a block that took \<open>t\<close> seconds, and the base fee: their maximum.\<close>

definition kind_fee :: "(bytes \<Rightarrow> bytes) \<Rightarrow> L2PricingState \<Rightarrow> world \<Rightarrow> u64 \<Rightarrow> nat \<Rightarrow> int" where
  "kind_fee H ps w t k = exp_fee (wei_at w (ps_minBaseFeeWei H ps))
     (fold (\<lambda>c e. SaturatingBipsAdd e (kind_exponent c k)) (map (mc_pay_off t) (multi_constraints H ps w)) 0)"

definition max_fee :: "int \<Rightarrow> (nat \<Rightarrow> int) \<Rightarrow> int" where
  "max_fee m fee = fold (\<lambda>j m. max m (fee j)) [0..<9] m"

lemma fold_max: "fold (\<lambda>j m. max m (f j)) xs (m :: int) = Max (insert m (f ` set xs))"
proof (induction xs arbitrary: m)
  case (Cons x xs)
  have "Max (insert (max m (f x)) (f ` set xs)) = Max (insert m (insert (f x) (f ` set xs)))"
    by (cases "xs = []") (simp_all add: max.assoc)
  then show ?case using Cons by simp
qed simp

lemma max_fee_eq: "max_fee m fee = Max (insert m (fee ` {..<9}))"
  by (simp add: max_fee_def fold_max lessThan_atLeast0)

lemma multi_ok_quiet:
  assumes ok: "multi_ok H ps N w" and q: "quiet w w'"
  shows "multi_ok H ps N w'" "multi_constraints H ps w' = multi_constraints H ps w"
proof -
  show eq: "multi_constraints H ps w' = multi_constraints H ps w"
    using q by (simp add: multi_constraints_def multi_at_def u64_at_def)
  then show "multi_ok H ps N w'" using ok q quiet_sysw [OF q] by (simp add: multi_ok_def)
qed

lemma updateMulti_run:
  assumes ok: "multi_ok H ps N w" and m: "wei_at w (ps_minBaseFeeWei H ps) < 2 ^ 192"
    and good: "\<And>c. c \<in> set (multi_constraints H ps w) \<Longrightarrow> mc_good (mc_pay_off t c)"
  shows "\<exists>w'. updatePricingModelMultiConstraints H ps t w = (Ok (), w') \<and> multi_ok H ps N w'
    \<and> multi_constraints H ps w' = map (mc_pay_off t) (multi_constraints H ps w)
    \<and> (\<forall>k < 9. slot_read w' (next_fee H ps k) = BigInt_encode (kind_fee H ps w t k))
    \<and> wei_at w' (ps_baseFeeWei H ps) = saturate_wei (max_fee (wei_at w (ps_minBaseFeeWei H ps)) (kind_fee H ps w t))"
proof -
  let ?r = "tick StorageAccessRead StorageReadCost" and ?cs = "multi_constraints H ps w"
  let ?m = "wei_at w (ps_minBaseFeeWei H ps)"
  have sys: "sysw w" "fits 64 (slot_read w (mc_len H ps))" and lay: "layout H (ps_storage ps) (multi_locs N)" "N \<le> 2 ^ 64"
    and lN: "length ?cs \<le> N"
    using ok by (simp_all add: multi_ok_def)
  note sl = multi_slots [OF lay]
  have q: "quiet w (?r w)" using sys by simp
  obtain w1 where w1: "for_each (map of_nat [0..<length ?cs]) (payOffMultiGasConstraint H ps t) (?r w) = (Ok (), w1)"
    "multi_ok H ps N w1" "multi_constraints H ps w1 = map (mc_pay_off t) ?cs"
    "same_except {mc_word H ps j 2 | j. j < length ?cs} w w1"
    using payOffMulti_loop [of H ps N "?r w" 0 "length ?cs" t] multi_ok_quiet [OF ok q] by auto
  have sys1: "sysw w1" using w1(2) by (simp add: multi_ok_def)
  have "ps_word H ps i \<noteq> mc_word H ps j 2" if "j < length ?cs" "i < 8" for i j
    using sl(3) [of j 2 i] that lN by auto
  then have out: "ps_word H ps i \<notin> {mc_word H ps j 2 | j. j < length ?cs}" if "i < 8" for i using that by blast
  have m1: "wei_at w1 (ps_minBaseFeeWei H ps) = ?m"
    using same_exceptD [OF w1(4) out] by (simp add: wei_at_def)
  have good1: "c \<in> set (multi_constraints H ps w1) \<Longrightarrow> mc_good c" for c using good w1(3) by auto
  let ?es = "kind_exponents (multi_constraints H ps w1)"
  obtain u where u: "CalcMultiGasConstraintsExponents H ps w1 = (Ok ?es, u)" "quiet w1 u"
    using CalcExponents_run [OF w1(2) good1, of w1] sys1 by auto
  have es: "exponents_ok ?es" by (rule kind_exponents_ok [OF good1])
  have fee: "exp_fee ?m (?es ! k) = kind_fee H ps w t k" if "k < 9" for k
    using kind_exponents_nth [of "multi_constraints H ps w1", OF good1 that] by (simp add: kind_fee_def w1(3))
  have su: "sysw (?r u)" "wei_at (?r u) (ps_minBaseFeeWei H ps) = ?m"
    using quiet_sysw [OF u(2)] quiet_read [OF u(2)] m1 by (simp_all add: wei_at_def)
  have mx: "fold (\<lambda>j m. max m (exp_fee ?m (?es ! j))) [0..<9] ?m = max_fee ?m (kind_fee H ps w t)"
    unfolding max_fee_def by (rule fold_cong) (simp_all add: fee del: upt_Suc)
  obtain w2 where w2: "fold_op (setKindFee H ps ?es) [0..<9] ?m (?r u) = (Ok (max_fee ?m (kind_fee H ps w t)), w2)" "sysw w2"
    "same_except {next_fee H ps j | j. j < 9} u w2"
    "\<forall>j < 9. slot_read w2 (next_fee H ps j) = BigInt_encode (kind_fee H ps w t j)"
    using setKindFees_run [OF lay su(1) es, of 9 ?m] m fee mx unfolding su(2) by auto
  obtain w' where w': "L2_SetBaseFeeWei H ps (max_fee ?m (kind_fee H ps w t)) w2 = (Ok (), w')" "sysw w'"
    "wei_at w' (ps_baseFeeWei H ps) = saturate_wei (max_fee ?m (kind_fee H ps w t))"
    "same_except {ps_baseFeeWei H ps} w2 w'" using SetBaseFee_run [OF w2(2)] by blast
  have "length ?cs = unat (u64_at w (mc_len H ps))" by (simp add: multi_constraints_def)
  then have run: "updatePricingModelMultiConstraints H ps t w = (Ok (), w')"
    using sys w1(1) u(1) quiet_sysw [OF u(2)] su(2) w2(1) w'(1)
    by (simp add: updatePricingModelMultiConstraints_def L2_MultiGasConstraintsLength_def SubStorageVector_Length_def
        op_simps sys_simps u64_at_def NumResourceKind_def l2_getters(6) wei_at_def del: upt_Suc)
  have f: "same_except (insert (ps_baseFeeWei H ps) {next_fee H ps j | j. j < 9}) w1 w'"
  proof -
    have "same_except {} w1 u" using u(2) by (simp add: quiet_def)
    from same_except_trans [OF same_except_trans [OF this w2(3)] w'(4)] show ?thesis by simp
  qed
  have len': "slot_read w' (mc_len H ps) = slot_read w1 (mc_len H ps)"
    using sl(4) [of 2] sl(6) by (intro same_exceptD [OF f]) auto
  have rd: "slot_read w' (mc_word H ps i j) = slot_read w1 (mc_word H ps i j)" if "i < N" "j < 13" for i j
    using sl(3) [OF that, of 2] sl(5) [OF that] by (intro same_exceptD [OF f]) auto
  have l1: "length (multi_constraints H ps w1) \<le> N" using w1(3) lN by simp
  then have "multi_at H ps w' i = multi_at H ps w1 i" if "i < length (multi_constraints H ps w1)" for i
    using rd that by (simp add: multi_at_def u64_at_def)
  then have cs': "multi_constraints H ps w' = multi_constraints H ps w1"
    using len' by (simp add: multi_constraints_def u64_at_def)
  then have "multi_ok H ps N w'" using w1(2) w'(2) len' rd l1 by (simp add: multi_ok_def)
  moreover have "slot_read w' (next_fee H ps k) = BigInt_encode (kind_fee H ps w t k)" if "k < 9" for k
    using same_exceptD [OF w'(4), of "next_fee H ps k"] sl(7) [OF that, of 2] w2(4) that by simp
  ultimately show ?thesis using run cs' w1(3) w'(3) by auto
qed

lemma Commit_loop:
  assumes lay: "layout H (ps_storage ps) (multi_locs N)" "N \<le> 2 ^ 64" and w: "sysw w" and k: "k \<le> 9"
    and ok: "\<forall>j < 9. slot_read w (next_fee H ps j) = BigInt_encode (fee j) \<and> inS 256 (fee j)"
  shows "\<exists>w'. for_each [0..<k] (\<lambda>i. bnd (StorageBackedBigInt_Get (next_fee H ps i)) (\<lambda>cur.
       StorageBackedBigInt_SetChecked (current_fee H ps i) cur)) w = (Ok (), w') \<and> sysw w'
    \<and> same_except {current_fee H ps j | j. j < k} w w' \<and> (\<forall>j < k. slot_read w' (current_fee H ps j) = BigInt_encode (fee j))"
  using k
proof (induction k)
  case 0
  then show ?case using w by (simp add: ret_run)
next
  case (Suc k)
  let ?f = "\<lambda>i. bnd (StorageBackedBigInt_Get (next_fee H ps i)) (\<lambda>cur. StorageBackedBigInt_SetChecked (current_fee H ps i) cur)"
  obtain w1 where w1: "for_each [0..<k] ?f w = (Ok (), w1)" "sysw w1" "same_except {current_fee H ps j | j. j < k} w w1"
    "\<forall>j < k. slot_read w1 (current_fee H ps j) = BigInt_encode (fee j)" using Suc by auto
  have "next_fee H ps k \<noteq> current_fee H ps j" if "j < k" for j
    using multi_slots(10) [OF lay, of j k] that Suc.prems by auto
  then have "next_fee H ps k \<notin> {current_fee H ps j | j. j < k}" by blast
  then have "slot_read w1 (next_fee H ps k) = BigInt_encode (fee k)"
    using same_exceptD [OF w1(3)] ok Suc.prems by simp
  then have "\<exists>w'. ?f k w1 = (Ok (), w') \<and> sysw w' \<and> same_except {current_fee H ps k} w1 w'
      \<and> slot_read w' (current_fee H ps k) = BigInt_encode (fee k)"
    using w1(2) ok Suc.prems by (simp add: op_simps sys_simps BigInt_decode_encode same_except_write)
  then obtain w' where w': "?f k w1 = (Ok (), w')" "sysw w'" "same_except {current_fee H ps k} w1 w'"
    "slot_read w' (current_fee H ps k) = BigInt_encode (fee k)" by blast
  have "slot_read w' (current_fee H ps j) = BigInt_encode (fee j)" if "j < Suc k" for j
  proof (cases "j = k")
    case False
    then have "current_fee H ps j \<noteq> current_fee H ps k" using multi_slots(9) [OF lay, of j k] that Suc.prems by auto
    then show ?thesis using same_exceptD [OF w'(3)] w1(4) that False by (simp add: less_Suc_eq)
  qed (simp add: w'(4))
  moreover have "same_except {current_fee H ps j | j. j < Suc k} w w'"
    using same_except_trans [OF w1(3) w'(3)] by (rule same_except_mono) (auto simp: less_Suc_eq)
  ultimately show ?case using w1(1) w' by (simp add: for_each_append op_simps)
qed

definition charged_fee :: "int \<Rightarrow> (nat \<Rightarrow> int) \<Rightarrow> nat \<Rightarrow> int" where
  "charged_fee blockFee fee k = (if k = 6 \<or> fee k = 0 then blockFee else fee k)"

lemma GetFees_run:
  assumes "sysw w" "\<forall>j < 9. BigInt_decode (slot_read w (current_fee H ps j)) = fee j"
    and "ArbosVersion_MultiGasRefundFix \<le> ps_ArbosVersion ps"
  shows "\<exists>w'. GetMultiGasBaseFeePerResource H ps blockFee w = (Ok (map (charged_fee blockFee fee) [0..<9]), w')
    \<and> quiet w w'"
proof -
  have "\<exists>w'. collect [0..<9] (\<lambda>kind. bnd (StorageBackedBigInt_Get (current_fee H ps kind)) (\<lambda>resourceBaseFee.
       ret (if all_kinds ! kind = SingleDim \<or> resourceBaseFee = 0 then blockFee else resourceBaseFee))) w
      = (Ok (map (charged_fee blockFee fee) [0..<9]), w') \<and> sysw w' \<and> same_except {} w w'"
  proof (rule collect_reads)
    fix i u assume "i \<in> set [0..<9]" and u: "sysw u" "same_except {} w u"
    then have "i < 9" "slot_read u (current_fee H ps i) = slot_read w (current_fee H ps i)"
      by (auto simp: same_except_def)
    then show "\<exists>u'. bnd (StorageBackedBigInt_Get (current_fee H ps i)) (\<lambda>resourceBaseFee.
       ret (if all_kinds ! i = SingleDim \<or> resourceBaseFee = 0 then blockFee else resourceBaseFee)) u
      = (Ok (charged_fee blockFee fee i), u') \<and> sysw u' \<and> same_except {} w u'"
      using u assms(2) by (simp add: op_simps sys_simps charged_fee_def all_kinds_SingleDim)
  qed (use assms(1) in simp_all)
  then show ?thesis
    using assms(3) by (auto simp: GetMultiGasBaseFeePerResource_def MultiGasFees_GetCurrentBlockFee_def NumResourceKind_def
        quiet_def not_less simp del: upt_Suc collect.simps)
qed

lemma refund_sum:
  "fold (\<lambda>(i, f) total. let a = g i in if a = (0 :: u64) then total else total + uint a * f) (zip [0..<n] (map c [0..<n])) s
    = s + (\<Sum>k<n. uint (g k) * (c k :: int))"
proof (induction n)
  case (Suc n)
  then show ?case by (simp add: Let_def)
qed simp

lemma Refund_run:
  assumes "sysw w" "\<forall>j < 9. BigInt_decode (slot_read w (current_fee H ps j)) = fee j"
    and "ArbosVersion_MultiGasRefundFix \<le> ps_ArbosVersion ps"
  shows "\<exists>w'. MultiDimensionalPriceForRefund H ps g blockFee w
      = (Ok (\<Sum>k<9. uint (mg_gas g (all_kinds ! k)) * charged_fee blockFee fee k), w') \<and> quiet w w'"
  using GetFees_run [OF assms, of blockFee] refund_sum [of "\<lambda>k. mg_gas g (all_kinds ! k)" 9 "charged_fee blockFee fee" 0]
  by (auto simp: MultiDimensionalPriceForRefund_def op_simps simp del: upt_Suc)

lemma kind_fee_range:
  assumes "\<And>c. c \<in> set (multi_constraints H ps w) \<Longrightarrow> mc_good (mc_pay_off t c)"
    and "wei_at w (ps_minBaseFeeWei H ps) < 2 ^ 192"
  shows "wei_at w (ps_minBaseFeeWei H ps) \<le> kind_fee H ps w t k" and "inS 256 (kind_fee H ps w t k)"
proof -
  let ?e = "fold (\<lambda>c e. SaturatingBipsAdd e (kind_exponent c k)) (map (mc_pay_off t) (multi_constraints H ps w)) 0"
  have *: "inBips (fold (\<lambda>c e. SaturatingBipsAdd e (kind_exponent c k)) cs e)"
    if "\<And>c. c \<in> set cs \<Longrightarrow> mc_good c" "inBips e" for cs e
    using that by (induction cs arbitrary: e) (simp_all add: inBips_add_in kind_exponent_bips)
  have e: "inBips ?e" by (rule *) (use assms(1) in \<open>auto simp: inBips_def\<close>)
  show "wei_at w (ps_minBaseFeeWei H ps) \<le> kind_fee H ps w t k"
    using e unfolding kind_fee_def by (intro exp_fee_bounds) (simp_all add: inBips_def wei_at_def)
  show "inS 256 (kind_fee H ps w t k)"
    using e assms(2) unfolding kind_fee_def by (intro exp_fee_upper) (simp_all add: wei_at_def)
qed

lemma max_fee_saturate:
  assumes "\<And>c. c \<in> set (multi_constraints H ps w) \<Longrightarrow> mc_good (mc_pay_off t c)"
    and "wei_at w (ps_minBaseFeeWei H ps) < 2 ^ 192"
  shows "saturate_wei (max_fee (wei_at w (ps_minBaseFeeWei H ps)) (kind_fee H ps w t))
    = max_fee (wei_at w (ps_minBaseFeeWei H ps)) (kind_fee H ps w t)"
proof -
  let ?m = "wei_at w (ps_minBaseFeeWei H ps)" and ?S = "insert (wei_at w (ps_minBaseFeeWei H ps)) (kind_fee H ps w t ` {..<9})"
  have "0 \<le> ?m" "?m < 2 ^ 256" using assms(2) by (simp_all add: wei_at_def)
  moreover have "kind_fee H ps w t k < 2 ^ 256" for k
    using kind_fee_range(2) [OF assms, of k] by (simp add: inS_def)
  moreover have "Max ?S \<in> ?S" by (rule Max_in) simp_all
  ultimately have "Max ?S < 2 ^ 256" "0 \<le> Max ?S" by (auto simp: Max_ge_iff)
  then have "max 0 (min (Max ?S) (2 ^ 256 - 1)) = Max ?S" by linarith
  then show ?thesis by (simp only: max_fee_eq saturate_wei_def twoToThe256_def)
qed

lemma GasModel_multi:
  assumes "multi_ok H ps N w" "multi_constraints H ps w \<noteq> []" "ArbosVersion_MultiGasConstraintsVersion \<le> ps_ArbosVersion ps"
  shows "L2_GasModelToUse H ps w = (Ok GasModelMultiGasConstraints, tick StorageAccessRead StorageReadCost w)"
proof -
  have "u64_at w (mc_len H ps) \<noteq> 0" using assms(2) by (auto simp: multi_constraints_def)
  then show ?thesis
    using assms(1,3) by (simp add: L2_GasModelToUse_def L2_MultiGasConstraintsLength_def SubStorageVector_Length_def
        op_simps sys_simps multi_ok_def u64_at_def word_neq_0_conv)
qed

lemma UpdatePricingModel_multi:
  assumes ok: "multi_ok H ps N w" "multi_constraints H ps w \<noteq> []" "ArbosVersion_MultiGasConstraintsVersion \<le> ps_ArbosVersion ps"
    and m: "wei_at w (ps_minBaseFeeWei H ps) < 2 ^ 192"
    and good: "\<And>c. c \<in> set (multi_constraints H ps w) \<Longrightarrow> mc_good (mc_pay_off t c)"
  shows "\<exists>w'. L2_UpdatePricingModel H ps t w = (Ok (), w') \<and> multi_ok H ps N w' \<and> multi_constraints H ps w' \<noteq> []
    \<and> (\<forall>k < 9. slot_read w' (next_fee H ps k) = BigInt_encode (kind_fee H ps w t k))
    \<and> wei_at w' (ps_baseFeeWei H ps) = max_fee (wei_at w (ps_minBaseFeeWei H ps)) (kind_fee H ps w t)"
proof -
  let ?w = "tick StorageAccessRead StorageReadCost w"
  have q: "quiet w ?w" using ok(1) by (simp add: multi_ok_def)
  note ok' = multi_ok_quiet [OF ok(1) q]
  have kf: "kind_fee H ps ?w t = kind_fee H ps w t" by (rule ext) (simp add: kind_fee_def ok'(2))
  obtain w' where w': "updatePricingModelMultiConstraints H ps t ?w = (Ok (), w')" "multi_ok H ps N w'"
    "multi_constraints H ps w' = map (mc_pay_off t) (multi_constraints H ps w)"
    "\<forall>k < 9. slot_read w' (next_fee H ps k) = BigInt_encode (kind_fee H ps w t k)"
    "wei_at w' (ps_baseFeeWei H ps) = saturate_wei (max_fee (wei_at w (ps_minBaseFeeWei H ps)) (kind_fee H ps w t))"
    using updateMulti_run [OF ok'(1), of t] m good unfolding kf ok'(2) by auto
  have "L2_UpdatePricingModel H ps t w = (Ok (), w')"
    using GasModel_multi [OF ok] w'(1) by (simp add: L2_UpdatePricingModel_def op_simps)
  then show ?thesis using w' ok(2) max_fee_saturate [OF good m] by simp
qed

lemma CommitMultiGasFees_run:
  assumes ok: "multi_ok H ps N w" "multi_constraints H ps w \<noteq> []" "ArbosVersion_MultiGasConstraintsVersion \<le> ps_ArbosVersion ps"
    and fee: "\<forall>j < 9. slot_read w (next_fee H ps j) = BigInt_encode (fee j) \<and> inS 256 (fee j)"
  shows "\<exists>w'. L2_CommitMultiGasFees H ps w = (Ok (), w') \<and> sysw w'
    \<and> same_except {current_fee H ps j | j. j < 9} w w' \<and> (\<forall>j < 9. BigInt_decode (slot_read w' (current_fee H ps j)) = fee j)"
proof -
  have lay: "layout H (ps_storage ps) (multi_locs N)" "N \<le> 2 ^ 64" "sysw (tick StorageAccessRead StorageReadCost w)"
    using ok(1) by (simp_all add: multi_ok_def)
  have fee': "\<forall>j < 9. slot_read (tick StorageAccessRead StorageReadCost w) (next_fee H ps j) = BigInt_encode (fee j) \<and> inS 256 (fee j)"
    using fee by simp
  from Commit_loop [OF lay order_refl fee'] show ?thesis
    using GasModel_multi [OF ok] fee
    by (auto simp: L2_CommitMultiGasFees_def MultiGasFees_CommitNextToCurrent_def NumResourceKind_def op_simps
        BigInt_decode_encode simp del: upt_Suc for_each.simps)
qed

text \<open>A world with one constraint on computation.\<close>

definition demo_mps :: L2PricingState where
  "demo_mps = OpenL2PricingState tree_root 61"

definition demo_multi :: world where
  "demo_multi = slot_write (mc_len tree_hash demo_mps) 1
     (slot_write (mc_word tree_hash demo_mps 0 0) 7000000
     (slot_write (mc_word tree_hash demo_mps 0 1) 12
     (slot_write (mc_word tree_hash demo_mps 0 2) 100000000
     (slot_write (mc_word tree_hash demo_mps 0 3) 1
     (slot_write (mc_word tree_hash demo_mps 0 5) 1
     (slot_write (ps_minBaseFeeWei tree_hash demo_mps) 100000000 demo_world))))))"

lemma demo_multi_layout: "layout tree_hash (ps_storage demo_mps) (multi_locs 1)"
proof -
  have "layout tree_hash tree_root (multi_locs 1)"
  proof (rule tree_layout [where S = "{[1], [2], be_bytes 8 0}"])
    show "inj_on id_code {[1], [2], be_bytes 8 0}" by (simp add: inj_on_def id_code_def)
    have small: "unat (of_nat i :: u64) < 2 ^ 40" if "i < 18" for i
      using that unat_of_nat_u64 [of i] by simp
    show "set p \<subseteq> {[1], [2], be_bytes 8 0} \<and> length p \<le> 5 \<and> unat k < 2 ^ 40" if "(p, k) \<in> multi_locs 1" for p k
      using that small by (auto simp: multi_locs_def)
  qed
  then show ?thesis by (simp add: demo_mps_def OpenL2PricingState_def)
qed

lemma demo_multi_reads:
  "slot_read demo_multi (mc_len tree_hash demo_mps) = 1"
  "slot_read demo_multi (mc_word tree_hash demo_mps 0 0) = 7000000"
  "slot_read demo_multi (mc_word tree_hash demo_mps 0 (Suc 0)) = 12"
  "slot_read demo_multi (mc_word tree_hash demo_mps 0 2) = 100000000"
  "slot_read demo_multi (mc_word tree_hash demo_mps 0 3) = 1"
  "slot_read demo_multi (mc_word tree_hash demo_mps 0 4) = 0"
  "slot_read demo_multi (ps_minBaseFeeWei tree_hash demo_mps) = 100000000"
  using multi_slots(1) [OF demo_multi_layout _ zero_less_one _ zero_less_one]
    multi_slots(2) [OF demo_multi_layout _ zero_less_one] multi_slots(3) [OF demo_multi_layout _ zero_less_one, of _ 3]
    multi_slots(3) [OF demo_multi_layout _ zero_less_one, of _ 3, symmetric]
    multi_slots(4) [OF demo_multi_layout, of 3] multi_slots(4) [OF demo_multi_layout, of 3, symmetric]
  by (simp_all add: demo_multi_def slot_read_write)

lemma demo_multi_ok: "multi_ok tree_hash demo_mps 1 demo_multi"
proof -
  have "fits 32 (slot_read demo_multi ss)" for ss
    by (auto simp: demo_multi_def slot_read_write fits_def)
  moreover from this have "fits 64 (slot_read demo_multi ss)" for ss by (rule fits_mono) simp
  moreover have "length (multi_constraints tree_hash demo_mps demo_multi) = 1"
    by (simp add: multi_constraints_def u64_at_def demo_multi_reads)
  moreover have "sysw demo_multi" by (simp add: demo_multi_def)
  ultimately show ?thesis using demo_multi_layout by (simp add: multi_ok_def)
qed

lemma demo_multi_good:
  assumes "c \<in> set (multi_constraints tree_hash demo_mps demo_multi)"
  shows "mc_good (mc_pay_off 1 c)"
  using assms by (simp add: multi_constraints_def u64_at_def demo_multi_reads multi_at_def mc_good_def mc_pay_off_def
      mc_divisor_def SaturatingUMul_def)

section \<open>Properties\<close>

text \<open>C3: The multi-gas model refines its description on values: it pays off every constraint at its
  target, stores for every resource kind the minimum fee at the saturating sum of that kind's
  exponents as its fee for the next block, and sets the base fee to the largest of these fees
  and the minimum. The update returns whenever the constraints with a backlog have a positive
  divisor and no weight on the unknown kind.\<close>

theorem multi_gas_refines:
  assumes "multi_ok H ps N w" and "wei_at w (ps_minBaseFeeWei H ps) < 2 ^ 192"
    and "\<And>c. c \<in> set (multi_constraints H ps w) \<Longrightarrow> mc_good (mc_pay_off t c)"
  shows "\<exists>w'. updatePricingModelMultiConstraints H ps t w = (Ok (), w')
    \<and> multi_constraints H ps w' = map (mc_pay_off t) (multi_constraints H ps w)
    \<and> (\<forall>k < 9. BigInt_decode (slot_read w' (next_fee H ps k)) = kind_fee H ps w t k)
    \<and> wei_at w' (ps_baseFeeWei H ps) = Max (insert (wei_at w (ps_minBaseFeeWei H ps)) (kind_fee H ps w t ` {..<9}))"
proof -
  let ?m = "wei_at w (ps_minBaseFeeWei H ps)"
  have "inS 256 (kind_fee H ps w t k)" for k using kind_fee_range(2) [OF assms(3,2)] .
  then show ?thesis
    using updateMulti_run [OF assms] max_fee_saturate [OF assms(3,2)]
    by (auto simp: BigInt_decode_encode max_fee_eq)
qed




theorem multi_gas_refines_witness:
  "\<exists>w'. updatePricingModelMultiConstraints tree_hash demo_mps 1 demo_multi = (Ok (), w')
    \<and> mc_backlog (hd (multi_constraints tree_hash demo_mps w')) = 93000000"
proof -
  have "wei_at demo_multi (ps_minBaseFeeWei tree_hash demo_mps) < 2 ^ 192" by (simp add: wei_at_def demo_multi_reads)
  from multi_gas_refines [OF demo_multi_ok this, of 1] demo_multi_good show ?thesis
    by (auto simp: multi_constraints_def u64_at_def demo_multi_reads multi_at_def mc_pay_off_def
        SaturatingUMul_def SaturatingUSub_def)
qed


end
