(* ===== verification/Blockhash.thy ===== *)
theory Blockhash
  imports Concrete
begin

text \<open>
  The L1 block hashes kept by ArbOS (\<^verbatim>\<open>arbos/blockhash/blockhash.go\<close>): word 0 holds one more
  than the last recorded number, words 1 to 256 a ring of the last 256 hashes. Shown: what
  every number of the window reads after \<^verbatim>\<open>RecordNewL1Block\<close>, the errors outside the window,
  and that the first skipped number is not filled in.
\<close>

section \<open>Operations\<close>

definition bh_l1BlockNumber :: "(bytes \<Rightarrow> bytes) \<Rightarrow> Storage \<Rightarrow> StorageSlot" where
  "bh_l1BlockNumber H sto = NewSlot H sto 0"

definition Blockhashes_L1BlockNumber :: "(bytes \<Rightarrow> bytes) \<Rightarrow> Storage \<Rightarrow> (world, u64) op" where
  "Blockhashes_L1BlockNumber H sto = StorageBackedUint64_Get (bh_l1BlockNumber H sto)"

definition Blockhashes_BlockHash :: "(bytes \<Rightarrow> bytes) \<Rightarrow> Storage \<Rightarrow> u64 \<Rightarrow> (world, hash) op" where
  "Blockhashes_BlockHash H sto number =
     bnd (StorageBackedUint64_Get (bh_l1BlockNumber H sto)) (\<lambda>currentNumber.
     if number \<ge> currentNumber \<or> number + 256 < currentNumber
     then throw (ErrMsg ''invalid block number for BlockHash'')
     else Storage_GetByUint64 H sto (1 + number mod 256))"

definition nextNumBuf :: "u64 \<Rightarrow> u64 \<Rightarrow> bytes" where
  "nextNumBuf arbosVersion n = (if arbosVersion \<ge> 8 then rev (be_bytes 8 (unat n)) else replicate 8 0)"

function RecordNewL1Block_loop ::
  "(bytes \<Rightarrow> bytes) \<Rightarrow> Storage \<Rightarrow> u64 \<Rightarrow> hash \<Rightarrow> u64 \<Rightarrow> u64 \<Rightarrow> (world, unit) op" where
  "RecordNewL1Block_loop H sto number blockHash arbosVersion nextNumber =
     (if nextNumber + 1 < number
      then bnd (Storage_KeccakHash H [hash_Bytes blockHash, nextNumBuf arbosVersion (nextNumber + 1)]) (\<lambda>fill.
           bnd (Storage_SetByUint64 H sto (1 + (nextNumber + 1) mod 256) fill) (\<lambda>_.
           RecordNewL1Block_loop H sto number blockHash arbosVersion (nextNumber + 1)))
      else ret ())"
  by pat_completeness auto
termination
proof (relation "measure (\<lambda>(H, s, number, h, v, n). unat number - unat (n + 1))")
  fix n number :: u64
  assume "n + 1 < number"
  then have "unat (n + 1 + 1) = unat (n + 1) + 1" "unat (n + 1) < unat number"
    by (rule less_unat_Suc, simp add: word_less_nat_alt)
  then show "((H, s, number, h, v, n + 1), H, s, number, h, v, n)
    \<in> measure (\<lambda>(H, s, number, h, v, n). unat number - unat (n + 1))" for H s h v by simp
qed simp

definition Blockhashes_RecordNewL1Block ::
  "(bytes \<Rightarrow> bytes) \<Rightarrow> Storage \<Rightarrow> u64 \<Rightarrow> hash \<Rightarrow> u64 \<Rightarrow> (world, unit) op" where
  "Blockhashes_RecordNewL1Block H sto number blockHash arbosVersion =
     bnd (StorageBackedUint64_Get (bh_l1BlockNumber H sto)) (\<lambda>nextNumber.
     if number < nextNumber then ret ()
     else
       bnd (RecordNewL1Block_loop H sto number blockHash arbosVersion
              (if nextNumber + 256 < number then number - 256 else nextNumber)) (\<lambda>_.
       bnd (Storage_SetByUint64 H sto (1 + number mod 256) blockHash) (\<lambda>_.
       StorageBackedUint64_Set (bh_l1BlockNumber H sto) (number + 1))))"

section \<open>The ring of hashes\<close>

declare RecordNewL1Block_loop.simps [simp del]

definition ring_slot :: "(bytes \<Rightarrow> bytes) \<Rightarrow> Storage \<Rightarrow> nat \<Rightarrow> StorageSlot" where
  "ring_slot H s n = word_slot H s (Suc (n mod 256))"

definition fill_hash :: "(bytes \<Rightarrow> bytes) \<Rightarrow> hash \<Rightarrow> u64 \<Rightarrow> nat \<Rightarrow> hash" where
  "fill_hash H h ver n = BytesToHash (H (hash_Bytes h @ nextNumBuf ver (of_nat n)))"

definition bh_next :: "(bytes \<Rightarrow> bytes) \<Rightarrow> Storage \<Rightarrow> world \<Rightarrow> nat" where
  "bh_next H s w = unat (slot_read w (word_slot H s 0))"

definition bh_ok :: "(bytes \<Rightarrow> bytes) \<Rightarrow> Storage \<Rightarrow> world \<Rightarrow> bool" where
  "bh_ok H s w \<longleftrightarrow> sysw w \<and> distinct_words H s 256 \<and> bh_next H s w < 2 ^ 64"

lemma ring_offset: "(1 :: u64) + n mod 256 = of_nat (Suc (unat n mod 256))"
proof -
  have "unat (n mod 256) = unat n mod 256" by (simp add: unat_mod_distrib)
  then have "n mod 256 = of_nat (unat n mod 256)" by (metis of_nat_unat_id)
  then show ?thesis by simp
qed

lemma ring_ops:
  "Storage_GetByUint64 H s (1 + n mod 256) = StorageSlot_Get (ring_slot H s (unat n))"
  "Storage_SetByUint64 H s (1 + n mod 256) v = StorageSlot_Set (ring_slot H s (unat n)) v"
  unfolding ring_offset ring_slot_def by (simp_all only: word_ops)

lemma ring_distinct:
  assumes "distinct_words H s 256"
  shows "ring_slot H s i = ring_slot H s j \<longleftrightarrow> i mod 256 = j mod 256"
    and "ring_slot H s i \<noteq> word_slot H s 0" and "word_slot H s 0 \<noteq> ring_slot H s i"
  using distinct_wordsD [OF assms, of "Suc (i mod 256)" "Suc (j mod 256)"]
    distinct_wordsD [OF assms, of "Suc (i mod 256)" 0]
  by (auto simp: ring_slot_def Suc_le_eq)

text \<open>Two numbers of one window have different ring slots.\<close>

lemma window_mod: "i < j \<Longrightarrow> j < i + 256 \<Longrightarrow> i mod 256 \<noteq> j mod (256 :: nat)"
  using mod_eq_dvd_iff_nat [of i j 256] nat_dvd_not_less [of "j - i" 256] by auto

lemma KeccakHash_sys:
  "sysw w \<Longrightarrow> \<exists>k a. Storage_KeccakHash H ds w = (Ok (BytesToHash (H (concat ds))), tick k a w)"
  by (simp add: Storage_KeccakHash_def Storage_Keccak_def Let_def bnd_def w_Burn_sys ret_run) blast

lemma Record_loop_run:
  assumes "n + d + 1 = N" "N < 2 ^ 64" "d < 256" "sysw w" "distinct_words H s 256"
  shows "\<exists>w'. RecordNewL1Block_loop H s (of_nat N) h ver (of_nat n) w = (Ok (), w') \<and> sysw w'
    \<and> slot_read w' (word_slot H s 0) = slot_read w (word_slot H s 0)
    \<and> (\<forall>m. N < m + 256 \<longrightarrow> m \<le> N \<longrightarrow> slot_read w' (ring_slot H s m) =
         (if n < m \<and> m < N then fill_hash H h ver m else slot_read w (ring_slot H s m)))"
  using assms
proof (induction d arbitrary: n w)
  case 0
  then have "(of_nat n :: u64) + 1 = of_nat N" by auto
  then show ?case using 0 by (subst RecordNewL1Block_loop.simps) (auto simp: ret_run)
next
  case (Suc d)
  note D = ring_distinct [OF Suc.prems(5)]
  have b: "Suc n < N" "Suc n < 2 ^ 64" using Suc.prems(1,2) by simp_all
  have n1: "(of_nat n :: u64) + 1 = of_nat (Suc n)" by simp
  have lt: "(of_nat (Suc n) :: u64) < of_nat N"
    using b Suc.prems(2) by (simp only: word_less_nat_alt unat_of_nat_u64)
  have u: "unat (of_nat (Suc n) :: u64) = Suc n" using b(2) by (rule unat_of_nat_u64)
  let ?f = "fill_hash H h ver (Suc n)"
  obtain k a where kh: "Storage_KeccakHash H [hash_Bytes h, nextNumBuf ver (of_nat (Suc n))] w = (Ok ?f, tick k a w)"
    using KeccakHash_sys [OF Suc.prems(4), of H "[hash_Bytes h, nextNumBuf ver (of_nat (Suc n))]"]
    by (auto simp: fill_hash_def simp del: of_nat_Suc)
  let ?w1 = "slot_write (ring_slot H s (Suc n)) ?f (tick StorageAccessWrite (WriteCost ?f) (tick k a w))"
  have "sysw ?w1" using Suc.prems(4) by simp
  from Suc.IH [OF _ Suc.prems(2) _ this Suc.prems(5), of "Suc n"] Suc.prems(1,3) obtain w' where
    w': "RecordNewL1Block_loop H s (of_nat N) h ver (of_nat (Suc n)) ?w1 = (Ok (), w')" "sysw w'"
      "slot_read w' (word_slot H s 0) = slot_read ?w1 (word_slot H s 0)"
      "\<forall>m. N < m + 256 \<longrightarrow> m \<le> N \<longrightarrow> slot_read w' (ring_slot H s m) =
         (if Suc n < m \<and> m < N then fill_hash H h ver m else slot_read ?w1 (ring_slot H s m))"
    by auto
  have "RecordNewL1Block_loop H s (of_nat N) h ver (of_nat n) w = (Ok (), w')"
    using lt kh w'(1) Suc.prems(4) unfolding RecordNewL1Block_loop.simps [of H s "of_nat N" h ver "of_nat n"] n1
    by (simp add: bnd_def ring_ops u sys_simps del: of_nat_Suc)
  moreover have "slot_read w' (word_slot H s 0) = slot_read w (word_slot H s 0)"
    using w'(3) D(3) by (simp add: slot_read_write)
  moreover have "slot_read w' (ring_slot H s m) =
      (if n < m \<and> m < N then fill_hash H h ver m else slot_read w (ring_slot H s m))" if m: "N < m + 256" "m \<le> N" for m
  proof -
    have "m mod 256 = Suc n mod 256 \<longleftrightarrow> m = Suc n"
      using window_mod [of m "Suc n"] window_mod [of "Suc n" m] m b Suc.prems(1,3)
      by (cases m "Suc n" rule: linorder_cases) auto
    then show ?thesis using w'(4) m b by (auto simp: slot_read_write D(1))
  qed
  ultimately show ?case using w'(2) by blast
qed

lemma bh_okD:
  assumes "bh_ok H s w"
  shows "sysw w" "distinct_words H s 256"
    "slot_read w (bh_l1BlockNumber H s) = ucast (of_nat (bh_next H s w) :: u64)" "bh_next H s w < 2 ^ 64"
proof -
  have slot: "bh_l1BlockNumber H s = word_slot H s 0" by (simp add: bh_l1BlockNumber_def word_slot_def)
  show "sysw w" "distinct_words H s 256" and n: "bh_next H s w < 2 ^ 64" using assms by (auto simp: bh_ok_def)
  from hash_of_nat_u64 [OF bh_next_def [symmetric] n]
  show "slot_read w (bh_l1BlockNumber H s) = ucast (of_nat (bh_next H s w) :: u64)" by (simp add: slot)
qed

lemma u64_less_nat: "i < 2 ^ 64 \<Longrightarrow> j < 2 ^ 64 \<Longrightarrow> (of_nat i :: u64) < of_nat j \<longleftrightarrow> i < j"
  by (simp only: word_less_nat_alt unat_of_nat_u64)

lemma BlockHash_run:
  assumes ok: "bh_ok H s w" and n: "n + 256 < 2 ^ 64"
  shows "Blockhashes_BlockHash H s (of_nat n) w =
    (if n < bh_next H s w \<and> bh_next H s w \<le> n + 256
     then (Ok (slot_read w (ring_slot H s n)),
           tick StorageAccessRead StorageReadCost (tick StorageAccessRead StorageReadCost w))
     else (Err (ErrMsg ''invalid block number for BlockHash''), tick StorageAccessRead StorageReadCost w))"
proof -
  note B = bh_okD [OF ok]
  have n64: "n < 2 ^ 64" using n by simp
  have "(of_nat n :: u64) + 256 = of_nat (n + 256)" by simp
  then have "(of_nat n :: u64) + 256 < of_nat (bh_next H s w) \<longleftrightarrow> n + 256 < bh_next H s w"
    using u64_less_nat [OF n B(4)] by (simp only:)
  moreover have "(of_nat n :: u64) \<ge> of_nat (bh_next H s w) \<longleftrightarrow> \<not> n < bh_next H s w"
    using u64_less_nat [OF n64 B(4)] by (simp only: not_less [symmetric])
  moreover have "unat (of_nat n :: u64) = n" using n64 by (rule unat_of_nat_u64)
  ultimately show ?thesis using B(1,3)
    by (auto simp: Blockhashes_BlockHash_def bnd_def op_simps sys_simps ring_ops)
qed

lemma Record_old:
  assumes ok: "bh_ok H s w" and n: "unat n < bh_next H s w"
  shows "Blockhashes_RecordNewL1Block H s n h ver w = (Ok (), tick StorageAccessRead StorageReadCost w)"
proof -
  note B = bh_okD [OF ok]
  have "n < of_nat (bh_next H s w)" using n B(4) by (simp only: word_less_nat_alt unat_of_nat_u64)
  then show ?thesis using B(1,3) by (simp add: Blockhashes_RecordNewL1Block_def bnd_def op_simps sys_simps)
qed

lemma Record_run:
  assumes ok: "bh_ok H s w" and N: "N + 256 < 2 ^ 64" and cur: "bh_next H s w \<le> N"
  shows "\<exists>w'. Blockhashes_RecordNewL1Block H s (of_nat N) h ver w = (Ok (), w') \<and> bh_ok H s w'
    \<and> bh_next H s w' = Suc N
    \<and> (\<forall>m. N < m + 256 \<longrightarrow> m \<le> N \<longrightarrow> slot_read w' (ring_slot H s m) =
         (if m = N then h else if bh_next H s w < m then fill_hash H h ver m
          else slot_read w (ring_slot H s m)))"
proof -
  note B = bh_okD [OF ok]
  note D = ring_distinct [OF B(2)]
  let ?c = "bh_next H s w" and ?w1 = "tick StorageAccessRead StorageReadCost w"
  define b where "b = (if ?c + 256 < N then N - 256 else ?c)"
  have b: "b \<le> N" "N \<le> b + 256" using cur by (auto simp: b_def)
  have bc: "N < m + 256 \<Longrightarrow> b < m \<longleftrightarrow> ?c < m" for m using cur by (auto simp: b_def)
  have sys1: "sysw ?w1" using B(1) by simp
  have "\<exists>w2. RecordNewL1Block_loop H s (of_nat N) h ver (of_nat b) ?w1 = (Ok (), w2) \<and> sysw w2
    \<and> slot_read w2 (word_slot H s 0) = slot_read ?w1 (word_slot H s 0)
    \<and> (\<forall>m. N < m + 256 \<longrightarrow> m \<le> N \<longrightarrow> slot_read w2 (ring_slot H s m) =
         (if b < m \<and> m < N then fill_hash H h ver m else slot_read ?w1 (ring_slot H s m)))"
  proof (cases "b = N")
    case True
    have "\<not> (of_nat N :: u64) + 1 < of_nat N"
      using N u64_less_nat [of "Suc N" N] by (simp add: add.commute)
    then show ?thesis using sys1 True
      unfolding RecordNewL1Block_loop.simps [of H s "of_nat N" h ver "of_nat b"] by (auto simp: ret_run)
  next
    case False
    then have "b + (N - b - 1) + 1 = N" "N - b - 1 < 256" using b by simp_all
    then show ?thesis using N sys1 B(2) by (intro Record_loop_run) simp_all
  qed
  then obtain w2 where
    w2: "RecordNewL1Block_loop H s (of_nat N) h ver (of_nat b) ?w1 = (Ok (), w2)" "sysw w2"
      "\<And>m. N < m + 256 \<Longrightarrow> m \<le> N \<Longrightarrow> slot_read w2 (ring_slot H s m) =
         (if b < m \<and> m < N then fill_hash H h ver m else slot_read w (ring_slot H s m))"
    by auto
  let ?w3 = "slot_write (ring_slot H s N) h (tick StorageAccessWrite (WriteCost h) w2)"
  let ?v = "ucast (of_nat (Suc N) :: u64) :: hash"
  let ?w' = "slot_write (word_slot H s 0) ?v (tick StorageAccessWrite (WriteCost ?v) ?w3)"
  have N64: "N < 2 ^ 64" "Suc N < 2 ^ 64" "?c + 256 < 2 ^ 64" using N cur by simp_all
  have start: "(if (of_nat ?c :: u64) + 256 < of_nat N then of_nat N - 256 else of_nat ?c) = (of_nat b :: u64)"
  proof -
    have "(of_nat ?c :: u64) + 256 = of_nat (?c + 256)" by simp
    then have "(of_nat ?c :: u64) + 256 < of_nat N \<longleftrightarrow> ?c + 256 < N"
      using u64_less_nat [OF N64(3,1)] by (simp only:)
    then show ?thesis by (auto simp: b_def of_nat_diff)
  qed
  have notlt: "\<not> (of_nat N :: u64) < of_nat ?c" using u64_less_nat [OF N64(1) B(4)] cur by simp
  have slot: "bh_l1BlockNumber H s = word_slot H s 0" by (simp add: bh_l1BlockNumber_def word_slot_def)
  have "Blockhashes_RecordNewL1Block H s (of_nat N) h ver w = (Ok (), ?w')"
    using B(1,3) notlt start w2(1,2)
    by (simp add: Blockhashes_RecordNewL1Block_def bnd_def sys_simps ring_ops unat_of_nat_u64 [OF N64(1)] slot add.commute)
  moreover have next': "bh_next H s ?w' = Suc N"
    using unat_ucast_of_nat [OF N64(2)] by (simp add: bh_next_def)
  moreover have "bh_ok H s ?w'" using w2(2) B(2) N64(2) next' by (simp add: bh_ok_def)
  moreover have "slot_read ?w' (ring_slot H s m) =
         (if m = N then h else if ?c < m then fill_hash H h ver m else slot_read w (ring_slot H s m))"
    if m: "N < m + 256" "m \<le> N" for m
    using window_mod [of m N] m w2(3) [OF m] bc [OF m(1)] by (auto simp: slot_read_write D)
  ultimately show ?thesis by blast
qed

section \<open>Properties\<close>



text \<open>C38: The first skipped number is never filled in. When the counter stands at \<open>n\<close> and a
  later number inside the window is recorded, querying \<open>n\<close> succeeds and returns what its
  ring word held before, a hash of another number or zero.\<close>

theorem first_skipped_block_is_stale:
  assumes "bh_ok H s w" and "N + 256 < 2 ^ 64" and "bh_next H s w < N" and "N < bh_next H s w + 256"
  shows "\<exists>w'. Blockhashes_RecordNewL1Block H s (of_nat N) h ver w = (Ok (), w')
    \<and> fst (Blockhashes_BlockHash H s (of_nat (bh_next H s w)) w') = Ok (slot_read w (ring_slot H s (bh_next H s w)))"
proof -
  have "bh_next H s w \<le> N" using assms(3) by simp
  from Record_run [OF assms(1,2) this, of h ver] obtain w' where
    w': "Blockhashes_RecordNewL1Block H s (of_nat N) h ver w = (Ok (), w')" "bh_ok H s w'" "bh_next H s w' = Suc N"
    "slot_read w' (ring_slot H s (bh_next H s w)) = slot_read w (ring_slot H s (bh_next H s w))"
    using assms(3,4) by auto
  have "bh_next H s w + 256 < 2 ^ 64" using assms(2,3) by simp
  from BlockHash_run [OF w'(2) this] show ?thesis using w' assms(3,4) by auto
qed

theorem first_skipped_block_is_stale_witness:
  "\<exists>w'. Blockhashes_RecordNewL1Block demo_hash demo_storage (of_nat 5) 77 30 demo_world = (Ok (), w')
     \<and> fst (Blockhashes_BlockHash demo_hash demo_storage (of_nat 0) w') = Ok 0"
proof -
  have "bh_ok demo_hash demo_storage demo_world" "bh_next demo_hash demo_storage demo_world = 0"
    using demo_distinct_words [of 256] by (simp_all add: bh_ok_def bh_next_def)
  then show ?thesis using first_skipped_block_is_stale [of demo_hash demo_storage demo_world 5 77 30] by auto
qed

end
