(* ===== verification/AddressTable.thy ===== *)
theory AddressTable
  imports AddressSet
begin

text \<open>
  The address table (\<^verbatim>\<open>arbos/addressTable/addressTable.go\<close>): an append-only numbering of
  addresses, used to compress calldata. The RLP codec of go-ethereum is not part of the
  sources; it is the parameter record \<open>rlp\<close> with the laws \<open>rlp_laws\<close>.
\<close>

section \<open>Operations\<close>

definition atab_byAddress :: "(bytes \<Rightarrow> bytes) \<Rightarrow> Storage \<Rightarrow> Storage" where
  "atab_byAddress H sto = OpenSubStorage H sto []"

definition atab_numItems :: "(bytes \<Rightarrow> bytes) \<Rightarrow> Storage \<Rightarrow> StorageSlot" where
  "atab_numItems H sto = NewSlot H sto 0"

definition AddressTable_Register :: "(bytes \<Rightarrow> bytes) \<Rightarrow> Storage \<Rightarrow> address \<Rightarrow> (world, u64) op" where
  "AddressTable_Register H sto addr =
     bnd (Storage_Get H (atab_byAddress H sto) (AddressToHash addr)) (\<lambda>rev.
     if rev \<noteq> 0 then ret ((ucast rev :: u64) - 1)
     else
       bnd (StorageBackedUint64_Increment (atab_numItems H sto)) (\<lambda>newNumItems.
       bnd (Storage_SetByUint64 H sto newNumItems (AddressToHash addr)) (\<lambda>_.
       bnd (Storage_Set H (atab_byAddress H sto) (AddressToHash addr) (UintToHash newNumItems)) (\<lambda>_.
       ret (newNumItems - 1)))))"

definition AddressTable_Lookup :: "(bytes \<Rightarrow> bytes) \<Rightarrow> Storage \<Rightarrow> address \<Rightarrow> (world, u64 \<times> bool) op" where
  "AddressTable_Lookup H sto addr =
     bnd (Storage_GetUint64 H (atab_byAddress H sto) (AddressToHash addr)) (\<lambda>res.
     if res = 0 then ret (0, False) else ret (res - 1, True))"

definition AddressTable_AddressExists :: "(bytes \<Rightarrow> bytes) \<Rightarrow> Storage \<Rightarrow> address \<Rightarrow> (world, bool) op" where
  "AddressTable_AddressExists H sto addr = bnd (AddressTable_Lookup H sto addr) (\<lambda>r. ret (snd r))"

definition AddressTable_Size :: "(bytes \<Rightarrow> bytes) \<Rightarrow> Storage \<Rightarrow> (world, u64) op" where
  "AddressTable_Size H sto = StorageBackedUint64_Get (atab_numItems H sto)"

definition AddressTable_LookupIndex :: "(bytes \<Rightarrow> bytes) \<Rightarrow> Storage \<Rightarrow> u64 \<Rightarrow> (world, address \<times> bool) op" where
  "AddressTable_LookupIndex H sto index =
     bnd (StorageBackedUint64_Get (atab_numItems H sto)) (\<lambda>items.
     if index \<ge> items then ret (0, False)
     else bnd (Storage_GetByUint64 H sto (index + 1)) (\<lambda>v.
          ret (BytesToAddress (hash_Bytes v), True)))"

text \<open>What the code uses of RLP: encoders of an integer and of a byte string, and decoders of
  the head of a buffer that return the value and the number of bytes read.\<close>

record rlp_codec =
  AppendUint64 :: "u64 \<Rightarrow> bytes"
  EncodeToBytes :: "bytes \<Rightarrow> bytes"
  Stream_Bytes :: "bytes \<Rightarrow> error + bytes \<times> u64"
  Stream_Uint64 :: "bytes \<Rightarrow> error + u64 \<times> u64"

definition AddressTable_Compress ::
  "(bytes \<Rightarrow> bytes) \<Rightarrow> rlp_codec \<Rightarrow> Storage \<Rightarrow> address \<Rightarrow> (world, bytes) op" where
  "AddressTable_Compress H rlp sto addr =
     bnd (AddressTable_Lookup H sto addr) (\<lambda>(index, exists).
     if exists then ret (AppendUint64 rlp index)
     else ret (EncodeToBytes rlp (be_bytes 20 (unat addr))))"

definition AddressTable_Decompress ::
  "(bytes \<Rightarrow> bytes) \<Rightarrow> rlp_codec \<Rightarrow> Storage \<Rightarrow> bytes \<Rightarrow> (world, address \<times> u64) op" where
  "AddressTable_Decompress H rlp sto buf = (case Stream_Bytes rlp buf of
      Inl e \<Rightarrow> throw e
    | Inr (input, numBytesRead) \<Rightarrow>
        if length input = 20 then ret (BytesToAddress input, numBytesRead)
        else (case Stream_Uint64 rlp buf of
            Inl e \<Rightarrow> throw e
          | Inr (index, numBytesRead) \<Rightarrow>
              bnd (AddressTable_LookupIndex H sto index) (\<lambda>(addr, exists).
              if \<not> exists then throw (ErrMsg ''invalid index in compressed address'')
              else ret (addr, numBytesRead))))"

section \<open>Numbering of addresses\<close>

definition at_rep :: "(bytes \<Rightarrow> bytes) \<Rightarrow> Storage \<Rightarrow> nat \<Rightarrow> world \<Rightarrow> address list \<Rightarrow> bool" where
  "at_rep H s N w xs \<longleftrightarrow> sysw w \<and> index_layout H s (atab_byAddress H s) N \<and> length xs \<le> N
     \<and> indexed H s (atab_byAddress H s) w xs"

lemma at_repD:
  assumes "at_rep H s N w xs"
  shows "sysw w" "index_layout H s (atab_byAddress H s) N" "length xs \<le> N" "Suc (length xs) < 2 ^ 64"
    "indexed H s (atab_byAddress H s) w xs" "distinct xs"
    "slot_read w (word_slot H s 0) = ucast (of_nat (length xs) :: u64)"
    "slot_read w (by_slot H (atab_byAddress H s) a) \<noteq> 0 \<longleftrightarrow> a \<in> set xs"
    "i < length xs \<Longrightarrow> slot_read w (word_slot H s (Suc i)) = AddressToHash (xs ! i)"
    "i < length xs \<Longrightarrow> slot_read w (by_slot H (atab_byAddress H s) (xs ! i)) = ucast (of_nat (Suc i) :: u64)"
proof -
  show a: "sysw w" "index_layout H s (atab_byAddress H s) N" "length xs \<le> N"
    "indexed H s (atab_byAddress H s) w xs" using assms by (simp_all add: at_rep_def)
  then show len: "Suc (length xs) < 2 ^ 64" by (simp add: index_layout_def)
  then have "length xs < 2 ^ 64 - 1" by simp
  then show "distinct xs" "slot_read w (by_slot H (atab_byAddress H s) a) \<noteq> 0 \<longleftrightarrow> a \<in> set xs"
    using a(4) indexed_distinct indexed_member by blast+
  show "slot_read w (word_slot H s 0) = ucast (of_nat (length xs) :: u64)"
    "i < length xs \<Longrightarrow> slot_read w (word_slot H s (Suc i)) = AddressToHash (xs ! i)"
    "i < length xs \<Longrightarrow> slot_read w (by_slot H (atab_byAddress H s) (xs ! i)) = ucast (of_nat (Suc i) :: u64)"
    using a(4) by (simp_all add: indexed_def)
qed

lemma at_rep_tick [simp]: "at_rep H s N w xs \<Longrightarrow> at_rep H s N (tick k a w) xs"
  by (simp add: at_rep_def)

lemma at_slots:
  "atab_numItems H s = word_slot H s 0"
  "slot_at H (atab_byAddress H s) (AddressToHash a) = by_slot H (atab_byAddress H s) a"
  by (simp_all add: atab_numItems_def word_slot_def by_slot_def)

text \<open>The position of an address, and of an address not yet registered.\<close>

definition position :: "address \<Rightarrow> address list \<Rightarrow> nat" where
  "position a xs = length (takeWhile (\<lambda>x. x \<noteq> a) xs)"

lemma position_nth: "a \<in> set xs \<Longrightarrow> position a xs < length xs \<and> xs ! position a xs = a"
  by (induction xs) (auto simp: position_def)

lemma position_eq: "distinct xs \<Longrightarrow> i < length xs \<Longrightarrow> position (xs ! i) xs = i"
  using position_nth [of "xs ! i" xs] by (auto simp: nth_eq_iff_index_eq)

lemma position_new: "a \<notin> set xs \<Longrightarrow> position a xs = length xs"
  by (induction xs) (auto simp: position_def)

lemma Lookup_run:
  assumes rep: "at_rep H s N w xs"
  shows "AddressTable_Lookup H s a w =
    (Ok (if a \<in> set xs then (of_nat (position a xs), True) else (0, False)),
     tick StorageAccessRead StorageReadCost w)"
proof (cases "a \<in> set xs")
  case True
  then have p: "position a xs < length xs" "xs ! position a xs = a" using position_nth by blast+
  have "Suc (position a xs) < 2 ^ 64" using p(1) at_repD(4) [OF rep] by simp
  then have "(of_nat (Suc (position a xs)) :: u64) \<noteq> 0" by (simp only: of_nat_u64_eq_0)
  moreover have "(of_nat (Suc (position a xs)) :: u64) - 1 = of_nat (position a xs)" by simp
  ultimately show ?thesis using True at_repD(1) [OF rep] at_repD(10) [OF rep p(1)] p(2)
    by (simp add: AddressTable_Lookup_def Storage_GetUint64_def Storage_Get_slot at_slots bnd_def op_simps
        sys_simps del: of_nat_Suc)
next
  case False
  then have "slot_read w (by_slot H (atab_byAddress H s) a) = 0" using at_repD(8) [OF rep] by blast
  then show ?thesis using False at_repD(1) [OF rep]
    by (simp add: AddressTable_Lookup_def Storage_GetUint64_def Storage_Get_slot at_slots bnd_def op_simps sys_simps)
qed

lemma Register_run:
  assumes rep: "at_rep H s N w xs" and n: "a \<in> set xs \<or> length xs < N"
  shows "\<exists>w'. AddressTable_Register H s a w = (Ok (of_nat (position a xs)), w')
    \<and> at_rep H s N w' (if a \<in> set xs then xs else xs @ [a])"
proof (cases "a \<in> set xs")
  case True
  then have p: "position a xs < length xs" "xs ! position a xs = a" using position_nth by blast+
  have bya: "slot_read w (by_slot H (atab_byAddress H s) a) = ucast (of_nat (Suc (position a xs)) :: u64)"
    using at_repD(10) [OF rep p(1)] p(2) by (simp only:)
  then have "(ucast (of_nat (Suc (position a xs)) :: u64) :: hash) \<noteq> 0"
    using at_repD(8) [OF rep, of a] True by (simp only: simp_thms)
  moreover have "(of_nat (Suc (position a xs)) :: u64) - 1 = of_nat (position a xs)" by simp
  ultimately have "AddressTable_Register H s a w = (Ok (of_nat (position a xs)), tick StorageAccessRead StorageReadCost w)"
    using True at_repD(1) [OF rep] bya
    by (simp add: AddressTable_Register_def Storage_Get_slot at_slots bnd_def op_simps sys_simps del: of_nat_Suc)
  then show ?thesis using True rep by simp
next
  case False
  note R = at_repD [OF rep]
  note L = layout_slots [OF R(2)]
  let ?n = "length xs" and ?by = "by_slot H (atab_byAddress H s) a"
  let ?c = "ucast (of_nat (Suc ?n) :: u64) :: hash" and ?w1 = "tick StorageAccessRead StorageReadCost w"
  have n: "Suc ?n \<le> N" using n False by simp
  have z: "slot_read w ?by = 0" using False R(8) by blast
  have "sysw ?w1" "slot_read ?w1 (word_slot H s 0) = ucast (of_nat ?n :: u64)" using R(1,7) by simp_all
  from increment_run [OF this R(4)] obtain k c k' c' where
    inc: "StorageBackedUint64_Increment (word_slot H s 0) ?w1 =
      (Ok (of_nat (Suc ?n)), slot_write (word_slot H s 0) ?c (tick k' c' (tick k c ?w1)))" by blast
  let ?w2 = "slot_write (word_slot H s 0) ?c (tick k' c' (tick k c ?w1))"
  let ?w3 = "slot_write (word_slot H s (Suc ?n)) (AddressToHash a)
    (tick StorageAccessWrite (WriteCost (AddressToHash a)) ?w2)"
  let ?w' = "slot_write ?by ?c (tick StorageAccessWrite (WriteCost ?c) ?w3)"
  have "(of_nat (Suc ?n) :: u64) - 1 = of_nat ?n" by simp
  then have "AddressTable_Register H s a w = (Ok (of_nat ?n), ?w')"
    using z inc R(1)
    by (simp add: AddressTable_Register_def Storage_Get_slot Storage_Set_slot at_slots word_ops bnd_def op_simps
        sys_simps UintToHash_ucast del: of_nat_Suc)
  moreover have "indexed H s (atab_byAddress H s) ?w' (xs @ [a])"
    using n L(2) [of 0 a] L(2) [of "Suc ?n" a] L(4) [of 0 "Suc ?n"]
    by (intro indexed_snoc [OF R(5,2) n False]) (auto simp: slot_read_write)
  ultimately show ?thesis using R n False by (auto simp: at_rep_def position_new)
qed

lemma LookupIndex_run:
  assumes rep: "at_rep H s N w xs"
  shows "\<exists>w'. AddressTable_LookupIndex H s i w =
      (Ok (if unat i < length xs then (xs ! unat i, True) else (0, False)), w') \<and> at_rep H s N w' xs"
proof -
  note R = at_repD [OF rep]
  have "length xs < 2 ^ 64" using R(4) by simp
  then have ge: "i \<ge> of_nat (length xs) \<longleftrightarrow> \<not> unat i < length xs"
    by (simp only: word_le_nat_alt unat_of_nat_u64 not_less)
  have "i + 1 = of_nat (Suc (unat i))" by simp
  then have "Storage_GetByUint64 H s (i + 1) = StorageSlot_Get (word_slot H s (Suc (unat i)))"
    by (simp only: word_ops)
  then show ?thesis using R(1,7) R(9) [of "unat i"] rep ge
    by (simp add: AddressTable_LookupIndex_def at_slots bnd_def op_simps sys_simps)
qed

text \<open>What the table relies on of RLP: a byte string of 20 bytes and an integer, followed by
  any rest, decode to themselves with the length of their encoding, and an encoded integer
  read as a byte string is not 20 bytes long.\<close>

definition rlp_laws :: "rlp_codec \<Rightarrow> bool" where
  "rlp_laws rlp \<longleftrightarrow>
     (\<forall>b rest. length b = 20 \<longrightarrow>
        Stream_Bytes rlp (EncodeToBytes rlp b @ rest) = Inr (b, of_nat (length (EncodeToBytes rlp b))))
   \<and> (\<forall>n rest. Stream_Uint64 rlp (AppendUint64 rlp n @ rest) = Inr (n, of_nat (length (AppendUint64 rlp n))))
   \<and> (\<forall>n rest. \<exists>b k. Stream_Bytes rlp (AppendUint64 rlp n @ rest) = Inr (b, k) \<and> length b \<noteq> 20)"

lemma Compress_run:
  assumes rep: "at_rep H s N w xs"
  shows "AddressTable_Compress H rlp s a w =
    (Ok (if a \<in> set xs then AppendUint64 rlp (of_nat (position a xs))
         else EncodeToBytes rlp (be_bytes 20 (unat a))), tick StorageAccessRead StorageReadCost w)"
  by (simp add: AddressTable_Compress_def bnd_def Lookup_run [OF rep] ret_run)

lemma BytesToAddress_be_bytes: "BytesToAddress (be_bytes 20 (unat a)) = a"
proof -
  have "unat a < 256 ^ 20" using unat_lt_pow [of a] by simp
  then show ?thesis by (simp only: BytesToAddress_def be_val_be_bytes mod_less) simp
qed

lemma Decompress_run:
  assumes laws: "rlp_laws rlp" and rep: "at_rep H s N w xs"
    and buf: "buf = (if a \<in> set xs then AppendUint64 rlp (of_nat (position a xs))
                     else EncodeToBytes rlp (be_bytes 20 (unat a)))"
  shows "\<exists>w'. AddressTable_Decompress H rlp s (buf @ rest) w = (Ok (a, of_nat (length buf)), w')
    \<and> at_rep H s N w' xs"
proof (cases "a \<in> set xs")
  case True
  then have p: "position a xs < length xs" "xs ! position a xs = a" using position_nth by blast+
  have "position a xs < 2 ^ 64" using p(1) at_repD(4) [OF rep] by simp
  then have u: "unat (of_nat (position a xs) :: u64) = position a xs" by (rule unat_of_nat_u64)
  obtain b k where "Stream_Bytes rlp (buf @ rest) = Inr (b, k)" "length b \<noteq> 20"
    using laws True buf unfolding rlp_laws_def by metis
  moreover have "Stream_Uint64 rlp (buf @ rest) = Inr (of_nat (position a xs), of_nat (length buf))"
    using laws True buf unfolding rlp_laws_def by simp
  ultimately show ?thesis
    using LookupIndex_run [OF rep, of "of_nat (position a xs)"] p u
    by (auto simp: AddressTable_Decompress_def bnd_def ret_run)
next
  case False
  then have "Stream_Bytes rlp (buf @ rest) = Inr (be_bytes 20 (unat a), of_nat (length buf))"
    using laws buf unfolding rlp_laws_def by simp
  then show ?thesis using rep by (simp add: AddressTable_Decompress_def ret_run BytesToAddress_be_bytes)
qed

section \<open>Properties\<close>

lemma demo_at_rep: "at_rep demo_hash demo_storage 100 demo_world []"
  using demo_layout [of 100] by (simp add: at_rep_def indexed_def atab_byAddress_def)

text \<open>C27: Registering an address gives it a number under which both lookups find it again, and
  never changes the number of an address registered before.\<close>

theorem register_then_lookup:
  assumes "at_rep H s N w xs" and "a \<in> set xs \<or> length xs < N"
  shows "\<exists>i w1. AddressTable_Register H s a w = (Ok i, w1)
    \<and> (\<exists>w2. AddressTable_Lookup H s a w1 = (Ok (i, True), w2))
    \<and> (\<exists>w2. AddressTable_LookupIndex H s i w1 = (Ok (a, True), w2))
    \<and> (\<forall>b. b \<in> set xs \<longrightarrow> fst (AddressTable_Lookup H s b w1) = fst (AddressTable_Lookup H s b w))"
proof -
  let ?ys = "if a \<in> set xs then xs else xs @ [a]"
  obtain w1 where w1: "AddressTable_Register H s a w = (Ok (of_nat (position a xs)), w1)" "at_rep H s N w1 ?ys"
    using Register_run [OF assms] by blast
  have a: "a \<in> set ?ys" by simp
  have pos: "position b ?ys = position b xs" if "b \<in> set xs \<or> b = a" for b
    using that by (auto simp: position_def takeWhile_tail)
  have lt: "position a ?ys < length ?ys" "?ys ! position a ?ys = a" using position_nth [OF a] by blast+
  moreover have "position a ?ys < 2 ^ 64" using lt(1) at_repD(4) [OF w1(2)] by linarith
  then have "unat (of_nat (position a ?ys) :: u64) = position a ?ys" by (rule unat_of_nat_u64)
  ultimately have "\<exists>w2. AddressTable_LookupIndex H s (of_nat (position a xs)) w1 = (Ok (a, True), w2)"
    using LookupIndex_run [OF w1(2), of "of_nat (position a ?ys)"] pos [of a] by auto
  moreover have "fst (AddressTable_Lookup H s b w1) = fst (AddressTable_Lookup H s b w)" if "b \<in> set xs" for b
    using that pos [of b] unfolding Lookup_run [OF w1(2)] Lookup_run [OF assms(1)] by auto
  ultimately show ?thesis using w1(1) Lookup_run [OF w1(2), of a] a pos [of a] by auto
qed

theorem register_then_lookup_witness:
  "\<exists>i w1 w2. AddressTable_Register demo_hash demo_storage 7 demo_world = (Ok i, w1)
     \<and> AddressTable_LookupIndex demo_hash demo_storage i w1 = (Ok (7, True), w2)"
  using register_then_lookup [OF demo_at_rep, of 7] by auto

text \<open>C26: Decompressing a compressed address, followed by any further bytes, returns the
  address and the number of bytes of its encoding, whether the address is in the table or
  not.\<close>

theorem compress_round_trip:
  assumes "rlp_laws rlp" and "at_rep H s N w xs"
  shows "\<exists>buf w1. AddressTable_Compress H rlp s a w = (Ok buf, w1)
    \<and> (\<exists>w2. AddressTable_Decompress H rlp s (buf @ rest) w1 = (Ok (a, of_nat (length buf)), w2))"
  using Compress_run [OF assms(2), of rlp a]
    Decompress_run [OF assms(1) at_rep_tick [OF assms(2)] refl, of a] by metis

definition demo_rlp :: rlp_codec where
  "demo_rlp = \<lparr>AppendUint64 = \<lambda>n. 0 # be_bytes 8 (unat n), EncodeToBytes = \<lambda>b. 1 # b,
     Stream_Bytes = \<lambda>buf. if hd buf = 1 then Inr (take 20 (tl buf), 21) else Inr (take 8 (tl buf), 9),
     Stream_Uint64 = \<lambda>buf. Inr (of_nat (be_val (take 8 (tl buf))), 9)\<rparr>"

lemma demo_rlp_laws: "rlp_laws demo_rlp"
proof -
  have "be_val (be_bytes 8 (unat n)) = unat n" for n :: u64
    using unat_lt_pow [of n] by (simp add: be_val_be_bytes)
  then show ?thesis by (simp add: rlp_laws_def demo_rlp_def)
qed

theorem compress_round_trip_witness:
  "\<exists>buf w1 w2. AddressTable_Compress demo_hash demo_rlp demo_storage 7 demo_world = (Ok buf, w1)
     \<and> AddressTable_Decompress demo_hash demo_rlp demo_storage (buf @ [9]) w1 = (Ok (7, of_nat (length buf)), w2)"
  using compress_round_trip [OF demo_rlp_laws demo_at_rep, of 7 "[9]"] by blast

end
