(* ===== verification/MerkleAccumulator.thy ===== *)
theory MerkleAccumulator
  imports Util
begin

text \<open>
  The Merkle accumulator of \<^verbatim>\<open>arbos/merkleAccumulator/merkleAccumulator.go\<close>, which commits to the
  messages sent to L1. It keeps the number of leaves and, per level, the root of a complete
  subtree or zero (a binary counter of subtrees), either in a storage space or in memory.

  The two backings differ only in how the size, the partials and the hash function are reached:
  the methods that branch on \<^verbatim>\<open>backingStorage\<close> are the fields of the record \<open>MerkleAccumulator\<close>, and the
  operations are written over them. The locale \<open>merkle_store\<close> states what they promise; it is
  interpreted for storage and for memory. The main result is that the root is the hash of the
  Merkle tree over all leaves, padded with empty subtrees.
\<close>

section \<open>The accumulator\<close>

record 's MerkleAccumulator =
  acc_size_Get :: "('s, u64) op"
  acc_size_Increment :: "('s, u64) op"
  acc_getPartial :: "u64 \<Rightarrow> ('s, hash) op"
  acc_setPartial :: "u64 \<Rightarrow> hash \<Rightarrow> ('s, unit) op"
  acc_Keccak :: "bytes list \<Rightarrow> ('s, bytes) op"
  acc_recordPreimages :: "hash \<Rightarrow> bytes \<Rightarrow> ('s, unit) op"

record MerkleTreeNodeEvent =
  ev_Level :: u64
  ev_NumLeaves :: u64
  ev_Hash :: hash

text \<open>Backed by storage: the size at offset 0, the partial of a level at offset 2 + level.\<close>

definition sto_getPartial :: "(bytes \<Rightarrow> bytes) \<Rightarrow> Storage \<Rightarrow> u64 \<Rightarrow> (world, hash) op" where
  "sto_getPartial H sto level = Storage_GetByUint64 H sto (2 + level)"

definition sto_setPartial :: "(bytes \<Rightarrow> bytes) \<Rightarrow> Storage \<Rightarrow> u64 \<Rightarrow> hash \<Rightarrow> (world, unit) op" where
  "sto_setPartial H sto level val = Storage_SetByUint64 H sto (2 + level) val"

definition OpenMerkleAccumulator :: "(bytes \<Rightarrow> bytes) \<Rightarrow> Storage \<Rightarrow> world MerkleAccumulator" where
  "OpenMerkleAccumulator H sto =
     \<lparr>acc_size_Get = StorageBackedUint64_Get (NewSlot H sto 0),
      acc_size_Increment = StorageBackedUint64_Increment (NewSlot H sto 0),
      acc_getPartial = sto_getPartial H sto,
      acc_setPartial = sto_setPartial H sto,
      acc_Keccak = Storage_Keccak H,
      acc_recordPreimages = (\<lambda>_ _. ret ())\<rparr>"

text \<open>In memory. A missing partial is a nil pointer, replaced by a zero hash when it is read; the
  preimages are recorded once \<^verbatim>\<open>RecordPreimagesTo\<close> has given a map.\<close>

record MemoryAccumulator =
  ma_size :: MemoryBackedUint64
  ma_partials :: "hash option list"
  ma_preimages :: "(hash \<rightharpoonup> bytes) option"

definition on_size :: "(MemoryBackedUint64, 'a) op \<Rightarrow> (MemoryAccumulator, 'a) op" where
  "on_size m = (\<lambda>s. case m (ma_size s) of (r, x) \<Rightarrow> (r, s\<lparr>ma_size := x\<rparr>))"

definition mem_getPartial :: "u64 \<Rightarrow> (MemoryAccumulator, hash) op" where
  "mem_getPartial level = (\<lambda>s.
     if unat level < length (ma_partials s)
     then (case ma_partials s ! unat level of
         None \<Rightarrow> (Ok 0, s\<lparr>ma_partials := (ma_partials s)[unat level := Some 0]\<rparr>)
       | Some h \<Rightarrow> (Ok h, s))
     else (Panic ''index out of range'', s))"

definition mem_setPartial :: "u64 \<Rightarrow> hash \<Rightarrow> (MemoryAccumulator, unit) op" where
  "mem_setPartial level val = (\<lambda>s.
     if unat level = length (ma_partials s) then (Ok (), s\<lparr>ma_partials := ma_partials s @ [Some val]\<rparr>)
     else if unat level < length (ma_partials s)
     then (Ok (), s\<lparr>ma_partials := (ma_partials s)[unat level := Some val]\<rparr>)
     else (Panic ''index out of range'', s))"

definition mem_recordPreimages :: "hash \<Rightarrow> bytes \<Rightarrow> (MemoryAccumulator, unit) op" where
  "mem_recordPreimages key val = (\<lambda>s. (Ok (), s\<lparr>ma_preimages := map_option (\<lambda>m. m(key \<mapsto> val)) (ma_preimages s)\<rparr>))"

definition NonpersistentMerkleAccumulator :: "(bytes \<Rightarrow> bytes) \<Rightarrow> MemoryAccumulator MerkleAccumulator" where
  "NonpersistentMerkleAccumulator H =
     \<lparr>acc_size_Get = on_size MemoryBackedUint64_Get,
      acc_size_Increment = on_size MemoryBackedUint64_Increment,
      acc_getPartial = mem_getPartial,
      acc_setPartial = mem_setPartial,
      acc_Keccak = (\<lambda>data. ret (H (concat data))),
      acc_recordPreimages = mem_recordPreimages\<rparr>"

definition NewNonpersistentMerkleAccumulator :: MemoryAccumulator where
  "NewNonpersistentMerkleAccumulator =
     \<lparr>ma_size = \<lparr>mbu_contents = 0\<rparr>, ma_partials = [], ma_preimages = None\<rparr>"

definition RecordPreimagesTo :: "(hash \<rightharpoonup> bytes) \<Rightarrow> MemoryAccumulator \<Rightarrow> MemoryAccumulator" where
  "RecordPreimagesTo preimagesMap acc = acc\<lparr>ma_preimages := Some preimagesMap\<rparr>"

definition CalcNumPartials :: "u64 \<Rightarrow> u64" where
  "CalcNumPartials n = Log2ceil n"

primrec partials_size :: "hash option list \<Rightarrow> u64 \<Rightarrow> u64 \<Rightarrow> (unit, u64) op" where
  "partials_size [] n levelSize = ret n"
| "partials_size (p # ps) n levelSize = (case p of
      None \<Rightarrow> panic ''invalid memory address or nil pointer dereference''
    | Some h \<Rightarrow> partials_size ps (if h \<noteq> 0 then n + levelSize else n) (levelSize * 2))"

definition NewNonpersistentMerkleAccumulatorFromPartials :: "hash option list \<Rightarrow> (unit, MemoryAccumulator) op" where
  "NewNonpersistentMerkleAccumulatorFromPartials partials =
     bnd (partials_size partials 0 1) (\<lambda>n.
     ret \<lparr>ma_size = \<lparr>mbu_contents = n\<rparr>, ma_partials = partials, ma_preimages = None\<rparr>)"

definition MerkleAccumulator_GetPartials :: "'s MerkleAccumulator \<Rightarrow> ('s, hash list) op" where
  "MerkleAccumulator_GetPartials acc =
     bnd (acc_size_Get acc) (\<lambda>n.
     collect [0..<unat (CalcNumPartials n)] (\<lambda>i. acc_getPartial acc (of_nat i)))"

definition MerkleAccumulator_NonPersistentClone :: "'s MerkleAccumulator \<Rightarrow> ('s, MemoryAccumulator) op" where
  "MerkleAccumulator_NonPersistentClone acc =
     bnd (acc_size_Get acc) (\<lambda>n.
     bnd (collect [0..<unat (CalcNumPartials n)] (\<lambda>i. acc_getPartial acc (of_nat i))) (\<lambda>partials.
     ret \<lparr>ma_size = \<lparr>mbu_contents = n\<rparr>, ma_partials = map Some partials, ma_preimages = None\<rparr>))"

definition MerkleAccumulator_KeccakHash :: "'s MerkleAccumulator \<Rightarrow> bytes list \<Rightarrow> ('s, hash) op" where
  "MerkleAccumulator_KeccakHash acc data = bnd (acc_Keccak acc data) (\<lambda>b. ret (BytesToHash b))"

section \<open>Append\<close>

text \<open>The first argument counts the levels up to \<^verbatim>\<open>CalcNumPartials(size-1)\<close>.\<close>

primrec Append_loop ::
  "nat \<Rightarrow> 's MerkleAccumulator \<Rightarrow> u64 \<Rightarrow> u64 \<Rightarrow> bytes \<Rightarrow> MerkleTreeNodeEvent list \<Rightarrow> ('s, MerkleTreeNodeEvent list) op" where
  "Append_loop 0 acc n level soFar events =
     bnd (acc_setPartial acc level (BytesToHash soFar)) (\<lambda>_. ret events)"
| "Append_loop (Suc r) acc n level soFar events =
     bnd (acc_getPartial acc level) (\<lambda>thisLevel.
     if thisLevel = 0
     then bnd (acc_setPartial acc level (BytesToHash soFar)) (\<lambda>_. ret events)
     else
     bnd (acc_Keccak acc [hash_Bytes thisLevel, soFar]) (\<lambda>soFar'.
     bnd (acc_recordPreimages acc (BytesToHash soFar') (hash_Bytes thisLevel @ soFar)) (\<lambda>_.
     bnd (acc_setPartial acc level 0) (\<lambda>_.
     Append_loop r acc n (level + 1) soFar'
       (events @ [\<lparr>ev_Level = level + 1, ev_NumLeaves = n - 1, ev_Hash = BytesToHash soFar'\<rparr>])))))"

definition MerkleAccumulator_Append ::
  "(bytes \<Rightarrow> bytes) \<Rightarrow> 's MerkleAccumulator \<Rightarrow> hash \<Rightarrow> bytes option \<Rightarrow> ('s, MerkleTreeNodeEvent list) op" where
  "MerkleAccumulator_Append H acc itemHash itemBytesToRecord =
     bnd (acc_size_Increment acc) (\<lambda>n.
     bnd (Append_loop (unat (CalcNumPartials (n - 1))) acc n 0 (H (hash_Bytes itemHash)) []) (\<lambda>events.
     bnd (case itemBytesToRecord of
            None \<Rightarrow> ret ()
          | Some b \<Rightarrow>
              bnd (acc_recordPreimages acc (BytesToHash (H (hash_Bytes itemHash))) (hash_Bytes itemHash)) (\<lambda>_.
              acc_recordPreimages acc itemHash b)) (\<lambda>_.
     ret events)))"

section \<open>Root\<close>

text \<open>Hashing an incomplete subtree up to a capacity. The capacity doubles in every round and starts
  at a power of two, so 64 rounds reach any 64-bit capacity.\<close>

primrec Root_pad :: "nat \<Rightarrow> 's MerkleAccumulator \<Rightarrow> u64 \<Rightarrow> hash \<Rightarrow> u64 \<Rightarrow> ('s, hash) op" where
  "Root_pad 0 acc capacity hashSoFar capacityInHash = panic ''out of rounds''"
| "Root_pad (Suc fuel) acc capacity hashSoFar capacityInHash =
     (if capacityInHash < capacity
      then bnd (MerkleAccumulator_KeccakHash acc [hash_Bytes hashSoFar, replicate 32 0]) (\<lambda>h.
           bnd (acc_recordPreimages acc h (hash_Bytes hashSoFar @ replicate 32 0)) (\<lambda>_.
           Root_pad fuel acc capacity h (capacityInHash * 2)))
      else ret hashSoFar)"

definition Root_step ::
  "'s MerkleAccumulator \<Rightarrow> nat \<Rightarrow> (hash \<times> u64) option \<Rightarrow> ('s, (hash \<times> u64) option) op" where
  "Root_step acc level sofar =
     (let capacity = 2 ^ level in
      bnd (acc_getPartial acc (of_nat level)) (\<lambda>partial.
      if partial \<noteq> 0
      then (case sofar of
          None \<Rightarrow> ret (Some (partial, capacity))
        | Some (hashSoFar, capacityInHash) \<Rightarrow>
            bnd (Root_pad 65 acc capacity hashSoFar capacityInHash) (\<lambda>hashSoFar.
            bnd (MerkleAccumulator_KeccakHash acc [hash_Bytes partial, hash_Bytes hashSoFar]) (\<lambda>h.
            bnd (acc_recordPreimages acc h (hash_Bytes partial @ hash_Bytes hashSoFar)) (\<lambda>_.
            ret (Some (h, 2 * capacity))))))
      else ret sofar))"

definition MerkleAccumulator_Root :: "'s MerkleAccumulator \<Rightarrow> ('s, hash) op" where
  "MerkleAccumulator_Root acc =
     bnd (acc_size_Get acc) (\<lambda>n.
     if n = 0 then ret 0
     else bnd (fold_op (Root_step acc) [0..<unat (CalcNumPartials n)] None) (\<lambda>sofar.
       case sofar of None \<Rightarrow> panic ''invalid memory address or nil pointer dereference''
       | Some (h, _) \<Rightarrow> ret h))"

definition MerkleAccumulator_StateForExport :: "'s MerkleAccumulator \<Rightarrow> ('s, u64 \<times> hash \<times> hash list) op" where
  "MerkleAccumulator_StateForExport acc =
     bnd (MerkleAccumulator_Root acc) (\<lambda>root.
     bnd (acc_size_Get acc) (\<lambda>n.
     bnd (collect [0..<unat (CalcNumPartials n)] (\<lambda>i. acc_getPartial acc (of_nat i))) (\<lambda>partials.
     ret (n, root, partials))))"

definition MerkleAccumulator_Size :: "'s MerkleAccumulator \<Rightarrow> ('s, u64) op" where
  "MerkleAccumulator_Size acc = acc_size_Get acc"

section \<open>The Merkle tree over a list of leaves\<close>

text \<open>Leaves are hashed once more before they enter the tree; an empty subtree has hash zero.\<close>

definition leafh :: "(bytes \<Rightarrow> bytes) \<Rightarrow> hash \<Rightarrow> hash" where
  "leafh H x = BytesToHash (H (hash_Bytes x))"

definition nodeh :: "(bytes \<Rightarrow> bytes) \<Rightarrow> hash \<Rightarrow> hash \<Rightarrow> hash" where
  "nodeh H a b = BytesToHash (H (hash_Bytes a @ hash_Bytes b))"

primrec mt :: "(bytes \<Rightarrow> bytes) \<Rightarrow> nat \<Rightarrow> hash list \<Rightarrow> hash" where
  "mt H 0 xs = (case xs of [] \<Rightarrow> 0 | x # _ \<Rightarrow> leafh H x)"
| "mt H (Suc d) xs = (if xs = [] then 0 else nodeh H (mt H d (take (2 ^ d) xs)) (mt H d (drop (2 ^ d) xs)))"

text \<open>The root of the smallest complete tree with room for the leaves.\<close>

definition mroot :: "(bytes \<Rightarrow> bytes) \<Rightarrow> hash list \<Rightarrow> hash" where
  "mroot H xs = mt H (bit_len (length xs - 1)) xs"

text \<open>No complete subtree hashes to zero, which the accumulator takes for an absent partial.\<close>

definition nonzero_hashes :: "(bytes \<Rightarrow> bytes) \<Rightarrow> hash list \<Rightarrow> bool" where
  "nonzero_hashes H xs \<longleftrightarrow> (\<forall>l ys zs ws. xs = ys @ zs @ ws \<and> length zs = 2 ^ l \<longrightarrow> mt H l zs \<noteq> 0)"

section \<open>A binary counter of subtrees\<close>

lemma mt_Nil [simp]: "mt H d [] = 0"
  by (cases d) simp_all

lemma mt_single [simp]: "mt H 0 [x] = leafh H x"
  by simp

lemma mt_join: "length xs = 2 ^ l \<Longrightarrow> mt H (Suc l) (xs @ ys) = nodeh H (mt H l xs) (mt H l ys)"
  by auto

lemma mt_pad: "xs \<noteq> [] \<Longrightarrow> length xs \<le> 2 ^ l \<Longrightarrow> mt H (Suc l) xs = nodeh H (mt H l xs) 0"
  by simp

lemma mt_chunk_nonzero:
  "nonzero_hashes H (ys @ zs @ ws) \<Longrightarrow> length zs = 2 ^ l \<Longrightarrow> mt H l zs \<noteq> 0"
  unfolding nonzero_hashes_def by blast

text \<open>A binary counter of complete subtrees, lowest level first.\<close>

primrec holds :: "(bytes \<Rightarrow> bytes) \<Rightarrow> nat \<Rightarrow> hash list \<Rightarrow> hash list \<Rightarrow> bool" where
  "holds H l [] xs = (xs = [])"
| "holds H l (p # ps) xs = (if p = 0 then holds H (Suc l) ps xs else
     (\<exists>ys zs. xs = ys @ zs \<and> length zs = 2 ^ l \<and> p = mt H l zs \<and> holds H (Suc l) ps ys))"

text \<open>Adding a complete subtree with a carry, and the hashes of the subtrees it completes.\<close>

primrec carry :: "(bytes \<Rightarrow> bytes) \<Rightarrow> hash \<Rightarrow> hash list \<Rightarrow> hash list" where
  "carry H h [] = [h]"
| "carry H h (p # ps) = (if p = 0 then h # ps else 0 # carry H (nodeh H p h) ps)"

definition tidy :: "hash list \<Rightarrow> bool" where
  "tidy ps \<longleftrightarrow> (ps \<noteq> [] \<longrightarrow> last ps \<noteq> 0)"

lemma tidy_Cons: "tidy (p # ps) \<longleftrightarrow> (if ps = [] then p \<noteq> 0 else tidy ps)"
  by (simp add: tidy_def)

lemma carry_holds:
  assumes "holds H l ps xs" and "length zs = 2 ^ l" and "nonzero_hashes H (xs @ zs)"
  shows "holds H l (carry H (mt H l zs) ps) (xs @ zs)"
  using assms
proof (induction ps arbitrary: l xs zs)
  case Nil
  then show ?case using mt_chunk_nonzero [of H "[]" zs "[]" l] by auto
next
  case (Cons p ps)
  show ?case
  proof (cases "p = 0")
    case True
    then show ?thesis using Cons.prems mt_chunk_nonzero [of H xs zs "[]" l] by auto
  next
    case False
    with Cons.prems(1) obtain ys ws where x: "xs = ys @ ws" "length ws = 2 ^ l" "p = mt H l ws" "holds H (Suc l) ps ys"
      by auto
    have "holds H (Suc l) (carry H (mt H (Suc l) (ws @ zs)) ps) (ys @ ws @ zs)"
      by (rule Cons.IH [OF x(4)]) (use Cons.prems(2,3) x(1,2) in simp_all)
    then show ?thesis using False x by (simp only: mt_join [OF x(2)]) simp
  qed
qed

lemma carry_tidy: "tidy ps \<Longrightarrow> holds H l ps xs \<Longrightarrow> length zs = 2 ^ l \<Longrightarrow> nonzero_hashes H (xs @ zs)
  \<Longrightarrow> tidy (carry H (mt H l zs) ps)"
proof (induction ps arbitrary: l xs zs)
  case Nil
  then show ?case using mt_chunk_nonzero [of H "[]" zs "[]" l] by (simp add: tidy_def)
next
  case (Cons p ps)
  show ?case
  proof (cases "p = 0")
    case True
    then show ?thesis using Cons.prems by (auto simp: tidy_Cons split: if_splits)
  next
    case False
    with Cons.prems(2) obtain ys ws where x: "xs = ys @ ws" "length ws = 2 ^ l" "p = mt H l ws" "holds H (Suc l) ps ys"
      by auto
    have "tidy (carry H (mt H (Suc l) (ws @ zs)) ps)"
    proof (rule Cons.IH [OF _ x(4)])
      show "tidy ps" using Cons.prems(1) by (auto simp: tidy_def)
    qed (use Cons.prems(3,4) x(1,2) in simp_all)
    moreover have "carry H h ps \<noteq> []" for h by (cases ps) simp_all
    ultimately show ?thesis using False x by (simp only: mt_join [OF x(2)]) (simp add: tidy_Cons)
  qed
qed

lemma bit_len_double: "bit_len (2 * m + b) = Suc (bit_len m)" if "b \<le> 1" "0 < 2 * m + b"
  using that bit_len_pos [of "2 * m + b"] by simp

lemma holds_length:
  "holds H l ps xs \<Longrightarrow> tidy ps \<Longrightarrow> \<exists>m. length xs = 2 ^ l * m \<and> bit_len m = length ps"
proof (induction ps arbitrary: l xs)
  case Nil
  then show ?case by simp
next
  case (Cons p ps)
  have "tidy ps" using Cons.prems(2) by (auto simp: tidy_def)
  show ?case
  proof (cases "p = 0")
    case True
    then obtain m where m: "length xs = 2 ^ Suc l * m" "bit_len m = length ps"
      using Cons.IH [of "Suc l" xs] Cons.prems(1) \<open>tidy ps\<close> by auto
    have "ps \<noteq> []" using True Cons.prems(2) by (auto simp: tidy_def)
    then have "0 < m" using m(2) by (cases m) auto
    then show ?thesis using m bit_len_double [of 0 m] by (intro exI [of _ "2 * m"]) simp
  next
    case False
    then obtain ys zs where x: "xs = ys @ zs" "length zs = 2 ^ l" "holds H (Suc l) ps ys"
      using Cons.prems(1) by auto
    then obtain m where m: "length ys = 2 ^ Suc l * m" "bit_len m = length ps"
      using Cons.IH [OF x(3)] \<open>tidy ps\<close> by auto
    then show ?thesis using x bit_len_double [of 1 m] by (intro exI [of _ "2 * m + 1"]) (simp add: algebra_simps)
  qed
qed

lemma holds_bit_len: "holds H 0 ps xs \<Longrightarrow> tidy ps \<Longrightarrow> length ps = bit_len (length xs)"
  using holds_length [of H 0 ps xs] by auto

text \<open>The root from the counter: what has been read below a level is the padded tree of a suffix of
  the leaves.\<close>

definition sofar_ok :: "(bytes \<Rightarrow> bytes) \<Rightarrow> nat \<Rightarrow> hash list \<Rightarrow> (hash \<times> u64) option \<Rightarrow> bool" where
  "sofar_ok H l zs sofar = (case sofar of
      None \<Rightarrow> zs = []
    | Some (h, cap) \<Rightarrow> \<exists>c\<le>l. h = mt H c zs \<and> cap = 2 ^ c \<and> zs \<noteq> [] \<and> length zs \<le> 2 ^ c
        \<and> 2 ^ c < 2 * length zs)"

lemma depth_unique: "0 < n \<Longrightarrow> n \<le> 2 ^ c \<Longrightarrow> 2 ^ c < 2 * n \<Longrightarrow> bit_len (n - 1) = c"
proof -
  assume a: "0 < n" "n \<le> 2 ^ c" "2 ^ c < 2 * n"
  have le: "bit_len (n - 1) \<le> c" using a by (intro bit_len_le) simp
  show ?thesis
  proof (rule antisym [OF le], rule ccontr)
    assume "\<not> c \<le> bit_len (n - 1)"
    then have "Suc (bit_len (n - 1)) \<le> c" by simp
    then have "2 ^ Suc (bit_len (n - 1)) \<le> (2::nat) ^ c" by (rule power_increasing) simp
    moreover have "n \<le> 2 ^ bit_len (n - 1)" using bit_len_upper [of "n - 1"] a(1) by linarith
    ultimately show False using a(3) by simp
  qed
qed

section \<open>Backings of an accumulator\<close>

lemma unat_pow2: "c < 64 \<Longrightarrow> unat ((2::u64) ^ c) = 2 ^ c"
proof -
  assume "c < 64"
  then have "(2::nat) ^ c < 2 ^ 64" by (rule power_strict_increasing) simp
  then have "unat (of_nat (2 ^ c) :: u64) = 2 ^ c" by (rule unat_of_nat_u64)
  then show ?thesis by simp
qed

lemma be_bytes_0: "be_bytes n 0 = replicate n 0"
  by (induction n) (simp_all add: replicate_append_same)

lemma hash_Bytes_0: "hash_Bytes 0 = replicate 32 0"
  by (simp only: hash_Bytes_def unat_0 be_bytes_0)

lemma pow2_less: "c < 64 \<Longrightarrow> d < 64 \<Longrightarrow> (2::u64) ^ c < 2 ^ d \<longleftrightarrow> c < d"
  by (simp add: word_less_nat_alt unat_pow2)

text \<open>What an accumulator's backing promises: the methods succeed, reads change nothing that can be
  seen, an increment changes only the size and a store only its level.\<close>

locale merkle_store =
  fixes H :: "bytes \<Rightarrow> bytes"
    and acc :: "'s MerkleAccumulator"
    and good :: "'s \<Rightarrow> bool"
    and size_of :: "'s \<Rightarrow> u64"
    and room :: "'s \<Rightarrow> nat"
    and partial_at :: "'s \<Rightarrow> nat \<Rightarrow> hash"
  assumes size_Get: "good s \<Longrightarrow> \<exists>s'. acc_size_Get acc s = (Ok (size_of s), s') \<and> good s'
      \<and> size_of s' = size_of s \<and> room s' = room s \<and> partial_at s' = partial_at s"
    and size_Increment: "good s \<Longrightarrow> size_of s \<noteq> - 1 \<Longrightarrow> \<exists>s'. acc_size_Increment acc s = (Ok (size_of s + 1), s')
      \<and> good s' \<and> size_of s' = size_of s + 1 \<and> room s' = room s \<and> partial_at s' = partial_at s"
    and getPartial: "good s \<Longrightarrow> l < room s \<Longrightarrow> l < 64 \<Longrightarrow> \<exists>s'. acc_getPartial acc (of_nat l) s = (Ok (partial_at s l), s')
      \<and> good s' \<and> size_of s' = size_of s \<and> room s' = room s \<and> partial_at s' = partial_at s"
    and setPartial: "good s \<Longrightarrow> l \<le> room s \<Longrightarrow> l < 64 \<Longrightarrow> \<exists>s'. acc_setPartial acc (of_nat l) h s = (Ok (), s')
      \<and> good s' \<and> size_of s' = size_of s \<and> room s' = max (room s) (Suc l) \<and> partial_at s' = (partial_at s)(l := h)"
    and Keccak: "good s \<Longrightarrow> \<exists>s'. acc_Keccak acc data s = (Ok (H (concat data)), s')
      \<and> good s' \<and> size_of s' = size_of s \<and> room s' = room s \<and> partial_at s' = partial_at s"
    and recordPreimages: "good s \<Longrightarrow> \<exists>s'. acc_recordPreimages acc k b s = (Ok (), s')
      \<and> good s' \<and> size_of s' = size_of s \<and> room s' = room s \<and> partial_at s' = partial_at s"
begin

definition view :: "'s \<Rightarrow> u64 \<times> nat \<times> (nat \<Rightarrow> hash)" where
  "view s = (size_of s, room s, partial_at s)"

definition stores :: "hash list \<Rightarrow> 's \<Rightarrow> bool" where
  "stores xs s \<longleftrightarrow> good s \<and> size_of s = of_nat (length xs) \<and> bit_len (length xs) \<le> room s
     \<and> holds H 0 (map (partial_at s) [0..<bit_len (length xs)]) xs
     \<and> tidy (map (partial_at s) [0..<bit_len (length xs)])"

lemma KeccakHash: "good s \<Longrightarrow> \<exists>s'. MerkleAccumulator_KeccakHash acc data s = (Ok (BytesToHash (H (concat data))), s')
    \<and> good s' \<and> view s' = view s"
  using Keccak [of s data] by (auto simp: MerkleAccumulator_KeccakHash_def op_simps view_def)

lemma Append_loop_run:
  assumes "good s" and "l + r \<le> room s" and "l + r < 64" and "length soFar = 32" and "\<And>x. length (H x) = 32"
  shows "\<exists>s' evs. Append_loop r acc n (of_nat l) soFar events s = (Ok evs, s') \<and> good s' \<and> size_of s' = size_of s
    \<and> (\<forall>i<l. partial_at s' i = partial_at s i)
    \<and> l + length (carry H (BytesToHash soFar) (map (partial_at s) [l..<l + r])) \<le> room s'
    \<and> map (partial_at s') [l..<l + length (carry H (BytesToHash soFar) (map (partial_at s) [l..<l + r]))]
      = carry H (BytesToHash soFar) (map (partial_at s) [l..<l + r])"
  using assms(1-4)
proof (induction r arbitrary: l soFar events s)
  case 0
  then obtain s' where "acc_setPartial acc (of_nat l) (BytesToHash soFar) s = (Ok (), s')" "good s'" "size_of s' = size_of s"
    "room s' = max (room s) (Suc l)" "partial_at s' = (partial_at s)(l := BytesToHash soFar)"
    using setPartial [of s l "BytesToHash soFar"] by auto
  then show ?case by (simp add: op_simps)
next
  case (Suc r)
  obtain s1 where g: "acc_getPartial acc (of_nat l) s = (Ok (partial_at s l), s1)" "good s1" "size_of s1 = size_of s"
    "room s1 = room s" "partial_at s1 = partial_at s"
    using getPartial [of s l] Suc.prems by auto
  have ups: "[l..<l + Suc r] = l # [Suc l..<Suc l + r]" by (simp add: upt_conv_Cons)
  show ?case
  proof (cases "partial_at s l = 0")
    case True
    obtain s' where p: "acc_setPartial acc (of_nat l) (BytesToHash soFar) s1 = (Ok (), s')" "good s'" "size_of s' = size_of s"
      "room s' = max (room s) (Suc l)" "partial_at s' = (partial_at s)(l := BytesToHash soFar)"
      using setPartial [of s1 l "BytesToHash soFar"] g Suc.prems by auto
    have c: "carry H (BytesToHash soFar) (map (partial_at s) [l..<l + Suc r]) = BytesToHash soFar # map (partial_at s) [Suc l..<Suc l + r]"
      unfolding ups using True by simp
    have "map (partial_at s') [l..<l + Suc r] = BytesToHash soFar # map (partial_at s) [Suc l..<Suc l + r]"
      unfolding ups using p(5) by simp
    moreover have "Append_loop (Suc r) acc n (of_nat l) soFar events s = (Ok events, s')"
      using True g p by (simp add: op_simps)
    ultimately show ?thesis unfolding c using p Suc.prems(2) by auto
  next
    case False
    let ?p = "partial_at s l"
    define so where "so = H (hash_Bytes ?p @ soFar)"
    obtain s2 where k: "acc_Keccak acc [hash_Bytes ?p, soFar] s1 = (Ok so, s2)" "good s2" "size_of s2 = size_of s"
      "room s2 = room s" "partial_at s2 = partial_at s"
      using Keccak [of s1 "[hash_Bytes ?p, soFar]"] g by (auto simp: so_def)
    obtain s3 where p: "acc_recordPreimages acc (BytesToHash so) (hash_Bytes ?p @ soFar) s2 = (Ok (), s3)" "good s3" "size_of s3 = size_of s"
      "room s3 = room s" "partial_at s3 = partial_at s"
      using recordPreimages [of s2 "BytesToHash so" "hash_Bytes ?p @ soFar"] k by auto
    obtain s4 where q: "acc_setPartial acc (of_nat l) 0 s3 = (Ok (), s4)" "good s4" "size_of s4 = size_of s"
      "room s4 = max (room s) (Suc l)" "partial_at s4 = (partial_at s)(l := 0)"
      using setPartial [of s3 l 0] p Suc.prems by auto
    have h: "BytesToHash so = nodeh H ?p (BytesToHash soFar)"
      using Suc.prems(4) by (simp add: so_def nodeh_def hash_Bytes_BytesToHash)
    have tl: "map (partial_at s4) [Suc l..<Suc l + r] = map (partial_at s) [Suc l..<Suc l + r]"
      using q by auto
    let ?ev = "events @ [\<lparr>ev_Level = of_nat (Suc l), ev_NumLeaves = n - 1, ev_Hash = BytesToHash so\<rparr>]"
    let ?c = "carry H (BytesToHash so) (map (partial_at s) [Suc l..<Suc l + r])"
    have "\<exists>s' evs. Append_loop r acc n (of_nat (Suc l)) so ?ev s4 = (Ok evs, s') \<and> good s' \<and> size_of s' = size_of s4
      \<and> (\<forall>i<Suc l. partial_at s' i = partial_at s4 i) \<and> Suc l + length ?c \<le> room s'
      \<and> map (partial_at s') [Suc l..<Suc l + length ?c] = ?c"
      unfolding tl [symmetric] using Suc.prems q assms(5) by (intro Suc.IH) (auto simp: so_def)
    then obtain s' evs where r: "Append_loop r acc n (of_nat (Suc l)) so ?ev s4 = (Ok evs, s')" "good s'" "size_of s' = size_of s4"
      "\<And>i. i < Suc l \<Longrightarrow> partial_at s' i = partial_at s4 i" "Suc l + length ?c \<le> room s'"
      "map (partial_at s') [Suc l..<Suc l + length ?c] = ?c" by auto
    have run: "Append_loop (Suc r) acc n (of_nat l) soFar events s = (Ok evs, s')"
      using g k p q r(1) False by (simp add: op_simps add.commute)
    have c: "carry H (BytesToHash soFar) (map (partial_at s) [l..<l + Suc r]) = 0 # ?c"
      unfolding ups using False h by simp
    have "[l..<l + length (0 # cs)] = l # [Suc l..<Suc l + length cs]" for cs :: "hash list" by (simp add: upt_conv_Cons del: upt_Suc)
    then have "map (partial_at s') [l..<l + length (0 # ?c)] = 0 # ?c"
      using r(4) [of l] r(6) q(5) by simp
    then show ?thesis unfolding c using run r q by auto
  qed
qed

lemma Append_stores:
  assumes st: "stores xs s" and len: "length xs < 2 ^ 63" and nz: "nonzero_hashes H (xs @ [x])"
    and H: "\<And>x. length (H x) = 32"
  shows "\<exists>evs s'. MerkleAccumulator_Append H acc x b s = (Ok evs, s') \<and> stores (xs @ [x]) s'"
proof -
  let ?n = "length xs" and ?k = "bit_len (length xs)"
  let ?c = "carry H (leafh H x) (map (partial_at s) [0..<?k])"
  have st': "good s" "size_of s = of_nat ?n" "?k \<le> room s" "holds H 0 (map (partial_at s) [0..<?k]) xs"
    "tidy (map (partial_at s) [0..<?k])" using st by (simp_all add: stores_def)
  have k: "?k < 64" using bit_len_le [OF len] by simp
  have un: "unat (of_nat ?n :: u64) = ?n" using len by simp
  have sz: "(of_nat ?n :: u64) \<noteq> - 1"
  proof
    assume "(of_nat ?n :: u64) = - 1"
    then have "unat (of_nat ?n :: u64) = unat (- 1 :: u64)" by simp
    moreover have "unat (- 1 :: u64) = 2 ^ 64 - 1" by (simp add: unsigned_minus_1_eq_mask mask_eq_exp_minus_1)
    ultimately show False using un len by simp
  qed
  obtain s1 where i: "acc_size_Increment acc s = (Ok (of_nat ?n + 1), s1)" "good s1" "size_of s1 = of_nat ?n + 1"
    "room s1 = room s" "partial_at s1 = partial_at s" using size_Increment [OF st'(1)] sz st'(2) by auto
  have num: "unat (CalcNumPartials (of_nat ?n)) = ?k"
    using k by (simp add: CalcNumPartials_def Log2ceil_def un)
  have lh: "BytesToHash (H (hash_Bytes x)) = leafh H x" by (simp add: leafh_def)
  obtain s2 evs where l: "Append_loop ?k acc (of_nat ?n + 1) 0 (H (hash_Bytes x)) [] s1 = (Ok evs, s2)" "good s2"
    "size_of s2 = size_of s1" "length ?c \<le> room s2" "map (partial_at s2) [0..<length ?c] = ?c"
    using Append_loop_run [of s1 0 ?k "H (hash_Bytes x)" "of_nat ?n + 1" "[]"] i st'(3) k H by (auto simp: lh)
  have c: "holds H 0 ?c (xs @ [x])" "tidy ?c"
    using carry_holds [OF st'(4), of "[x]"] carry_tidy [OF st'(5,4), of "[x]"] nz by simp_all
  then have cl: "length ?c = bit_len (length (xs @ [x]))" by (rule holds_bit_len)
  have s2: "stores (xs @ [x]) s2"
    unfolding stores_def cl [symmetric] l(5) using l i c by simp
  have rec: "\<exists>s3. acc_recordPreimages acc k v t = (Ok (), s3) \<and> stores ys s3" if "stores ys t" for k v t ys
    using recordPreimages [of t k v] that by (auto simp: stores_def)
  have "\<exists>s3. (case b of None \<Rightarrow> ret () | Some b \<Rightarrow> bnd (acc_recordPreimages acc (BytesToHash (H (hash_Bytes x))) (hash_Bytes x)) (\<lambda>_.
      acc_recordPreimages acc x b)) s2 = (Ok (), s3) \<and> stores (xs @ [x]) s3"
  proof (cases b)
    case None
    then show ?thesis using s2 by (simp add: op_simps)
  next
    case (Some v)
    obtain s3 where "acc_recordPreimages acc (BytesToHash (H (hash_Bytes x))) (hash_Bytes x) s2 = (Ok (), s3)" "stores (xs @ [x]) s3"
      using rec [OF s2] by blast
    moreover obtain s4 where "acc_recordPreimages acc x v s3 = (Ok (), s4)" "stores (xs @ [x]) s4"
      using rec [OF calculation(2)] by blast
    ultimately show ?thesis using Some by (simp add: op_simps)
  qed
  then show ?thesis using i l(1) num by (auto simp: MerkleAccumulator_Append_def op_simps)
qed

lemma Root_pad_run:
  assumes "good s" and "zs \<noteq> []" and "length zs \<le> 2 ^ c" and "c \<le> l" and "l < 64" and "l - c < fuel"
  shows "\<exists>s'. Root_pad fuel acc (2 ^ l) (mt H c zs) (2 ^ c) s = (Ok (mt H l zs), s') \<and> good s' \<and> view s' = view s"
  using assms
proof (induction fuel arbitrary: c s)
  case (Suc fuel)
  show ?case
  proof (cases "c = l")
    case True
    then show ?thesis using Suc.prems by (auto simp: op_simps pow2_less)
  next
    case False
    then have lt: "c < l" using Suc.prems by simp
    obtain s1 where k: "MerkleAccumulator_KeccakHash acc [hash_Bytes (mt H c zs), replicate 32 0] s = (Ok (mt H (Suc c) zs), s1)"
      "good s1" "view s1 = view s"
      using KeccakHash [of s "[hash_Bytes (mt H c zs), replicate 32 0]"] Suc.prems mt_pad [OF Suc.prems(2,3), of H]
      by (auto simp: nodeh_def hash_Bytes_0)
    obtain s2 where p: "acc_recordPreimages acc (mt H (Suc c) zs) (hash_Bytes (mt H c zs) @ replicate 32 0) s1 = (Ok (), s2)"
      "good s2" "view s2 = view s"
      using recordPreimages [OF k(2)] k(3) by (auto simp: view_def)
    have "length zs \<le> 2 ^ Suc c" "l - Suc c < fuel" using Suc.prems(3,6) lt by simp_all
    then obtain s3 where "Root_pad fuel acc (2 ^ l) (mt H (Suc c) zs) (2 ^ Suc c) s2 = (Ok (mt H l zs), s3)" "good s3" "view s3 = view s2"
      using Suc.IH [of s2 "Suc c"] Suc.prems p lt by auto
    then show ?thesis using k p lt Suc.prems(5)
      by (simp add: op_simps pow2_less mult.commute del: mt.simps)
  qed
qed simp

lemma Root_step_run:
  assumes "good s" and "l < room s" and "l < 63" and so: "sofar_ok H l zs sofar"
    and p: "partial_at s l = 0 \<and> ys = [] \<or> partial_at s l \<noteq> 0 \<and> length ys = 2 ^ l \<and> partial_at s l = mt H l ys"
  shows "\<exists>s' sofar'. Root_step acc l sofar s = (Ok sofar', s') \<and> good s' \<and> view s' = view s
    \<and> sofar_ok H (Suc l) (ys @ zs) sofar'"
proof -
  obtain s1 where g: "acc_getPartial acc (of_nat l) s = (Ok (partial_at s l), s1)" "good s1" "view s1 = view s"
    using getPartial [of s l] assms by (auto simp: view_def)
  consider "partial_at s l = 0" "ys = []"
    | "partial_at s l \<noteq> 0" "length ys = 2 ^ l" "partial_at s l = mt H l ys" "sofar = None"
    | h cap where "partial_at s l \<noteq> 0" "length ys = 2 ^ l" "partial_at s l = mt H l ys" "sofar = Some (h, cap)"
    using p by (cases sofar) auto
  then show ?thesis
  proof cases
    case 1
    have "sofar_ok H (Suc l) zs sofar" using so le_Suc_eq by (auto simp: sofar_ok_def split: option.splits)
    then show ?thesis using g 1 by (simp add: Root_step_def Let_def op_simps)
  next
    case 2
    then have "sofar_ok H (Suc l) (ys @ zs) (Some (partial_at s l, 2 ^ l))"
      using so by (auto simp: sofar_ok_def intro!: exI [of _ l])
    then show ?thesis using g 2 by (simp add: Root_step_def Let_def op_simps)
  next
    case 3
    then obtain c where c: "c \<le> l" "h = mt H c zs" "cap = 2 ^ c" "zs \<noteq> []" "length zs \<le> 2 ^ c" "2 ^ c < 2 * length zs"
      using so by (auto simp: sofar_ok_def)
    have "l - c < 65" using assms(3) by simp
    then obtain s2 where r: "Root_pad 65 acc (2 ^ l) h cap s1 = (Ok (mt H l zs), s2)" "good s2" "view s2 = view s"
      using Root_pad_run [OF g(2) c(4,5,1), of 65] c(2,3) assms(3) g(3) by auto
    let ?n = "mt H (Suc l) (ys @ zs)"
    have n: "?n = nodeh H (mt H l ys) (mt H l zs)" by (rule mt_join [OF 3(2)])
    obtain s3 where k: "MerkleAccumulator_KeccakHash acc [hash_Bytes (mt H l ys), hash_Bytes (mt H l zs)] s2 = (Ok ?n, s3)"
      "good s3" "view s3 = view s"
      unfolding n using KeccakHash [OF r(2), of "[hash_Bytes (mt H l ys), hash_Bytes (mt H l zs)]"] r(3) by (auto simp: nodeh_def)
    obtain s4 where q: "acc_recordPreimages acc ?n (hash_Bytes (mt H l ys) @ hash_Bytes (mt H l zs)) s3 = (Ok (), s4)" "good s4" "view s4 = view s"
      using recordPreimages [OF k(2)] k(3) by (auto simp: view_def)
    have le: "length zs \<le> 2 ^ l" using c(5) by (rule order_trans) (rule power_increasing [OF c(1)], simp)
    have "sofar_ok H (Suc l) (ys @ zs) (Some (?n, 2 * 2 ^ l))"
      using 3(2) le c(4) unfolding sofar_ok_def by (auto intro!: exI [of _ "Suc l"] simp del: mt.simps)
    then show ?thesis using g r k q 3
      by (simp add: Root_step_def Let_def op_simps del: mt.simps)
  qed
qed

lemma Root_fold_run:
  assumes "good s" and "l + k \<le> room s" and "l + k \<le> 63" and "holds H l (map (partial_at s) [l..<l + k]) xs"
    and "sofar_ok H l zs sofar"
  shows "\<exists>s' sofar'. fold_op (Root_step acc) [l..<l + k] sofar s = (Ok sofar', s') \<and> good s' \<and> view s' = view s
    \<and> sofar_ok H (l + k) (xs @ zs) sofar'"
  using assms
proof (induction k arbitrary: l xs zs sofar s)
  case 0
  then show ?case by (simp add: op_simps)
next
  case (Suc k)
  have ups: "[l..<l + Suc k] = l # [Suc l..<Suc l + k]" by (simp add: upt_conv_Cons del: upt_Suc)
  obtain ys ws where x: "xs = ws @ ys" "holds H (Suc l) (map (partial_at s) [Suc l..<Suc l + k]) ws"
    "partial_at s l = 0 \<and> ys = [] \<or> partial_at s l \<noteq> 0 \<and> length ys = 2 ^ l \<and> partial_at s l = mt H l ys"
    using Suc.prems(4) unfolding ups by (cases "partial_at s l = 0") auto
  obtain s1 so1 where r: "Root_step acc l sofar s = (Ok so1, s1)" "good s1" "view s1 = view s" "sofar_ok H (Suc l) (ys @ zs) so1"
    using Root_step_run [of s l zs sofar ys] Suc.prems x(3) by auto
  have v: "room s1 = room s" "partial_at s1 = partial_at s" using r(3) by (simp_all add: view_def)
  obtain s2 so2 where q: "fold_op (Root_step acc) [Suc l..<Suc l + k] so1 s1 = (Ok so2, s2)" "good s2" "view s2 = view s1"
    "sofar_ok H (Suc l + k) (ws @ ys @ zs) so2"
    using Suc.IH [OF r(2) _ _ _ r(4), of ws] Suc.prems(2,3) x(2) v by auto
  have "fold_op (Root_step acc) [l..<l + Suc k] sofar s = (Ok so2, s2)" unfolding ups using r q by (simp add: op_simps)
  then show ?case using q r x by auto
qed

lemma Root_run:
  assumes st: "stores xs s" and len: "length xs < 2 ^ 63"
  shows "\<exists>s'. MerkleAccumulator_Root acc s = (Ok (mroot H xs), s') \<and> stores xs s'"
proof -
  let ?n = "length xs" and ?k = "bit_len (length xs)"
  have st': "good s" "size_of s = of_nat ?n" "?k \<le> room s" "holds H 0 (map (partial_at s) [0..<?k]) xs"
    using st by (simp_all add: stores_def)
  have k: "?k \<le> 63" using bit_len_le [OF len] by simp
  have un: "unat (of_nat ?n :: u64) = ?n" using len by simp
  have num: "unat (CalcNumPartials (of_nat ?n)) = ?k"
    using k by (simp add: CalcNumPartials_def Log2ceil_def un)
  obtain s1 where g: "acc_size_Get acc s = (Ok (of_nat ?n), s1)" "good s1" "view s1 = view s"
    using size_Get [OF st'(1)] st'(2) by (auto simp: view_def)
  have same: "stores xs t" if "good t" "view t = view s" for t
    using that st by (simp add: stores_def view_def)
  show ?thesis
  proof (cases "xs = []")
    case True
    then show ?thesis using g same [OF g(2,3)] by (simp add: MerkleAccumulator_Root_def op_simps mroot_def)
  next
    case False
    then have nz: "(of_nat ?n :: u64) \<noteq> 0" using un by auto
    have v: "room s1 = room s" "partial_at s1 = partial_at s" using g(3) by (simp_all add: view_def)
    obtain s2 so where f: "fold_op (Root_step acc) [0..<?k] None s1 = (Ok so, s2)" "good s2" "view s2 = view s1" "sofar_ok H ?k xs so"
      using Root_fold_run [OF g(2), of 0 ?k xs "[]" None] st' k v by (auto simp: sofar_ok_def)
    then obtain c where c: "so = Some (mt H c xs, 2 ^ c)" "length xs \<le> 2 ^ c" "2 ^ c < 2 * length xs"
      using False by (auto simp: sofar_ok_def split: option.splits)
    have "bit_len (?n - 1) = c" using False c by (intro depth_unique) simp_all
    then have "so = Some (mroot H xs, 2 ^ c)" using c by (simp add: mroot_def)
    then show ?thesis using g f nz num same [of s2] by (auto simp: MerkleAccumulator_Root_def op_simps)
  qed
qed

end

section \<open>Storage and memory\<close>

definition sto_partial_at :: "(bytes \<Rightarrow> bytes) \<Rightarrow> Storage \<Rightarrow> world \<Rightarrow> nat \<Rightarrow> hash" where
  "sto_partial_at H sto w l = (if l < 64 then slot_read w (word_slot H sto (2 + l)) else 0)"

definition sto_good :: "(bytes \<Rightarrow> bytes) \<Rightarrow> Storage \<Rightarrow> world \<Rightarrow> bool" where
  "sto_good H sto w \<longleftrightarrow> sysw w \<and> fits 64 (slot_read w (word_slot H sto 0))"

definition sto_size_of :: "(bytes \<Rightarrow> bytes) \<Rightarrow> Storage \<Rightarrow> world \<Rightarrow> u64" where
  "sto_size_of H sto w = ucast (slot_read w (word_slot H sto 0))"

definition mem_partial_at :: "MemoryAccumulator \<Rightarrow> nat \<Rightarrow> hash" where
  "mem_partial_at s l = (if l < length (ma_partials s) then (case ma_partials s ! l of None \<Rightarrow> 0 | Some h \<Rightarrow> h) else 0)"

lemma acc_word_inject: "i < 100 \<Longrightarrow> j < 100 \<Longrightarrow> word_slot H sto i = word_slot H sto j \<longleftrightarrow> i = j"
  by (rule distinct_wordsD [OF distinct_words_page [of 99]]) simp_all

lemma Storage_Keccak_sys [sys_simps]:
  "sysw w \<Longrightarrow> Storage_Keccak H data w =
     (Ok (H (concat data)), tick Computation (30 + 6 * WordsForBytes (fold (\<lambda>part n. n + of_nat (length part)) data 0)) w)"
  by (simp add: Storage_Keccak_def Let_def op_simps w_Burn_sys)

lemma Increment_sys:
  assumes "sysw w" and "fits 64 (slot_read w ss)" and "ucast (slot_read w ss) \<noteq> (- 1 :: u64)"
  shows "\<exists>a. StorageBackedUint64_Increment ss w = (Ok (ucast (slot_read w ss) + 1),
    slot_write ss (ucast (ucast (slot_read w ss) + 1 :: u64)) (tick StorageAccessWrite a (tick StorageAccessRead StorageReadCost w)))"
  using assms by (auto simp: StorageBackedUint64_Increment_def sys_simps op_simps overflow_iff)

lemma sto_partial_word:
  "sto_getPartial H sto (of_nat l) = StorageSlot_Get (word_slot H sto (2 + l))"
  "sto_setPartial H sto (of_nat l) h = StorageSlot_Set (word_slot H sto (2 + l)) h"
proof -
  have "2 + of_nat l = (of_nat (2 + l) :: u64)" by simp
  then show "sto_getPartial H sto (of_nat l) = StorageSlot_Get (word_slot H sto (2 + l))"
    "sto_setPartial H sto (of_nat l) h = StorageSlot_Set (word_slot H sto (2 + l)) h"
    by (simp_all only: sto_getPartial_def sto_setPartial_def word_ops)
qed

interpretation msto: merkle_store H "OpenMerkleAccumulator H sto" "sto_good H sto" "sto_size_of H sto" "\<lambda>_. 64"
  "sto_partial_at H sto" for H sto
proof unfold_locales
  have n0: "NewSlot H sto 0 = word_slot H sto 0" by (simp add: word_slot_def)
  have keep: "sto_partial_at H sto (slot_write (word_slot H sto 0) v (tick k a w)) = sto_partial_at H sto w" for v k a w
    by (rule ext) (simp add: sto_partial_at_def slot_read_write acc_word_inject)
  fix s l h k b data
  show "\<exists>s'. acc_size_Get (OpenMerkleAccumulator H sto) s = (Ok (sto_size_of H sto s), s') \<and> sto_good H sto s'
      \<and> sto_size_of H sto s' = sto_size_of H sto s \<and> (64::nat) = 64 \<and> sto_partial_at H sto s' = sto_partial_at H sto s"
    if "sto_good H sto s"
    using that by (auto simp: OpenMerkleAccumulator_def sto_good_def sto_size_of_def sys_simps n0 sto_partial_at_def fun_eq_iff)
  show "\<exists>s'. acc_size_Increment (OpenMerkleAccumulator H sto) s = (Ok (sto_size_of H sto s + 1), s') \<and> sto_good H sto s'
      \<and> sto_size_of H sto s' = sto_size_of H sto s + 1 \<and> (64::nat) = 64 \<and> sto_partial_at H sto s' = sto_partial_at H sto s"
    if g: "sto_good H sto s" "sto_size_of H sto s \<noteq> - 1"
  proof -
    obtain a where "acc_size_Increment (OpenMerkleAccumulator H sto) s = (Ok (sto_size_of H sto s + 1),
      slot_write (word_slot H sto 0) (ucast (sto_size_of H sto s + 1)) (tick StorageAccessWrite a (tick StorageAccessRead StorageReadCost s)))"
      using Increment_sys [of s "word_slot H sto 0"] g by (auto simp: OpenMerkleAccumulator_def sto_good_def sto_size_of_def n0)
    moreover have "sto_partial_at H sto (tick StorageAccessRead StorageReadCost s) = sto_partial_at H sto s"
      by (rule ext) (simp add: sto_partial_at_def)
    ultimately show ?thesis using g(1) by (auto simp: keep sto_good_def sto_size_of_def)
  qed
  show "\<exists>s'. acc_getPartial (OpenMerkleAccumulator H sto) (of_nat l) s = (Ok (sto_partial_at H sto s l), s') \<and> sto_good H sto s'
      \<and> sto_size_of H sto s' = sto_size_of H sto s \<and> (64::nat) = 64 \<and> sto_partial_at H sto s' = sto_partial_at H sto s"
    if "sto_good H sto s" "l < 64"
    using that by (auto simp: OpenMerkleAccumulator_def sto_partial_word sto_good_def sto_size_of_def
        sys_simps sto_partial_at_def fun_eq_iff)
  show "\<exists>s'. acc_setPartial (OpenMerkleAccumulator H sto) (of_nat l) h s = (Ok (), s') \<and> sto_good H sto s'
      \<and> sto_size_of H sto s' = sto_size_of H sto s \<and> (64::nat) = max 64 (Suc l) \<and> sto_partial_at H sto s' = (sto_partial_at H sto s)(l := h)"
    if "sto_good H sto s" "l \<le> 64" "l < 64"
    using that by (auto simp: OpenMerkleAccumulator_def sto_partial_word sto_good_def sto_size_of_def
        sys_simps sto_partial_at_def fun_eq_iff slot_read_write acc_word_inject)
  show "\<exists>s'. acc_Keccak (OpenMerkleAccumulator H sto) data s = (Ok (H (concat data)), s') \<and> sto_good H sto s'
      \<and> sto_size_of H sto s' = sto_size_of H sto s \<and> (64::nat) = 64 \<and> sto_partial_at H sto s' = sto_partial_at H sto s"
    if "sto_good H sto s"
    using that by (auto simp: OpenMerkleAccumulator_def sto_good_def sto_size_of_def sys_simps sto_partial_at_def fun_eq_iff)
  show "\<exists>s'. acc_recordPreimages (OpenMerkleAccumulator H sto) k b s = (Ok (), s') \<and> sto_good H sto s'
      \<and> sto_size_of H sto s' = sto_size_of H sto s \<and> (64::nat) = 64 \<and> sto_partial_at H sto s' = sto_partial_at H sto s"
    if "sto_good H sto s"
    using that by (simp add: OpenMerkleAccumulator_def op_simps)
qed

lemma mem_partial_upd: "l < length (ma_partials s) \<Longrightarrow>
  mem_partial_at (s\<lparr>ma_partials := (ma_partials s)[l := Some h]\<rparr>) = (mem_partial_at s)(l := h)"
  by (auto simp: mem_partial_at_def fun_eq_iff nth_list_update)

lemma mem_partial_snoc: "mem_partial_at (s\<lparr>ma_partials := ma_partials s @ [Some h]\<rparr>) = (mem_partial_at s)(length (ma_partials s) := h)"
  by (auto simp: mem_partial_at_def fun_eq_iff nth_append)

interpretation mmem: merkle_store H "NonpersistentMerkleAccumulator H" "\<lambda>_. True" "\<lambda>s. mbu_contents (ma_size s)"
  "\<lambda>s. length (ma_partials s)" mem_partial_at for H
proof unfold_locales
  fix s :: MemoryAccumulator and l :: nat
  assume l: "l < length (ma_partials s)" "l < (64::nat)"
  then have u: "unat (of_nat l :: u64) = l" by simp
  have "(mem_partial_at s)(l := 0) = mem_partial_at s" if "ma_partials s ! l = None"
    using that l by (auto simp: mem_partial_at_def)
  then show "\<exists>s'. acc_getPartial (NonpersistentMerkleAccumulator H) (of_nat l) s = (Ok (mem_partial_at s l), s') \<and> True
     \<and> mbu_contents (ma_size s') = mbu_contents (ma_size s) \<and> length (ma_partials s') = length (ma_partials s) \<and> mem_partial_at s' = mem_partial_at s"
    using l u by (cases "ma_partials s ! l")
      (simp_all add: NonpersistentMerkleAccumulator_def mem_getPartial_def mem_partial_upd, simp_all add: mem_partial_at_def)
next
  fix s :: MemoryAccumulator and l :: nat and h
  assume l: "l \<le> length (ma_partials s)" "l < (64::nat)"
  then have u: "unat (of_nat l :: u64) = l" by simp
  show "\<exists>s'. acc_setPartial (NonpersistentMerkleAccumulator H) (of_nat l) h s = (Ok (), s') \<and> True
     \<and> mbu_contents (ma_size s') = mbu_contents (ma_size s) \<and> length (ma_partials s') = max (length (ma_partials s)) (Suc l)
     \<and> mem_partial_at s' = (mem_partial_at s)(l := h)"
    using l u by (cases "l = length (ma_partials s)")
      (simp_all add: NonpersistentMerkleAccumulator_def mem_setPartial_def mem_partial_upd mem_partial_snoc)
qed (auto simp: NonpersistentMerkleAccumulator_def on_size_def memory_uint64_defs op_simps overflow_iff mem_recordPreimages_def
    mem_partial_at_def fun_eq_iff)

section \<open>The root commits to the leaves\<close>

definition Append_all :: "(bytes \<Rightarrow> bytes) \<Rightarrow> 's MerkleAccumulator \<Rightarrow> hash list \<Rightarrow> ('s, unit) op" where
  "Append_all H acc xs = for_each xs (\<lambda>x. bnd (MerkleAccumulator_Append H acc x None) (\<lambda>_. ret ()))"

lemma nonzero_hashes_prefix: "nonzero_hashes H (xs @ ys) \<Longrightarrow> nonzero_hashes H xs"
  unfolding nonzero_hashes_def by (metis append_assoc)

context merkle_store
begin

lemma Append_all_stores:
  assumes "stores xs s" and "length (xs @ ys) < 2 ^ 63" and "nonzero_hashes H (xs @ ys)" and "\<And>x. length (H x) = 32"
  shows "\<exists>s'. Append_all H acc ys s = (Ok (), s') \<and> stores (xs @ ys) s'"
  using assms(1-3)
proof (induction ys arbitrary: xs s)
  case Nil
  then show ?case by (simp add: Append_all_def op_simps)
next
  case (Cons y ys)
  have "nonzero_hashes H (xs @ [y])" using Cons.prems(3) nonzero_hashes_prefix [of H "xs @ [y]" ys] by simp
  then obtain e s1 where a: "MerkleAccumulator_Append H acc y None s = (Ok e, s1)" "stores (xs @ [y]) s1"
    using Append_stores [OF Cons.prems(1), of y None] Cons.prems(2) assms(4) by auto
  obtain s2 where "Append_all H acc ys s1 = (Ok (), s2)" "stores (xs @ y # ys) s2"
    using Cons.IH [OF a(2)] Cons.prems(2,3) by auto
  then show ?case using a by (auto simp: Append_all_def op_simps)
qed

lemma stores_Nil: "good s \<Longrightarrow> size_of s = 0 \<Longrightarrow> stores [] s"
  by (simp add: stores_def tidy_def)

lemma stores_size: "stores xs s \<Longrightarrow> \<exists>s'. MerkleAccumulator_Size acc s = (Ok (of_nat (length xs)), s')"
  using size_Get [of s] by (auto simp: stores_def MerkleAccumulator_Size_def)

lemma Append_all_root:
  assumes "good s" and "size_of s = 0" and "length xs < 2 ^ 63" and "nonzero_hashes H xs" and "\<And>x. length (H x) = 32"
  shows "\<exists>s'. Append_all H acc xs s = (Ok (), s') \<and> fst (MerkleAccumulator_Root acc s') = Ok (mroot H xs)
    \<and> fst (MerkleAccumulator_Size acc s') = Ok (of_nat (length xs))"
proof -
  obtain s' where s: "Append_all H acc xs s = (Ok (), s')" "stores xs s'"
    using Append_all_stores [OF stores_Nil [OF assms(1,2)], of xs] assms(3-5) by auto
  obtain t where "MerkleAccumulator_Root acc s' = (Ok (mroot H xs), t)" using Root_run [OF s(2) assms(3)] by blast
  moreover obtain t' where "MerkleAccumulator_Size acc s' = (Ok (of_nat (length xs)), t')" using stores_size [OF s(2)] by blast
  ultimately show ?thesis using s by auto
qed

end

text \<open>C7: Appending any sequence of leaves to an empty accumulator, in storage or in memory, succeeds;
  afterwards the root is the hash of the Merkle tree over exactly these leaves, in their order,
  padded with empty subtrees to the next power of two, and the size is their number.\<close>

theorem accumulator_root:
  assumes "sysw w" and "slot_read w (NewSlot H sto 0) = 0" and "length xs < 2 ^ 63"
    and "nonzero_hashes H xs" and "\<And>x. length (H x) = 32"
  shows "(\<exists>w'. Append_all H (OpenMerkleAccumulator H sto) xs w = (Ok (), w')
       \<and> fst (MerkleAccumulator_Root (OpenMerkleAccumulator H sto) w') = Ok (mroot H xs)
       \<and> fst (MerkleAccumulator_Size (OpenMerkleAccumulator H sto) w') = Ok (of_nat (length xs)))
   \<and> (\<exists>m. Append_all H (NonpersistentMerkleAccumulator H) xs NewNonpersistentMerkleAccumulator = (Ok (), m)
       \<and> fst (MerkleAccumulator_Root (NonpersistentMerkleAccumulator H) m) = Ok (mroot H xs))"
proof
  have "sto_good H sto w" "sto_size_of H sto w = 0"
    using assms(1,2) by (simp_all add: sto_good_def sto_size_of_def word_slot_def)
  then show "\<exists>w'. Append_all H (OpenMerkleAccumulator H sto) xs w = (Ok (), w')
       \<and> fst (MerkleAccumulator_Root (OpenMerkleAccumulator H sto) w') = Ok (mroot H xs)
       \<and> fst (MerkleAccumulator_Size (OpenMerkleAccumulator H sto) w') = Ok (of_nat (length xs))"
    by (rule msto.Append_all_root [OF _ _ assms(3-5)])
  show "\<exists>m. Append_all H (NonpersistentMerkleAccumulator H) xs NewNonpersistentMerkleAccumulator = (Ok (), m)
       \<and> fst (MerkleAccumulator_Root (NonpersistentMerkleAccumulator H) m) = Ok (mroot H xs)"
    using mmem.Append_all_root [of NewNonpersistentMerkleAccumulator, OF _ _ assms(3-5)]
    by (auto simp: NewNonpersistentMerkleAccumulator_def)
qed

text \<open>A concrete hash function whose values are never zero.\<close>

definition marked_hash :: "bytes \<Rightarrow> bytes" where
  "marked_hash bs = 1 # be_bytes 31 (be_val bs)"

lemma length_marked_hash [simp]: "length (marked_hash bs) = 32"
  by (simp add: marked_hash_def)

lemma marked_hash_nonzero [simp]: "BytesToHash (marked_hash bs) \<noteq> 0"
proof -
  have "be_val (marked_hash bs) = 256 ^ 31 + be_val (be_bytes 31 (be_val bs))"
    using be_val_append [of "[1]" "be_bytes 31 (be_val bs)"] by (simp add: marked_hash_def be_val_def)
  moreover have "be_val (marked_hash bs) < 256 ^ 32" using be_val_less [of "marked_hash bs"] by simp
  ultimately have "unat (BytesToHash (marked_hash bs)) \<noteq> 0" by (simp add: unat_BytesToHash)
  then show ?thesis by auto
qed

lemma marked_nonzero_hashes: "nonzero_hashes marked_hash xs"
proof -
  have "mt marked_hash l zs \<noteq> 0" if "zs \<noteq> []" for l zs
    using that by (cases l; cases zs) (simp_all add: leafh_def nodeh_def)
  then show ?thesis unfolding nonzero_hashes_def by (metis length_0_conv power_not_zero zero_neq_numeral)
qed

lemma accumulator_root_witness:
  "\<exists>w'. Append_all marked_hash (OpenMerkleAccumulator marked_hash demo_storage) [5, 6, 7] demo_world = (Ok (), w')
     \<and> fst (MerkleAccumulator_Root (OpenMerkleAccumulator marked_hash demo_storage) w') =
       Ok (nodeh marked_hash (nodeh marked_hash (leafh marked_hash 5) (leafh marked_hash 6)) (nodeh marked_hash (leafh marked_hash 7) 0))"
proof -
  have b: "bit_len 2 = 2" by (simp add: bit_len.simps)
  then have "mroot marked_hash [5, 6, 7] =
      nodeh marked_hash (nodeh marked_hash (leafh marked_hash 5) (leafh marked_hash 6)) (nodeh marked_hash (leafh marked_hash 7) 0)"
    by (simp add: mroot_def numeral_2_eq_2)
  then show ?thesis
    using accumulator_root [of demo_world marked_hash demo_storage "[5, 6, 7]"] marked_nonzero_hashes by auto
qed

end
