(* ===== verification/MerkleTree.thy ===== *)
theory MerkleTree
  imports MerkleAccumulator
begin

text \<open>
  The explicit Merkle trees of \<^verbatim>\<open>util/merkletree/merkleTree.go\<close> (appending, summarising complete
  subtrees, serialisation, proofs) and their construction from accumulators and events
  (\<^verbatim>\<open>merkleEventProof.go\<close>). The trees are shown to have the root of the accumulator that is fed the
  same leaves, to survive serialisation and summarising, and a proof that is accepted against such a
  root is shown to name the leaf at its index.
\<close>

section \<open>Trees\<close>

text \<open>The four implementations of the interface \<^verbatim>\<open>MerkleTree\<close>; an internal node caches hash, size and
  capacity.\<close>

datatype MerkleTree =
    merkleTreeLeaf hash
  | merkleEmpty u64
  | merkleInternal hash u64 u64 MerkleTree MerkleTree
  | merkleCompleteSubtreeSummary hash u64

fun MerkleTree_Hash :: "(bytes \<Rightarrow> bytes) \<Rightarrow> MerkleTree \<Rightarrow> hash" where
  "MerkleTree_Hash H (merkleTreeLeaf h) = BytesToHash (H (hash_Bytes h))"
| "MerkleTree_Hash H (merkleEmpty capacity) = 0"
| "MerkleTree_Hash H (merkleInternal h n capacity left right) = h"
| "MerkleTree_Hash H (merkleCompleteSubtreeSummary h capacity) = h"

fun MerkleTree_Size :: "MerkleTree \<Rightarrow> u64" where
  "MerkleTree_Size (merkleTreeLeaf h) = 1"
| "MerkleTree_Size (merkleEmpty capacity) = 0"
| "MerkleTree_Size (merkleInternal h n capacity left right) = n"
| "MerkleTree_Size (merkleCompleteSubtreeSummary h capacity) = capacity"

fun MerkleTree_Capacity :: "MerkleTree \<Rightarrow> u64" where
  "MerkleTree_Capacity (merkleTreeLeaf h) = 1"
| "MerkleTree_Capacity (merkleEmpty capacity) = capacity"
| "MerkleTree_Capacity (merkleInternal h n capacity left right) = capacity"
| "MerkleTree_Capacity (merkleCompleteSubtreeSummary h capacity) = capacity"

definition NewEmptyMerkleTree :: MerkleTree where
  "NewEmptyMerkleTree = merkleEmpty 0"

definition NewMerkleInternal :: "(bytes \<Rightarrow> bytes) \<Rightarrow> MerkleTree \<Rightarrow> MerkleTree \<Rightarrow> MerkleTree" where
  "NewMerkleInternal H left right = merkleInternal
     (BytesToHash (H (hash_Bytes (MerkleTree_Hash H left) @ hash_Bytes (MerkleTree_Hash H right))))
     (MerkleTree_Size left + MerkleTree_Size right)
     (MerkleTree_Capacity left + MerkleTree_Capacity right) left right"

text \<open>Appending to an empty subtree halves its capacity until a leaf is reached.\<close>

function merkleEmpty_Append :: "(bytes \<Rightarrow> bytes) \<Rightarrow> u64 \<Rightarrow> hash \<Rightarrow> MerkleTree" where
  "merkleEmpty_Append H capacity newHash =
     (if capacity \<le> 1 then merkleTreeLeaf newHash
      else NewMerkleInternal H (merkleEmpty_Append H (capacity div 2) newHash) (merkleEmpty (capacity div 2)))"
  by pat_completeness auto
termination
  by (relation "measure (\<lambda>(H, c, h). unat c)") (auto simp: unat_div word_less_nat_alt not_le)

declare merkleEmpty_Append.simps [simp del]

fun MerkleTree_Append :: "(bytes \<Rightarrow> bytes) \<Rightarrow> MerkleTree \<Rightarrow> hash \<Rightarrow> MerkleTree" where
  "MerkleTree_Append H (merkleTreeLeaf h) newHash =
     NewMerkleInternal H (merkleTreeLeaf h) (merkleTreeLeaf newHash)"
| "MerkleTree_Append H (merkleEmpty capacity) newHash = merkleEmpty_Append H capacity newHash"
| "MerkleTree_Append H (merkleInternal h n capacity left right) newHash =
     (if n = capacity
      then NewMerkleInternal H (merkleInternal h n capacity left right) (merkleEmpty_Append H capacity newHash)
      else if 2 * n < capacity
      then NewMerkleInternal H (MerkleTree_Append H left newHash) right
      else NewMerkleInternal H left (MerkleTree_Append H right newHash))"
| "MerkleTree_Append H (merkleCompleteSubtreeSummary h capacity) newHash =
     NewMerkleInternal H (merkleCompleteSubtreeSummary h capacity) (merkleEmpty_Append H capacity newHash)"

definition summaryFromMerkleTree :: "(bytes \<Rightarrow> bytes) \<Rightarrow> MerkleTree \<Rightarrow> (unit, MerkleTree) op" where
  "summaryFromMerkleTree H subtree =
     (if MerkleTree_Size subtree = 1 then ret subtree
      else if MerkleTree_Size subtree \<noteq> MerkleTree_Capacity subtree
      then panic ''tried to summarize a non-full MerkleTree node''
      else ret (merkleCompleteSubtreeSummary (MerkleTree_Hash H subtree) (MerkleTree_Capacity subtree)))"

fun MerkleTree_SummarizeUpTo :: "(bytes \<Rightarrow> bytes) \<Rightarrow> MerkleTree \<Rightarrow> u64 \<Rightarrow> (unit, MerkleTree) op" where
  "MerkleTree_SummarizeUpTo H (merkleInternal h n capacity left right) num =
     (if num = capacity then summaryFromMerkleTree H (merkleInternal h n capacity left right)
      else (let leftSize = MerkleTree_Size left in
        if num \<le> leftSize
        then bnd (MerkleTree_SummarizeUpTo H left num) (\<lambda>l. ret (NewMerkleInternal H l right))
        else bnd (summaryFromMerkleTree H left) (\<lambda>l.
             bnd (MerkleTree_SummarizeUpTo H right (num - leftSize)) (\<lambda>r.
             ret (NewMerkleInternal H l r)))))"
| "MerkleTree_SummarizeUpTo H (merkleTreeLeaf h) num = ret (merkleTreeLeaf h)"
| "MerkleTree_SummarizeUpTo H (merkleEmpty capacity) num = ret (merkleEmpty capacity)"
| "MerkleTree_SummarizeUpTo H (merkleCompleteSubtreeSummary h capacity) num =
     ret (merkleCompleteSubtreeSummary h capacity)"

section \<open>Serialisation\<close>

abbreviation (input) SerializedLeaf :: byte where "SerializedLeaf \<equiv> 0"
abbreviation (input) SerializedEmptySubtree :: byte where "SerializedEmptySubtree \<equiv> 1"
abbreviation (input) SerializedInternalNode :: byte where "SerializedInternalNode \<equiv> 2"
abbreviation (input) SerializedSubtreeSummary :: byte where "SerializedSubtreeSummary \<equiv> 3"

fun MerkleTree_Serialize :: "MerkleTree \<Rightarrow> writer" where
  "MerkleTree_Serialize (merkleTreeLeaf h) =
     bnd (WriteBytes [SerializedLeaf]) (\<lambda>_. WriteBytes (hash_Bytes h))"
| "MerkleTree_Serialize (merkleEmpty capacity) =
     bnd (WriteBytes [SerializedEmptySubtree]) (\<lambda>_. Uint64ToWriter capacity)"
| "MerkleTree_Serialize (merkleInternal h n capacity left right) =
     bnd (WriteBytes [SerializedInternalNode]) (\<lambda>_.
     bnd (MerkleTree_Serialize left) (\<lambda>_. MerkleTree_Serialize right))"
| "MerkleTree_Serialize (merkleCompleteSubtreeSummary h capacity) =
     bnd (WriteBytes [SerializedSubtreeSummary]) (\<lambda>_.
     bnd (Uint64ToWriter capacity) (\<lambda>_. WriteBytes (hash_Bytes h)))"

text \<open>Every call reads a byte before it calls itself, so the number of bytes bounds the depth.\<close>

primrec tree_reader :: "nat \<Rightarrow> (bytes \<Rightarrow> bytes) \<Rightarrow> MerkleTree reader" where
  "tree_reader 0 H = panic ''out of input''"
| "tree_reader (Suc fuel) H =
     bnd (ReadFull 1) (\<lambda>typeBuf.
     if typeBuf ! 0 = SerializedLeaf
     then bnd HashFromReader (\<lambda>h. ret (merkleTreeLeaf h))
     else if typeBuf ! 0 = SerializedInternalNode
     then bnd (tree_reader fuel H) (\<lambda>left.
          bnd (tree_reader fuel H) (\<lambda>right.
          ret (NewMerkleInternal H left right)))
     else if typeBuf ! 0 = SerializedEmptySubtree
     then bnd Uint64FromReader (\<lambda>capacity. ret (merkleEmpty capacity))
     else if typeBuf ! 0 = SerializedSubtreeSummary
     then bnd Uint64FromReader (\<lambda>capacity.
          bnd HashFromReader (\<lambda>h.
          ret (merkleCompleteSubtreeSummary h capacity)))
     else throw (ErrMsg ''invalid node type in deserializing Merkle tree''))"

definition NewMerkleTreeFromReader :: "(bytes \<Rightarrow> bytes) \<Rightarrow> MerkleTree reader" where
  "NewMerkleTreeFromReader H = (\<lambda>rd. tree_reader (Suc (length rd)) H rd)"

section \<open>Proofs\<close>

record MerkleProof =
  mp_RootHash :: hash
  mp_LeafHash :: hash
  mp_LeafIndex :: u64
  mp_Proof :: "hash list"

definition proof_step :: "(bytes \<Rightarrow> bytes) \<Rightarrow> hash \<Rightarrow> hash \<times> u64 \<Rightarrow> hash \<times> u64" where
  "proof_step H hashFromProof = (\<lambda>(h, index).
     (if and index 1 = 0
      then BytesToHash (H (hash_Bytes h @ hash_Bytes hashFromProof))
      else BytesToHash (H (hash_Bytes hashFromProof @ hash_Bytes h)), index div 2))"

definition MerkleProof_IsCorrect :: "(bytes \<Rightarrow> bytes) \<Rightarrow> MerkleProof \<Rightarrow> bool" where
  "MerkleProof_IsCorrect H p =
     (case fold (proof_step H) (mp_Proof p) (mp_LeafHash p, mp_LeafIndex p) of
       (h, index) \<Rightarrow> if index \<noteq> 0 then False else h = mp_RootHash p)"

section \<open>Levels and leaves\<close>

record LevelAndLeaf =
  ll_Level :: u64
  ll_Leaf :: u64

definition NewLevelAndLeaf :: "u64 \<Rightarrow> u64 \<Rightarrow> LevelAndLeaf" where
  "NewLevelAndLeaf level leaf = \<lparr>ll_Level = level, ll_Leaf = leaf\<rparr>"

definition LevelAndLeaf_ToBigInt :: "LevelAndLeaf \<Rightarrow> int" where
  "LevelAndLeaf_ToBigInt place = uint (ll_Level place) * 2 ^ 192 + uint (ll_Leaf place)"

section \<open>Trees from accumulators and events\<close>

text \<open>Padding with empty subtrees doubles the capacity in every round.\<close>

primrec tree_pad :: "nat \<Rightarrow> (bytes \<Rightarrow> bytes) \<Rightarrow> u64 \<Rightarrow> MerkleTree \<Rightarrow> (unit, MerkleTree) op" where
  "tree_pad 0 H capacity tree = panic ''out of rounds''"
| "tree_pad (Suc fuel) H capacity tree =
     (if MerkleTree_Capacity tree < capacity
      then tree_pad fuel H capacity (NewMerkleInternal H tree (merkleEmpty (MerkleTree_Capacity tree)))
      else ret tree)"

primrec tree_of_partials ::
  "hash list \<Rightarrow> (bytes \<Rightarrow> bytes) \<Rightarrow> nat \<Rightarrow> u64 \<Rightarrow> MerkleTree option \<Rightarrow> (unit, MerkleTree option) op" where
  "tree_of_partials [] H level capacity tree = ret tree"
| "tree_of_partials (partial # partials) H level capacity tree =
     (if partial \<noteq> 0
      then (let thisLevel = (if level = 0 then merkleTreeLeaf partial
                             else merkleCompleteSubtreeSummary partial capacity) in
        case tree of
          None \<Rightarrow> tree_of_partials partials H (Suc level) (capacity * 2) (Some thisLevel)
        | Some t \<Rightarrow>
            bnd (tree_pad 65 H capacity t) (\<lambda>t.
            tree_of_partials partials H (Suc level) (capacity * 2) (Some (NewMerkleInternal H thisLevel t))))
      else tree_of_partials partials H (Suc level) (capacity * 2) tree)"

text \<open>The result is a nil interface (\<open>None\<close>) when all partials are zero.\<close>

definition NewMerkleTreeFromAccumulator ::
  "(bytes \<Rightarrow> bytes) \<Rightarrow> 's MerkleAccumulator \<Rightarrow> ('s, MerkleTree option) op" where
  "NewMerkleTreeFromAccumulator H acc =
     bnd (MerkleAccumulator_GetPartials acc) (\<lambda>partials.
     if length partials = 0 then ret (Some NewEmptyMerkleTree)
     else (\<lambda>s. (fst (tree_of_partials partials H 0 1 None ()), s)))"

definition event_step ::
  "MerkleTreeNodeEvent \<Rightarrow> hash option list \<times> u64 \<Rightarrow> hash option list \<times> u64" where
  "event_step event = (\<lambda>(partials, latestSeen).
     if ev_NumLeaves event > latestSeen then (Some (ev_Hash event) # partials, ev_NumLeaves event)
     else (Some 0 # partials, latestSeen))"

text \<open>The loop runs from the last event to the first and fills the partials from the end.\<close>

definition NewNonPersistentMerkleAccumulatorFromEvents ::
  "MerkleTreeNodeEvent list \<Rightarrow> (unit, MemoryAccumulator) op" where
  "NewNonPersistentMerkleAccumulatorFromEvents events =
     NewNonpersistentMerkleAccumulatorFromPartials (fst (foldr event_step events ([], 0)))"

definition NewMerkleTreeFromEvents ::
  "(bytes \<Rightarrow> bytes) \<Rightarrow> MerkleTreeNodeEvent list \<Rightarrow> (unit, MerkleTree option) op" where
  "NewMerkleTreeFromEvents H events =
     bnd (NewNonPersistentMerkleAccumulatorFromEvents events) (\<lambda>acc s.
       (fst (NewMerkleTreeFromAccumulator H (NonpersistentMerkleAccumulator H) acc), s))"

section \<open>Trees for a list of leaves\<close>

text \<open>A tree of depth \<open>d\<close> for a list of leaves; complete subtrees may be summarised.\<close>

inductive tree_for :: "(bytes \<Rightarrow> bytes) \<Rightarrow> nat \<Rightarrow> MerkleTree \<Rightarrow> hash list \<Rightarrow> bool" for H where
  leaf: "tree_for H 0 (merkleTreeLeaf x) [x]"
| empty: "tree_for H d (merkleEmpty (2 ^ d)) []"
| node: "tree_for H d l xs \<Longrightarrow> tree_for H d r ys \<Longrightarrow> length xs = 2 ^ d \<or> ys = [] \<Longrightarrow> xs \<noteq> []
    \<Longrightarrow> tree_for H (Suc d) (NewMerkleInternal H l r) (xs @ ys)"
| summary: "length xs = 2 ^ d \<Longrightarrow> 0 < d \<Longrightarrow> tree_for H d (merkleCompleteSubtreeSummary (mt H d xs) (2 ^ d)) xs"

lemma tree_for_length: "tree_for H d t xs \<Longrightarrow> length xs \<le> 2 ^ d"
  by (induction rule: tree_for.induct) auto

lemma tree_for_Hash: "tree_for H d t xs \<Longrightarrow> MerkleTree_Hash H t = mt H d xs"
proof (induction rule: tree_for.induct)
  case (node d l xs r ys)
  then show ?case using mt_join [of xs d H ys] mt_pad [of xs d H] tree_for_length [OF node(1)]
    by (auto simp: NewMerkleInternal_def nodeh_def)
qed (simp_all add: leafh_def)

lemma tree_for_Size:
  "tree_for H d t xs \<Longrightarrow> MerkleTree_Size t = of_nat (length xs) \<and> MerkleTree_Capacity t = 2 ^ d"
  by (induction rule: tree_for.induct) (simp_all add: NewMerkleInternal_def)

lemma pow2_div2: "d < 63 \<Longrightarrow> (2::u64) ^ Suc d div 2 = 2 ^ d"
proof -
  assume "d < 63"
  then have "unat ((2::u64) ^ Suc d div 2) = unat ((2::u64) ^ d)"
    unfolding unat_div by (simp add: unat_pow2 del: power_Suc) simp
  then show ?thesis by (simp only: word_unat_eq_iff)
qed

lemma merkleEmpty_Append_tree: "d \<le> 63 \<Longrightarrow> tree_for H d (merkleEmpty_Append H (2 ^ d) x) [x]"
proof (induction d)
  case 0
  then show ?case by (simp add: merkleEmpty_Append.simps tree_for.leaf)
next
  case (Suc d)
  have "\<not> (2::u64) ^ Suc d \<le> 1"
  proof -
    have "unat ((2::u64) ^ Suc d) = 2 ^ Suc d" using Suc.prems by (intro unat_pow2) simp
    moreover have "1 < (2::nat) ^ Suc d" by (rule one_less_power) simp_all
    ultimately show ?thesis unfolding word_le_nat_alt by simp
  qed
  then have "merkleEmpty_Append H (2 ^ Suc d) x =
      NewMerkleInternal H (merkleEmpty_Append H (2 ^ d) x) (merkleEmpty (2 ^ d))"
    using Suc.prems pow2_div2 [of d] by (subst merkleEmpty_Append.simps) simp
  then show ?case using tree_for.node [OF Suc.IH tree_for.empty] Suc.prems by simp
qed

lemma MerkleTree_Append_full:
  assumes "tree_for H d t xs" and "length xs = 2 ^ d" and "d \<le> 62"
  shows "tree_for H (Suc d) (MerkleTree_Append H t x) (xs @ [x])"
proof -
  have e: "tree_for H d (merkleEmpty_Append H (2 ^ d) x) [x]" using assms(3) by (intro merkleEmpty_Append_tree) simp
  have n: "tree_for H (Suc d) (NewMerkleInternal H t (merkleEmpty_Append H (2 ^ d) x)) (xs @ [x])"
    using assms(2) by (intro tree_for.node [OF assms(1) e]) auto
  show ?thesis using assms(1)
  proof cases
    case leaf
    then show ?thesis using tree_for.node [OF tree_for.leaf tree_for.leaf] by auto
  next
    case empty
    then show ?thesis using assms(2) by simp
  next
    case (node d' l xs' r ys)
    have "MerkleTree_Size t = MerkleTree_Capacity t" "MerkleTree_Capacity t = 2 ^ d"
      using tree_for_Size [OF assms(1)] assms(2) by simp_all
    then show ?thesis using n node by (simp add: NewMerkleInternal_def)
  next
    case summary
    then show ?thesis using n by simp
  qed
qed

lemma MerkleTree_Append_room:
  "tree_for H d t xs \<Longrightarrow> length xs < 2 ^ d \<Longrightarrow> d \<le> 63 \<Longrightarrow> tree_for H d (MerkleTree_Append H t x) (xs @ [x])"
proof (induction rule: tree_for.induct)
  case (empty d)
  then show ?case using merkleEmpty_Append_tree by simp
next
  case (node d l xs r ys)
  let ?t = "NewMerkleInternal H l r" and ?n = "length (xs @ ys)"
  have t: "MerkleTree_Size ?t = of_nat ?n" "MerkleTree_Capacity ?t = 2 ^ Suc d"
    using tree_for_Size [OF tree_for.node [OF node(1-4)]] by simp_all
  have p: "(2::nat) ^ Suc d \<le> 2 ^ 63" using node.prems(2) by (intro power_increasing) simp_all
  then have u: "unat (of_nat ?n :: u64) = ?n" "unat (of_nat (2 * ?n) :: u64) = 2 * ?n"
    using node.prems(1) by (intro unat_of_nat_u64; simp)+
  have c: "unat ((2::u64) ^ Suc d) = 2 ^ Suc d" using node.prems(2) by (intro unat_pow2) simp
  have ne: "(of_nat ?n :: u64) \<noteq> 2 ^ Suc d"
    using u(1) c node.prems(1) by (metis less_irrefl)
  have lt: "2 * (of_nat ?n :: u64) < 2 ^ Suc d \<longleftrightarrow> ?n < 2 ^ d"
  proof -
    have "2 * (of_nat ?n :: u64) < 2 ^ Suc d \<longleftrightarrow> 2 * ?n < 2 * 2 ^ d"
      using u(2) c unfolding word_less_nat_alt of_nat_mult by simp
    then show ?thesis by linarith
  qed
  have app: "MerkleTree_Append H ?t x = (if ?n < 2 ^ d then NewMerkleInternal H (MerkleTree_Append H l x) r
      else NewMerkleInternal H l (MerkleTree_Append H r x))"
    using t ne lt by (simp add: NewMerkleInternal_def)
  show ?case
  proof (cases "?n < 2 ^ d")
    case True
    then have "ys = []" using node(3) by auto
    then show ?thesis unfolding app using True node tree_for.node [OF node.IH(1) node(2)] by auto
  next
    case False
    then have x: "length xs = 2 ^ d" using node(3) tree_for_length [OF node(1)] by auto
    then have "tree_for H d (MerkleTree_Append H r x) (ys @ [x])" using node by simp
    then show ?thesis unfolding app using False x node tree_for.node [OF node(1), of "MerkleTree_Append H r x" "ys @ [x]"] by auto
  qed
qed auto

definition Append_tree :: "(bytes \<Rightarrow> bytes) \<Rightarrow> hash list \<Rightarrow> MerkleTree" where
  "Append_tree H xs = fold (\<lambda>x t. MerkleTree_Append H t x) xs NewEmptyMerkleTree"

lemma Append_tree_for:
  assumes "xs \<noteq> []" and "length xs \<le> 2 ^ 62"
  shows "\<exists>d\<le>62. tree_for H d (Append_tree H xs) xs \<and> 2 ^ d < 2 * length xs"
  using assms
proof (induction xs rule: rev_induct)
  case (snoc x xs)
  show ?case
  proof (cases "xs = []")
    case True
    then show ?thesis
      by (auto simp: Append_tree_def NewEmptyMerkleTree_def merkleEmpty_Append.simps intro!: exI [of _ 0] tree_for.leaf)
  next
    case False
    then obtain d where d: "d \<le> 62" "tree_for H d (Append_tree H xs) xs" "2 ^ d < 2 * length xs"
      using snoc by auto
    have a: "Append_tree H (xs @ [x]) = MerkleTree_Append H (Append_tree H xs) x" by (simp add: Append_tree_def)
    show ?thesis
    proof (cases "length xs = 2 ^ d")
      case True
      have "d < 62"
      proof (rule ccontr)
        assume "\<not> d < 62"
        then have "d = 62" using d(1) by simp
        then show False using True snoc.prems(2) by simp
      qed
      then show ?thesis unfolding a using MerkleTree_Append_full [OF d(2) True, of x] True
        by (intro exI [of _ "Suc d"]) auto
    next
      case False
      then have "length xs < 2 ^ d" using tree_for_length [OF d(2)] by simp
      then show ?thesis unfolding a using MerkleTree_Append_room [OF d(2)] d by (intro exI [of _ d]) auto
    qed
  qed
qed simp

lemma Append_tree_Hash: "length xs \<le> 2 ^ 62 \<Longrightarrow> MerkleTree_Hash H (Append_tree H xs) = mroot H xs"
proof (cases "xs = []")
  case False
  assume l: "length xs \<le> 2 ^ 62"
  obtain d where d: "tree_for H d (Append_tree H xs) xs" "2 ^ d < 2 * length xs"
    using Append_tree_for [OF False l, of H] by auto
  have "bit_len (length xs - 1) = d" using False d tree_for_length [OF d(1)] by (intro depth_unique) simp_all
  then show ?thesis using tree_for_Hash [OF d(1)] by (simp add: mroot_def)
qed (simp add: Append_tree_def NewEmptyMerkleTree_def mroot_def)

section \<open>Trees and accumulators agree\<close>

text \<open>C15: Appending the same leaves to an explicit Merkle tree and to the accumulator in storage gives
  the same root, and the tree's size is the number of leaves.\<close>

theorem tree_matches_accumulator:
  assumes "sysw w" and "slot_read w (NewSlot H sto 0) = 0" and "length xs \<le> 2 ^ 62"
    and "nonzero_hashes H xs" and "\<And>x. length (H x) = 32"
  shows "\<exists>w'. Append_all H (OpenMerkleAccumulator H sto) xs w = (Ok (), w')
    \<and> fst (MerkleAccumulator_Root (OpenMerkleAccumulator H sto) w') = Ok (MerkleTree_Hash H (Append_tree H xs))
    \<and> fst (MerkleAccumulator_Size (OpenMerkleAccumulator H sto) w') = Ok (MerkleTree_Size (Append_tree H xs))"
proof -
  have g: "sto_good H sto w" "sto_size_of H sto w = 0"
    using assms(1,2) by (simp_all add: sto_good_def sto_size_of_def word_slot_def)
  have l: "length xs < 2 ^ 63" using assms(3) by simp
  have "MerkleTree_Size (Append_tree H xs) = of_nat (length xs)"
    using Append_tree_for [OF _ assms(3), of H] tree_for_Size [of H _ "Append_tree H xs" xs]
    by (cases "xs = []") (auto simp: Append_tree_def NewEmptyMerkleTree_def)
  then show ?thesis
    using msto.Append_all_root [OF g l assms(4,5)] Append_tree_Hash [OF assms(3), of H] by simp
qed

lemma tree_matches_accumulator_witness:
  "\<exists>w'. Append_all marked_hash (OpenMerkleAccumulator marked_hash demo_storage) [5, 6, 7] demo_world = (Ok (), w')
    \<and> fst (MerkleAccumulator_Root (OpenMerkleAccumulator marked_hash demo_storage) w')
      = Ok (MerkleTree_Hash marked_hash (Append_tree marked_hash [5, 6, 7]))"
  using tree_matches_accumulator [of demo_world marked_hash demo_storage "[5, 6, 7]"] marked_nonzero_hashes by auto

section \<open>Summarising\<close>

lemma summaryFromMerkleTree_full:
  assumes "tree_for H d t xs" and "length xs = 2 ^ d" and "d \<le> 63"
  shows "\<exists>t'. summaryFromMerkleTree H t u = (Ok t', u) \<and> tree_for H d t' xs"
proof (cases "d = 0")
  case True
  then show ?thesis using assms tree_for_Size [OF assms(1)] by (auto simp: summaryFromMerkleTree_def op_simps)
next
  case False
  have "unat ((2::u64) ^ d) \<noteq> 1" using False assms(3) unat_pow2 [of d] by simp
  then have "(2::u64) ^ d \<noteq> 1" by (metis unat_1)
  then show ?thesis using False assms tree_for_Size [OF assms(1)] tree_for_Hash [OF assms(1)] tree_for.summary [of xs d H]
    by (auto simp: summaryFromMerkleTree_def op_simps)
qed

lemma SummarizeUpTo_tree:
  "tree_for H d t xs \<Longrightarrow> d \<le> 63 \<Longrightarrow> unat num \<le> length xs
   \<Longrightarrow> \<exists>t'. MerkleTree_SummarizeUpTo H t num u = (Ok t', u) \<and> tree_for H d t' xs"
proof (induction arbitrary: num rule: tree_for.induct)
  case (node d l xs r ys)
  let ?t = "NewMerkleInternal H l r"
  have t: "tree_for H (Suc d) ?t (xs @ ys)" by (rule tree_for.node [OF node(1-4)])
  have c: "unat ((2::u64) ^ Suc d) = 2 ^ Suc d" using node.prems(1) by (intro unat_pow2) simp
  have "length xs \<le> 2 ^ d" by (rule tree_for_length [OF node(1)])
  moreover have "(2::nat) ^ d < 2 ^ 64" using node.prems(1) by (intro power_strict_increasing) simp_all
  ultimately have lx: "unat (of_nat (length xs) :: u64) = length xs" by (intro unat_of_nat_u64) simp
  have sl: "MerkleTree_Size l = of_nat (length xs)" using tree_for_Size [OF node(1)] by simp
  have cap: "MerkleTree_Capacity ?t = 2 ^ Suc d" using tree_for_Size [OF t] by simp
  have run: "MerkleTree_SummarizeUpTo H ?t num =
     (if num = 2 ^ Suc d then summaryFromMerkleTree H ?t
      else if num \<le> of_nat (length xs)
        then bnd (MerkleTree_SummarizeUpTo H l num) (\<lambda>l. ret (NewMerkleInternal H l r))
        else bnd (summaryFromMerkleTree H l) (\<lambda>l.
             bnd (MerkleTree_SummarizeUpTo H r (num - of_nat (length xs))) (\<lambda>r. ret (NewMerkleInternal H l r))))"
    using cap sl by (simp add: NewMerkleInternal_def Let_def)
  consider "num = 2 ^ Suc d" | "num \<noteq> 2 ^ Suc d" "num \<le> of_nat (length xs)" | "num \<noteq> 2 ^ Suc d" "\<not> num \<le> of_nat (length xs)" by blast
  then show ?case
  proof cases
    case 1
    then have "length (xs @ ys) = 2 ^ Suc d" using node.prems(2) c tree_for_length [OF t] by simp
    then show ?thesis unfolding run using 1 summaryFromMerkleTree_full [OF t _ node.prems(1)] by simp
  next
    case 2
    then have "unat num \<le> length xs" using lx by (simp add: word_le_nat_alt)
    then obtain l' where "MerkleTree_SummarizeUpTo H l num u = (Ok l', u)" "tree_for H d l' xs"
      using node.IH(1) [of num] node.prems(1) by auto
    then show ?thesis unfolding run using 2 tree_for.node [OF _ node(2-4)] by (auto simp: op_simps)
  next
    case 3
    then have g: "length xs < unat num" using lx by (simp add: word_le_nat_alt)
    then have "ys \<noteq> []" using node.prems(2) by auto
    then have x: "length xs = 2 ^ d" using node(3) by simp
    obtain l' where l': "summaryFromMerkleTree H l u = (Ok l', u)" "tree_for H d l' xs"
      using summaryFromMerkleTree_full [OF node(1) x] node.prems(1) by auto
    have "unat (num - of_nat (length xs)) = unat num - length xs" using 3 lx by (simp add: unat_sub)
    moreover have "unat num - length xs \<le> length ys" using node.prems(2) by simp
    ultimately obtain r' where "MerkleTree_SummarizeUpTo H r (num - of_nat (length xs)) u = (Ok r', u)" "tree_for H d r' ys"
      using node.IH(2) [of "num - of_nat (length xs)"] node.prems by auto
    then show ?thesis unfolding run using 3 l' tree_for.node [OF l'(2) _ node(3,4)] by (auto simp: op_simps)
  qed
qed (auto simp: op_simps intro: tree_for.intros)

section \<open>Serialised trees\<close>

primrec cached :: "(bytes \<Rightarrow> bytes) \<Rightarrow> MerkleTree \<Rightarrow> bool" where
  "cached H (merkleTreeLeaf h) = True"
| "cached H (merkleEmpty c) = True"
| "cached H (merkleInternal h n c l r) = (merkleInternal h n c l r = NewMerkleInternal H l r \<and> cached H l \<and> cached H r)"
| "cached H (merkleCompleteSubtreeSummary h c) = True"

primrec ser :: "MerkleTree \<Rightarrow> bytes" where
  "ser (merkleTreeLeaf h) = SerializedLeaf # hash_Bytes h"
| "ser (merkleEmpty c) = SerializedEmptySubtree # be_bytes 8 (unat c)"
| "ser (merkleInternal h n c l r) = SerializedInternalNode # ser l @ ser r"
| "ser (merkleCompleteSubtreeSummary h c) = SerializedSubtreeSummary # be_bytes 8 (unat c) @ hash_Bytes h"

lemma Serialize_ser: "MerkleTree_Serialize t out = (Ok (), out @ ser t)"
  by (induction t arbitrary: out) (simp_all add: op_simps WriteBytes_def Uint64ToWriter_def)

lemma tree_for_cached: "tree_for H d t xs \<Longrightarrow> cached H t"
  by (induction rule: tree_for.induct) (simp_all add: NewMerkleInternal_def)

lemma read_hash: "HashFromReader (hash_Bytes h @ rest) = (Ok h, rest)"
  using read_written(1) [of h rest] by (simp add: HashToWriter_def WriteBytes_def)

lemma read_u64: "Uint64FromReader (be_bytes 8 (unat v) @ rest) = (Ok v, rest)"
  using read_written(3) [of v rest] by (simp add: Uint64ToWriter_def WriteBytes_def)

lemma read_tag: "ReadFull (Suc 0) (b # rest) = (Ok [b], rest)"
  by (simp add: ReadFull_def)

lemma tree_reader_internal: "tree_reader (Suc fuel) H (SerializedInternalNode # bs) =
   bnd (tree_reader fuel H) (\<lambda>left. bnd (tree_reader fuel H) (\<lambda>right. ret (NewMerkleInternal H left right))) bs"
proof -
  have "bnd (ReadFull (Suc 0)) f (b # bs) = f [b] bs" for f :: "bytes \<Rightarrow> MerkleTree reader" and b
    by (rule bnd_run(1)) (rule read_tag)
  then show ?thesis by simp
qed

lemma tree_reader_ser:
  "cached H t \<Longrightarrow> length (ser t) \<le> fuel \<Longrightarrow> tree_reader (Suc fuel) H (ser t @ rest) = (Ok t, rest)"
proof (induction t arbitrary: fuel rest)
  case (merkleInternal h n c l r)
  obtain f where f: "fuel = Suc f" using merkleInternal.prems(2) by (cases fuel) auto
  have "length (ser l) \<le> f" "length (ser r) \<le> f" using merkleInternal.prems(2) f by simp_all
  then have "tree_reader fuel H (ser l @ ser r @ rest) = (Ok l, ser r @ rest)" "tree_reader fuel H (ser r @ rest) = (Ok r, rest)"
    using merkleInternal unfolding f by simp_all
  then have "tree_reader (Suc fuel) H (ser (merkleInternal h n c l r) @ rest) = (Ok (NewMerkleInternal H l r), rest)"
    by (simp add: op_simps tree_reader_internal del: tree_reader.simps)
  moreover have "merkleInternal h n c l r = NewMerkleInternal H l r" using merkleInternal.prems(1) by simp
  ultimately show ?case by (simp only:)
qed (simp_all add: op_simps read_tag read_hash read_u64)


text \<open>C25: A tree built by appending leaves survives serialisation: reading what \<^verbatim>\<open>Serialize\<close> wrote gives
  the tree back, with its cached hashes, and leaves the rest of the input. Summarising its
  complete subtrees up to any number of its leaves succeeds and gives a tree with the same hash,
  size and capacity, which survives serialisation as well.\<close>

theorem trees_survive_storage:
  assumes "length xs \<le> 2 ^ 62" and "unat num \<le> length xs"
  shows "NewMerkleTreeFromReader H (snd (MerkleTree_Serialize (Append_tree H xs) []) @ rest) = (Ok (Append_tree H xs), rest)
    \<and> (\<exists>t. MerkleTree_SummarizeUpTo H (Append_tree H xs) num () = (Ok t, ())
        \<and> MerkleTree_Hash H t = mroot H xs \<and> MerkleTree_Size t = of_nat (length xs)
        \<and> MerkleTree_Capacity t = MerkleTree_Capacity (Append_tree H xs)
        \<and> NewMerkleTreeFromReader H (snd (MerkleTree_Serialize t []) @ rest) = (Ok t, rest))"
proof -
  have rt: "NewMerkleTreeFromReader H (snd (MerkleTree_Serialize t []) @ rest) = (Ok t, rest)" if "cached H t" for t
    using tree_reader_ser [OF that, of "length (ser t @ rest)" rest] by (simp add: NewMerkleTreeFromReader_def Serialize_ser del: tree_reader.simps)
  show ?thesis
  proof (cases "xs = []")
    case True
    then have e: "Append_tree H xs = merkleEmpty 0" by (simp add: Append_tree_def NewEmptyMerkleTree_def)
    then show ?thesis using rt [of "merkleEmpty 0"] True by (simp add: op_simps mroot_def del: MerkleTree_Serialize.simps)
  next
    case False
    obtain d where d: "d \<le> 62" "tree_for H d (Append_tree H xs) xs"
      using Append_tree_for [OF False assms(1), of H] by auto
    obtain t where t: "MerkleTree_SummarizeUpTo H (Append_tree H xs) num () = (Ok t, ())" "tree_for H d t xs"
      using SummarizeUpTo_tree [OF d(2) _ assms(2)] d(1) by auto
    have h: "MerkleTree_Hash H t = mroot H xs"
      using tree_for_Hash [OF t(2)] tree_for_Hash [OF d(2)] Append_tree_Hash [OF assms(1), of H] by simp
    show ?thesis using t h rt [OF tree_for_cached [OF d(2)]] rt [OF tree_for_cached [OF t(2)]]
        tree_for_Size [OF t(2)] tree_for_Size [OF d(2)] by simp
  qed
qed

lemma trees_survive_storage_witness:
  "NewMerkleTreeFromReader marked_hash (snd (MerkleTree_Serialize (Append_tree marked_hash [5, 6, 7]) []) @ [9])
     = (Ok (Append_tree marked_hash [5, 6, 7]), [9])
   \<and> (\<exists>t. MerkleTree_SummarizeUpTo marked_hash (Append_tree marked_hash [5, 6, 7]) 2 () = (Ok t, ())
        \<and> MerkleTree_Hash marked_hash t = mroot marked_hash [5, 6, 7])"
  using trees_survive_storage [of "[5, 6, 7]" 2 marked_hash "[9]"] by auto

section \<open>Proofs of leaves\<close>

text \<open>Climbing from a leaf to the root along the siblings, with the index as a number.\<close>

primrec climb :: "(bytes \<Rightarrow> bytes) \<Rightarrow> hash list \<Rightarrow> hash \<Rightarrow> nat \<Rightarrow> hash" where
  "climb H [] h i = h"
| "climb H (s # p) h i = climb H p (if even i then nodeh H h s else nodeh H s h) (i div 2)"

primrec climb_pairs :: "(bytes \<Rightarrow> bytes) \<Rightarrow> hash list \<Rightarrow> hash \<Rightarrow> nat \<Rightarrow> (hash \<times> hash) set" where
  "climb_pairs H [] h i = {}"
| "climb_pairs H (s # p) h i = insert (if even i then (h, s) else (s, h))
     (climb_pairs H p (if even i then nodeh H h s else nodeh H s h) (i div 2))"

primrec tree_pairs :: "(bytes \<Rightarrow> bytes) \<Rightarrow> nat \<Rightarrow> hash list \<Rightarrow> (hash \<times> hash) set" where
  "tree_pairs H 0 xs = {}"
| "tree_pairs H (Suc d) xs = (if xs = [] then {} else
     insert (mt H d (take (2 ^ d) xs), mt H d (drop (2 ^ d) xs))
       (tree_pairs H d (take (2 ^ d) xs) \<union> tree_pairs H d (drop (2 ^ d) xs)))"

text \<open>The siblings of a leaf, from the bottom up.\<close>

primrec merkle_path :: "(bytes \<Rightarrow> bytes) \<Rightarrow> nat \<Rightarrow> hash list \<Rightarrow> nat \<Rightarrow> hash list" where
  "merkle_path H 0 xs i = []"
| "merkle_path H (Suc d) xs i = (if i < 2 ^ d
     then merkle_path H d (take (2 ^ d) xs) i @ [mt H d (drop (2 ^ d) xs)]
     else merkle_path H d (drop (2 ^ d) xs) (i - 2 ^ d) @ [mt H d (take (2 ^ d) xs)])"

definition safe_pairs :: "(bytes \<Rightarrow> bytes) \<Rightarrow> (hash \<times> hash) set \<Rightarrow> bool" where
  "safe_pairs H P \<longleftrightarrow> inj_on (\<lambda>(a, b). nodeh H a b) P \<and> (\<forall>(a, b)\<in>P. nodeh H a b \<noteq> 0)"

lemma even_and_1: "and i 1 = 0 \<longleftrightarrow> even (unat i)" for i :: u64
proof -
  have "and i 1 = 0 \<longleftrightarrow> even i" by (simp add: and_one_eq even_iff_mod_2_eq_zero)
  also have "\<dots> \<longleftrightarrow> even (unat i)" by transfer (simp add: even_nat_iff)
  finally show ?thesis .
qed

lemma fold_climb: "fst (fold (proof_step H) p (h, i)) = climb H p h (unat i)
  \<and> unat (snd (fold (proof_step H) p (h, i))) = unat i div 2 ^ length p"
proof (induction p arbitrary: h i)
  case (Cons s p)
  have "proof_step H s (h, i) = (if even (unat i) then nodeh H h s else nodeh H s h, i div 2)"
    by (simp add: proof_step_def even_and_1 nodeh_def)
  then show ?case using Cons by (simp add: unat_div div_mult2_eq)
qed simp

lemma IsCorrect_climb: "MerkleProof_IsCorrect H pr \<longleftrightarrow>
    unat (mp_LeafIndex pr) < 2 ^ length (mp_Proof pr)
    \<and> climb H (mp_Proof pr) (mp_LeafHash pr) (unat (mp_LeafIndex pr)) = mp_RootHash pr"
proof -
  obtain h i where f: "fold (proof_step H) (mp_Proof pr) (mp_LeafHash pr, mp_LeafIndex pr) = (h, i)" by (cases "fold (proof_step H) (mp_Proof pr) (mp_LeafHash pr, mp_LeafIndex pr)")
  then have "h = climb H (mp_Proof pr) (mp_LeafHash pr) (unat (mp_LeafIndex pr))"
    "unat i = unat (mp_LeafIndex pr) div 2 ^ length (mp_Proof pr)"
    using fold_climb [of H "mp_Proof pr" "mp_LeafHash pr" "mp_LeafIndex pr"] by simp_all
  moreover have "i = 0 \<longleftrightarrow> unat i = 0" by (simp add: unat_eq_0)
  ultimately show ?thesis by (auto simp: MerkleProof_IsCorrect_def f div_eq_0_iff)
qed

lemma climb_snoc: "climb H (p @ [s]) h i =
    (if even (i div 2 ^ length p) then nodeh H (climb H p h i) s else nodeh H s (climb H p h i))"
  by (induction p arbitrary: h i) (simp_all add: div_mult2_eq)

lemma climb_pairs_snoc: "climb_pairs H (p @ [s]) h i =
    insert (if even (i div 2 ^ length p) then (climb H p h i, s) else (s, climb H p h i)) (climb_pairs H p h i)"
  by (induction p arbitrary: h i) (auto simp: div_mult2_eq)

lemma climb_high: "climb H p h (i + 2 ^ length p * k) = climb H p h i \<and> climb_pairs H p h (i + 2 ^ length p * k) = climb_pairs H p h i"
proof (induction p arbitrary: h i)
  case (Cons s p)
  have "(i + 2 ^ length (s # p) * k) div 2 = i div 2 + 2 ^ length p * k" by simp
  moreover have "even (i + 2 ^ length (s # p) * k) \<longleftrightarrow> even i" by simp
  ultimately show ?case using Cons by (simp only: climb.simps climb_pairs.simps)
qed simp

lemma climb_path:
  "i < length xs \<Longrightarrow> length xs \<le> 2 ^ d \<Longrightarrow> climb H (merkle_path H d xs i) (leafh H (xs ! i)) i = mt H d xs"
proof (induction d arbitrary: xs i)
  case 0
  then show ?case by (cases xs) auto
next
  case (Suc d)
  have len: "length (merkle_path H d ys j) = d" for ys j
    by (induction d arbitrary: ys j) auto
  show ?case
  proof (cases "i < 2 ^ d")
    case True
    then show ?thesis using Suc.IH [of i "take (2 ^ d) xs"] Suc.prems by (auto simp: climb_snoc len)
  next
    case False
    define j where "j = i - 2 ^ d"
    have i: "i = j + 2 ^ d * 1" using False by (simp add: j_def)
    have "j < 2 ^ d" using Suc.prems False by (simp add: j_def)
    then have "i div 2 ^ d = 1" using i by (simp add: div_nat_eqI)
    moreover have "climb H (merkle_path H d (drop (2 ^ d) xs) j) (leafh H (xs ! i)) i = mt H d (drop (2 ^ d) xs)"
      using Suc.IH [of j "drop (2 ^ d) xs"] Suc.prems False climb_high [of H "merkle_path H d (drop (2 ^ d) xs) j" "leafh H (xs ! i)" j 1]
      by (simp add: len j_def)
    ultimately show ?thesis using False Suc.prems by (auto simp: climb_snoc len j_def)
  qed
qed

lemma climb_sound:
  "climb H p h i = mt H (length p) xs \<Longrightarrow> i < 2 ^ length p \<Longrightarrow> length xs \<le> 2 ^ length p \<Longrightarrow> h \<noteq> 0
   \<Longrightarrow> safe_pairs H (tree_pairs H (length p) xs \<union> climb_pairs H p h i)
   \<Longrightarrow> i < length xs \<and> h = leafh H (xs ! i)"
proof (induction p arbitrary: i xs rule: rev_induct)
  case Nil
  then show ?case by (cases xs) auto
next
  case (snoc s p)
  let ?d = "length p"
  define ab where "ab = (if even (i div 2 ^ ?d) then (climb H p h i, s) else (s, climb H p h i))"
  have c: "climb H (p @ [s]) h i = nodeh H (fst ab) (snd ab)" by (simp add: climb_snoc ab_def)
  have abP: "ab \<in> climb_pairs H (p @ [s]) h i" by (simp add: climb_pairs_snoc ab_def)
  have nz: "nodeh H (fst ab) (snd ab) \<noteq> 0"
    using snoc.prems(5) abP unfolding safe_pairs_def by (cases ab) auto
  have ne: "xs \<noteq> []" using snoc.prems(1) nz c by (auto simp del: mt.simps)
  let ?l = "take (2 ^ ?d) xs" and ?r = "drop (2 ^ ?d) xs"
  have tP: "(mt H ?d ?l, mt H ?d ?r) \<in> tree_pairs H (length (p @ [s])) xs" using ne by simp
  have "(\<lambda>(a, b). nodeh H a b) ab = (\<lambda>(a, b). nodeh H a b) (mt H ?d ?l, mt H ?d ?r)"
    using snoc.prems(1) c ne by (cases ab) simp
  then have eq: "ab = (mt H ?d ?l, mt H ?d ?r)"
    using snoc.prems(5) abP tP unfolding safe_pairs_def inj_on_def by blast
  have sub: "safe_pairs H (tree_pairs H ?d ?l \<union> climb_pairs H p h i)" "safe_pairs H (tree_pairs H ?d ?r \<union> climb_pairs H p h i)"
    using snoc.prems(5) ne unfolding safe_pairs_def by (auto simp: climb_pairs_snoc intro: inj_on_subset)
  show ?case
  proof (cases "i < 2 ^ ?d")
    case True
    then have "climb H p h i = mt H ?d ?l" using eq by (simp add: ab_def)
    then show ?thesis using snoc.IH [of i ?l] True snoc.prems(4) sub(1) by auto
  next
    case False
    define j where "j = i - 2 ^ ?d"
    have i: "i = j + 2 ^ ?d * 1" using False by (simp add: j_def)
    have j: "j < 2 ^ ?d" using snoc.prems(2) False by (simp add: j_def)
    then have "i div 2 ^ ?d = 1" using i by (simp add: div_nat_eqI)
    then have "climb H p h i = mt H ?d ?r" using eq by (simp add: ab_def)
    then have "climb H p h j = mt H ?d ?r" and cp: "climb_pairs H p h j = climb_pairs H p h i"
      using climb_high [of H p h j 1] i by simp_all
    then have "j < length ?r \<and> h = leafh H (?r ! j)"
      using snoc.IH [of j ?r] j snoc.prems(3,4) sub(2) by auto
    then show ?thesis using False by (auto simp: j_def)
  qed
qed


text \<open>C14: Merkle proofs against the root of a list of leaves are complete and sound. The siblings of every
  leaf form a proof that \<^verbatim>\<open>IsCorrect\<close> accepts; and an accepted proof of the tree's depth for a
  non-zero hash names an index that has a leaf, and the hash is that leaf's, unless the node hash
  collides, or gives zero, on a pair hashed for the tree or for the proof.\<close>

theorem merkle_proofs:
  assumes "xs \<noteq> []" and "length xs \<le> 2 ^ 63"
  shows "(\<forall>i < length xs. MerkleProof_IsCorrect H \<lparr>mp_RootHash = mroot H xs, mp_LeafHash = leafh H (xs ! i),
        mp_LeafIndex = of_nat i, mp_Proof = merkle_path H (bit_len (length xs - 1)) xs i\<rparr>)
   \<and> (MerkleProof_IsCorrect H pr \<and> mp_RootHash pr = mroot H xs \<and> length (mp_Proof pr) = bit_len (length xs - 1)
       \<and> mp_LeafHash pr \<noteq> 0
       \<and> safe_pairs H (tree_pairs H (bit_len (length xs - 1)) xs
           \<union> climb_pairs H (mp_Proof pr) (mp_LeafHash pr) (unat (mp_LeafIndex pr)))
     \<longrightarrow> unat (mp_LeafIndex pr) < length xs \<and> mp_LeafHash pr = leafh H (xs ! unat (mp_LeafIndex pr)))"
proof
  let ?d = "bit_len (length xs - 1)"
  have d: "length xs \<le> 2 ^ ?d" using bit_len_upper [of "length xs - 1"] assms(1) by (cases xs) auto
  have len: "length (merkle_path H e ys j) = e" for e ys j by (induction e arbitrary: ys j) auto
  show "\<forall>i < length xs. MerkleProof_IsCorrect H \<lparr>mp_RootHash = mroot H xs, mp_LeafHash = leafh H (xs ! i),
        mp_LeafIndex = of_nat i, mp_Proof = merkle_path H ?d xs i\<rparr>"
  proof (intro allI impI)
    fix i assume i: "i < length xs"
    then have "unat (of_nat i :: u64) = i" using assms(2) by (intro unat_of_nat_u64) simp
    then show "MerkleProof_IsCorrect H \<lparr>mp_RootHash = mroot H xs, mp_LeafHash = leafh H (xs ! i),
        mp_LeafIndex = of_nat i, mp_Proof = merkle_path H ?d xs i\<rparr>"
      using climb_path [OF i d, of H] i d by (simp add: IsCorrect_climb len mroot_def)
  qed
  show "MerkleProof_IsCorrect H pr \<and> mp_RootHash pr = mroot H xs \<and> length (mp_Proof pr) = ?d \<and> mp_LeafHash pr \<noteq> 0
       \<and> safe_pairs H (tree_pairs H ?d xs \<union> climb_pairs H (mp_Proof pr) (mp_LeafHash pr) (unat (mp_LeafIndex pr)))
     \<longrightarrow> unat (mp_LeafIndex pr) < length xs \<and> mp_LeafHash pr = leafh H (xs ! unat (mp_LeafIndex pr))"
    using climb_sound [of H "mp_Proof pr" "mp_LeafHash pr" "unat (mp_LeafIndex pr)" xs] d
    by (auto simp: IsCorrect_climb mroot_def)
qed

lemma merkle_proofs_witness:
  "unat (1 :: u64) < length [5, 6 :: hash] \<and> nodeh marked_hash (leafh marked_hash 5) (leafh marked_hash 6) = mroot marked_hash [5, 6]"
proof -
  let ?H = marked_hash
  have b: "bit_len (length [5, 6 :: hash] - 1) = 1" by (simp add: bit_len.simps)
  define pr where "pr = \<lparr>mp_RootHash = mroot ?H [5, 6], mp_LeafHash = leafh ?H 6, mp_LeafIndex = 1, mp_Proof = [leafh ?H 5]\<rparr>"
  have m: "mroot ?H [5, 6] = nodeh ?H (leafh ?H 5) (leafh ?H 6)" by (simp add: mroot_def b [simplified])
  have "MerkleProof_IsCorrect ?H pr" by (simp add: IsCorrect_climb pr_def m)
  moreover have "safe_pairs ?H (tree_pairs ?H 1 [5, 6] \<union> climb_pairs ?H (mp_Proof pr) (mp_LeafHash pr) (unat (mp_LeafIndex pr)))"
    by (simp add: safe_pairs_def pr_def) (simp add: nodeh_def)
  moreover have "mp_RootHash pr = mroot ?H [5, 6] \<and> length (mp_Proof pr) = bit_len (length [5, 6 :: hash] - 1) \<and> mp_LeafHash pr \<noteq> 0"
    unfolding b by (simp add: pr_def leafh_def)
  ultimately show ?thesis using merkle_proofs [of "[5, 6]" ?H pr] m unfolding b by (simp add: pr_def)
qed

section \<open>Trees from accumulators\<close>

text \<open>C40: A tree built from the accumulator of a single leaf does not have the accumulator's root: the
  partial of level 0, already a hashed leaf, becomes a leaf of the tree and is hashed again. The
  root is the hash of the leaf and the tree's hash is the hash of that hash.\<close>

theorem tree_from_accumulator_rehashes_leaf:
  assumes "leafh H x \<noteq> 0"
  shows "case Append_all H (NonpersistentMerkleAccumulator H) [x] NewNonpersistentMerkleAccumulator of
      (Ok _, acc) \<Rightarrow> fst (MerkleAccumulator_Root (NonpersistentMerkleAccumulator H) acc) = Ok (leafh H x)
        \<and> (\<exists>t. fst (NewMerkleTreeFromAccumulator H (NonpersistentMerkleAccumulator H) acc) = Ok (Some t)
            \<and> MerkleTree_Hash H t = leafh H (leafh H x))
    | _ \<Rightarrow> False"
proof -
  have b: "bit_len 0 = 0" "bit_len (Suc 0) = 1" by (simp_all add: bit_len.simps)
  define m where "m = \<lparr>ma_size = \<lparr>mbu_contents = 1\<rparr>, ma_partials = [Some (leafh H x)], ma_preimages = None\<rparr>"
  have a: "Append_all H (NonpersistentMerkleAccumulator H) [x] NewNonpersistentMerkleAccumulator = (Ok (), m)"
    by (simp add: Append_all_def MerkleAccumulator_Append_def NonpersistentMerkleAccumulator_def NewNonpersistentMerkleAccumulator_def
        op_simps on_size_def memory_uint64_defs CalcNumPartials_def Log2ceil_def mem_setPartial_def m_def leafh_def)
  have g: "mem_getPartial 0 m = (Ok (leafh H x), m)" by (simp add: mem_getPartial_def m_def)
  have s: "on_size MemoryBackedUint64_Get m = (Ok 1, m)" by (simp add: on_size_def memory_uint64_defs m_def)
  have r: "MerkleAccumulator_Root (NonpersistentMerkleAccumulator H) m = (Ok (leafh H x), m)"
    using assms b g s by (simp add: MerkleAccumulator_Root_def NonpersistentMerkleAccumulator_def
        op_simps CalcNumPartials_def Log2ceil_def Root_step_def Let_def)
  have p: "MerkleAccumulator_GetPartials (NonpersistentMerkleAccumulator H) m = (Ok [leafh H x], m)"
    using b g s by (simp add: MerkleAccumulator_GetPartials_def NonpersistentMerkleAccumulator_def op_simps CalcNumPartials_def Log2ceil_def)
  have "NewMerkleTreeFromAccumulator H (NonpersistentMerkleAccumulator H) m = (Ok (Some (merkleTreeLeaf (leafh H x))), m)"
    using assms p by (simp add: NewMerkleTreeFromAccumulator_def op_simps)
  then show ?thesis using a r by (simp add: leafh_def)
qed

lemma tree_from_accumulator_rehashes_leaf_witness:
  "fst (MerkleAccumulator_Root (NonpersistentMerkleAccumulator marked_hash)
      (snd (Append_all marked_hash (NonpersistentMerkleAccumulator marked_hash) [5] NewNonpersistentMerkleAccumulator)))
    = Ok (leafh marked_hash 5)"
proof -
  have "leafh marked_hash 5 \<noteq> 0" by (simp add: leafh_def)
  from tree_from_accumulator_rehashes_leaf [OF this] show ?thesis by (auto split: prod.splits result.splits)
qed

section \<open>Copies\<close>

context merkle_store
begin

lemma collect_partials:
  assumes "set ls \<subseteq> {..<room s}" and "set ls \<subseteq> {..<64}" and "good s"
  shows "\<exists>s'. collect ls (\<lambda>i. acc_getPartial acc (of_nat i)) s = (Ok (map (partial_at s) ls), s') \<and> good s' \<and> view s' = view s"
  using assms
proof (induction ls arbitrary: s)
  case (Cons l ls)
  obtain s1 where g: "acc_getPartial acc (of_nat l) s = (Ok (partial_at s l), s1)" "good s1"
    "size_of s1 = size_of s" "room s1 = room s" "partial_at s1 = partial_at s"
    using getPartial [of s l] Cons.prems by auto
  obtain s2 where "collect ls (\<lambda>i. acc_getPartial acc (of_nat i)) s1 = (Ok (map (partial_at s1) ls), s2)" "good s2" "view s2 = view s1"
    using Cons.IH [of s1] Cons.prems g by auto
  then show ?case using g by (auto simp: op_simps view_def)
qed (simp add: op_simps)

lemma NonPersistentClone_run:
  assumes st: "stores xs s" and len: "length xs < 2 ^ 63"
  shows "\<exists>m s'. MerkleAccumulator_NonPersistentClone acc s = (Ok m, s') \<and> stores xs s' \<and> mmem.stores H xs m"
proof -
  let ?n = "length xs" and ?k = "bit_len (length xs)"
  have st': "good s" "size_of s = of_nat ?n" "?k \<le> room s" using st by (simp_all add: stores_def)
  have k: "?k \<le> 63" using bit_len_le [OF len] by simp
  have num: "unat (CalcNumPartials (of_nat ?n)) = ?k"
    using k len by (simp add: CalcNumPartials_def Log2ceil_def)
  obtain s1 where g: "acc_size_Get acc s = (Ok (of_nat ?n), s1)" "good s1" "size_of s1 = size_of s" "room s1 = room s" "partial_at s1 = partial_at s"
    using size_Get [OF st'(1)] st'(2) by auto
  have "set [0..<?k] \<subseteq> {..<room s1}" "set [0..<?k] \<subseteq> {..<64}" using g(4) st'(3) k by auto
  then obtain s2 where c: "collect [0..<?k] (\<lambda>i. acc_getPartial acc (of_nat i)) s1 = (Ok (map (partial_at s) [0..<?k]), s2)" "good s2" "view s2 = view s1"
    using collect_partials [of "[0..<?k]" s1] g st'(3) k by auto
  define m where "m = \<lparr>ma_size = \<lparr>mbu_contents = of_nat ?n\<rparr>, ma_partials = map Some (map (partial_at s) [0..<?k]), ma_preimages = None\<rparr>"
  have r: "MerkleAccumulator_NonPersistentClone acc s = (Ok m, s2)"
    using g(1) c(1) num by (simp add: MerkleAccumulator_NonPersistentClone_def op_simps m_def)
  have "map (mem_partial_at m) [0..<?k] = map (partial_at s) [0..<?k]"
    by (rule map_cong) (simp_all add: mem_partial_at_def m_def)
  moreover have "mbu_contents (ma_size m) = of_nat ?n" "length (ma_partials m) = ?k" by (simp_all add: m_def)
  ultimately have "mmem.stores H xs m" unfolding mmem.stores_def using st by (simp only: stores_def) simp
  moreover have "stores xs s2" using c g st by (simp add: stores_def view_def)
  ultimately show ?thesis using r by blast
qed

end

text \<open>An in-memory copy of the accumulator in storage goes on as the original would.\<close>

lemma clone_continues:
  assumes "sysw w" and "slot_read w (NewSlot H sto 0) = 0" and "length (xs @ ys) < 2 ^ 63"
    and "nonzero_hashes H (xs @ ys)" and "\<And>x. length (H x) = 32"
  shows "\<exists>w' m w'' m'. Append_all H (OpenMerkleAccumulator H sto) xs w = (Ok (), w')
    \<and> MerkleAccumulator_NonPersistentClone (OpenMerkleAccumulator H sto) w' = (Ok m, w'')
    \<and> Append_all H (NonpersistentMerkleAccumulator H) ys m = (Ok (), m')
    \<and> fst (MerkleAccumulator_Root (NonpersistentMerkleAccumulator H) m') = Ok (mroot H (xs @ ys))"
proof -
  have g: "msto.stores H sto [] w"
    using assms(1,2) by (intro msto.stores_Nil) (simp_all add: sto_good_def sto_size_of_def word_slot_def)
  have l: "length xs < 2 ^ 63" using assms(3) by simp
  obtain w' where a: "Append_all H (OpenMerkleAccumulator H sto) xs w = (Ok (), w')" "msto.stores H sto xs w'"
    using msto.Append_all_stores [OF g, of xs] l nonzero_hashes_prefix [OF assms(4)] assms(5) by auto
  obtain m w'' where c: "MerkleAccumulator_NonPersistentClone (OpenMerkleAccumulator H sto) w' = (Ok m, w'')" "mmem.stores H xs m"
    using msto.NonPersistentClone_run [OF a(2) l] by blast
  obtain m' where b: "Append_all H (NonpersistentMerkleAccumulator H) ys m = (Ok (), m')" "mmem.stores H (xs @ ys) m'"
    using mmem.Append_all_stores [OF c(2) assms(3-5)] by blast
  show ?thesis using a c b mmem.Root_run [OF b(2) assms(3)] by auto
qed

end
