(* ===== verification/FeatureFlags.thy ===== *)
theory FeatureFlags
  imports Concrete
begin

text \<open>
  Feature flags (\<^verbatim>\<open>arbos/features/features.go\<close>): one stored 256-bit number, a bit per feature.
\<close>

record Features =
  feat_features :: StorageSlot

definition increasedCalldata :: nat where
  "increasedCalldata = 0"

text \<open>\<^verbatim>\<open>big.Int.SetBit\<close> and \<^verbatim>\<open>big.Int.Bit\<close>.\<close>

definition SetBit :: "int \<Rightarrow> nat \<Rightarrow> bool \<Rightarrow> int" where
  "SetBit bi index b = (if b then set_bit index bi else unset_bit index bi)"

definition Features_setBit :: "Features \<Rightarrow> nat \<Rightarrow> bool \<Rightarrow> (world, unit) op" where
  "Features_setBit f index enabled =
     bnd (StorageBackedBigUint_Get (feat_features f)) (\<lambda>bi.
     StorageBackedBigUint_SetChecked (feat_features f) (SetBit bi index enabled))"

definition Features_isSet :: "Features \<Rightarrow> nat \<Rightarrow> (world, bool) op" where
  "Features_isSet f index =
     bnd (StorageBackedBigUint_Get (feat_features f)) (\<lambda>bi. ret (bit bi index))"

definition SetCalldataPriceIncrease :: "Features \<Rightarrow> bool \<Rightarrow> (world, unit) op" where
  "SetCalldataPriceIncrease f enabled = Features_setBit f increasedCalldata enabled"

definition IsIncreasedCalldataPriceEnabled :: "Features \<Rightarrow> (world, bool) op" where
  "IsIncreasedCalldataPriceEnabled f = Features_isSet f increasedCalldata"

definition OpenFeatures :: "(bytes \<Rightarrow> bytes) \<Rightarrow> Storage \<Rightarrow> Features" where
  "OpenFeatures H sto = \<lparr>feat_features = NewSlot H sto 0\<rparr>"


lemma SetBit_range:
  assumes "0 \<le> bi" and "bi < twoToThe256" and "i < 256"
  shows "0 \<le> SetBit bi i b \<and> SetBit bi i b < twoToThe256"
proof -
  have k: "take_bit 256 bi = bi" using assms(1,2) by (simp add: twoToThe256_def take_bit_int_eq_self_iff)
  have "take_bit 256 (SetBit bi i b) = SetBit bi i b"
    using assms(3) k by (simp add: SetBit_def take_bit_set_bit_eq take_bit_unset_bit_eq)
  then show ?thesis unfolding take_bit_int_eq_self_iff twoToThe256_def by simp
qed

lemma bit_SetBit: "bit (SetBit bi i b) j = (if j = i then b else bit bi j)"
  by (auto simp: SetBit_def bit_simps)

lemma isSet_run:
  assumes "sysw w"
  shows "Features_isSet f j w = (Ok (bit (uint (slot_read w (feat_features f))) j), tick StorageAccessRead StorageReadCost w)"
  using assms by (simp add: Features_isSet_def bnd_def sys_simps op_simps)

text \<open>C35: Switching one feature on or off changes that feature and no other: for the 256 features the stored word has
  room for, the switch succeeds, every feature afterwards reads as before but the one that was set, which reads as
  set, and nothing else of the storage and of the balances changes.\<close>

theorem feature_switch:
  assumes "sysw w" and "i < 256"
  shows "\<exists>w'. Features_setBit f i b w = (Ok (), w')
    \<and> (\<forall>j. fst (Features_isSet f j w') = (if j = i then Ok b else fst (Features_isSet f j w)))
    \<and> same_except {feat_features f} w w'"
proof -
  let ?bi = "uint (slot_read w (feat_features f))"
  let ?w1 = "tick StorageAccessRead StorageReadCost w"
  have "?bi < twoToThe256" using uint_lt_pow [of "slot_read w (feat_features f)"] by (simp add: twoToThe256_def)
  then have r: "0 \<le> SetBit ?bi i b \<and> SetBit ?bi i b < twoToThe256" using assms(2) by (simp add: SetBit_range)
  define w' where "w' = slot_write (feat_features f) (BigBytesToHash (SetBit ?bi i b))
      (tick StorageAccessWrite (WriteCost (BigBytesToHash (SetBit ?bi i b))) ?w1)"
  have "Features_setBit f i b w = (Ok (), w')"
    using assms(1) r by (simp add: Features_setBit_def bnd_def sys_simps w'_def)
  moreover have "uint (slot_read w' (feat_features f)) = SetBit ?bi i b"
    using r uint_BigBytesToHash [of "SetBit ?bi i b"] by (simp add: w'_def)
  moreover have "sysw w'" using assms(1) by (simp add: w'_def)
  ultimately show ?thesis
    using assms(1) by (intro exI [of _ w'])
      (simp add: isSet_run bit_SetBit, simp add: w'_def same_except_def)
qed

lemma feature_switch_witness:
  "\<exists>w'. Features_setBit (OpenFeatures demo_hash demo_storage) increasedCalldata True demo_world = (Ok (), w')
    \<and> fst (Features_isSet (OpenFeatures demo_hash demo_storage) increasedCalldata w') = Ok True"
  using feature_switch [of demo_world increasedCalldata "OpenFeatures demo_hash demo_storage" True]
  by (auto simp: increasedCalldata_def)

end
