(* ===== verification/FilteredTransactions.thy ===== *)
theory FilteredTransactions
  imports Concrete
begin

text \<open>
  The register of transactions that are refused (\<^verbatim>\<open>arbos/filteredTransactions/state.go\<close>), kept in the storage of
  an account of its own. Before the version that introduces it the register is nil, here \<open>None\<close>.
\<close>

definition presentHash :: hash where
  "presentHash = BytesToHash [1]"

record FilteredTransactionsState =
  fts_store :: Storage

text \<open>\<open>account\<close> is geth's \<^verbatim>\<open>types.FilteredTransactionsStateAddress\<close>.\<close>

definition OpenFilteredTransactions :: "address \<Rightarrow> FilteredTransactionsState" where
  "OpenFilteredTransactions account = \<lparr>fts_store = KVStorage account\<rparr>"

definition FilteredTransactions_Add ::
  "(bytes \<Rightarrow> bytes) \<Rightarrow> FilteredTransactionsState option \<Rightarrow> hash \<Rightarrow> (world, unit) op" where
  "FilteredTransactions_Add H s txHash = (case s of None \<Rightarrow> ret ()
     | Some st \<Rightarrow> Storage_Set H (fts_store st) txHash presentHash)"

definition FilteredTransactions_Delete ::
  "(bytes \<Rightarrow> bytes) \<Rightarrow> FilteredTransactionsState option \<Rightarrow> hash \<Rightarrow> (world, unit) op" where
  "FilteredTransactions_Delete H s txHash = (case s of None \<Rightarrow> ret ()
     | Some st \<Rightarrow> Storage_Clear H (fts_store st) txHash)"

definition IsFiltered :: "(bytes \<Rightarrow> bytes) \<Rightarrow> FilteredTransactionsState option \<Rightarrow> hash \<Rightarrow> (world, bool) op" where
  "IsFiltered H s txHash = (case s of None \<Rightarrow> ret False
     | Some st \<Rightarrow> bnd (Storage_Get H (fts_store st) txHash) (\<lambda>val. ret (val = presentHash)))"

definition IsFilteredFree :: "(bytes \<Rightarrow> bytes) \<Rightarrow> FilteredTransactionsState option \<Rightarrow> hash \<Rightarrow> world \<Rightarrow> bool" where
  "IsFilteredFree H s txHash w = (case s of None \<Rightarrow> False
     | Some st \<Rightarrow> Storage_GetFree H (fts_store st) txHash w = presentHash)"

definition DeleteFree :: "(bytes \<Rightarrow> bytes) \<Rightarrow> FilteredTransactionsState option \<Rightarrow> hash \<Rightarrow> world \<Rightarrow> world" where
  "DeleteFree H s txHash w = (case s of None \<Rightarrow> w
     | Some st \<Rightarrow> Storage_ClearFree H (fts_store st) txHash w)"

section \<open>The register as a set\<close>

text \<open>The transactions among \<open>K\<close> that are filtered.\<close>

definition filtered :: "(bytes \<Rightarrow> bytes) \<Rightarrow> FilteredTransactionsState option \<Rightarrow> hash set \<Rightarrow> world \<Rightarrow> hash set" where
  "filtered H s K w = {h \<in> K. IsFilteredFree H s h w}"

text \<open>Operations on the register, and what they mean for a set.\<close>

datatype filter_op = Filter hash | Unfilter hash | UnfilterFree hash

fun run_filter :: "(bytes \<Rightarrow> bytes) \<Rightarrow> FilteredTransactionsState option \<Rightarrow> filter_op \<Rightarrow> (world, unit) op" where
  "run_filter H s (Filter h) = FilteredTransactions_Add H s h"
| "run_filter H s (Unfilter h) = FilteredTransactions_Delete H s h"
| "run_filter H s (UnfilterFree h) = (\<lambda>w. (Ok (), DeleteFree H s h w))"

fun filter_set :: "filter_op \<Rightarrow> hash set \<Rightarrow> hash set" where
  "filter_set (Filter h) F = insert h F"
| "filter_set (Unfilter h) F = F - {h}"
| "filter_set (UnfilterFree h) F = F - {h}"

fun filter_hash :: "filter_op \<Rightarrow> hash" where
  "filter_hash (Filter h) = h"
| "filter_hash (Unfilter h) = h"
| "filter_hash (UnfilterFree h) = h"

lemma presentHash_eq: "presentHash = 1"
  by (simp add: presentHash_def BytesToHash_def be_val_def)

lemma IsFiltered_run:
  "sysw w \<Longrightarrow> fst (IsFiltered H s h w) = Ok (IsFilteredFree H s h w)"
  by (simp add: IsFiltered_def IsFilteredFree_def bnd_def op_simps sys_simps Storage_Get_slot slot_read_def slot_at_def
      Storage_GetFree_def split: option.split)

lemma Storage_ClearFree_slot: "Storage_ClearFree H s key w = slot_write (slot_at H s key) 0 w"
  by (simp add: Storage_ClearFree_def slot_write_def slot_at_def)

text \<open>Every operation is a write of one slot.\<close>

lemma filter_step:
  assumes "sysw w" and "inj_on (mapAddress H (fts_store st)) K" and "filter_hash f \<in> K"
  shows "\<exists>w'. run_filter H (Some st) f w = (Ok (), w') \<and> sysw w'
    \<and> filtered H (Some st) K w' = filter_set f (filtered H (Some st) K w) \<and> balance_of w' = balance_of w"
proof -
  define v where "v = (case f of Filter _ \<Rightarrow> presentHash | _ \<Rightarrow> 0)"
  have "\<exists>w'. run_filter H (Some st) f w = (Ok (), w') \<and> sysw w' \<and> balance_of w' = balance_of w
      \<and> (\<forall>ss. slot_read w' ss = slot_read (slot_write (slot_at H (fts_store st) (filter_hash f)) v w) ss)"
    using assms(1)
    by (cases f) (simp_all add: v_def FilteredTransactions_Add_def FilteredTransactions_Delete_def DeleteFree_def Storage_Clear_def
        Storage_Set_slot sys_simps slot_read_write Storage_ClearFree_slot)
  then obtain w' where w': "run_filter H (Some st) f w = (Ok (), w')" "sysw w'" "balance_of w' = balance_of w"
    "\<And>ss. slot_read w' ss = slot_read (slot_write (slot_at H (fts_store st) (filter_hash f)) v w) ss" by blast
  have g: "IsFilteredFree H (Some st) h x \<longleftrightarrow> slot_read x (slot_at H (fts_store st) h) = presentHash" for h x
    by (simp add: IsFilteredFree_def Storage_GetFree_def slot_read_def slot_at_def)
  have "slot_at H (fts_store st) h = slot_at H (fts_store st) (filter_hash f) \<longleftrightarrow> h = filter_hash f" if "h \<in> K" for h
    using assms(2,3) that by (auto simp: slot_at_def inj_on_def)
  then have "filtered H (Some st) K w' = filter_set f (filtered H (Some st) K w)"
    using assms(3) by (cases f) (auto simp: filtered_def g w'(4) slot_read_write v_def presentHash_eq)
  with w' show ?thesis by blast
qed


lemma filter_steps:
  assumes "sysw w" and "inj_on (mapAddress H (fts_store st)) K" and "filter_hash ` set fs \<subseteq> K"
  shows "\<exists>w'. for_each fs (run_filter H (Some st)) w = (Ok (), w') \<and> sysw w'
    \<and> filtered H (Some st) K w' = fold filter_set fs (filtered H (Some st) K w) \<and> balance_of w' = balance_of w"
  using assms
proof (induction fs arbitrary: w)
  case (Cons f fs)
  obtain w1 where w1: "run_filter H (Some st) f w = (Ok (), w1)" "sysw w1"
    "filtered H (Some st) K w1 = filter_set f (filtered H (Some st) K w)" "balance_of w1 = balance_of w"
    using filter_step [OF Cons.prems(1,2), of f] Cons.prems(3) by auto
  with Cons.IH [OF w1(2) Cons.prems(2)] Cons.prems(3) show ?case by (auto simp: bnd_run)
qed (simp add: op_simps)

text \<open>C34: The register of filtered transactions is a set: after any sequence of additions and removals, charged or free,
  over transactions whose slots do not collide, a transaction is reported as filtered, by the charged and by the
  free query alike, exactly when the same sequence on a set leaves it a member, and no balance changes.\<close>

theorem filtered_refines_set:
  assumes "sysw w" and "inj_on (mapAddress H (fts_store st)) K" and "filter_hash ` set fs \<subseteq> K" and "h \<in> K"
  shows "\<exists>w'. for_each fs (run_filter H (Some st)) w = (Ok (), w') \<and> balance_of w' = balance_of w
    \<and> fst (IsFiltered H (Some st) h w') = Ok (h \<in> fold filter_set fs (filtered H (Some st) K w))
    \<and> IsFilteredFree H (Some st) h w' = (h \<in> fold filter_set fs (filtered H (Some st) K w))"
proof -
  obtain w' where w': "for_each fs (run_filter H (Some st)) w = (Ok (), w')" "sysw w'" "balance_of w' = balance_of w"
    "filtered H (Some st) K w' = fold filter_set fs (filtered H (Some st) K w)"
    using filter_steps [OF assms(1-3)] by blast
  have "IsFilteredFree H (Some st) h w' \<longleftrightarrow> h \<in> filtered H (Some st) K w'"
    using assms(4) by (simp add: filtered_def)
  with w' show ?thesis by (auto simp: IsFiltered_run)
qed

lemma demo_slots_differ: "inj_on (mapAddress demo_hash (KVStorage 9)) {5, 6}"
  by (simp add: inj_on_def mapAddress_same_page)

lemma filtered_refines_set_witness:
  "\<exists>w'. for_each [Filter 5, Filter 6, UnfilterFree 5] (run_filter demo_hash (Some (OpenFilteredTransactions 9))) demo_world = (Ok (), w')
    \<and> fst (IsFiltered demo_hash (Some (OpenFilteredTransactions 9)) 6 w') = Ok True"
  using filtered_refines_set [of demo_world demo_hash "OpenFilteredTransactions 9" "{5, 6}" "[Filter 5, Filter 6, UnfilterFree 5]" 6]
    demo_slots_differ
  by (auto simp: OpenFilteredTransactions_def)

end
