(* ===== verification/ArbosState.thy ===== *)
theory ArbosState
  imports L1Accounting Retryables MultiGasPricing Blockhash AddressTable MerkleTree FeatureFlags FilteredTransactions
begin

text \<open>
  The state of ArbOS as a whole (\<^verbatim>\<open>arbos/arbosState/arbosstate.go\<close>): how it is opened, where its parts live below
  the account of ArbOS, and how it is brought from one version to the next. What the upgrades do outside the
  parts modelled here, to the parameters of the Stylus programs and to the code of accounts, is a parameter.
\<close>

section \<open>Opening\<close>

record Programs =
  prg_backingStorage :: Storage
  prg_ArbosVersion :: u64

record ArbosState =
  aos_arbosVersion :: u64
  aos_upgradeVersion :: StorageSlot
  aos_upgradeTimestamp :: StorageSlot
  aos_networkFeeAccount :: StorageSlot
  aos_l1PricingState :: L1PricingState
  aos_l2PricingState :: L2PricingState
  aos_retryableState :: RetryableState
  aos_addressTable :: Storage
  aos_chainOwners :: Storage
  aos_nativeTokenOwners :: Storage
  aos_transactionFilterers :: Storage
  aos_filteredTransactions :: "FilteredTransactionsState option"
  aos_sendMerkle :: "world MerkleAccumulator"
  aos_programs :: Programs
  aos_features :: Features
  aos_blockhashes :: Storage
  aos_chainId :: StorageSlot
  aos_chainConfig :: Storage
  aos_genesisBlockNum :: StorageSlot
  aos_infraFeeAccount :: StorageSlot
  aos_brotliCompressionLevel :: StorageSlot
  aos_nativeTokenEnabledTime :: StorageSlot
  aos_transactionFilteringEnabledTime :: StorageSlot
  aos_filteredFundsRecipient :: StorageSlot
  aos_collectTips :: StorageSlot
  aos_backingStorage :: Storage


abbreviation (input) versionOffset :: u64 where "versionOffset \<equiv> 0"

text \<open>\<open>transactionFilteringVersion\<close> is the version from which the register of filtered transactions exists.\<close>

abbreviation (input) transactionFilteringVersion :: u64 where "transactionFilteringVersion \<equiv> 60"

text \<open>The accounts that hold the state of ArbOS and the filtered transactions; geth fixes them.\<close>

record state_accounts =
  ArbosStateAddress :: address
  FilteredTransactionsStateAddress :: address

definition openFilteredTransactions :: "state_accounts \<Rightarrow> u64 \<Rightarrow> FilteredTransactionsState option" where
  "openFilteredTransactions A arbosVersion =
     (if arbosVersion \<ge> transactionFilteringVersion
      then Some (OpenFilteredTransactions (FilteredTransactionsStateAddress A)) else None)"

text \<open>The parts of the state, at their offsets and in their subspaces, for a given version.\<close>

definition arbosStateAt :: "(bytes \<Rightarrow> bytes) \<Rightarrow> state_accounts \<Rightarrow> u64 \<Rightarrow> ArbosState" where
  "arbosStateAt H A arbosVersion =
     (let backingStorage = KVStorage (ArbosStateAddress A);
          sub = (\<lambda>i. OpenSubStorage H backingStorage [i]);
          slot = NewSlot H backingStorage in
      \<lparr>
       aos_arbosVersion = arbosVersion,
       aos_upgradeVersion = slot 1,
       aos_upgradeTimestamp = slot 2,
       aos_networkFeeAccount = slot 3,
       aos_l1PricingState = OpenL1PricingState (sub 0) arbosVersion,
       aos_l2PricingState = OpenL2PricingState (sub 1) arbosVersion,
       aos_retryableState = OpenRetryableState (sub 2) arbosVersion,
       aos_addressTable = sub 3,
       aos_chainOwners = sub 4,
       aos_nativeTokenOwners = sub 10,
       aos_transactionFilterers = sub 11,
       aos_filteredTransactions = openFilteredTransactions A arbosVersion,
       aos_sendMerkle = OpenMerkleAccumulator H (sub 5),
       aos_programs = \<lparr>prg_backingStorage = sub 8, prg_ArbosVersion = arbosVersion\<rparr>,
       aos_features = OpenFeatures H (sub 9),
       aos_blockhashes = sub 6,
       aos_chainId = slot 4,
       aos_chainConfig = OpenStorageBackedBytes H backingStorage [7],
       aos_genesisBlockNum = slot 5,
       aos_infraFeeAccount = slot 6,
       aos_brotliCompressionLevel = slot 7,
       aos_nativeTokenEnabledTime = slot 8,
       aos_transactionFilteringEnabledTime = slot 9,
       aos_filteredFundsRecipient = slot 10,
       aos_collectTips = slot 11,
       aos_backingStorage = backingStorage\<rparr>)"

definition OpenArbosState :: "(bytes \<Rightarrow> bytes) \<Rightarrow> state_accounts \<Rightarrow> (world, ArbosState) op" where
  "OpenArbosState H A =
     bnd (Storage_GetUint64ByUint64 H (KVStorage (ArbosStateAddress A)) versionOffset) (\<lambda>arbosVersion.
     if arbosVersion = 0 then throw (ErrMsg ''ArbOS uninitialized'')
     else ret (arbosStateAt H A arbosVersion))"

text \<open>\<open>Restricted d m\<close>: \<^verbatim>\<open>x, err := m(); state.Restrict(err)\<close>. A system burner logs the error and goes on with the zero
  value \<open>d\<close>; a metered burner must not be used here at all.\<close>

definition Restricted :: "'a \<Rightarrow> (world, 'a) op \<Rightarrow> (world, 'a) op" where
  "Restricted d m = (\<lambda>w. case m w of
      (Panic p, w') \<Rightarrow> (Panic p, w')
    | (r, w') \<Rightarrow> (case burner_of w' of
        Metered _ \<Rightarrow> (Panic ''A metered burner was used for access-controlled work'', w')
      | System _ \<Rightarrow> (case r of Ok x \<Rightarrow> (Ok x, w') | _ \<Rightarrow> (Ok d, w'))))"

section \<open>Upgrades\<close>

definition ScheduleArbOSUpgrade :: "ArbosState \<Rightarrow> u64 \<Rightarrow> u64 \<Rightarrow> (world, unit) op" where
  "ScheduleArbOSUpgrade state newVersion timestamp =
     bnd (StorageBackedUint64_Set (aos_upgradeVersion state) newVersion) (\<lambda>_.
     StorageBackedUint64_Set (aos_upgradeTimestamp state) timestamp)"

definition GetScheduledUpgrade :: "ArbosState \<Rightarrow> (world, u64 \<times> u64) op" where
  "GetScheduledUpgrade state =
     bnd (StorageBackedUint64_Get (aos_upgradeVersion state)) (\<lambda>version.
     bnd (StorageBackedUint64_Get (aos_upgradeTimestamp state)) (\<lambda>timestamp. ret (version, timestamp)))"

definition SetBrotliCompressionLevel :: "ArbosState \<Rightarrow> u64 \<Rightarrow> (world, unit) op" where
  "SetBrotliCompressionLevel state val =
     (if val \<le> 11 then StorageBackedUint64_Set (aos_brotliCompressionLevel state) val
      else throw (ErrMsg ''invalid brotli compression level''))"

text \<open>What an upgrade does outside the modelled parts: it initialises the parameters of the programs, reads, upgrades and
  saves them, installs the contract of block hashes, and gives new precompiles their code.\<close>

record upgrade_env =
  InitializePrograms :: "u64 \<Rightarrow> (world, unit) op"
  UpgradeProgramParams :: "u64 \<Rightarrow> (world, unit) op"
  InstallHistoryContract :: "(world, unit) op"
  InstallPrecompiles :: "u64 \<Rightarrow> (world, unit) op"

definition ensure :: "(world, 'a) op \<Rightarrow> (world, 'a) op" where
  "ensure m = (\<lambda>w. case m w of
      (Err e, w') \<Rightarrow> (Panic ''Failed to upgrade ArbOS version'', w')
    | r \<Rightarrow> r)"

definition upgradeChanges ::
  "(bytes \<Rightarrow> bytes) \<Rightarrow> upgrade_env \<Rightarrow> bool \<Rightarrow> ArbosState \<Rightarrow> u64 \<Rightarrow> (world, unit) op" where
  "upgradeChanges H U firstTime state next =
     (let l1 = aos_l1PricingState state; l2 = aos_l2PricingState state in
      if next = 2 then ensure (L1_SetLastSurplus H l1 0 1)
      else if next = 3 then
        bnd (ensure (L1_SetPerBatchGasCost H l1 0)) (\<lambda>_. ensure (L1_SetAmortizedCostCapBips H l1 (- 1)))
      else if next \<in> {4, 5, 6, 7, 8, 9} then ret ()
      else if next = 10 then
        (\<lambda>w. ensure (L1_SetL1FeesAvailable H l1 (balance_of w L1PricerFundsPoolAddress)) w)
      else if next = 11 then
        bnd (ensure (L1_SetPerBatchGasCost H l1 InitialPerBatchGasCostV12)) (\<lambda>_.
        bnd (ensure (L1_AmortizedCostCapBips H l1)) (\<lambda>oldAmortizationCap.
        bnd (if oldAmortizationCap = - 1 then ensure (L1_SetAmortizedCostCapBips H l1 0) else ret ()) (\<lambda>_.
        if \<not> firstTime then ensure (AddressSet_ClearList H (aos_chainOwners state)) else ret ())))
      else if 12 \<le> next \<and> next \<le> 19 then ret ()
      else if next = 20 then ensure (SetBrotliCompressionLevel state 1)
      else if 21 \<le> next \<and> next \<le> 29 then ret ()
      else if next = 30 then InitializePrograms U next
      else if next = 31 then ensure (UpgradeProgramParams U next)
      else if 32 \<le> next \<and> next \<le> 39 then ret ()
      else if next = 40 then bnd (InstallHistoryContract U) (\<lambda>_. ensure (UpgradeProgramParams U next))
      else if 41 \<le> next \<and> next \<le> 49 then ret ()
      else if next = 50 then
        bnd (ensure (UpgradeProgramParams U next)) (\<lambda>_. ensure (L2_SetMaxPerTxGasLimit H l2 InitialPerTxGasLimitV50))
      else if 51 \<le> next \<and> next \<le> 58 then ret ()
      else if next = 59 then ensure (UpgradeProgramParams U next)
      else if next = 60 then
        bnd (ensure (UpgradeProgramParams U next)) (\<lambda>_.
        ensure (AddressSet_Initialize H (OpenSubStorage H (aos_backingStorage state) [11])))
      else if next = 61 then ret ()
      else throw (ErrMsg ''the chain is upgrading to unsupported ArbOS version, please upgrade to the latest version of the node software''))"

definition set_version :: "u64 \<Rightarrow> ArbosState \<Rightarrow> ArbosState" where
  "set_version v state = state\<lparr>aos_arbosVersion := v,
     aos_programs := (aos_programs state)\<lparr>prg_ArbosVersion := v\<rparr>,
     aos_l1PricingState := (aos_l1PricingState state)\<lparr>l1_ArbosVersion := v\<rparr>,
     aos_l2PricingState := (aos_l2PricingState state)\<lparr>ps_ArbosVersion := v\<rparr>,
     aos_retryableState := (aos_retryableState state)\<lparr>rs_ArbosVersion := v\<rparr>\<rparr>"

definition upgradeStep ::
  "(bytes \<Rightarrow> bytes) \<Rightarrow> upgrade_env \<Rightarrow> bool \<Rightarrow> ArbosState \<Rightarrow> (world, ArbosState) op" where
  "upgradeStep H U firstTime state =
     (let next = aos_arbosVersion state + 1 in
      bnd (upgradeChanges H U firstTime state next) (\<lambda>_.
      bnd (InstallPrecompiles U next) (\<lambda>_.
      ret (set_version next state))))"

text \<open>The loop adds one to the version until it is the target, so its number of rounds is known at the start.\<close>

primrec upgradeLoop ::
  "nat \<Rightarrow> (bytes \<Rightarrow> bytes) \<Rightarrow> upgrade_env \<Rightarrow> bool \<Rightarrow> ArbosState \<Rightarrow> (world, ArbosState) op" where
  "upgradeLoop 0 H U firstTime state = ret state"
| "upgradeLoop (Suc n) H U firstTime state =
     bnd (upgradeStep H U firstTime state) (\<lambda>state'. upgradeLoop n H U firstTime state')"

definition UpgradeArbosVersion ::
  "(bytes \<Rightarrow> bytes) \<Rightarrow> upgrade_env \<Rightarrow> ArbosState \<Rightarrow> u64 \<Rightarrow> bool \<Rightarrow> (world, ArbosState) op" where
  "UpgradeArbosVersion H U state upgradeTo firstTime =
     bnd (upgradeLoop (unat upgradeTo - unat (aos_arbosVersion state)) H U firstTime state) (\<lambda>state.
     let l1 = aos_l1PricingState state; l2 = aos_l2PricingState state in
     bnd (if firstTime \<and> upgradeTo \<ge> 6
          then bnd (if upgradeTo < 11 then Restricted () (L1_SetPerBatchGasCost H l1 InitialPerBatchGasCostV6) else ret ()) (\<lambda>_.
               bnd (Restricted () (L1_SetEquilibrationUnits H l1 InitialEquilibrationUnitsV6)) (\<lambda>_.
               bnd (Restricted () (L2_SetSpeedLimitPerSecond H l2 InitialSpeedLimitPerSecondV6)) (\<lambda>_.
               Restricted () (L2_SetMaxPerBlockGasLimit H l2 InitialPerBlockGasLimitV6))))
          else ret ()) (\<lambda>_.
     bnd (Restricted () (Storage_SetUint64ByUint64 H (aos_backingStorage state) versionOffset (aos_arbosVersion state))) (\<lambda>_.
     ret state)))"

definition UpgradeArbosVersionIfNecessary ::
  "(bytes \<Rightarrow> bytes) \<Rightarrow> upgrade_env \<Rightarrow> ArbosState \<Rightarrow> u64 \<Rightarrow> (world, ArbosState) op" where
  "UpgradeArbosVersionIfNecessary H U state currentTimestamp =
     bnd (Restricted 0 (StorageBackedUint64_Get (aos_upgradeVersion state))) (\<lambda>upgradeTo.
     bnd (or_zero 0 (StorageBackedUint64_Get (aos_upgradeTimestamp state))) (\<lambda>flagday.
     if aos_arbosVersion state < upgradeTo \<and> currentTimestamp \<ge> flagday
     then UpgradeArbosVersion H U state upgradeTo False
     else ret state))"

section \<open>Upgrading\<close>

lemma Restricted_sys [sys_simps]:
  "m w = (r, w') \<Longrightarrow> sysw w' \<Longrightarrow> Restricted d m w = (case r of Ok x \<Rightarrow> (Ok x, w') | Err _ \<Rightarrow> (Ok d, w') | Panic p \<Rightarrow> (Panic p, w'))"
  by (auto simp: Restricted_def sysw_def split: result.split Burner.splits)

lemma ensure_run [op_simps]:
  "m w = (Ok x, w') \<Longrightarrow> ensure m w = (Ok x, w')"
  by (simp add: ensure_def)

text \<open>What is assumed of the parts outside the model: they succeed and leave the burner writable.\<close>

definition goes_through :: "(world, unit) op \<Rightarrow> bool" where
  "goes_through m \<longleftrightarrow> (\<forall>w. sysw w \<longrightarrow> (\<exists>w'. m w = (Ok (), w') \<and> sysw w'))"

definition env_ok :: "upgrade_env \<Rightarrow> bool" where
  "env_ok U \<longleftrightarrow> (\<forall>v. goes_through (InitializePrograms U v) \<and> goes_through (UpgradeProgramParams U v)
     \<and> goes_through (InstallPrecompiles U v)) \<and> goes_through (InstallHistoryContract U)"

lemma goes_through_ret: "goes_through (ret ())"
  by (simp add: goes_through_def op_simps)

lemma goes_through_bnd: "goes_through m \<Longrightarrow> goes_through k \<Longrightarrow> goes_through (bnd m (\<lambda>_. k))"
  unfolding goes_through_def by (metis bnd_run(1))

lemma goes_through_ensure: "goes_through m \<Longrightarrow> goes_through (ensure m)"
  unfolding goes_through_def by (metis ensure_run)

lemma goes_through_set: "goes_through (StorageBackedUint64_Set ss v)" "goes_through (AddressSet_Initialize H s)"
  by (simp_all add: goes_through_def sys_simps AddressSet_Initialize_def Storage_SetUint64ByUint64_def Storage_Set_slot)

lemma version_cases:
  assumes "12 \<le> n" and "n \<le> (61 :: u64)"
  shows "n = 20 \<or> n = 30 \<or> n = 31 \<or> n = 40 \<or> n = 50 \<or> n = 59 \<or> n = 60 \<or> n = 61 \<or> 12 \<le> n \<and> n \<le> 19 \<or> 21 \<le> n \<and> n \<le> 29
    \<or> 32 \<le> n \<and> n \<le> 39 \<or> 41 \<le> n \<and> n \<le> 49 \<or> 51 \<le> n \<and> n \<le> 58"
  using assms by (simp add: word_le_nat_alt word_unat_eq_iff) arith

lemma changes_go_through:
  assumes "env_ok U" and "12 \<le> next" and "next \<le> 61"
  shows "goes_through (upgradeChanges H U ft st next)"
proof -
  have n: "next \<noteq> 2" "next \<noteq> 3" "next \<notin> {4, 5, 6, 7, 8, 9}" "next \<noteq> 10" "next \<noteq> 11"
    using assms(2) by auto
  have s: "goes_through (SetBrotliCompressionLevel st 1)" "goes_through (L2_SetMaxPerTxGasLimit H l v)" for l v
    by (simp_all add: SetBrotliCompressionLevel_def L2_SetMaxPerTxGasLimit_def goes_through_set)
  have e: "goes_through (InitializePrograms U v)" "goes_through (UpgradeProgramParams U v)" "goes_through (InstallHistoryContract U)" for v
    using assms(1) by (simp_all add: env_ok_def)
  show ?thesis
    using version_cases [OF assms(2,3)] n unfolding upgradeChanges_def Let_def
    by (elim disjE) (simp_all add: goes_through_ret goes_through_bnd goes_through_ensure goes_through_set s e)
qed

lemma step_goes_through:
  assumes "env_ok U" and "11 \<le> aos_arbosVersion st" and "aos_arbosVersion st < 61" and "sysw w"
  shows "\<exists>w'. upgradeStep H U ft st w = (Ok (set_version (aos_arbosVersion st + 1) st), w') \<and> sysw w'"
proof -
  let ?n = "aos_arbosVersion st + 1"
  have "12 \<le> ?n" "?n \<le> 61" using assms(2,3) by (simp_all add: word_le_nat_alt word_less_nat_alt unat_word_ariths)
  then obtain w1 where w1: "upgradeChanges H U ft st ?n w = (Ok (), w1)" "sysw w1"
    using changes_go_through [OF assms(1)] assms(4) unfolding goes_through_def by blast
  moreover obtain w2 where "InstallPrecompiles U ?n w1 = (Ok (), w2)" "sysw w2"
    using assms(1) w1(2) unfolding env_ok_def goes_through_def by blast
  ultimately show ?thesis by (simp add: upgradeStep_def Let_def op_simps)
qed

lemma set_version_idem [simp]: "set_version v (set_version v' st) = set_version v st"
  by (simp add: set_version_def)

lemma set_version_version [simp]: "aos_arbosVersion (set_version v st) = v"
  by (simp add: set_version_def)

lemma loop_goes_through:
  assumes "env_ok U" and "11 \<le> aos_arbosVersion st" and "unat (aos_arbosVersion st) + n \<le> 61" and "sysw w" and "0 < n"
  shows "\<exists>w'. upgradeLoop n H U ft st w = (Ok (set_version (aos_arbosVersion st + of_nat n) st), w') \<and> sysw w'"
  using assms
proof (induction n arbitrary: st w)
  case (Suc n)
  have "aos_arbosVersion st < 61" using Suc.prems(3) by (simp add: word_less_nat_alt)
  then obtain w1 where w1: "upgradeStep H U ft st w = (Ok (set_version (aos_arbosVersion st + 1) st), w1)" "sysw w1"
    using step_goes_through Suc.prems by blast
  show ?case
  proof (cases "n = 0")
    case True
    then show ?thesis using w1 by (simp add: op_simps)
  next
    case False
    have "11 \<le> aos_arbosVersion st + 1" "unat (aos_arbosVersion st + 1) + n \<le> 61"
      using Suc.prems(2,3) by (simp_all add: word_le_nat_alt unat_word_ariths)
    then show ?thesis
      using w1 Suc.IH [OF Suc.prems(1), of "set_version (aos_arbosVersion st + 1) st" w1] False
      by (auto simp: op_simps ac_simps)
  qed
qed simp

lemma Upgrade_run:
  assumes "env_ok U" and "11 \<le> aos_arbosVersion st" and "aos_arbosVersion st < to" and "to \<le> 61" and "sysw w"
  shows "\<exists>w'. UpgradeArbosVersion H U st to False w = (Ok (set_version to st), w') \<and> sysw w'
    \<and> slot_read w' (NewSlot H (aos_backingStorage st) versionOffset) = ucast to"
proof -
  let ?n = "unat to - unat (aos_arbosVersion st)"
  have n: "0 < ?n" "unat (aos_arbosVersion st) + ?n \<le> 61" using assms(3,4) by (simp_all add: word_less_nat_alt word_le_nat_alt)
  have to: "aos_arbosVersion st + of_nat ?n = to" using assms(3) by (simp add: word_less_nat_alt of_nat_diff)
  obtain w1 where w1: "upgradeLoop ?n H U False st w = (Ok (set_version to st), w1)" "sysw w1"
    using loop_goes_through [OF assms(1,2) n(2) assms(5) n(1)] unfolding to by blast
  have b: "aos_backingStorage (set_version to st) = aos_backingStorage st" by (simp add: set_version_def)
  show ?thesis using w1
    by (simp add: UpgradeArbosVersion_def op_simps b bnd_def sys_simps Storage_SetUint64ByUint64_def Storage_Set_slot NewSlot_slot
        UintToHash_ucast)
qed

lemma Open_run:
  assumes "sysw w" and "slot_read w (NewSlot H (KVStorage (ArbosStateAddress A)) versionOffset) = ucast v" and "v \<noteq> 0"
  shows "OpenArbosState H A w = (Ok (arbosStateAt H A v), tick StorageAccessRead StorageReadCost w)"
  using assms by (simp add: OpenArbosState_def Storage_GetUint64ByUint64_def Storage_GetUint64_def Storage_Get_slot NewSlot_slot
      bnd_def op_simps sys_simps)

lemma Open_version:
  assumes "sysw w" and "OpenArbosState H A w = (Ok st, w0)"
  shows "\<exists>v. v \<noteq> 0 \<and> st = arbosStateAt H A v \<and> w0 = tick StorageAccessRead StorageReadCost w"
  using assms by (auto simp: OpenArbosState_def Storage_GetUint64ByUint64_def Storage_GetUint64_def Storage_Get_slot
      bnd_def op_simps sys_simps split: if_splits)

lemma arbosStateAt_fields [simp]:
  "aos_arbosVersion (arbosStateAt H A v) = v"
  "aos_backingStorage (arbosStateAt H A v) = KVStorage (ArbosStateAddress A)"
  "aos_upgradeVersion (arbosStateAt H A v) = NewSlot H (KVStorage (ArbosStateAddress A)) 1"
  "aos_upgradeTimestamp (arbosStateAt H A v) = NewSlot H (KVStorage (ArbosStateAddress A)) 2"
  by (simp_all add: arbosStateAt_def Let_def)

lemma arbosStateAt_upgraded:
  "arbosStateAt H A v = (set_version v (arbosStateAt H A u))\<lparr>aos_filteredTransactions := openFilteredTransactions A v\<rparr>"
  by (simp add: arbosStateAt_def set_version_def Let_def OpenL1PricingState_def OpenL2PricingState_def OpenRetryableState_def)


section \<open>A concrete instance\<close>

definition demo_env :: upgrade_env where
  "demo_env = \<lparr>InitializePrograms = \<lambda>_. ret (), UpgradeProgramParams = \<lambda>_. ret (), InstallHistoryContract = ret (),
     InstallPrecompiles = \<lambda>_. ret ()\<rparr>"

definition demo_accounts :: state_accounts where
  "demo_accounts = \<lparr>ArbosStateAddress = 0, FilteredTransactionsStateAddress = 1\<rparr>"

lemma demo_env_ok: "env_ok demo_env"
  by (simp add: env_ok_def demo_env_def goes_through_ret)

text \<open>A world at version 11.\<close>

definition demo_world11 :: world where
  "demo_world11 = slot_write (NewSlot demo_hash (KVStorage 0) 0) 11 demo_world"


end
