(* ===== verification/Messages.thy ===== *)
theory Messages
  imports L1Pricing
begin

text \<open>
  Messages that arrive from the parent chain (\<^verbatim>\<open>arbos/arbostypes/incomingmessage.go\<close>): their
  header, their serialised form and its parser, the fields of a batch posting report, and the
  gas data that a report is completed with once the batch itself has been fetched.
\<close>

section \<open>Messages\<close>

datatype L1MessageType =
    L1MessageType_L2Message
  | L1MessageType_EndOfBlock
  | L1MessageType_L2FundedByL1
  | L1MessageType_RollupEvent
  | L1MessageType_SubmitRetryable
  | L1MessageType_BatchForGasEstimation
  | L1MessageType_Initialize
  | L1MessageType_EthDeposit
  | L1MessageType_BatchPostingReport
  | L1MessageType_Invalid

fun L1MessageType_code :: "L1MessageType \<Rightarrow> byte" where
  "L1MessageType_code L1MessageType_L2Message = 3"
| "L1MessageType_code L1MessageType_EndOfBlock = 6"
| "L1MessageType_code L1MessageType_L2FundedByL1 = 7"
| "L1MessageType_code L1MessageType_RollupEvent = 8"
| "L1MessageType_code L1MessageType_SubmitRetryable = 9"
| "L1MessageType_code L1MessageType_BatchForGasEstimation = 10"
| "L1MessageType_code L1MessageType_Initialize = 11"
| "L1MessageType_code L1MessageType_EthDeposit = 12"
| "L1MessageType_code L1MessageType_BatchPostingReport = 13"
| "L1MessageType_code L1MessageType_Invalid = 0xFF"

definition MaxL2MessageSize :: u64 where
  "MaxL2MessageSize = 256 * 1024"

definition ValidateMaxTxDataSize :: "u64 \<Rightarrow> unit result" where
  "ValidateMaxTxDataSize maxTxDataSize =
     (if maxTxDataSize > MaxL2MessageSize - 50000
      then Err (ErrMsg ''max-tx-data-size exceeds maximum allowed value'') else Ok ())"

record L1IncomingMessageHeader =
  hdr_Kind :: byte
  hdr_Poster :: address
  hdr_BlockNumber :: u64
  hdr_Timestamp :: u64
  hdr_RequestId :: "hash option"
  hdr_L1BaseFee :: "int option"

definition SeqNum :: "L1IncomingMessageHeader \<Rightarrow> u64 result" where
  "SeqNum h = (case hdr_RequestId h of
      None \<Rightarrow> Err (ErrMsg ''no requestId'')
    | Some requestId \<Rightarrow>
        if \<not> IsUint64 (uint requestId) then Err (ErrMsg ''bad requestId'') else Ok (ucast requestId))"

record BatchDataStats =
  bds_Length :: u64
  bds_NonZeros :: u64

record L1IncomingMessage =
  im_Header :: L1IncomingMessageHeader
  im_L2msg :: bytes
  im_LegacyBatchGasCost :: "u64 option"
  im_BatchDataStats :: "BatchDataStats option"

text \<open>\<^verbatim>\<open>Serialize\<close> writes into a fresh buffer and returns its bytes.\<close>

definition SerializeTo :: "L1IncomingMessage \<Rightarrow> writer" where
  "SerializeTo msg = (let h = im_Header msg in
     bnd (WriteBytes [hdr_Kind h]) (\<lambda>_.
     bnd (AddressTo256ToWriter (hdr_Poster h)) (\<lambda>_.
     bnd (Uint64ToWriter (hdr_BlockNumber h)) (\<lambda>_.
     bnd (Uint64ToWriter (hdr_Timestamp h)) (\<lambda>_.
     case hdr_RequestId h of
       None \<Rightarrow> throw (ErrMsg ''cannot serialize L1IncomingMessage without RequestId'')
     | Some requestId \<Rightarrow>
         bnd (HashToWriter requestId) (\<lambda>_.
         case hdr_L1BaseFee h of
           None \<Rightarrow> throw (ErrMsg ''cannot serialize L1IncomingMessage without L1BaseFee'')
         | Some fee \<Rightarrow> bnd (HashToWriter (BigBytesToHash fee)) (\<lambda>_. WriteBytes (im_L2msg msg))))))))"

definition Serialize :: "L1IncomingMessage \<Rightarrow> bytes result" where
  "Serialize msg = (case SerializeTo msg [] of
      (Ok _, wr) \<Rightarrow> Ok wr
    | (Err e, _) \<Rightarrow> Err e
    | (Panic p, _) \<Rightarrow> Panic p)"

definition hashesEqual :: "hash option \<Rightarrow> hash option \<Rightarrow> bool" where
  "hashesEqual ha hb =
     (if (ha = None) \<noteq> (hb = None) then False
      else case (ha, hb) of (Some a, Some b) \<Rightarrow> a = b | _ \<Rightarrow> True)"

text \<open>\<^verbatim>\<open>BigEquals\<close> is \<^verbatim>\<open>Cmp\<close>, which takes two nil pointers as equal and dereferences otherwise.\<close>

definition Header_Equals :: "L1IncomingMessageHeader \<Rightarrow> L1IncomingMessageHeader \<Rightarrow> bool result" where
  "Header_Equals h other =
     (if hdr_Kind h = hdr_Kind other \<and> hdr_Poster h = hdr_Poster other
         \<and> hdr_BlockNumber h = hdr_BlockNumber other \<and> hdr_Timestamp h = hdr_Timestamp other
         \<and> hashesEqual (hdr_RequestId h) (hdr_RequestId other)
      then (case (hdr_L1BaseFee h, hdr_L1BaseFee other) of
              (Some a, Some b) \<Rightarrow> Ok (a = b)
            | (None, None) \<Rightarrow> Ok True
            | _ \<Rightarrow> Panic ''invalid memory address or nil pointer dereference'')
      else Ok False)"

definition Message_Equals :: "L1IncomingMessage \<Rightarrow> L1IncomingMessage \<Rightarrow> bool result" where
  "Message_Equals msg other = (case Header_Equals (im_Header msg) (im_Header other) of
      Ok True \<Rightarrow> Ok (im_L2msg msg = im_L2msg other)
    | r \<Rightarrow> r)"


section \<open>Batch posting reports\<close>

definition GetDataStats :: "bytes \<Rightarrow> BatchDataStats" where
  "GetDataStats data =
     \<lparr>bds_Length = of_nat (length data),
      bds_NonZeros = foldl (\<lambda>nonZeros b. if b \<noteq> 0 then nonZeros + 1 else nonZeros) 0 data\<rparr>"

text \<open>Gas constants of the parent chain, from geth's \<^verbatim>\<open>params\<close>.\<close>

definition TxDataZeroGas :: u64 where "TxDataZeroGas = 4"
definition Keccak256Gas :: u64 where "Keccak256Gas = 30"
definition Keccak256WordGas :: u64 where "Keccak256WordGas = 6"
definition SstoreSetGasEIP2200 :: u64 where "SstoreSetGasEIP2200 = 20000"

lemmas parent_gas = TxDataZeroGas_def TxDataNonZeroGasEIP2028_def Keccak256Gas_def Keccak256WordGas_def SstoreSetGasEIP2200_def

definition LegacyCostForStats :: "BatchDataStats \<Rightarrow> u64" where
  "LegacyCostForStats stats =
     (let gas = TxDataZeroGas * (bds_Length stats - bds_NonZeros stats) + TxDataNonZeroGasEIP2028 * bds_NonZeros stats;
          keccakWords = WordsForBytes (bds_Length stats);
          gas = gas + (Keccak256Gas + keccakWords * Keccak256WordGas)
      in gas + 2 * SstoreSetGasEIP2200)"

definition IsBatchGasFieldsMissing :: "L1IncomingMessage \<Rightarrow> bool" where
  "IsBatchGasFieldsMissing msg =
     (if hdr_Kind (im_Header msg) \<noteq> L1MessageType_code L1MessageType_BatchPostingReport then False
      else if im_BatchDataStats msg \<noteq> None \<and> im_LegacyBatchGasCost msg \<noteq> None then False
      else True)"

text \<open>A read that finds the end of the input counts as zero; only \<^verbatim>\<open>io.EOF\<close> itself does, not the
  \<^verbatim>\<open>io.ErrUnexpectedEOF\<close> of an input that ends within the value.\<close>

definition zero_at_EOF :: "u64 reader \<Rightarrow> u64 reader" where
  "zero_at_EOF m = (\<lambda>rd. case m rd of
      (Err e, rd') \<Rightarrow> (if e = ErrMsg ''EOF'' then (Ok 0, rd') else (Err e, rd'))
    | r \<Rightarrow> r)"

type_synonym report_fields = "int \<times> address \<times> hash \<times> u64 \<times> int \<times> u64"

definition ParseBatchPostingReportMessageFields :: "report_fields reader" where
  "ParseBatchPostingReportMessageFields =
     bnd HashFromReader (\<lambda>batchTimestamp.
     bnd AddressFromReader (\<lambda>batchPosterAddr.
     bnd HashFromReader (\<lambda>dataHash.
     bnd HashFromReader (\<lambda>batchNum.
     bnd HashFromReader (\<lambda>l1BaseFee.
     bnd (zero_at_EOF Uint64FromReader) (\<lambda>extraGas.
     if \<not> IsUint64 (uint batchNum) then throw (ErrMsg ''batch number is not a uint64'')
     else ret (uint batchTimestamp, batchPosterAddr, dataHash, ucast batchNum, uint l1BaseFee, extraGas)))))))"

text \<open>A batch fetcher gives the data of a batch by its number, at a block of the parent chain. A nil
  fetcher is \<open>None\<close>. \<open>H\<close> is keccak.\<close>

type_synonym FallibleBatchFetcher = "u64 \<Rightarrow> bytes result"
type_synonym FallibleBatchFetcherWithParentBlock = "u64 \<Rightarrow> u64 \<Rightarrow> bytes result"

definition set_legacy_cost :: "BatchDataStats \<Rightarrow> L1IncomingMessage \<Rightarrow> L1IncomingMessage" where
  "set_legacy_cost stats msg =
     msg\<lparr>im_BatchDataStats := Some stats, im_LegacyBatchGasCost := Some (LegacyCostForStats stats)\<rparr>"

definition FillInBatchGasFieldsWithParentBlock ::
  "(bytes \<Rightarrow> bytes) \<Rightarrow> FallibleBatchFetcherWithParentBlock option \<Rightarrow> u64 \<Rightarrow> (L1IncomingMessage, unit) op" where
  "FillInBatchGasFieldsWithParentBlock H batchFetcher parentChainBlockNumber = (\<lambda>msg.
     case batchFetcher of None \<Rightarrow> (Ok (), msg)
     | Some fetch \<Rightarrow>
       if \<not> IsBatchGasFieldsMissing msg then (Ok (), msg)
       else case im_BatchDataStats msg of
         Some stats \<Rightarrow> (Ok (), set_legacy_cost stats msg)
       | None \<Rightarrow>
         (case fst (ParseBatchPostingReportMessageFields (im_L2msg msg)) of
            Err e \<Rightarrow> (Err (ErrWrap ''failed to parse batch posting report'' e), msg)
          | Panic p \<Rightarrow> (Panic p, msg)
          | Ok (_, _, batchHash, batchNum, _, _) \<Rightarrow>
            (case fetch batchNum parentChainBlockNumber of
               Err e \<Rightarrow> (if im_LegacyBatchGasCost msg = None
                  then (Err (ErrWrap ''failed to fetch batch mentioned by batch posting report'' e), msg)
                  else (Ok (), msg))
             | Panic p \<Rightarrow> (Panic p, msg)
             | Ok batchData \<Rightarrow>
                 if BytesToHash (H batchData) \<noteq> batchHash
                 then (Err (ErrMsg ''batch fetcher returned incorrect data hash''), msg)
                 else (Ok (), set_legacy_cost (GetDataStats batchData) msg))))"

definition FromFallibleBatchFetcher :: "FallibleBatchFetcher \<Rightarrow> FallibleBatchFetcherWithParentBlock" where
  "FromFallibleBatchFetcher f = (\<lambda>batchNum _. f batchNum)"

text \<open>A nil \<^verbatim>\<open>FallibleBatchFetcher\<close> is wrapped into a closure that is not nil, and calls it.\<close>

definition call_fetcher :: "FallibleBatchFetcher option \<Rightarrow> FallibleBatchFetcher" where
  "call_fetcher f = (case f of Some g \<Rightarrow> g
     | None \<Rightarrow> (\<lambda>_. Panic ''invalid memory address or nil pointer dereference''))"

definition FillInBatchGasFields ::
  "(bytes \<Rightarrow> bytes) \<Rightarrow> FallibleBatchFetcher option \<Rightarrow> (L1IncomingMessage, unit) op" where
  "FillInBatchGasFields H batchFetcher = (\<lambda>msg.
     FillInBatchGasFieldsWithParentBlock H (Some (FromFallibleBatchFetcher (call_fetcher batchFetcher)))
       (hdr_BlockNumber (im_Header msg)) msg)"

definition PastBatchesRequired :: "L1IncomingMessage \<Rightarrow> u64 list result" where
  "PastBatchesRequired msg =
     (if hdr_Kind (im_Header msg) \<noteq> L1MessageType_code L1MessageType_BatchPostingReport then Ok []
      else case fst (ParseBatchPostingReportMessageFields (im_L2msg msg)) of
        Err e \<Rightarrow> Err (ErrWrap ''failed to parse batch posting report'' e)
      | Panic p \<Rightarrow> Panic p
      | Ok (_, _, _, batchNum, _, _) \<Rightarrow> Ok [batchNum])"

section \<open>Parsing\<close>

text \<open>One \<^verbatim>\<open>Read\<close> of a memory reader into a buffer of \<open>n > 0\<close> bytes: it fills what it can, and the rest of
  the fresh buffer stays zero.\<close>

definition Read :: "nat \<Rightarrow> bytes reader" where
  "Read n = (\<lambda>rd. if rd = [] then (Err (ErrMsg ''EOF''), [])
     else (Ok (take n rd @ replicate (n - length rd) 0), drop n rd))"

definition ReadAll :: "bytes reader" where
  "ReadAll = (\<lambda>rd. (Ok rd, []))"

definition ParseIncomingL1Message ::
  "(bytes \<Rightarrow> bytes) \<Rightarrow> FallibleBatchFetcher option \<Rightarrow> L1IncomingMessage reader" where
  "ParseIncomingL1Message H batchFetcher =
     bnd (Read 1) (\<lambda>kindBuf.
     bnd AddressFrom256FromReader (\<lambda>sender.
     bnd Uint64FromReader (\<lambda>blockNumber.
     bnd Uint64FromReader (\<lambda>timestamp.
     bnd HashFromReader (\<lambda>requestId.
     bnd HashFromReader (\<lambda>baseFeeL1.
     bnd ReadAll (\<lambda>data.
     let msg = \<lparr>im_Header = \<lparr>hdr_Kind = kindBuf ! 0, hdr_Poster = sender, hdr_BlockNumber = blockNumber,
                  hdr_Timestamp = timestamp, hdr_RequestId = Some requestId, hdr_L1BaseFee = Some (uint baseFeeL1)\<rparr>,
                im_L2msg = data, im_LegacyBatchGasCost = None, im_BatchDataStats = None\<rparr>
     in case FillInBatchGasFields H batchFetcher msg of
          (Ok _, msg') \<Rightarrow> ret msg'
        | (Err e, _) \<Rightarrow> throw e
        | (Panic p, _) \<Rightarrow> panic p)))))))"

record 'cfg ParsedInitMessage =
  pim_ChainId :: int
  pim_InitialL1BaseFee :: int
  pim_ChainConfig :: "'cfg option"
  pim_SerializedChainConfig :: "bytes option"

definition DefaultInitialL1BaseFee :: int where
  "DefaultInitialL1BaseFee = 50 * 10 ^ 9"

text \<open>\<open>UnmarshalChainConfig\<close> is \<^verbatim>\<open>json.Unmarshal\<close> into geth's chain configuration.\<close>

definition ParseInitMessage :: "(bytes \<Rightarrow> 'cfg result) \<Rightarrow> L1IncomingMessage \<Rightarrow> 'cfg ParsedInitMessage result" where
  "ParseInitMessage UnmarshalChainConfig msg =
     (let L2msg = im_L2msg msg;
          chainId = int (be_val (take 32 L2msg));
          invalid = Err (ErrMsg ''invalid init message data'');
          with_config = (\<lambda>basefee serializedChainConfig. case UnmarshalChainConfig serializedChainConfig of
              Err e \<Rightarrow> Err (ErrWrap ''failed to parse init message'' e)
            | Panic p \<Rightarrow> Panic p
            | Ok chainConfig \<Rightarrow> Ok \<lparr>pim_ChainId = chainId, pim_InitialL1BaseFee = basefee,
                pim_ChainConfig = Some chainConfig, pim_SerializedChainConfig = Some serializedChainConfig\<rparr>)
      in
      if hdr_Kind (im_Header msg) \<noteq> L1MessageType_code L1MessageType_Initialize
      then Err (ErrMsg ''invalid init message kind'')
      else if length L2msg = 32
      then Ok \<lparr>pim_ChainId = chainId, pim_InitialL1BaseFee = DefaultInitialL1BaseFee,
               pim_ChainConfig = None, pim_SerializedChainConfig = None\<rparr>
      else if length L2msg > 32
      then (let version = L2msg ! 32; reader = drop 33 L2msg in
            if version = 1
            then (case Uint256FromReader reader of
                    (Ok basefee, reader') \<Rightarrow> with_config basefee reader'
                  | (Err e, _) \<Rightarrow> Err e
                  | (Panic p, _) \<Rightarrow> Panic p)
            else if version = 0 then with_config DefaultInitialL1BaseFee reader
            else invalid)
      else invalid)"

section \<open>Round trips\<close>

named_theorems reader_simps \<open>reading what a writer has put in front of the input\<close>

lemma BigBytesToHash_uint: "0 \<le> v \<Longrightarrow> v < 2 ^ 256 \<Longrightarrow> uint (BigBytesToHash v) = v"
  by (simp add: BigBytesToHash_def uint_word_of_int_eq take_bit_int_eq_self)

lemma bnd_ReadFull: "length b = n \<Longrightarrow> bnd (ReadFull n) f (b @ rest) = f b rest"
  by (simp add: bnd_def ReadFull_run)

lemma HashFromReader_hash [reader_simps]: "HashFromReader (hash_Bytes h @ rest) = (Ok h, rest)"
  by (simp add: HashFromReader_def bnd_ReadFull op_simps)

lemma AddressFromReader_address [reader_simps]: "AddressFromReader (be_bytes 20 (unat a) @ rest) = (Ok a, rest)"
  by (simp add: AddressFromReader_def bnd_ReadFull op_simps)

lemma Uint64FromReader_u64 [reader_simps]: "Uint64FromReader (be_bytes 8 (unat v) @ rest) = (Ok v, rest)"
  by (simp add: Uint64FromReader_def bnd_ReadFull op_simps)

lemma AddressFrom256FromReader_address [reader_simps]:
  "AddressFrom256FromReader (replicate 12 0 @ be_bytes 20 (unat a) @ rest) = (Ok a, rest)"
proof -
  have "HashFromReader ((replicate 12 0 @ be_bytes 20 (unat a)) @ rest)
      = (Ok (BytesToHash (replicate 12 0 @ be_bytes 20 (unat a))), rest)"
    unfolding HashFromReader_def by (subst bnd_ReadFull) (simp_all add: op_simps)
  then show ?thesis by (simp add: AddressFrom256FromReader_def op_simps hash_Bytes_BytesToHash)
qed

lemma Read_one [reader_simps]: "Read 1 (k # rest) = (Ok [k], rest)" "Read (Suc 0) (k # rest) = (Ok [k], rest)"
  by (simp_all add: Read_def)

lemma ReadAll_run [op_simps]: "ReadAll rd = (Ok rd, [])"
  by (simp add: ReadAll_def)

text \<open>What the parser makes of a serialised message before the gas data is filled in.\<close>

definition without_gas_data :: "L1IncomingMessage \<Rightarrow> L1IncomingMessage" where
  "without_gas_data msg = msg\<lparr>im_LegacyBatchGasCost := None, im_BatchDataStats := None\<rparr>"

definition serializable :: "L1IncomingMessage \<Rightarrow> bool" where
  "serializable msg \<longleftrightarrow> hdr_RequestId (im_Header msg) \<noteq> None \<and>
     (\<exists>fee. hdr_L1BaseFee (im_Header msg) = Some fee \<and> 0 \<le> fee \<and> fee < 2 ^ 256)"

definition wire_form :: "L1IncomingMessage \<Rightarrow> hash \<Rightarrow> int \<Rightarrow> bytes" where
  "wire_form msg r fee = (let h = im_Header msg in
     hdr_Kind h # replicate 12 0 @ be_bytes 20 (unat (hdr_Poster h)) @ be_bytes 8 (unat (hdr_BlockNumber h))
     @ be_bytes 8 (unat (hdr_Timestamp h)) @ hash_Bytes r @ hash_Bytes (BigBytesToHash fee) @ im_L2msg msg)"

lemma Serialize_run:
  assumes "hdr_RequestId (im_Header msg) = Some r" and "hdr_L1BaseFee (im_Header msg) = Some fee"
  shows "Serialize msg = Ok (wire_form msg r fee)"
  using assms by (simp add: Serialize_def SerializeTo_def wire_form_def Let_def op_simps WriteBytes_def AddressTo256ToWriter_def
      AddressToWriter_def Uint64ToWriter_def HashToWriter_def)

lemma Parse_wire_form:
  assumes "hdr_RequestId (im_Header msg) = Some r" and "hdr_L1BaseFee (im_Header msg) = Some fee"
    and "0 \<le> fee" and "fee < 2 ^ 256"
  shows "ParseIncomingL1Message H bf (wire_form msg r fee) =
    (case FillInBatchGasFields H bf (without_gas_data msg) of
       (Ok _, msg') \<Rightarrow> (Ok msg', []) | (Err e, _) \<Rightarrow> (Err e, []) | (Panic p, _) \<Rightarrow> (Panic p, []))"
proof -
  have "\<lparr>im_Header = \<lparr>hdr_Kind = hdr_Kind (im_Header msg), hdr_Poster = hdr_Poster (im_Header msg),
      hdr_BlockNumber = hdr_BlockNumber (im_Header msg), hdr_Timestamp = hdr_Timestamp (im_Header msg),
      hdr_RequestId = Some r, hdr_L1BaseFee = Some fee\<rparr>,
      im_L2msg = im_L2msg msg, im_LegacyBatchGasCost = None, im_BatchDataStats = None\<rparr> = without_gas_data msg"
    using assms by (simp add: without_gas_data_def)
  moreover have "uint (BigBytesToHash fee) = fee" by (rule BigBytesToHash_uint [OF assms(3,4)])
  ultimately show ?thesis
    by (simp add: ParseIncomingL1Message_def wire_form_def Let_def reader_simps op_simps
        split: prod.split result.split)
qed

lemma FillIn_other_kinds:
  "hdr_Kind (im_Header msg) \<noteq> 13 \<Longrightarrow> FillInBatchGasFields H bf msg = (Ok (), msg)"
  by (simp add: FillInBatchGasFields_def FillInBatchGasFieldsWithParentBlock_def IsBatchGasFieldsMissing_def)


text \<open>A reader that takes \<open>k\<close> bytes when they are there and fails otherwise; readers that fail on fewer
  than \<open>n\<close> bytes.\<close>

definition takes :: "nat \<Rightarrow> 'a reader \<Rightarrow> bool" where
  "takes k m \<longleftrightarrow> (\<forall>rd. if k \<le> length rd then \<exists>x. m rd = (Ok x, drop k rd) else \<exists>e s. m rd = (Err e, s))"

definition rejects_short :: "nat \<Rightarrow> 'a reader \<Rightarrow> bool" where
  "rejects_short n m \<longleftrightarrow> (\<forall>rd. length rd < n \<longrightarrow> (\<exists>e s. m rd = (Err e, s)))"

lemma takes_bnd:
  assumes "takes k m" and "\<And>x. takes j (f x)"
  shows "takes (k + j) (bnd m f)"
  unfolding takes_def
proof
  fix rd :: bytes
  show "if k + j \<le> length rd then \<exists>x. bnd m f rd = (Ok x, drop (k + j) rd) else \<exists>e s. bnd m f rd = (Err e, s)"
  proof (cases "k \<le> length rd")
    case True
    then obtain x where x: "m rd = (Ok x, drop k rd)" using assms(1) unfolding takes_def by metis
    moreover have "j \<le> length (drop k rd) \<longleftrightarrow> k + j \<le> length rd" using True by auto
    ultimately show ?thesis
      using assms(2) [of x, unfolded takes_def, rule_format, of "drop k rd"] by (auto simp: bnd_def add.commute)
  next
    case False
    then show ?thesis using assms(1) unfolding takes_def by (metis bnd_run(2) add_leD1)
  qed
qed

lemma takes_ret: "takes 0 (ret x)"
  by (simp add: takes_def ret_def)

lemma rejects_short_bnd:
  assumes "takes k m" and "\<And>x. rejects_short n (f x)"
  shows "rejects_short (k + n) (bnd m f)"
  unfolding rejects_short_def
proof (intro allI impI)
  fix rd :: bytes
  assume l: "length rd < k + n"
  show "\<exists>e s. bnd m f rd = (Err e, s)"
  proof (cases "k \<le> length rd")
    case True
    then obtain x where x: "m rd = (Ok x, drop k rd)" using assms(1) unfolding takes_def by metis
    moreover have "length (drop k rd) < n" using l True by simp
    ultimately show ?thesis using assms(2) [of x] by (simp add: bnd_def rejects_short_def)
  next
    case False
    then show ?thesis using assms(1) unfolding takes_def by (metis bnd_run(2))
  qed
qed

lemma rejects_short_0: "rejects_short 0 m"
  by (simp add: rejects_short_def)

lemma takes_ReadFull: "takes n (ReadFull n)"
  by (simp add: takes_def ReadFull_def)

lemma takes_Read1: "takes 1 (Read 1)"
  by (auto simp: takes_def Read_def Suc_le_eq)

lemma takes_readers: "takes 32 HashFromReader" "takes 20 AddressFromReader" "takes 8 Uint64FromReader"
    "takes 32 AddressFrom256FromReader"
proof -
  show h: "takes 32 HashFromReader"
    using takes_bnd [OF takes_ReadFull takes_ret] by (simp add: HashFromReader_def)
  show "takes 20 AddressFromReader" "takes 8 Uint64FromReader"
    using takes_bnd [OF takes_ReadFull takes_ret] by (simp_all add: AddressFromReader_def Uint64FromReader_def)
  show "takes 32 AddressFrom256FromReader"
    using takes_bnd [OF h takes_ret] by (simp add: AddressFrom256FromReader_def)
qed

lemma Parse_rejects_short: "rejects_short 113 (ParseIncomingL1Message H bf)"
proof -
  have "rejects_short (1 + (32 + (8 + (8 + (32 + (32 + 0)))))) (ParseIncomingL1Message H bf)"
    unfolding ParseIncomingL1Message_def
    by (intro rejects_short_bnd takes_readers takes_Read1 rejects_short_0)
  then show ?thesis by simp
qed

lemma Report_rejects_short: "rejects_short 148 ParseBatchPostingReportMessageFields"
proof -
  have "rejects_short (32 + (20 + (32 + (32 + (32 + 0))))) ParseBatchPostingReportMessageFields"
    unfolding ParseBatchPostingReportMessageFields_def
    by (intro rejects_short_bnd takes_readers rejects_short_0)
  then show ?thesis by simp
qed

lemma length_wire_form: "length (wire_form msg r fee) = 113 + length (im_L2msg msg)"
  by (simp add: wire_form_def Let_def)

text \<open>C17: A message is recovered from its serialised form: parsing what \<^verbatim>\<open>Serialize\<close> wrote gives the header and the
  payload back, with the gas data filled in exactly as \<^verbatim>\<open>FillInBatchGasFields\<close> does on the bare message, which
  for every kind but a batch posting report changes nothing; and no proper part of the 113 header bytes parses.\<close>

theorem message_round_trip:
  assumes "serializable msg"
  shows "\<exists>b. Serialize msg = Ok b \<and> length b = 113 + length (im_L2msg msg)
    \<and> ParseIncomingL1Message H bf b = (case FillInBatchGasFields H bf (without_gas_data msg) of
         (Ok _, msg') \<Rightarrow> (Ok msg', []) | (Err e, _) \<Rightarrow> (Err e, []) | (Panic p, _) \<Rightarrow> (Panic p, []))
    \<and> (hdr_Kind (im_Header msg) \<noteq> 13 \<longrightarrow> ParseIncomingL1Message H bf b = (Ok (without_gas_data msg), [])
         \<and> Message_Equals msg (without_gas_data msg) = Ok True)
    \<and> (\<forall>n < 113. \<exists>e s. ParseIncomingL1Message H bf (take n b) = (Err e, s))"
proof -
  obtain r fee where m: "hdr_RequestId (im_Header msg) = Some r" "hdr_L1BaseFee (im_Header msg) = Some fee" "0 \<le> fee" "fee < 2 ^ 256"
    using assms by (auto simp: serializable_def)
  have "hdr_Kind (im_Header msg) \<noteq> 13 \<Longrightarrow> FillInBatchGasFields H bf (without_gas_data msg) = (Ok (), without_gas_data msg)"
    by (simp add: FillIn_other_kinds without_gas_data_def)
  moreover have "Message_Equals msg (without_gas_data msg) = Ok True"
    by (simp add: Message_Equals_def Header_Equals_def hashesEqual_def m without_gas_data_def)
  moreover have "\<exists>e s. ParseIncomingL1Message H bf (take n (wire_form msg r fee)) = (Err e, s)" if "n < 113" for n
    using Parse_rejects_short that unfolding rejects_short_def by (simp add: length_wire_form)
  ultimately show ?thesis
    by (intro exI [of _ "wire_form msg r fee"]) (simp add: Serialize_run [OF m(1,2)] length_wire_form Parse_wire_form [OF m])
qed

section \<open>The gas data of a report\<close>

text \<open>A report as it is written by the inbox of the parent chain, with and without the last field.\<close>

definition report_bytes :: "hash \<Rightarrow> address \<Rightarrow> hash \<Rightarrow> u64 \<Rightarrow> hash \<Rightarrow> u64 option \<Rightarrow> bytes" where
  "report_bytes ts poster dataHash num fee extra =
     hash_Bytes ts @ be_bytes 20 (unat poster) @ hash_Bytes dataHash @ hash_Bytes (ucast num) @ hash_Bytes fee
     @ (case extra of None \<Rightarrow> [] | Some g \<Rightarrow> be_bytes 8 (unat g))"

lemma zero_at_EOF_run [reader_simps]:
  "zero_at_EOF Uint64FromReader (be_bytes 8 (unat g) @ rest) = (Ok g, rest)"
  "zero_at_EOF Uint64FromReader [] = (Ok 0, [])"
  by (simp_all add: zero_at_EOF_def reader_simps) (simp add: Uint64FromReader_def ReadFull_def op_simps)

lemma IsUint64_ucast: "IsUint64 (uint (ucast (num :: u64) :: hash))"
  using uint_lt_pow [of num] by (simp add: IsUint64_def uint_up_ucast is_up)

lemma parse_report_bytes:
  "ParseBatchPostingReportMessageFields (report_bytes ts poster dataHash num fee extra)
   = (Ok (uint ts, poster, dataHash, num, uint fee, case extra of None \<Rightarrow> 0 | Some g \<Rightarrow> g), [])"
  using zero_at_EOF_run(1) [of _ "[]"] IsUint64_ucast [of num] HashFromReader_hash [of fee "[]"]
  by (cases extra) (simp_all add: ParseBatchPostingReportMessageFields_def report_bytes_def reader_simps op_simps)

lemma count_nonzero:
  "foldl (\<lambda>n b. if b \<noteq> 0 then n + 1 else n) (k :: u64) data = k + of_nat (length (filter (\<lambda>b. b \<noteq> (0 :: byte)) data))"
  by (induction data arbitrary: k) simp_all

lemma GetDataStats_eq:
  "GetDataStats data = \<lparr>bds_Length = of_nat (length data), bds_NonZeros = of_nat (length (filter (\<lambda>b. b \<noteq> 0) data))\<rparr>"
  by (simp add: GetDataStats_def count_nonzero)

text \<open>What the batch costs its poster, as a natural number.\<close>

definition batch_cost :: "bytes \<Rightarrow> nat" where
  "batch_cost data = 4 * length (filter (\<lambda>b. b = 0) data) + 16 * length (filter (\<lambda>b. b \<noteq> 0) data)
     + 30 + 6 * ((length data + 31) div 32) + 40000"

lemma zeros_nonzeros: "length (filter (\<lambda>b. b = 0) data) = length data - length (filter (\<lambda>b. b \<noteq> (0 :: byte)) data)"
  using sum_length_filter_compl [of "\<lambda>b. b = (0 :: byte)" data] by simp

lemma LegacyCost_exact:
  assumes "length data < 2 ^ 59"
  shows "unat (LegacyCostForStats (GetDataStats data)) = batch_cost data"
proof -
  let ?z = "length (filter (\<lambda>b. b \<noteq> (0 :: byte)) data)"
  have le: "?z \<le> length data" by (rule length_filter_le)
  have w: "WordsForBytes (of_nat (length data)) = of_nat ((length data + 31) div 32)"
  proof (rule word_unat_eq_iff [THEN iffD2])
    have a: "unat (of_nat (length data) + 31 :: u64) = length data + 31"
      using assms by (simp add: unat_word_ariths unat_of_nat)
    have "(length data + 31) div 32 < 2 ^ 64" using assms by simp
    then show "unat (WordsForBytes (of_nat (length data))) = unat (of_nat ((length data + 31) div 32) :: u64)"
      by (simp add: WordsForBytes_def unat_div a unat_of_nat)
  qed
  have "LegacyCostForStats (GetDataStats data) = of_nat (batch_cost data)"
    unfolding LegacyCostForStats_def GetDataStats_eq Let_def w batch_cost_def zeros_nonzeros parent_gas
    using le w by (simp add: of_nat_diff)
  moreover have "batch_cost data < 2 ^ 64"
  proof -
    have "(length data + 31) div 32 \<le> length data + 31" "length data - ?z \<le> length data" by simp_all
    then have "batch_cost data \<le> 26 * length data + 40216" using le unfolding batch_cost_def zeros_nonzeros by linarith
    also have "\<dots> < 2 ^ 64" using assms by simp
    finally show ?thesis .
  qed
  ultimately show ?thesis by (simp add: unat_of_nat)
qed


text \<open>A message whose gas data is filled in has it from the batch that the report names.\<close>

lemma FillIn_filled:
  assumes "FillInBatchGasFieldsWithParentBlock H (Some fetch) n msg = (Ok (), msg')"
    and "hdr_Kind (im_Header msg) = 13" and "im_BatchDataStats msg = None" and "im_LegacyBatchGasCost msg = None"
  shows "\<exists>ts poster dataHash num fee extra data.
      fst (ParseBatchPostingReportMessageFields (im_L2msg msg)) = Ok (ts, poster, dataHash, num, fee, extra)
      \<and> fetch num n = Ok data \<and> BytesToHash (H data) = dataHash \<and> msg' = set_legacy_cost (GetDataStats data) msg"
  using assms by (auto simp: FillInBatchGasFieldsWithParentBlock_def IsBatchGasFieldsMissing_def
      split: result.splits if_splits prod.splits)

text \<open>C18: The gas data a batch posting report is completed with is that of the batch it names: whenever the completion
  succeeds on a report without any, the fetched bytes hash to the data hash of the report, and the recorded cost is
  four gas per zero byte, sixteen per other byte, the hashing of the batch and two storage writes, without overflow.\<close>

theorem filled_report_matches_batch:
  assumes "FillInBatchGasFieldsWithParentBlock H (Some fetch) n msg = (Ok (), msg')"
    and "hdr_Kind (im_Header msg) = 13" and "im_BatchDataStats msg = None" and "im_LegacyBatchGasCost msg = None"
    and "\<And>num data. fetch num n = Ok data \<Longrightarrow> length data < 2 ^ 59"
  shows "\<exists>ts poster dataHash num fee extra data cost.
      fst (ParseBatchPostingReportMessageFields (im_L2msg msg)) = Ok (ts, poster, dataHash, num, fee, extra)
      \<and> fetch num n = Ok data \<and> BytesToHash (H data) = dataHash
      \<and> im_LegacyBatchGasCost msg' = Some cost \<and> unat cost = batch_cost data
      \<and> im_BatchDataStats msg' = Some (GetDataStats data) \<and> im_L2msg msg' = im_L2msg msg \<and> im_Header msg' = im_Header msg"
proof -
  obtain ts poster dataHash num fee extra data where
    f: "fst (ParseBatchPostingReportMessageFields (im_L2msg msg)) = Ok (ts, poster, dataHash, num, fee, extra)"
      "fetch num n = Ok data" "BytesToHash (H data) = dataHash" "msg' = set_legacy_cost (GetDataStats data) msg"
    using FillIn_filled [OF assms(1-4)] by blast
  have "unat (LegacyCostForStats (GetDataStats data)) = batch_cost data"
    by (rule LegacyCost_exact [OF assms(5) [OF f(2)]])
  with f show ?thesis by (intro exI conjI) (auto simp: set_legacy_cost_def)
qed

lemma filled_report_matches_batch_witness:
  "\<exists>msg' cost. FillInBatchGasFieldsWithParentBlock wide_hash (Some (\<lambda>_ _. Ok [0, 7])) 0
      \<lparr>im_Header = \<lparr>hdr_Kind = 13, hdr_Poster = 0, hdr_BlockNumber = 0, hdr_Timestamp = 0, hdr_RequestId = None, hdr_L1BaseFee = None\<rparr>,
       im_L2msg = report_bytes 1 2 (BytesToHash (wide_hash [0, 7])) 3 4 None, im_LegacyBatchGasCost = None, im_BatchDataStats = None\<rparr>
      = (Ok (), msg') \<and> im_LegacyBatchGasCost msg' = Some cost \<and> unat cost = 40056"
proof -
  let ?m = "\<lparr>im_Header = \<lparr>hdr_Kind = 13, hdr_Poster = 0, hdr_BlockNumber = 0, hdr_Timestamp = 0, hdr_RequestId = None, hdr_L1BaseFee = None\<rparr>,
       im_L2msg = report_bytes 1 2 (BytesToHash (wide_hash [0, 7])) 3 4 None, im_LegacyBatchGasCost = None, im_BatchDataStats = None\<rparr>"
  let ?f = "\<lambda>_ _. Ok [0, 7] :: bytes result"
  have e: "FillInBatchGasFieldsWithParentBlock wide_hash (Some ?f) 0 ?m = (Ok (), set_legacy_cost (GetDataStats [0, 7]) ?m)"
    by (simp add: FillInBatchGasFieldsWithParentBlock_def IsBatchGasFieldsMissing_def parse_report_bytes)
  have "batch_cost [0, 7] = 40056" by (simp add: batch_cost_def)
  then show ?thesis using filled_report_matches_batch [OF e] e by fastforce
qed

text \<open>C39: Parsing a complete batch posting report without a batch fetcher ends in a nil dereference, not in a report
  with its gas data left open: \<^verbatim>\<open>FillInBatchGasFields\<close> wraps the nil fetcher into a function that is not nil, so the
  test for nil that follows never sees it. Two readers of the legacy message database call the parser this way.\<close>

theorem nil_fetcher_panics:
  assumes "hdr_Kind (im_Header msg) = 13" and "serializable msg"
    and "im_L2msg msg = report_bytes ts poster dataHash num fee extra"
  shows "\<exists>b p. Serialize msg = Ok b \<and> ParseIncomingL1Message H None b = (Panic p, [])
    \<and> FillInBatchGasFieldsWithParentBlock H None n (without_gas_data msg) = (Ok (), without_gas_data msg)"
proof -
  obtain r fee where m: "hdr_RequestId (im_Header msg) = Some r" "hdr_L1BaseFee (im_Header msg) = Some fee" "0 \<le> fee" "fee < 2 ^ 256"
    using assms(2) by (auto simp: serializable_def)
  have "FillInBatchGasFields H None (without_gas_data msg)
      = (Panic ''invalid memory address or nil pointer dereference'', without_gas_data msg)"
    using assms(1,3) by (simp add: FillInBatchGasFields_def FillInBatchGasFieldsWithParentBlock_def IsBatchGasFieldsMissing_def
        without_gas_data_def parse_report_bytes FromFallibleBatchFetcher_def call_fetcher_def)
  then show ?thesis
    by (intro exI [of _ "wire_form msg r fee"])
       (simp add: Serialize_run [OF m(1,2)] Parse_wire_form [OF m] FillInBatchGasFieldsWithParentBlock_def)
qed

definition demo_report :: L1IncomingMessage where
  "demo_report = \<lparr>im_Header = \<lparr>hdr_Kind = 13, hdr_Poster = 5, hdr_BlockNumber = 9, hdr_Timestamp = 2,
       hdr_RequestId = Some 8, hdr_L1BaseFee = Some 7\<rparr>,
     im_L2msg = report_bytes 1 2 3 4 5 (Some 6), im_LegacyBatchGasCost = None, im_BatchDataStats = None\<rparr>"

lemma nil_fetcher_panics_witness:
  "\<exists>b p. Serialize demo_report = Ok b \<and> ParseIncomingL1Message wide_hash None b = (Panic p, [])"
  using nil_fetcher_panics [of demo_report 1 2 3 4 5 "Some 6" wide_hash 0]
  by (auto simp: demo_report_def serializable_def)

lemma message_round_trip_witness:
  "\<exists>b. Serialize (demo_report\<lparr>im_Header := (im_Header demo_report)\<lparr>hdr_Kind := 3\<rparr>\<rparr>) = Ok b
    \<and> ParseIncomingL1Message wide_hash None b = (Ok (demo_report\<lparr>im_Header := (im_Header demo_report)\<lparr>hdr_Kind := 3\<rparr>\<rparr>), [])"
  using message_round_trip [of "demo_report\<lparr>im_Header := (im_Header demo_report)\<lparr>hdr_Kind := 3\<rparr>\<rparr>" wide_hash None]
  by (auto simp: demo_report_def serializable_def without_gas_data_def)

end
