(* ===== verification/ParseL2.thy ===== *)
theory ParseL2
  imports Messages
begin

text \<open>
  From messages to transactions (\<^verbatim>\<open>arbos/parse_l2.go\<close>): the user transactions and nested batches of an L2
  message, deposits, submissions of retryables, and the internal transaction made of a batch
  posting report. Signed transactions are geth's; their decoder and their type are parameters, and
  so is the ABI encoding of the internal calls.
\<close>

section \<open>Transactions\<close>

record ArbitrumUnsignedTx =
  utx_ChainId :: int
  utx_From :: address
  utx_Nonce :: u64
  utx_GasFeeCap :: int
  utx_Gas :: u64
  utx_To :: "address option"
  utx_Value :: int
  utx_Data :: bytes

record ArbitrumContractTx =
  ctx_ChainId :: int
  ctx_RequestId :: hash
  ctx_From :: address
  ctx_GasFeeCap :: int
  ctx_Gas :: u64
  ctx_To :: "address option"
  ctx_Value :: int
  ctx_Data :: bytes

record ArbitrumDepositTx =
  dtx_ChainId :: int
  dtx_L1RequestId :: hash
  dtx_From :: address
  dtx_To :: address
  dtx_Value :: int

record ArbitrumSubmitRetryableTx =
  stx_ChainId :: int
  stx_RequestId :: hash
  stx_From :: address
  stx_L1BaseFee :: "int option"
  stx_DepositValue :: int
  stx_GasFeeCap :: int
  stx_Gas :: u64
  stx_RetryTo :: "address option"
  stx_RetryValue :: int
  stx_Beneficiary :: address
  stx_MaxSubmissionFee :: int
  stx_FeeRefundAddr :: address
  stx_RetryData :: bytes

record ArbitrumInternalTx =
  itx_ChainId :: int
  itx_Data :: bytes

datatype 'tx Transaction =
    SignedTx 'tx
  | UnsignedTx ArbitrumUnsignedTx
  | ContractTx ArbitrumContractTx
  | DepositTx ArbitrumDepositTx
  | SubmitRetryableTx ArbitrumSubmitRetryableTx
  | InternalTx ArbitrumInternalTx

record 'tx signed_codec =
  UnmarshalBinary :: "bytes \<Rightarrow> 'tx result"
  signed_Type :: "'tx \<Rightarrow> byte"

text \<open>The calls of the \<^verbatim>\<open>ArbosActs\<close> ABI: the encoders, the decoders and the method selectors.\<close>

record ArbosActs =
  PackInternalTxDataStartBlock :: "int \<Rightarrow> u64 \<Rightarrow> u64 \<Rightarrow> u64 \<Rightarrow> bytes result"
  PackInternalTxDataBatchPostingReport :: "int \<Rightarrow> address \<Rightarrow> u64 \<Rightarrow> u64 \<Rightarrow> int \<Rightarrow> bytes result"
  PackInternalTxDataBatchPostingReportV2 :: "int \<Rightarrow> address \<Rightarrow> u64 \<Rightarrow> u64 \<Rightarrow> u64 \<Rightarrow> u64 \<Rightarrow> int \<Rightarrow> bytes result"
  UnpackInternalTxDataStartBlock :: "bytes \<Rightarrow> (int \<times> u64 \<times> u64 \<times> u64) result"
  UnpackInternalTxDataBatchPostingReport :: "bytes \<Rightarrow> (int \<times> address \<times> u64 \<times> u64 \<times> int) result"
  UnpackInternalTxDataBatchPostingReportV2 :: "bytes \<Rightarrow> (int \<times> address \<times> u64 \<times> u64 \<times> u64 \<times> u64 \<times> int) result"
  InternalTxStartBlockMethodID :: bytes
  InternalTxBatchPostingReportMethodID :: bytes
  InternalTxBatchPostingReportV2MethodID :: bytes

section \<open>Single transactions\<close>

datatype L2MessageKind =
    L2MessageKind_UnsignedUserTx
  | L2MessageKind_ContractTx
  | L2MessageKind_NonmutatingCall
  | L2MessageKind_Batch
  | L2MessageKind_SignedTx
  | L2MessageKind_Heartbeat
  | L2MessageKind_SignedCompressedTx

fun L2MessageKind_code :: "L2MessageKind \<Rightarrow> byte" where
  "L2MessageKind_code L2MessageKind_UnsignedUserTx = 0"
| "L2MessageKind_code L2MessageKind_ContractTx = 1"
| "L2MessageKind_code L2MessageKind_NonmutatingCall = 2"
| "L2MessageKind_code L2MessageKind_Batch = 3"
| "L2MessageKind_code L2MessageKind_SignedTx = 4"
| "L2MessageKind_code L2MessageKind_Heartbeat = 6"
| "L2MessageKind_code L2MessageKind_SignedCompressedTx = 7"

text \<open>\<^verbatim>\<open>Mon, 08 Aug 2022 16:00:00 GMT\<close> in Unix time.\<close>

definition HeartbeatsDisabledAt :: u64 where
  "HeartbeatsDisabledAt = 1659974400"

definition BlobTxType :: byte where
  "BlobTxType = 3"

definition parseUnsignedTx :: "address \<Rightarrow> hash option \<Rightarrow> int \<Rightarrow> byte \<Rightarrow> 'tx Transaction reader" where
  "parseUnsignedTx poster requestId chainId txKind =
     bnd HashFromReader (\<lambda>gasLimitHash.
     if \<not> IsUint64 (uint gasLimitHash) then throw (ErrMsg ''unsigned user tx gas limit >= 2^64'')
     else
     bnd HashFromReader (\<lambda>maxFeePerGas.
     bnd (if txKind = L2MessageKind_code L2MessageKind_UnsignedUserTx
          then bnd HashFromReader (\<lambda>nonceAsHash.
               if \<not> IsUint64 (uint nonceAsHash) then throw (ErrMsg ''unsigned user tx nonce >= 2^64'')
               else ret (ucast nonceAsHash))
          else ret (0 :: u64)) (\<lambda>nonce.
     bnd AddressFrom256FromReader (\<lambda>to.
     let destination = (if to \<noteq> 0 then Some to else None) in
     bnd HashFromReader (\<lambda>val.
     bnd ReadAll (\<lambda>calldata.
     if txKind = L2MessageKind_code L2MessageKind_UnsignedUserTx
     then ret (UnsignedTx \<lparr>utx_ChainId = chainId, utx_From = poster, utx_Nonce = nonce,
            utx_GasFeeCap = uint maxFeePerGas, utx_Gas = ucast gasLimitHash, utx_To = destination,
            utx_Value = uint val, utx_Data = calldata\<rparr>)
     else if txKind = L2MessageKind_code L2MessageKind_ContractTx
     then (case requestId of
             None \<Rightarrow> throw (ErrMsg ''cannot issue contract tx without L1 request id'')
           | Some rid \<Rightarrow> ret (ContractTx \<lparr>ctx_ChainId = chainId, ctx_RequestId = rid, ctx_From = poster,
               ctx_GasFeeCap = uint maxFeePerGas, ctx_Gas = ucast gasLimitHash, ctx_To = destination,
               ctx_Value = uint val, ctx_Data = calldata\<rparr>))
     else throw (ErrMsg ''invalid L2 tx type in parseUnsignedTx'')))))))"

definition parseEthDepositMessage :: "L1IncomingMessageHeader \<Rightarrow> int \<Rightarrow> 'tx Transaction reader" where
  "parseEthDepositMessage header chainId =
     bnd AddressFromReader (\<lambda>to.
     bnd HashFromReader (\<lambda>balance.
     case hdr_RequestId header of
       None \<Rightarrow> throw (ErrMsg ''cannot issue deposit tx without L1 request id'')
     | Some rid \<Rightarrow> ret (DepositTx \<lparr>dtx_ChainId = chainId, dtx_L1RequestId = rid,
         dtx_From = hdr_Poster header, dtx_To = to, dtx_Value = uint balance\<rparr>)))"

definition parseSubmitRetryableMessage :: "L1IncomingMessageHeader \<Rightarrow> int \<Rightarrow> 'tx Transaction reader" where
  "parseSubmitRetryableMessage header chainId =
     bnd AddressFrom256FromReader (\<lambda>retryTo.
     let pRetryTo = (if retryTo = 0 then None else Some retryTo) in
     bnd HashFromReader (\<lambda>callvalue.
     bnd HashFromReader (\<lambda>depositValue.
     bnd HashFromReader (\<lambda>maxSubmissionFee.
     bnd AddressFrom256FromReader (\<lambda>feeRefundAddress.
     bnd AddressFrom256FromReader (\<lambda>callvalueRefundAddress.
     bnd HashFromReader (\<lambda>gasLimit.
     if \<not> IsUint64 (uint gasLimit) then throw (ErrMsg ''gas limit too large'')
     else
     bnd HashFromReader (\<lambda>maxFeePerGas.
     bnd HashFromReader (\<lambda>dataLength256.
     if \<not> IsUint64 (uint dataLength256) then throw (ErrMsg ''data length field too large'')
     else let dataLength = (ucast dataLength256 :: u64) in
     if dataLength > MaxL2MessageSize then throw (ErrMsg ''retryable data too large'')
     else
     bnd (if dataLength > 0 then Read (unat dataLength) else ret []) (\<lambda>retryData.
     case hdr_RequestId header of
       None \<Rightarrow> throw (ErrMsg ''cannot issue submit retryable tx without L1 request id'')
     | Some rid \<Rightarrow> ret (SubmitRetryableTx \<lparr>stx_ChainId = chainId, stx_RequestId = rid,
         stx_From = hdr_Poster header, stx_L1BaseFee = hdr_L1BaseFee header, stx_DepositValue = uint depositValue,
         stx_GasFeeCap = uint maxFeePerGas, stx_Gas = ucast gasLimit, stx_RetryTo = pRetryTo,
         stx_RetryValue = uint callvalue, stx_Beneficiary = callvalueRefundAddress,
         stx_MaxSubmissionFee = uint maxSubmissionFee, stx_FeeRefundAddr = feeRefundAddress,
         stx_RetryData = retryData\<rparr>)))))))))))"

definition ArbosVersion_50 :: u64 where
  "ArbosVersion_50 = 50"

text \<open>\<open>outcome r\<close>: the outcome of a call that has no effect on the state.\<close>

definition outcome :: "'a result \<Rightarrow> ('s, 'a) op" where
  "outcome r = (\<lambda>s. (r, s))"

text \<open>A legacy cost that disagrees with the stats is only logged.\<close>

definition createBatchPostingReportTransaction ::
  "ArbosActs \<Rightarrow> int \<Rightarrow> u64 \<Rightarrow> BatchDataStats option \<Rightarrow> u64 option \<Rightarrow> 'tx Transaction reader" where
  "createBatchPostingReportTransaction acts chainId lastArbosVersion batchDataStats legacyBatchGas =
     bnd ParseBatchPostingReportMessageFields (\<lambda>(batchTimestamp, batchPosterAddr, _, batchNum, l1BaseFee, extraGas).
     bnd (case batchDataStats of
            Some stats \<Rightarrow> ret (LegacyCostForStats stats)
          | None \<Rightarrow> (case legacyBatchGas of
              None \<Rightarrow> throw (ErrMsg ''no gas data field in a batch posting report'')
            | Some g \<Rightarrow> ret g)) (\<lambda>legacyGas.
     bnd (if lastArbosVersion < ArbosVersion_50
          then (let batchGas = SaturatingUAdd legacyGas extraGas in
                outcome (PackInternalTxDataBatchPostingReport acts batchTimestamp batchPosterAddr batchNum batchGas l1BaseFee))
          else (case batchDataStats of
              None \<Rightarrow> throw (ErrMsg ''no gas data stats in a batch posting report post arbos 50'')
            | Some stats \<Rightarrow> outcome (PackInternalTxDataBatchPostingReportV2 acts batchTimestamp batchPosterAddr batchNum
                (bds_Length stats) (bds_NonZeros stats) extraGas l1BaseFee))) (\<lambda>data.
     ret (InternalTx \<lparr>itx_ChainId = chainId, itx_Data = data\<rparr>))))"


section \<open>Messages and batches\<close>

lemma outcome_run [op_simps]: "outcome r s = (r, s)"
  by (simp add: outcome_def)

text \<open>The list of the one transaction that a reader gives.\<close>

definition one_tx :: "'tx Transaction reader \<Rightarrow> bytes \<Rightarrow> 'tx Transaction list result" where
  "one_tx m rd = fst (bnd m (\<lambda>tx. ret [tx]) rd)"

definition subRequestId :: "(bytes \<Rightarrow> bytes) \<Rightarrow> hash \<Rightarrow> nat \<Rightarrow> hash" where
  "subRequestId H requestId index = BytesToHash (H (hash_Bytes requestId @ hash_Bytes (of_nat index)))"

definition parseSignedTx :: "'tx signed_codec \<Rightarrow> bytes \<Rightarrow> 'tx Transaction list result" where
  "parseSignedTx C readBytes = (case UnmarshalBinary C readBytes of
      Err e \<Rightarrow> Err e
    | Panic p \<Rightarrow> Panic p
    | Ok newTx \<Rightarrow> if signed_Type C newTx \<ge> ArbitrumDepositTxType \<or> signed_Type C newTx = BlobTxType
        then Err (ErrMsg ''transaction type not supported'') else Ok [SignedTx newTx])"

lemma BytestringFromReader_shorter:
  assumes "BytestringFromReader lim rd = (Ok m, rd')"
  shows "length m + length rd' + 8 = length rd"
  using assms by (auto simp: BytestringFromReader_def Uint64FromReader_def ReadFull_def bnd_def ret_def throw_def split: if_splits)

text \<open>\<open>parseBatch\<close> is the loop of the batch case of \<^verbatim>\<open>parseL2Message\<close>; each message has a reader of its own, so that the bytes
  left in it after the call are not used. The recursion ends because the segment that is read next,
  and what follows it, are shorter than the input by the eight bytes of its length.\<close>

function parseL2Message ::
  "'tx signed_codec \<Rightarrow> (bytes \<Rightarrow> bytes) \<Rightarrow> address \<Rightarrow> u64 \<Rightarrow> int \<Rightarrow> hash option \<Rightarrow> nat \<Rightarrow> bytes \<Rightarrow> 'tx Transaction list result"
  and parseBatch ::
  "'tx signed_codec \<Rightarrow> (bytes \<Rightarrow> bytes) \<Rightarrow> address \<Rightarrow> u64 \<Rightarrow> int \<Rightarrow> hash option \<Rightarrow> nat \<Rightarrow> nat \<Rightarrow> 'tx Transaction list \<Rightarrow> bytes
    \<Rightarrow> 'tx Transaction list result"
where
  "parseL2Message C H poster timestamp chainId requestId depth rd = (case rd of
      [] \<Rightarrow> Err (ErrMsg ''EOF'')
    | kind # rd' \<Rightarrow>
        if kind = L2MessageKind_code L2MessageKind_UnsignedUserTx \<or> kind = L2MessageKind_code L2MessageKind_ContractTx
        then one_tx (parseUnsignedTx poster requestId chainId kind) rd'
        else if kind = L2MessageKind_code L2MessageKind_NonmutatingCall
        then Err (ErrMsg ''L2 message kind NonmutatingCall is unimplemented'')
        else if kind = L2MessageKind_code L2MessageKind_Batch
        then (if depth \<ge> 16 then Err (ErrMsg ''L2 message batches have a max depth of 16'')
              else parseBatch C H poster timestamp chainId requestId depth 0 [] rd')
        else if kind = L2MessageKind_code L2MessageKind_SignedTx then parseSignedTx C rd'
        else if kind = L2MessageKind_code L2MessageKind_Heartbeat
        then (if timestamp \<ge> HeartbeatsDisabledAt then Err (ErrMsg ''heartbeat messages have been disabled'') else Ok [])
        else if kind = L2MessageKind_code L2MessageKind_SignedCompressedTx
        then Err (ErrMsg ''L2 message kind SignedCompressedTx is unimplemented'')
        else Err (ErrMsg ''unknown L2 message kind''))"
| "parseBatch C H poster timestamp chainId requestId depth index segments rd =
     (case BytestringFromReader MaxL2MessageSize rd of
        (Ok nextMsg, rd') \<Rightarrow>
          (let nextRequestId = map_option (\<lambda>rid. subRequestId H rid index) requestId in
           case parseL2Message C H poster timestamp chainId nextRequestId (depth + 1) nextMsg of
             Ok nestedSegments \<Rightarrow>
               parseBatch C H poster timestamp chainId requestId depth (index + 1) (segments @ nestedSegments) rd'
           | Err e \<Rightarrow> Err e
           | Panic p \<Rightarrow> Panic p)
      | (Err _, _) \<Rightarrow> Ok segments
      | (Panic p, _) \<Rightarrow> Panic p)"
  by pat_completeness auto
termination
  by (relation "measure (\<lambda>x. case x of Inl (_, _, _, _, _, _, _, rd) \<Rightarrow> length rd | Inr (_, _, _, _, _, _, _, _, _, rd) \<Rightarrow> length rd)")
     (auto dest!: BytestringFromReader_shorter [OF sym])

declare parseL2Message.simps [simp del] parseBatch.simps [simp del]

text \<open>\<^verbatim>\<open>tx.Value()\<close> of the two types that \<^verbatim>\<open>parseUnsignedTx\<close> makes.\<close>

definition unsigned_Value :: "'tx Transaction \<Rightarrow> int" where
  "unsigned_Value tx = (case tx of UnsignedTx t \<Rightarrow> utx_Value t | ContractTx t \<Rightarrow> ctx_Value t | _ \<Rightarrow> 0)"

definition ParseL2Transactions ::
  "'tx signed_codec \<Rightarrow> ArbosActs \<Rightarrow> (bytes \<Rightarrow> bytes) \<Rightarrow> L1IncomingMessage \<Rightarrow> int \<Rightarrow> u64 \<Rightarrow> 'tx Transaction list result" where
  "ParseL2Transactions C acts H msg chainId lastArbosVersion =
     (let header = im_Header msg; L2msg = im_L2msg msg; kind = hdr_Kind header in
      if length L2msg > unat MaxL2MessageSize then Err (ErrMsg ''message too large'')
      else if kind = L1MessageType_code L1MessageType_L2Message
      then parseL2Message C H (hdr_Poster header) (hdr_Timestamp header) chainId (hdr_RequestId header) 0 L2msg
      else if kind = L1MessageType_code L1MessageType_Initialize
      then Err (ErrMsg ''ParseL2Transactions encountered initialize message'')
      else if kind = L1MessageType_code L1MessageType_EndOfBlock then Ok []
      else if kind = L1MessageType_code L1MessageType_L2FundedByL1
      then (case L2msg of
          [] \<Rightarrow> Err (ErrMsg ''L2FundedByL1 message has no data'')
        | txKind # rd \<Rightarrow> (case hdr_RequestId header of
            None \<Rightarrow> Err (ErrMsg ''cannot issue L2 funded by L1 tx without L1 request id'')
          | Some rid \<Rightarrow>
              (let depositRequestId = subRequestId H rid 0; unsignedRequestId = subRequestId H rid 1 in
               fst (bnd (parseUnsignedTx (hdr_Poster header) (Some unsignedRequestId) chainId txKind) (\<lambda>tx.
                 ret [DepositTx \<lparr>dtx_ChainId = chainId, dtx_L1RequestId = depositRequestId, dtx_From = 0,
                        dtx_To = hdr_Poster header, dtx_Value = unsigned_Value tx\<rparr>, tx]) rd))))
      else if kind = L1MessageType_code L1MessageType_SubmitRetryable
      then one_tx (parseSubmitRetryableMessage header chainId) L2msg
      else if kind = L1MessageType_code L1MessageType_BatchForGasEstimation
      then Err (ErrMsg ''L1 message type BatchForGasEstimation is unimplemented'')
      else if kind = L1MessageType_code L1MessageType_EthDeposit
      then one_tx (parseEthDepositMessage header chainId) L2msg
      else if kind = L1MessageType_code L1MessageType_RollupEvent then Ok []
      else if kind = L1MessageType_code L1MessageType_BatchPostingReport
      then one_tx (createBatchPostingReportTransaction acts chainId lastArbosVersion (im_BatchDataStats msg)
             (im_LegacyBatchGasCost msg)) L2msg
      else if kind = L1MessageType_code L1MessageType_Invalid then Err (ErrMsg ''invalid message'')
      else Err (ErrMsg ''invalid message type''))"

section \<open>Types of the parsed transactions\<close>

definition is_uint256 :: "int \<Rightarrow> bool" where
  "is_uint256 v \<longleftrightarrow> 0 \<le> v \<and> v < 2 ^ 256"

text \<open>What a transaction of a message can be, by the kind of the message.\<close>

definition user_typed :: "'tx signed_codec \<Rightarrow> address \<Rightarrow> int \<Rightarrow> 'tx Transaction \<Rightarrow> bool" where
  "user_typed C poster chainId tx = (case tx of
      SignedTx t \<Rightarrow> signed_Type C t < ArbitrumDepositTxType \<and> signed_Type C t \<noteq> BlobTxType
    | UnsignedTx t \<Rightarrow> utx_From t = poster \<and> utx_ChainId t = chainId \<and> utx_To t \<noteq> Some 0
        \<and> is_uint256 (utx_GasFeeCap t) \<and> is_uint256 (utx_Value t)
    | ContractTx t \<Rightarrow> ctx_From t = poster \<and> ctx_ChainId t = chainId \<and> ctx_To t \<noteq> Some 0
        \<and> is_uint256 (ctx_GasFeeCap t) \<and> is_uint256 (ctx_Value t)
    | _ \<Rightarrow> False)"

lemma is_uint256_uint: "is_uint256 (uint (h :: hash))"
  using uint_lt_pow [of h] by (simp add: is_uint256_def)

lemma one_tx_Ok: "one_tx m rd = Ok txs \<longleftrightarrow> (\<exists>tx rd'. m rd = (Ok tx, rd') \<and> txs = [tx])"
  by (auto simp: one_tx_def bnd_def ret_def split: prod.splits result.splits)

lemma op_Ok [simp]: "throw e s = (Ok x, s') \<longleftrightarrow> False" "panic p s = (Ok x, s') \<longleftrightarrow> False"
    "ret y s = (Ok x, s') \<longleftrightarrow> y = x \<and> s = s'"
  by (auto simp: throw_def panic_def ret_def)

lemma parseUnsignedTx_typed:
  assumes "parseUnsignedTx poster rid chainId kind rd = (Ok tx, rd')"
  shows "user_typed C poster chainId tx"
  using assms by (auto simp: parseUnsignedTx_def bnd_eq_Ok_iff Let_def user_typed_def is_uint256_uint split: if_splits option.splits)

lemma parseSignedTx_sound:
  "parseSignedTx C rd = Ok txs \<Longrightarrow> list_all (user_typed C poster chainId) txs \<and> length txs = 1"
  by (auto simp: parseSignedTx_def user_typed_def split: result.splits if_splits)

text \<open>Every transaction is typed, and each of them takes at least nine bytes of a batch.\<close>

lemma parseL2_sound:
  "parseL2Message C H poster ts chainId rid depth rd = Ok txs
    \<Longrightarrow> list_all (user_typed C poster chainId) txs \<and> 9 * length txs \<le> length rd + 8"
  "parseBatch C H poster ts chainId rid depth index segs rd = Ok txs \<Longrightarrow> list_all (user_typed C poster chainId) segs
    \<Longrightarrow> list_all (user_typed C poster chainId) txs \<and> 9 * length txs \<le> 9 * length segs + length rd"
proof (induction C H poster ts chainId rid depth rd and C H poster ts chainId rid depth index segs rd
    arbitrary: txs and txs rule: parseL2Message_parseBatch.induct)
  case (1 C H poster ts chainId rid depth rd)
  from "1.prems" show ?case
    by (subst (asm) parseL2Message.simps)
       (auto simp: one_tx_Ok parseSignedTx_sound dest: parseUnsignedTx_typed "1.IH" split: list.splits if_splits)
next
  case (2 C H poster ts chainId rid depth index segs rd)
  obtain r rd' where b: "BytestringFromReader MaxL2MessageSize rd = (r, rd')" by fastforce
  let ?rid = "map_option (\<lambda>rid. subRequestId H rid index) rid"
  show ?case
  proof (cases r)
    case (Ok m)
    obtain nested where n: "parseL2Message C H poster ts chainId ?rid (depth + 1) m = Ok nested"
      "parseBatch C H poster ts chainId rid depth (index + 1) (segs @ nested) rd' = Ok txs"
      using "2.prems"(1) b Ok by (subst (asm) parseBatch.simps) (auto split: result.splits)
    have "length m + length rd' + 8 = length rd" using BytestringFromReader_shorter b Ok by blast
    moreover have "list_all (user_typed C poster chainId) nested \<and> 9 * length nested \<le> length m + 8"
      by (rule "2.IH"(1) [OF b [symmetric] Ok refl n(1)])
    ultimately show ?thesis using "2.IH"(2) [OF b [symmetric] Ok refl n] "2.prems"(2) by auto
  qed (use "2.prems" b in \<open>subst (asm) parseBatch.simps, simp\<close>)+
qed

lemma ParseL2Transactions_user:
  assumes "ParseL2Transactions C acts H msg chainId ver = Ok txs" and "hdr_Kind (im_Header msg) = 3"
  shows "list_all (user_typed C (hdr_Poster (im_Header msg)) chainId) txs \<and> 9 * length txs \<le> 2 ^ 18 + 8"
proof -
  have "length (im_L2msg msg) \<le> 2 ^ 18"
    "parseL2Message C H (hdr_Poster (im_Header msg)) (hdr_Timestamp (im_Header msg)) chainId (hdr_RequestId (im_Header msg)) 0
      (im_L2msg msg) = Ok txs"
    using assms by (auto simp: ParseL2Transactions_def MaxL2MessageSize_def Let_def split: if_splits)
  then show ?thesis using parseL2_sound(1) by fastforce
qed

text \<open>The transactions a message of each kind may give.\<close>

definition well_typed :: "'tx signed_codec \<Rightarrow> L1IncomingMessageHeader \<Rightarrow> int \<Rightarrow> 'tx Transaction \<Rightarrow> bool" where
  "well_typed C h chainId tx = (case tx of
      DepositTx t \<Rightarrow> hdr_Kind h \<in> {7, 12} \<and> hdr_RequestId h \<noteq> None \<and> dtx_ChainId t = chainId \<and> is_uint256 (dtx_Value t)
        \<and> (dtx_From t = hdr_Poster h \<or> dtx_From t = 0 \<and> dtx_To t = hdr_Poster h)
    | SubmitRetryableTx t \<Rightarrow> hdr_Kind h = 9 \<and> hdr_RequestId h = Some (stx_RequestId t) \<and> stx_From t = hdr_Poster h
        \<and> stx_ChainId t = chainId \<and> length (stx_RetryData t) \<le> 2 ^ 18 \<and> stx_RetryTo t \<noteq> Some 0
        \<and> is_uint256 (stx_DepositValue t) \<and> is_uint256 (stx_GasFeeCap t) \<and> is_uint256 (stx_RetryValue t)
        \<and> is_uint256 (stx_MaxSubmissionFee t)
    | InternalTx t \<Rightarrow> hdr_Kind h = 13 \<and> itx_ChainId t = chainId
    | SignedTx t \<Rightarrow> hdr_Kind h = 3 \<and> user_typed C (hdr_Poster h) chainId tx
    | _ \<Rightarrow> hdr_Kind h \<in> {3, 7} \<and> user_typed C (hdr_Poster h) chainId tx)"

lemma length_Read: "Read n rd = (Ok b, rd') \<Longrightarrow> length b = n"
  by (auto simp: Read_def split: if_splits)

lemma unat_le_MaxL2MessageSize: "\<not> MaxL2MessageSize < l \<Longrightarrow> unat l \<le> 262144"
  by (simp add: MaxL2MessageSize_def word_le_nat_alt not_less)

lemma parseSubmitRetryable_typed:
  assumes "parseSubmitRetryableMessage h chainId rd = (Ok tx, rd')" and "hdr_Kind h = 9"
  shows "well_typed C h chainId tx"
  using assms unfolding parseSubmitRetryableMessage_def Let_def
  by (elim bnd_OkE)
     (auto simp: well_typed_def is_uint256_uint elim!: bnd_OkE dest!: length_Read unat_le_MaxL2MessageSize
       split: option.splits if_splits)

lemma parseEthDeposit_typed:
  assumes "parseEthDepositMessage h chainId rd = (Ok tx, rd')" and "hdr_Kind h = 12"
  shows "well_typed C h chainId tx"
  using assms by (auto simp: parseEthDepositMessage_def bnd_eq_Ok_iff well_typed_def is_uint256_uint split: option.splits)

lemma createReport_typed:
  assumes "createBatchPostingReportTransaction acts chainId ver stats gas rd = (Ok tx, rd')" and "hdr_Kind h = 13"
  shows "well_typed C h chainId tx"
  using assms by (auto simp: createBatchPostingReportTransaction_def bnd_eq_Ok_iff well_typed_def split: prod.splits)

lemma user_well_typed:
  assumes "user_typed C (hdr_Poster h) chainId tx" and "hdr_Kind h = 3 \<or> hdr_Kind h = 7 \<and> (\<forall>t. tx \<noteq> SignedTx t)"
  shows "well_typed C h chainId tx"
  using assms by (cases tx) (auto simp: well_typed_def user_typed_def)

lemma parseUnsignedTx_unsigned:
  assumes "parseUnsignedTx poster rid chainId kind rd = (Ok tx, rd')"
  shows "(\<forall>t. tx \<noteq> SignedTx t) \<and> is_uint256 (unsigned_Value tx)"
  using assms by (auto simp: parseUnsignedTx_def bnd_eq_Ok_iff Let_def unsigned_Value_def is_uint256_uint split: if_splits option.splits)

lemma funded_typed:
  assumes "ParseL2Transactions C acts H msg chainId ver = Ok txs" and "hdr_Kind (im_Header msg) = 7"
  shows "list_all (well_typed C (im_Header msg) chainId) txs \<and> length txs = 2"
proof -
  let ?h = "im_Header msg"
  obtain k rd rid tx rd' where r: "im_L2msg msg = k # rd" "hdr_RequestId ?h = Some rid"
    "parseUnsignedTx (hdr_Poster ?h) (Some (subRequestId H rid 1)) chainId k rd = (Ok tx, rd')"
    "txs = [DepositTx \<lparr>dtx_ChainId = chainId, dtx_L1RequestId = subRequestId H rid 0, dtx_From = 0,
       dtx_To = hdr_Poster ?h, dtx_Value = unsigned_Value tx\<rparr>, tx]"
    using assms by (auto simp: ParseL2Transactions_def Let_def bnd_def ret_def split: if_splits list.splits option.splits result.splits prod.splits)
  have "well_typed C ?h chainId tx"
    using parseUnsignedTx_typed [OF r(3)] parseUnsignedTx_unsigned [OF r(3)] assms(2) by (intro user_well_typed) auto
  moreover have "well_typed C ?h chainId (DepositTx \<lparr>dtx_ChainId = chainId, dtx_L1RequestId = subRequestId H rid 0, dtx_From = 0,
       dtx_To = hdr_Poster ?h, dtx_Value = unsigned_Value tx\<rparr>)"
    using parseUnsignedTx_unsigned [OF r(3)] assms(2) r(2) by (simp add: well_typed_def)
  ultimately show ?thesis using r(4) by simp
qed

text \<open>C9: The transactions of a message are typed by its kind. A message of users gives no deposit, no submission of a
  retryable and no internal transaction; a signed transaction is never of a type reserved for the system or
  carrying blobs; an unsigned transaction is sent by the poster of the message and by nobody else; an internal
  transaction comes from a batch posting report only; all amounts are 256-bit; and one message gives at most 29128
  transactions.\<close>

theorem transactions_typed:
  assumes "ParseL2Transactions C acts H msg chainId ver = Ok txs"
  shows "list_all (well_typed C (im_Header msg) chainId) txs \<and> length txs \<le> 29128"
proof -
  let ?h = "im_Header msg" and ?k = "hdr_Kind (im_Header msg)"
  consider "?k = 3" | "?k = 7" | "?k = 9" | "?k = 12" | "?k = 13" | "txs = []"
    using assms by (auto simp: ParseL2Transactions_def Let_def split: if_splits)
  then show ?thesis
  proof cases
    case 1
    then show ?thesis using ParseL2Transactions_user [OF assms]
      by (auto simp: list_all_iff intro!: user_well_typed)
  next
    case 2
    then show ?thesis using funded_typed [OF assms] by simp
  next
    case 3
    then have "one_tx (parseSubmitRetryableMessage ?h chainId) (im_L2msg msg) = Ok txs"
      using assms by (simp add: ParseL2Transactions_def Let_def split: if_splits)
    then show ?thesis using 3 by (auto simp: one_tx_Ok intro: parseSubmitRetryable_typed)
  next
    case 4
    then have "one_tx (parseEthDepositMessage ?h chainId) (im_L2msg msg) = Ok txs"
      using assms by (simp add: ParseL2Transactions_def Let_def split: if_splits)
    then show ?thesis using 4 by (auto simp: one_tx_Ok intro: parseEthDeposit_typed)
  next
    case 5
    then have "one_tx (createBatchPostingReportTransaction acts chainId ver (im_BatchDataStats msg) (im_LegacyBatchGasCost msg)) (im_L2msg msg) = Ok txs"
      using assms by (simp add: ParseL2Transactions_def Let_def split: if_splits)
    then show ?thesis using 5 by (auto simp: one_tx_Ok intro: createReport_typed)
  qed simp
qed

section \<open>Nesting\<close>

text \<open>The loop over the segments of a batch, with the parser of a segment as an argument; \<open>None\<close> is the outcome
  of a parser that has no stack left. \<open>parse_levels n\<close> parses with \<open>n\<close> frames of stack; a message that is not
  a batch needs no further frame.\<close>

function batch_with ::
  "(hash option \<Rightarrow> bytes \<Rightarrow> 'tx Transaction list result option) \<Rightarrow> (bytes \<Rightarrow> bytes) \<Rightarrow> hash option \<Rightarrow> nat
    \<Rightarrow> 'tx Transaction list \<Rightarrow> bytes \<Rightarrow> 'tx Transaction list result option" where
  "batch_with inner H requestId index segments rd =
     (case BytestringFromReader MaxL2MessageSize rd of
        (Ok nextMsg, rd') \<Rightarrow>
          (case inner (map_option (\<lambda>rid. subRequestId H rid index) requestId) nextMsg of
             None \<Rightarrow> None
           | Some (Ok nested) \<Rightarrow> batch_with inner H requestId (index + 1) (segments @ nested) rd'
           | Some (Err e) \<Rightarrow> Some (Err e)
           | Some (Panic p) \<Rightarrow> Some (Panic p))
      | (Err _, _) \<Rightarrow> Some (Ok segments)
      | (Panic p, _) \<Rightarrow> Some (Panic p))"
  by pat_completeness auto
termination
  by (relation "measure (\<lambda>(_, _, _, _, _, rd). length rd)") (auto dest!: BytestringFromReader_shorter [OF sym])

declare batch_with.simps [simp del]

primrec parse_levels ::
  "nat \<Rightarrow> 'tx signed_codec \<Rightarrow> (bytes \<Rightarrow> bytes) \<Rightarrow> address \<Rightarrow> u64 \<Rightarrow> int \<Rightarrow> nat \<Rightarrow> hash option \<Rightarrow> bytes
    \<Rightarrow> 'tx Transaction list result option" where
  "parse_levels 0 C H poster timestamp chainId depth requestId rd = None"
| "parse_levels (Suc n) C H poster timestamp chainId depth requestId rd =
     (if rd \<noteq> [] \<and> hd rd = L2MessageKind_code L2MessageKind_Batch
      then (if depth \<ge> 16 then Some (Err (ErrMsg ''L2 message batches have a max depth of 16''))
            else batch_with (parse_levels n C H poster timestamp chainId (depth + 1)) H requestId 0 [] (tl rd))
      else Some (parseL2Message C H poster timestamp chainId requestId depth rd))"

lemma batch_with_parseBatch:
  "batch_with (\<lambda>rid m. Some (parseL2Message C H poster ts chainId rid (depth + 1) m)) H rid index segs rd
   = Some (parseBatch C H poster ts chainId rid depth index segs rd)"
proof (induction rd arbitrary: index segs rule: measure_induct_rule [of length])
  case (less rd)
  then show ?case
    by (subst batch_with.simps, subst parseBatch.simps)
       (auto dest: BytestringFromReader_shorter split: result.splits prod.splits)
qed

text \<open>C11: Parsing a message ends within a fixed stack: seventeen frames are enough for every input, whatever
  the nesting of its batches, and the parser on a bounded stack gives the same outcome as the parser on an
  unbounded one, because a batch at depth sixteen is refused before it is opened.\<close>

theorem seventeen_frames_suffice:
  "parse_levels (17 - depth) C H poster timestamp chainId depth requestId rd
   = (if depth \<le> 16 then Some (parseL2Message C H poster timestamp chainId requestId depth rd) else None)"
proof (induction "17 - depth" arbitrary: depth requestId rd)
  case 0
  then show ?case by simp
next
  case (Suc n)
  then have n: "17 - (depth + 1) = n" "n = 17 - (depth + 1)" "depth \<le> 16" by simp_all
  have "parse_levels n C H poster timestamp chainId (depth + 1)
      = (\<lambda>rid m. Some (parseL2Message C H poster timestamp chainId rid (depth + 1) m))" if "depth < 16"
    using Suc(1) [OF n(2)] that n(1) by (simp add: fun_eq_iff)
  then have "batch_with (parse_levels n C H poster timestamp chainId (depth + 1)) H requestId 0 [] (tl rd)
      = Some (parseBatch C H poster timestamp chainId requestId depth 0 [] (tl rd))" if "depth < 16"
    using that by (simp only: batch_with_parseBatch)
  then show ?case using n(3) unfolding Suc(2) [symmetric]
    by (cases rd) (simp_all add: parseL2Message.simps)
qed

section \<open>The ABI of the internal calls\<close>

text \<open>What the code relies on of the encoders and decoders: four-byte selectors that differ, encodings that begin
  with the selector, and decoders that undo the encoders on 256-bit amounts.\<close>

definition acts_ok :: "ArbosActs \<Rightarrow> bool" where
  "acts_ok A \<longleftrightarrow>
     length (InternalTxStartBlockMethodID A) = 4 \<and> length (InternalTxBatchPostingReportMethodID A) = 4
     \<and> length (InternalTxBatchPostingReportV2MethodID A) = 4
     \<and> distinct [InternalTxStartBlockMethodID A, InternalTxBatchPostingReportMethodID A, InternalTxBatchPostingReportV2MethodID A]
     \<and> (\<forall>fee l1 l2 t. is_uint256 fee \<longrightarrow> (\<exists>b. PackInternalTxDataStartBlock A fee l1 l2 t = Ok (InternalTxStartBlockMethodID A @ b)
          \<and> UnpackInternalTxDataStartBlock A (InternalTxStartBlockMethodID A @ b) = Ok (fee, l1, l2, t)))
     \<and> (\<forall>ts a n g fee. is_uint256 ts \<longrightarrow> is_uint256 fee \<longrightarrow>
          (\<exists>b. PackInternalTxDataBatchPostingReport A ts a n g fee = Ok (InternalTxBatchPostingReportMethodID A @ b)
          \<and> UnpackInternalTxDataBatchPostingReport A (InternalTxBatchPostingReportMethodID A @ b) = Ok (ts, a, n, g, fee)))
     \<and> (\<forall>ts a n l z x fee. is_uint256 ts \<longrightarrow> is_uint256 fee \<longrightarrow>
          (\<exists>b. PackInternalTxDataBatchPostingReportV2 A ts a n l z x fee = Ok (InternalTxBatchPostingReportV2MethodID A @ b)
          \<and> UnpackInternalTxDataBatchPostingReportV2 A (InternalTxBatchPostingReportV2MethodID A @ b) = Ok (ts, a, n, l, z, x, fee)))"

text \<open>An instance: a selector followed by 32-byte words.\<close>

definition abi_words :: "hash list \<Rightarrow> bytes" where
  "abi_words ws = concat (map hash_Bytes ws)"

definition abi_word :: "bytes \<Rightarrow> nat \<Rightarrow> hash" where
  "abi_word b n = BytesToHash (take 32 (drop (4 + 32 * n) b))"

definition demo_acts :: ArbosActs where
  "demo_acts = \<lparr>
     PackInternalTxDataStartBlock = (\<lambda>fee l1 l2 t. Ok ([1, 0, 0, 0] @ abi_words [word_of_int fee, ucast l1, ucast l2, ucast t])),
     PackInternalTxDataBatchPostingReport = (\<lambda>ts a n g fee.
       Ok ([2, 0, 0, 0] @ abi_words [word_of_int ts, ucast a, ucast n, ucast g, word_of_int fee])),
     PackInternalTxDataBatchPostingReportV2 = (\<lambda>ts a n l z x fee.
       Ok ([3, 0, 0, 0] @ abi_words [word_of_int ts, ucast a, ucast n, ucast l, ucast z, ucast x, word_of_int fee])),
     UnpackInternalTxDataStartBlock = (\<lambda>b. let w = abi_word b in Ok (uint (w 0), ucast (w 1), ucast (w 2), ucast (w 3))),
     UnpackInternalTxDataBatchPostingReport = (\<lambda>b. let w = abi_word b in
       Ok (uint (w 0), ucast (w 1), ucast (w 2), ucast (w 3), uint (w 4))),
     UnpackInternalTxDataBatchPostingReportV2 = (\<lambda>b. let w = abi_word b in
       Ok (uint (w 0), ucast (w 1), ucast (w 2), ucast (w 3), ucast (w 4), ucast (w 5), uint (w 6))),
     InternalTxStartBlockMethodID = [1, 0, 0, 0],
     InternalTxBatchPostingReportMethodID = [2, 0, 0, 0],
     InternalTxBatchPostingReportV2MethodID = [3, 0, 0, 0]\<rparr>"

lemma uint_word_of_int_256: "is_uint256 v \<Longrightarrow> uint (word_of_int v :: hash) = v"
  by (simp add: is_uint256_def uint_word_of_int_eq take_bit_int_eq_self)

lemma drop_abi_words: "n \<le> length ws \<Longrightarrow> drop (32 * n) (abi_words ws) = abi_words (drop n ws)"
proof (induction n arbitrary: ws)
  case (Suc n)
  then obtain w us where ws: "ws = w # us" by (cases ws) auto
  have "drop (32 * Suc n) (abi_words ws) = drop (32 * n) (abi_words us)"
    by (simp add: ws abi_words_def)
  then show ?case using Suc ws by simp
qed simp

lemma abi_word_of: "length s = 4 \<Longrightarrow> n < length ws \<Longrightarrow> abi_word (s @ abi_words ws) n = ws ! n"
proof -
  assume a: "length s = 4" "n < length ws"
  have "drop (4 + 32 * n) (s @ abi_words ws) = abi_words (drop n ws)" using a by (simp add: drop_abi_words)
  also have "\<dots> = hash_Bytes (ws ! n) @ abi_words (drop (Suc n) ws)"
    using a(2) by (simp add: Cons_nth_drop_Suc [symmetric] abi_words_def)
  finally show ?thesis by (simp add: abi_word_def)
qed

lemma demo_acts_ok: "acts_ok demo_acts"
  by (simp add: acts_ok_def demo_acts_def Let_def abi_word_of [of "[_, _, _, _]", simplified] uint_word_of_int_256)

lemma transactions_typed_witness:
  "ParseL2Transactions \<lparr>UnmarshalBinary = (\<lambda>b. Ok b), signed_Type = (\<lambda>_. 2)\<rparr> demo_acts wide_hash
     (demo_report\<lparr>im_Header := (im_Header demo_report)\<lparr>hdr_Kind := 3\<rparr>, im_L2msg := [4, 9]\<rparr>) 1 50 = Ok [SignedTx [9]]
   \<and> list_all (well_typed \<lparr>UnmarshalBinary = (\<lambda>b. Ok b), signed_Type = (\<lambda>_. 2)\<rparr>
       ((im_Header demo_report)\<lparr>hdr_Kind := 3\<rparr>) 1) [SignedTx [9 :: byte]]"
proof -
  let ?C = "\<lparr>UnmarshalBinary = (\<lambda>b :: bytes. Ok b), signed_Type = (\<lambda>_. 2)\<rparr>"
  let ?m = "demo_report\<lparr>im_Header := (im_Header demo_report)\<lparr>hdr_Kind := 3\<rparr>, im_L2msg := [4, 9]\<rparr>"
  have "ParseL2Transactions ?C demo_acts wide_hash ?m 1 50 = Ok [SignedTx [9]]"
    by (simp add: ParseL2Transactions_def demo_report_def MaxL2MessageSize_def parseL2Message.simps parseSignedTx_def
        tx_types BlobTxType_def)
  then show ?thesis using transactions_typed [of ?C demo_acts wide_hash ?m 1 50] by simp
qed


section \<open>Encoding of user messages\<close>

text \<open>The encodings that the parsers undo. \<open>M\<close> is the binary form of a signed transaction.\<close>

definition encode_to :: "address option \<Rightarrow> bytes" where
  "encode_to to = replicate 12 0 @ be_bytes 20 (unat (case to of None \<Rightarrow> 0 | Some a \<Rightarrow> a))"

definition encode_tx :: "('tx \<Rightarrow> bytes) \<Rightarrow> 'tx Transaction \<Rightarrow> bytes" where
  "encode_tx M tx = (case tx of
      UnsignedTx t \<Rightarrow> 0 # hash_Bytes (ucast (utx_Gas t)) @ hash_Bytes (word_of_int (utx_GasFeeCap t)) @ hash_Bytes (ucast (utx_Nonce t))
        @ encode_to (utx_To t) @ hash_Bytes (word_of_int (utx_Value t)) @ utx_Data t
    | ContractTx t \<Rightarrow> 1 # hash_Bytes (ucast (ctx_Gas t)) @ hash_Bytes (word_of_int (ctx_GasFeeCap t))
        @ encode_to (ctx_To t) @ hash_Bytes (word_of_int (ctx_Value t)) @ ctx_Data t
    | SignedTx t \<Rightarrow> 4 # M t
    | _ \<Rightarrow> [])"

definition encode_segments :: "bytes list \<Rightarrow> bytes" where
  "encode_segments ms = concat (map (\<lambda>m. snd (BytestringToWriter m [])) ms)"

definition encode_batch :: "bytes list \<Rightarrow> bytes" where
  "encode_batch ms = 3 # encode_segments ms"

text \<open>A transaction that a user can send in a message with this poster and request id.\<close>

definition sendable ::
  "'tx signed_codec \<Rightarrow> ('tx \<Rightarrow> bytes) \<Rightarrow> address \<Rightarrow> int \<Rightarrow> hash option \<Rightarrow> 'tx Transaction \<Rightarrow> bool" where
  "sendable C M poster chainId requestId tx \<longleftrightarrow> user_typed C poster chainId tx \<and> (case tx of
      SignedTx t \<Rightarrow> UnmarshalBinary C (M t) = Ok t
    | ContractTx t \<Rightarrow> requestId = Some (ctx_RequestId t)
    | _ \<Rightarrow> True)"

lemma read_encode_to [reader_simps]:
  "AddressFrom256FromReader (encode_to to @ rest) = (Ok (case to of None \<Rightarrow> 0 | Some a \<Rightarrow> a), rest)"
  by (simp add: encode_to_def reader_simps)

lemma parse_encode_tx:
  assumes "sendable C M poster chainId rid tx"
  shows "parseL2Message C H poster ts chainId rid depth (encode_tx M tx) = Ok [tx]"
proof (cases tx)
  case (UnsignedTx t)
  then have "is_uint256 (utx_GasFeeCap t)" "is_uint256 (utx_Value t)" "utx_From t = poster" "utx_ChainId t = chainId" "utx_To t \<noteq> Some 0"
    using assms by (simp_all add: sendable_def user_typed_def)
  with UnsignedTx show ?thesis
    by (simp add: encode_tx_def parseL2Message.simps one_tx_def parseUnsignedTx_def reader_simps op_simps IsUint64_ucast
        uint_word_of_int_256 Let_def split: option.split)
next
  case (ContractTx t)
  then have "is_uint256 (ctx_GasFeeCap t)" "is_uint256 (ctx_Value t)" "ctx_From t = poster" "ctx_ChainId t = chainId" "ctx_To t \<noteq> Some 0"
    "rid = Some (ctx_RequestId t)"
    using assms by (simp_all add: sendable_def user_typed_def)
  with ContractTx show ?thesis
    by (simp add: encode_tx_def parseL2Message.simps one_tx_def parseUnsignedTx_def reader_simps op_simps IsUint64_ucast
        uint_word_of_int_256 Let_def split: option.split)
next
  case (SignedTx t)
  with assms show ?thesis
    by (auto simp: sendable_def user_typed_def encode_tx_def parseL2Message.simps parseSignedTx_def)
qed (use assms in \<open>simp_all add: sendable_def user_typed_def\<close>)

lemma read_segment:
  assumes "length m \<le> 262144"
  shows "BytestringFromReader MaxL2MessageSize (encode_segments (m # ms)) = (Ok m, encode_segments ms)"
  using bytestring_round_trip [of m MaxL2MessageSize "encode_segments ms" 0] assms
  by (simp add: encode_segments_def MaxL2MessageSize_def word_le_nat_alt unat_of_nat)

lemma read_no_segment: "\<exists>e s. BytestringFromReader lim (encode_segments []) = (Err e, s)"
  by (simp add: encode_segments_def BytestringFromReader_def Uint64FromReader_def ReadFull_def op_simps)

text \<open>A batch gives the transactions of its segments one after the other, each parsed with the
  request id of its position.\<close>

lemma parseBatch_segments:
  assumes "list_all2 (\<lambda>(i, m) txs. length m \<le> 262144 \<and>
      parseL2Message C H poster ts chainId (map_option (\<lambda>r. subRequestId H r i) rid) (depth + 1) m = Ok txs)
      (enumerate index ms) txss"
  shows "parseBatch C H poster ts chainId rid depth index segs (encode_segments ms) = Ok (segs @ concat txss)"
  using assms
proof (induction ms arbitrary: index segs txss)
  case Nil
  then show ?case using read_no_segment [of MaxL2MessageSize] by (subst parseBatch.simps) auto
next
  case (Cons m ms)
  then obtain txs rest where t: "txss = txs # rest" "length m \<le> 262144"
    "parseL2Message C H poster ts chainId (map_option (\<lambda>r. subRequestId H r index) rid) (depth + 1) m = Ok txs"
    "list_all2 (\<lambda>(i, m) txs. length m \<le> 262144 \<and>
      parseL2Message C H poster ts chainId (map_option (\<lambda>r. subRequestId H r i) rid) (depth + 1) m = Ok txs)
      (enumerate (Suc index) ms) rest"
    by (auto simp: list_all2_Cons1)
  show ?case using t Cons.IH [OF t(4)] by (subst parseBatch.simps) (simp add: read_segment [OF t(2)])
qed

text \<open>C10: A batch of user transactions is recovered in order: when each of them is one that the poster may send, with
  the request id derived from its position in the case of a contract transaction, parsing the batch gives back
  exactly the list of transactions that was encoded, at every depth below sixteen.\<close>

theorem batch_round_trip:
  assumes "\<And>i. i < length txs \<Longrightarrow> sendable C M poster chainId (map_option (\<lambda>r. subRequestId H r i) rid) (txs ! i)"
    and "\<And>i. i < length txs \<Longrightarrow> length (encode_tx M (txs ! i)) \<le> 262144" and "depth < 16"
  shows "parseL2Message C H poster ts chainId rid depth (encode_batch (map (encode_tx M) txs)) = Ok txs"
proof -
  have "parseBatch C H poster ts chainId rid depth 0 [] (encode_segments (map (encode_tx M) txs))
      = Ok ([] @ concat (map (\<lambda>tx. [tx]) txs))"
    using assms by (intro parseBatch_segments) (auto simp: list_all2_conv_all_nth nth_enumerate_eq parse_encode_tx)
  then show ?thesis using assms(3) by (simp add: encode_batch_def parseL2Message.simps)
qed

definition demo_signed :: "bytes signed_codec" where
  "demo_signed = \<lparr>UnmarshalBinary = (\<lambda>b. Ok b), signed_Type = (\<lambda>_. 2)\<rparr>"

definition demo_txs :: "bytes Transaction list" where
  "demo_txs = [SignedTx [9], UnsignedTx \<lparr>utx_ChainId = 1, utx_From = 5, utx_Nonce = 7, utx_GasFeeCap = 3, utx_Gas = 21000,
     utx_To = None, utx_Value = 2, utx_Data = [1, 2]\<rparr>]"

lemma batch_round_trip_witness:
  "parseL2Message demo_signed wide_hash 5 0 1 (Some 8) 0 (encode_batch (map (encode_tx (\<lambda>b. b)) demo_txs)) = Ok demo_txs"
proof (rule batch_round_trip)
  fix i assume "i < length demo_txs"
  then have "i = 0 \<or> i = 1" by (auto simp: demo_txs_def)
  then show "sendable demo_signed (\<lambda>b. b) 5 1 (map_option (\<lambda>r. subRequestId wide_hash r i) (Some 8)) (demo_txs ! i)"
    "length (encode_tx (\<lambda>b. b) (demo_txs ! i)) \<le> 262144"
    by (auto simp: demo_txs_def demo_signed_def sendable_def user_typed_def is_uint256_def tx_types BlobTxType_def
        encode_tx_def encode_to_def)
qed simp

end
