(* ===== verification/InternalTxs.thy ===== *)
theory InternalTxs
  imports ArbosState ParseL2
begin

text \<open>
  Internal transactions (\<^verbatim>\<open>arbos/internal_tx.go\<close>): the one that starts a block, and the two forms of the batch posting
  report. They tie the components together: block hashes, retryables, L2 pricing and upgrades in the first,
  L1 pricing in the others.
\<close>

section \<open>The handlers\<close>

record Header =
  header_Number :: int
  header_Time :: u64

definition InternalTxStartBlock ::
  "ArbosActs \<Rightarrow> int \<Rightarrow> int option \<Rightarrow> u64 \<Rightarrow> Header \<Rightarrow> Header \<Rightarrow> ArbitrumInternalTx result" where
  "InternalTxStartBlock acts chainId l1BaseFee l1BlockNum header lastHeader =
     (let l2BlockNum = word_of_int (header_Number header);
          timePassed = header_Time header - header_Time lastHeader;
          l1BaseFee = (case l1BaseFee of None \<Rightarrow> 0 | Some fee \<Rightarrow> fee)
      in case PackInternalTxDataStartBlock acts l1BaseFee l1BlockNum l2BlockNum timePassed of
           Ok data \<Rightarrow> Ok \<lparr>itx_ChainId = chainId, itx_Data = data\<rparr>
         | Err e \<Rightarrow> Panic ''Failed to pack internal tx''
         | Panic p \<Rightarrow> Panic p)"

definition FloorGasAdditionalTokens :: u64 where
  "FloorGasAdditionalTokens = 172"

text \<open>What the handlers use of the block: its number, the hashes of its ancestors, its time, and geth's
  \<^verbatim>\<open>ProcessParentBlockHash\<close>.\<close>

record block_context =
  blk_BlockNumber :: int
  blk_GetHash :: "u64 \<Rightarrow> hash"
  blk_Time :: u64
  blk_ProcessParentBlockHash :: "hash \<Rightarrow> (world, unit) op"

definition applyStartBlock ::
  "(bytes \<Rightarrow> bytes) \<Rightarrow> upgrade_env \<Rightarrow> block_context \<Rightarrow> ArbosState \<Rightarrow> EVM \<Rightarrow> int \<times> u64 \<times> u64 \<times> u64 \<Rightarrow> (world, ArbosState) op" where
  "applyStartBlock H U blk state evm = (\<lambda>(_, l1BlockNumber, l2BlockNumber, timePassed).
     let version = aos_arbosVersion state;
         prevHash = (if blk_BlockNumber blk > 0 then blk_GetHash blk (word_of_int (blk_BlockNumber blk) - 1) else 0);
         timePassed = (if version < 3 then l2BlockNumber else timePassed);
         l1BlockNumber = (if version < 8 then l1BlockNumber + 1 else l1BlockNumber);
         currentTime = blk_Time blk
     in
     bnd (if version \<ge> 40 then blk_ProcessParentBlockHash blk prevHash else ret ()) (\<lambda>_.
     bnd (Restricted 0 (Blockhashes_L1BlockNumber H (aos_blockhashes state))) (\<lambda>oldL1BlockNumber.
     bnd (if l1BlockNumber > oldL1BlockNumber
          then Restricted () (Blockhashes_RecordNewL1Block H (aos_blockhashes state) (l1BlockNumber - 1) prevHash version)
          else ret ()) (\<lambda>_.
     bnd (ignore (TryToReapOneRetryable H (aos_retryableState state) currentTime evm TracingDuringEVM)) (\<lambda>_.
     bnd (ignore (TryToReapOneRetryable H (aos_retryableState state) currentTime evm TracingDuringEVM)) (\<lambda>_.
     bnd (L2_UpdatePricingModel H (aos_l2PricingState state) timePassed) (\<lambda>_.
     UpgradeArbosVersionIfNecessary H U state currentTime)))))))"

definition applyBatchPostingReport ::
  "(bytes \<Rightarrow> bytes) \<Rightarrow> block_context \<Rightarrow> ArbosState \<Rightarrow> EVM \<Rightarrow> int \<times> address \<times> u64 \<times> u64 \<times> int \<Rightarrow> (world, unit) op" where
  "applyBatchPostingReport H blk state evm = (\<lambda>(batchTimestamp, batchPosterAddress, _, batchDataGas, l1BaseFeeWei).
     let l1p = aos_l1PricingState state in
     bnd (or_zero 0 (L1_PerBatchGasCost H l1p)) (\<lambda>perBatchGas.
     let gasSpent = SaturatingAdd 64 perBatchGas (SaturatingCast 64 batchDataGas);
         weiSpent = BigMulByUint l1BaseFeeWei (SaturatingUCast 64 gasSpent)
     in ignore (UpdateForBatchPosterSpending H l1p evm (aos_arbosVersion state) (word_of_int batchTimestamp)
          (blk_Time blk) batchPosterAddress weiSpent l1BaseFeeWei TracingDuringEVM)))"

definition TxGas :: u64 where
  "TxGas = 21000"

definition applyBatchPostingReportV2 ::
  "(bytes \<Rightarrow> bytes) \<Rightarrow> block_context \<Rightarrow> ArbosState \<Rightarrow> EVM \<Rightarrow> int \<times> address \<times> u64 \<times> u64 \<times> u64 \<times> u64 \<times> int \<Rightarrow> (world, unit) op" where
  "applyBatchPostingReportV2 H blk state evm =
    (\<lambda>(batchTimestamp, batchPosterAddress, _, batchCalldataLength, batchCalldataNonZeros, batchExtraGas, l1BaseFeeWei).
     let gasSpent = LegacyCostForStats \<lparr>bds_Length = batchCalldataLength, bds_NonZeros = batchCalldataNonZeros\<rparr>;
         gasSpent = SaturatingUAdd gasSpent batchExtraGas;
         l1p = aos_l1PricingState state
     in
     bnd (or_zero 0 (L1_PerBatchGasCost H l1p)) (\<lambda>perBatchGas.
     let gasSpent = SaturatingUAdd gasSpent (SaturatingUCast 64 perBatchGas) in
     bnd (if aos_arbosVersion state \<ge> ArbosVersion_50
          then bnd (or_zero 0 (L1_ParentGasFloorPerToken H l1p)) (\<lambda>gasFloorPerToken.
               let floorGasSpent = gasFloorPerToken * (batchCalldataLength + batchCalldataNonZeros * 3 + FloorGasAdditionalTokens) + TxGas
               in ret (if floorGasSpent > gasSpent then floorGasSpent else gasSpent))
          else ret gasSpent) (\<lambda>gasSpent.
     let weiSpent = BigMulByUint l1BaseFeeWei gasSpent
     in ignore (UpdateForBatchPosterSpending H l1p evm (aos_arbosVersion state) (word_of_int batchTimestamp)
          (blk_Time blk) batchPosterAddress weiSpent l1BaseFeeWei TracingDuringEVM))))"

text \<open>An upgrade at the start of a block changes the state that the following transactions see, which is returned.\<close>

definition ApplyInternalTxUpdate ::
  "(bytes \<Rightarrow> bytes) \<Rightarrow> ArbosActs \<Rightarrow> upgrade_env \<Rightarrow> block_context \<Rightarrow> ArbitrumInternalTx \<Rightarrow> ArbosState \<Rightarrow> EVM \<Rightarrow> (world, ArbosState) op" where
  "ApplyInternalTxUpdate H acts U blk tx state evm =
     (let data = itx_Data tx; selector = take 4 data in
      if length data < 4 then throw (ErrMsg ''internal tx data is too short'')
      else if selector = InternalTxStartBlockMethodID acts
      then bnd (outcome (UnpackInternalTxDataStartBlock acts data)) (applyStartBlock H U blk state evm)
      else if selector = InternalTxBatchPostingReportMethodID acts
      then bnd (outcome (UnpackInternalTxDataBatchPostingReport acts data)) (\<lambda>inputs.
           bnd (applyBatchPostingReport H blk state evm inputs) (\<lambda>_. ret state))
      else if selector = InternalTxBatchPostingReportV2MethodID acts
      then bnd (outcome (UnpackInternalTxDataBatchPostingReportV2 acts data)) (\<lambda>inputs.
           bnd (applyBatchPostingReportV2 H blk state evm inputs) (\<lambda>_. ret state))
      else throw (ErrMsg ''unknown internal tx method selector''))"

section \<open>What a report costs\<close>

definition nonzeros :: "bytes \<Rightarrow> nat" where
  "nonzeros data = length (filter (\<lambda>b. b \<noteq> 0) data)"

text \<open>The gas that a report of version 50 charges for a batch: its legacy cost, the extra gas and the fixed cost
  of a batch, or the floor price of its calldata where that is higher.\<close>

definition report_gas :: "bytes \<Rightarrow> u64 \<Rightarrow> int \<Rightarrow> u64 \<Rightarrow> nat" where
  "report_gas data extra perBatch floorPerToken =
     max (batch_cost data + unat extra + nat perBatch) (unat floorPerToken * (length data + 3 * nonzeros data + 172) + 21000)"

definition per_batch :: "(bytes \<Rightarrow> bytes) \<Rightarrow> L1PricingState \<Rightarrow> world \<Rightarrow> int" where
  "per_batch H ps w = sint (ucast (slot_read w (l1_perBatchGasCost H ps)) :: u64)"

definition floor_per_token :: "(bytes \<Rightarrow> bytes) \<Rightarrow> L1PricingState \<Rightarrow> world \<Rightarrow> u64" where
  "floor_per_token H ps w = ucast (slot_read w (l1_gasFloorPerToken H ps))"

lemma unat_add_exact: "unat a + unat b < 2 ^ 64 \<Longrightarrow> unat (a + b :: u64) = unat a + unat b"
  by (simp add: unat_word_ariths)

lemma unat_mult_exact: "unat a * unat b < 2 ^ 64 \<Longrightarrow> unat (a * b :: u64) = unat a * unat b"
  by (simp add: unat_word_ariths)

lemma unat_SaturatingUCast:
  assumes "p < 2 ^ 63"
  shows "unat (SaturatingUCast 64 p :: u64) = nat p"
proof (cases "p \<le> 0")
  case False
  then have "uint (word_of_int p :: u64) = p" using assms by (simp add: uint_word_of_int)
  then have "nat (uint (word_of_int p :: u64)) = nat p" by simp
  with False show ?thesis by (simp add: SaturatingUCast_def del: uint_word_of_int)
qed (simp add: SaturatingUCast_def)

lemma floor_gas_exact:
  assumes "n + 3 * z + 172 < 2 ^ 64" and "unat c * (n + 3 * z + 172) + 21000 < 2 ^ 64"
  shows "unat (c * (of_nat n + of_nat z * 3 + FloorGasAdditionalTokens) + TxGas) = unat c * (n + 3 * z + 172) + 21000"
proof -
  have "(of_nat n + of_nat z * 3 + FloorGasAdditionalTokens :: u64) = of_nat (n + 3 * z + 172)"
    by (simp add: FloorGasAdditionalTokens_def)
  then have i: "unat (of_nat n + of_nat z * 3 + FloorGasAdditionalTokens :: u64) = n + 3 * z + 172"
    using assms(1) by (simp only: unat_of_nat) simp
  then have "unat (c * (of_nat n + of_nat z * 3 + FloorGasAdditionalTokens)) = unat c * (n + 3 * z + 172)"
    using assms(2) by (simp add: unat_mult_exact)
  then show ?thesis using assms(2) unat_add_exact [of "c * (of_nat n + of_nat z * 3 + FloorGasAdditionalTokens)" TxGas]
    by (simp add: TxGas_def)
qed

lemma report_gas_words:
  assumes "length data < 2 ^ 59" and "p < 2 ^ 63" and "report_gas data extra p c < 2 ^ 64"
  shows "(let g = SaturatingUAdd (SaturatingUAdd (LegacyCostForStats (GetDataStats data)) extra) (SaturatingUCast 64 p);
      fl = c * (of_nat (length data) + of_nat (nonzeros data) * 3 + FloorGasAdditionalTokens) + TxGas
    in unat (if fl > g then fl else g)) = report_gas data extra p c"
proof -
  let ?g = "SaturatingUAdd (SaturatingUAdd (LegacyCostForStats (GetDataStats data)) extra) (SaturatingUCast 64 p)"
  let ?fl = "c * (of_nat (length data) + of_nat (nonzeros data) * 3 + FloorGasAdditionalTokens) + TxGas"
  have b: "batch_cost data + unat extra + nat p < 2 ^ 64" "unat c * (length data + 3 * nonzeros data + 172) + 21000 < 2 ^ 64"
    using assms(3) by (simp_all add: report_gas_def)
  have "nonzeros data \<le> length data" by (simp add: nonzeros_def)
  then have fl: "unat ?fl = unat c * (length data + 3 * nonzeros data + 172) + 21000"
    using assms(1) b(2) by (intro floor_gas_exact) simp_all
  have g: "unat ?g = batch_cost data + unat extra + nat p"
    using b(1) by (simp add: SaturatingUAdd_unat unat_SaturatingUCast [OF assms(2)] LegacyCost_exact [OF assms(1)])
  show ?thesis unfolding Let_def using fl g by (simp add: report_gas_def word_less_nat_alt max_def)
qed


lemma applyV2_run:
  fixes st :: ArbosState
  defines "ps \<equiv> aos_l1PricingState st"
  assumes "sysw w" and "fits 64 (slot_read w (l1_perBatchGasCost H ps))" and "fits 64 (slot_read w (l1_gasFloorPerToken H ps))"
    and "50 \<le> aos_arbosVersion st" and "50 \<le> l1_ArbosVersion ps" and "length data < 2 ^ 59"
    and "report_gas data extra (per_batch H ps w) (floor_per_token H ps w) < 2 ^ 64"
  shows "applyBatchPostingReportV2 H blk st evm
      (ts, a, num, bds_Length (GetDataStats data), bds_NonZeros (GetDataStats data), extra, fee) w
    = ignore (UpdateForBatchPosterSpending H ps evm (aos_arbosVersion st) (word_of_int ts) (blk_Time blk) a
        (fee * int (report_gas data extra (per_batch H ps w) (floor_per_token H ps w))) fee TracingDuringEVM)
      (tick StorageAccessRead StorageReadCost (tick StorageAccessRead StorageReadCost w))"
proof -
  let ?r = "tick StorageAccessRead StorageReadCost"
  let ?p = "per_batch H ps w" and ?c = "floor_per_token H ps w"
  let ?g = "SaturatingUAdd (SaturatingUAdd (LegacyCostForStats (GetDataStats data)) extra) (SaturatingUCast 64 ?p)"
  let ?fl = "?c * (of_nat (length data) + of_nat (nonzeros data) * 3 + FloorGasAdditionalTokens) + TxGas"
  have s: "GetDataStats data = \<lparr>bds_Length = of_nat (length data), bds_NonZeros = of_nat (nonzeros data)\<rparr>"
    by (simp add: GetDataStats_eq nonzeros_def)
  have p: "?p < 2 ^ 63" using sint_lt [of "ucast (slot_read w (l1_perBatchGasCost H ps)) :: u64"] by (simp add: per_batch_def)
  define gas where "gas = (if ?fl > ?g then ?fl else ?g)"
  have u: "unat gas = report_gas data extra ?p ?c"
    using report_gas_words [OF assms(7) p assms(8)] unfolding gas_def Let_def .
  have "int (unat gas) = uint gas" by simp
  then have g: "uint gas = int (report_gas data extra ?p ?c)" unfolding u by (rule sym)
  have r1: "L1_PerBatchGasCost H ps w = (Ok ?p, ?r w)"
    using assms(2,3) by (simp add: L1_PerBatchGasCost_def sys_simps per_batch_def)
  have r2: "L1_ParentGasFloorPerToken H ps (?r w) = (Ok ?c, ?r (?r w))"
    using assms(2,4,6) by (simp add: L1_ParentGasFloorPerToken_def sys_simps floor_per_token_def not_less [symmetric])
  show ?thesis
    unfolding applyBatchPostingReportV2_def Let_def prod.case s BatchDataStats.simps ps_def [symmetric]
    using r1 r2 assms(5) g
    by (simp add: op_simps ArbosVersion_50_def BigMulByUint_def flip: gas_def [unfolded s] split del: if_split)
qed

text \<open>An internal transaction that is not one of the three calls is refused: with less than four bytes of data, or
  with any other selector, the update reports an error, and neither the state nor the world changes.\<close>

theorem unknown_internal_tx_refused:
  assumes "length (itx_Data tx) < 4 \<or> take 4 (itx_Data tx) \<notin> {InternalTxStartBlockMethodID acts,
      InternalTxBatchPostingReportMethodID acts, InternalTxBatchPostingReportV2MethodID acts}"
  shows "\<exists>e. ApplyInternalTxUpdate H acts U blk tx state evm w = (Err e, w)"
  using assms by (auto simp: ApplyInternalTxUpdate_def Let_def op_simps)

lemma acts_ok_V2:
  assumes "acts_ok acts" and "is_uint256 ts" and "is_uint256 fee"
  shows "\<exists>b. PackInternalTxDataBatchPostingReportV2 acts ts a num l z x fee = Ok (InternalTxBatchPostingReportV2MethodID acts @ b)
    \<and> UnpackInternalTxDataBatchPostingReportV2 acts (InternalTxBatchPostingReportV2MethodID acts @ b) = Ok (ts, a, num, l, z, x, fee)"
  using assms unfolding acts_ok_def by (elim conjE) (drule spec [of _ ts], blast)

lemma Apply_report_V2:
  assumes "acts_ok acts" and "is_uint256 ts" and "is_uint256 fee"
    and "PackInternalTxDataBatchPostingReportV2 acts ts a num l z x fee = Ok data"
  shows "ApplyInternalTxUpdate H acts U blk \<lparr>itx_ChainId = cid, itx_Data = data\<rparr> st evm
    = bnd (applyBatchPostingReportV2 H blk st evm (ts, a, num, l, z, x, fee)) (\<lambda>_. ret st)"
proof -
  obtain b where b: "data = InternalTxBatchPostingReportV2MethodID acts @ b"
    "UnpackInternalTxDataBatchPostingReportV2 acts (InternalTxBatchPostingReportV2MethodID acts @ b) = Ok (ts, a, num, l, z, x, fee)"
    using acts_ok_V2 [OF assms(1-3), of a num l z x] assms(4) by auto
  have "length (InternalTxBatchPostingReportV2MethodID acts) = 4"
    "InternalTxBatchPostingReportV2MethodID acts \<noteq> InternalTxStartBlockMethodID acts"
    "InternalTxBatchPostingReportV2MethodID acts \<noteq> InternalTxBatchPostingReportMethodID acts"
    using assms(1) by (auto simp: acts_ok_def)
  then show ?thesis by (rule_tac ext) (simp add: ApplyInternalTxUpdate_def b Let_def op_simps)
qed


section \<open>A concrete instance\<close>

definition demo_block :: block_context where
  "demo_block = \<lparr>blk_BlockNumber = 1, blk_GetHash = (\<lambda>n. ucast n), blk_Time = 5, blk_ProcessParentBlockHash = (\<lambda>_. ret ())\<rparr>"

end
