(* ===== verification/Spec2Isabelle.thy ===== *)
theory Spec2Isabelle
  imports PosterCost InternalTxs
begin

text \<open>
  A verification development of ArbOS, the state machine of Arbitrum Nitro: the Go packages below
  \<^verbatim>\<open>src/arbos\<close> and the parts of \<^verbatim>\<open>src/util\<close> they rest on.

  \<^bold>\<open>The program.\<close> ArbOS keeps its state in the storage of one account of the chain, as a tree of key-value spaces whose slots are derived
  with keccak. On top of it lie typed slots, queues, sets and tables; on top of those the components: L1 pricing (what batch posters are
  owed and what calldata costs), L2 pricing (the base fee), retryable tickets, the Merkle accumulator of outgoing messages, the ring of L1 block
  hashes, feature flags and filtered transactions. Messages from the parent chain are parsed into transactions; internal
  transactions start every block and report posted batches, and drive the components. Every storage access is charged to a burner.

  \<^bold>\<open>How it is modelled.\<close> A Go function that may fail or panic is an operation from a state to an outcome (\<open>Ok\<close>, \<open>Err\<close>, \<open>Panic\<close>) and the state after it
  (\<open>Prelude\<close>). The state of the components is a \<open>world\<close>: storage, balances, code hashes and the burner. Unsigned machine integers are words
  and wrap; signed ones and \<^verbatim>\<open>big.Int\<close> are integers with the wrap-around and the range checks of the source written out. Readers and writers are
  operations on byte strings. Outside code is a parameter: keccak (\<open>H\<close>), the RLP codec, brotli, geth's transactions and their decoder, the ABI
  encoders of the internal calls, the JSON chain configuration, batch fetchers, \<^verbatim>\<open>CreateZombieIfDeleted\<close> and
  \<^verbatim>\<open>ProcessParentBlockHash\<close>. What the code relies on is a named hypothesis (\<open>collision_free\<close> and \<open>layout\<close> for the hash, on the slots in use
  only; \<open>acts_ok\<close> for the ABI; \<open>evm_ok\<close>; \<open>env_ok\<close>), and each has an instance that a witness uses.

  \<^bold>\<open>Theories and sources.\<close>
  \<^item> \<open>ArbMath\<close>, \<open>ApproxExp\<close>: \<^verbatim>\<open>util/arbmath\<close>. Saturating operations give the exact result clamped to the type, but for one corner
    of the signed product; the polynomial for the exponential stays between one and the true value.
  \<^item> \<open>Burn\<close>: \<^verbatim>\<open>arbos/burn\<close> and the gas part of \<^verbatim>\<open>precompiles/context.go\<close>; the locale \<open>burner_contract\<close> is interpreted for both burners.
  \<^item> \<open>Storage\<close>, \<open>Backed\<close>, \<open>StorageBytes\<close>, \<open>StorageQueue\<close>: \<^verbatim>\<open>arbos/storage\<close>. Spaces are disjoint, every typed slot returns what was stored (locale
    \<open>backed_value\<close>, one interpretation for each type), byte strings round-trip, the queue refines a list (locale \<open>fifo\<close>).
  \<^item> \<open>Layout\<close>, \<open>IndexedArray\<close>, \<open>Concrete\<close>: locations in the tree of spaces, the array with an index that sets and tables share, concrete worlds and hashes.
  \<^item> \<open>AddressSet\<close>, \<open>AddressTable\<close>, \<open>Blockhash\<close>: \<^verbatim>\<open>arbos/addressSet\<close>, \<^verbatim>\<open>arbos/addressTable\<close>, \<^verbatim>\<open>arbos/blockhash\<close>. The set refines a set (locale
    \<open>address_registry\<close>), the table numbers addresses for good and compression round-trips, the ring answers for its window.
  \<^item> \<open>GasConstraints\<close>, \<open>L2Pricing\<close>, \<open>MultiGasPricing\<close>: \<^verbatim>\<open>arbos/l2pricing\<close>. Each of the three models refines its formula on values; converting the legacy
    parameters keeps the price; a refund is never negative.
  \<^item> \<open>Util\<close>: \<^verbatim>\<open>arbos/util/util.go\<close> and \<^verbatim>\<open>transfer.go\<close>. Writing and reading undo each other; transfers conserve the supply.
  \<^item> \<open>L1Pricing\<close>, \<open>L1Accounting\<close>, \<open>PosterCost\<close>: \<^verbatim>\<open>arbos/l1pricing\<close>. The words of the model are gathered into the record \<open>pricing\<close>, related to a
    world by \<open>represents\<close>; an update for a batch simulates \<open>batch_update\<close> on it, which keeps the books straight.
  \<^item> \<open>MerkleAccumulator\<close>, \<open>MerkleTree\<close>: \<^verbatim>\<open>arbos/merkleAccumulator\<close>, \<^verbatim>\<open>util/merkletree\<close>. The root after any appends is that of the padded tree, for the
    accumulator in storage and in memory (locale \<open>merkle_store\<close>); proofs are complete, and sound up to collisions; trees survive serialisation.
  \<^item> \<open>Retryables\<close>: \<^verbatim>\<open>arbos/retryables\<close>. Tickets round-trip, are queued once per window, and are all reaped once they have expired; the escrow reaches the beneficiary.
  \<^item> \<open>FeatureFlags\<close>, \<open>FilteredTransactions\<close>: \<^verbatim>\<open>arbos/features\<close>, \<^verbatim>\<open>arbos/filteredTransactions\<close>. A switch changes one flag; the register refines a set.
  \<^item> \<open>Messages\<close>: \<^verbatim>\<open>arbos/arbostypes/incomingmessage.go\<close>. Messages round-trip; a report is completed with the data of the batch it names.
  \<^item> \<open>ParseL2\<close>: \<^verbatim>\<open>arbos/parse_l2.go\<close>. Transactions are typed by the kind of their message, batches round-trip, seventeen frames of stack suffice.
  \<^item> \<open>ArbosState\<close>: \<^verbatim>\<open>arbos/arbosState/arbosstate.go\<close>. Opening the state, and upgrades that run when they are due.
  \<^item> \<open>InternalTxs\<close>: \<^verbatim>\<open>arbos/internal_tx.go\<close>. The handlers of the start of a block and of batch posting reports.
  \<^item> This theory: a report is followed from its message through the parser and the handler to the books of L1 pricing.

  \<^bold>\<open>Bounds and fuel.\<close> Most loops are structural, or recursive with a termination proof. Three take fuel: \<open>Root_pad\<close> and \<open>tree_pad\<close> double a
  64-bit capacity, so that their 65 rounds reach every capacity, and \<open>tree_reader\<close> gets one round more than there are bytes, each
  call reading at least one; running out is a panic of the model, and the theorems on the root and on serialised trees state that a
  result is returned. Nested batches recurse on the bytes
  that are left, eight fewer for each segment; the loop of an upgrade runs once for each version, so its number of rounds is known
  when it starts. Structures in storage are related to their abstract values up to a capacity \<open>N\<close> below \<open>2 ^ 63\<close> entries, because their
  offsets are 64-bit words. Hypotheses such as \<open>batch_fits\<close> or \<open>length data < 2 ^ 59\<close> say where amounts stay in the range of
  their types; where the code saturates or clamps, the clamping is part of the definition.

  \<^bold>\<open>Not modelled.\<close> Block production and transaction processing (\<^verbatim>\<open>arbos/block_processor.go\<close>, \<^verbatim>\<open>tx_processor.go\<close>, \<^verbatim>\<open>engine.go\<close>) are hooks of
  geth's EVM and state database, which are not part of the repository; the operations they call are modelled. \<^verbatim>\<open>InitializeArbosState\<close> sets up genesis from
  geth's chain configuration; the initialisers of the components are modelled. Stylus programs (\<^verbatim>\<open>arbos/programs\<close>, \<^verbatim>\<open>crates\<close>) run in a native
  WASM runtime, and what upgrades do to their parameters is a parameter of \<open>ArbosState\<close>. Precompiles dispatch by reflection on
  the ABI to state operations that are modelled. Tracing is not part of the state. The node, the sequencer, the batch poster, the inbox and
  its databases, validation and fraud proofs, data availability, feeds, commands and the Rust port are I/O, concurrency or a second implementation.
\<close>

section \<open>From a message to the books\<close>

lemma length_report_bytes: "length (report_bytes ts a dh num fee extra) \<le> 156"
  by (cases extra) (simp_all add: report_bytes_def)

lemma report_transaction:
  fixes C :: "'tx signed_codec"
  assumes "hdr_Kind (im_Header msg) = 13" and "im_L2msg msg = report_bytes ts a dataHash num fee extra"
    and "im_BatchDataStats msg = Some stats" and "50 \<le> lastVersion"
    and "PackInternalTxDataBatchPostingReportV2 acts (uint ts) a num (bds_Length stats) (bds_NonZeros stats)
      (case extra of None \<Rightarrow> 0 | Some g \<Rightarrow> g) (uint fee) = Ok data"
  shows "ParseL2Transactions C acts H msg chainId lastVersion = Ok [InternalTx \<lparr>itx_ChainId = chainId, itx_Data = data\<rparr>]"
proof -
  have l: "\<not> length (im_L2msg msg) > unat MaxL2MessageSize"
    using length_report_bytes [of ts a dataHash num fee extra] assms(2) by (simp add: MaxL2MessageSize_def)
  have "createBatchPostingReportTransaction acts chainId lastVersion (Some stats) (im_LegacyBatchGasCost msg)
      (report_bytes ts a dataHash num fee extra) = (Ok (InternalTx \<lparr>itx_ChainId = chainId, itx_Data = data\<rparr> :: 'tx Transaction), [])"
    using assms(4,5) by (simp add: createBatchPostingReportTransaction_def bnd_def op_simps parse_report_bytes ArbosVersion_50_def
        not_less [symmetric])
  then show ?thesis
    using l assms(1-3) by (simp add: ParseL2Transactions_def Let_def one_tx_def bnd_def op_simps)
qed

lemma Update_fits:
  assumes "represents H ps P N p w" and "a \<in> P" and "a \<in> set (pr_posters p) \<or> length (pr_posters p) < N"
    and "fraction (pr_updated p) ut ct = Some f" and "10 \<le> ver" and "pr_fees p \<le> balance_of w L1PricerFundsPoolAddress"
    and "evm_ok evm" and "funds_ok w" and "\<not> traced_outside evm sc" and "batch_fits f a wei fee ut p"
  shows "\<exists>w'. UpdateForBatchPosterSpending H ps evm ver ut ct a wei fee sc
      (tick StorageAccessRead StorageReadCost (tick StorageAccessRead StorageReadCost w)) = (Ok (), w')
    \<and> represents H ps P N (batch_update f a wei fee ut p) w' \<and> total_supply w' = total_supply w"
proof -
  let ?w = "tick StorageAccessRead StorageReadCost (tick StorageAccessRead StorageReadCost w)"
  have "funds_ok ?w" "total_supply ?w = total_supply w"
    using assms(8) by (simp_all add: funds_ok_def balances_ok_def total_supply_def)
  then show ?thesis using batch_runs_from [of H ps P N p ?w a ut ct f ver evm sc wei fee] assms by auto
qed

text \<open>C1: From the message to the books: on a chain at version 50 or later, a batch posting report that has been completed with
  the data of its batch is parsed into one internal transaction, and applying that transaction charges the L1 pricing
  model for exactly the gas of the batch, the legacy cost with the extra gas and the fixed cost or the floor price where
  that is higher, at the base fee of the report: the surplus falls by that amount, capped, and by the rewards, the books
  are kept, and no wei is created or lost.\<close>

theorem batch_report_reaches_pricing:
  assumes "acts_ok acts" and "hdr_Kind (im_Header msg) = 13" and "im_L2msg msg = report_bytes ts a dataHash num fee extra"
    and "im_BatchDataStats msg = Some (GetDataStats data)" and "length data < 2 ^ 59"
    and "50 \<le> lastVersion" and "50 \<le> aos_arbosVersion st" and "aos_l1PricingState st = ps" and "50 \<le> l1_ArbosVersion ps"
    and "fits 64 (slot_read w (l1_perBatchGasCost H ps))" and "fits 64 (slot_read w (l1_gasFloorPerToken H ps))"
    and "gas = report_gas data (case extra of None \<Rightarrow> 0 | Some g \<Rightarrow> g) (per_batch H ps w) (floor_per_token H ps w)" and "gas < 2 ^ 64"
    and "represents H ps P N p w" and "a \<in> P" and "a \<in> set (pr_posters p) \<or> length (pr_posters p) < N"
    and "fraction (pr_updated p) (ucast ts) (blk_Time blk) = Some f" and "pr_fees p \<le> balance_of w L1PricerFundsPoolAddress"
    and "evm_ok evm" and "funds_ok w"
    and "batch_fits f a (uint fee * int gas) (uint fee) (ucast ts) p" and "balanced p"
  shows "\<exists>tx p' w'. ParseL2Transactions C acts H msg chainId lastVersion = Ok [InternalTx tx]
    \<and> ApplyInternalTxUpdate H acts U blk tx st evm w = (Ok st, w') \<and> represents H ps P N p' w'
    \<and> surplus p' = surplus p - capped (pr_capBips p) (uint fee * int gas) (uint fee) (batch_units f p)
        - uint (batch_units f p) * uint (pr_perUnitReward p)
    \<and> balanced p' \<and> total_supply w' = total_supply w"
proof -
  let ?x = "case extra of None \<Rightarrow> 0 | Some g \<Rightarrow> g" and ?wei = "uint fee * int gas"
  let ?p' = "batch_update f a ?wei (uint fee) (ucast ts) p"
  obtain b where b: "PackInternalTxDataBatchPostingReportV2 acts (uint ts) a num (bds_Length (GetDataStats data))
      (bds_NonZeros (GetDataStats data)) ?x (uint fee) = Ok b"
    using acts_ok_V2 [OF assms(1) is_uint256_uint is_uint256_uint] by blast
  have "(10 :: u64) \<le> 50" by simp
  then have ver: "10 \<le> aos_arbosVersion st" using assms(7) by (rule order_trans)
  obtain w' where w': "UpdateForBatchPosterSpending H ps evm (aos_arbosVersion st) (ucast ts) (blk_Time blk) a ?wei (uint fee) TracingDuringEVM
      (tick StorageAccessRead StorageReadCost (tick StorageAccessRead StorageReadCost w)) = (Ok (), w')"
    "represents H ps P N ?p' w'" "total_supply w' = total_supply w"
    using Update_fits [OF assms(14-17) ver assms(18-20) _ assms(21)] by (auto simp: traced_outside_def)
  have "applyBatchPostingReportV2 H blk st evm (uint ts, a, num, bds_Length (GetDataStats data), bds_NonZeros (GetDataStats data), ?x, uint fee) w
      = (Ok (), w')"
    using applyV2_run [where st = st and H = H and w = w and data = data and extra = ?x and ts = "uint ts" and fee = "uint fee"]
      assms(5,7-13) w'(1) represents_sys [OF assms(14)] by (simp add: or_zero_run)
  then have "ApplyInternalTxUpdate H acts U blk \<lparr>itx_ChainId = chainId, itx_Data = b\<rparr> st evm w = (Ok st, w')"
    using Apply_report_V2 [OF assms(1) is_uint256_uint is_uint256_uint b] by (simp add: op_simps)
  then show ?thesis
    using report_transaction [OF assms(2-4,6) b] w'(2,3) batch_update_surplus [of f a ?wei "uint fee" "ucast ts" p]
      batch_update_balanced [OF assms(22)]
    by (intro exI [of _ "\<lparr>itx_ChainId = chainId, itx_Data = b\<rparr>"] exI [of _ ?p'] exI [of _ w'])
       (simp add: batch_spent_def batch_reward_def)
qed


definition demo_state :: ArbosState where
  "demo_state = (arbosStateAt wide_hash demo_accounts 50)\<lparr>aos_l1PricingState := demo_l1\<rparr>"

definition demo_batch_report :: L1IncomingMessage where
  "demo_batch_report = \<lparr>im_Header = im_Header demo_report, im_L2msg = report_bytes 5 7 0 4 1 (Some 6),
     im_LegacyBatchGasCost = None, im_BatchDataStats = Some (GetDataStats [0, 7])\<rparr>"

lemma demo_report_fits:
  "report_gas [0, 7] 6 (per_batch wide_hash demo_l1 demo_books) (floor_per_token wide_hash demo_l1 demo_books) = 40062"
  "batch_fits (1, 1) 7 40062 1 5 demo_l1_pricing"
proof -
  have "per_batch wide_hash demo_l1 demo_books = 0" "floor_per_token wide_hash demo_l1 demo_books = 0"
    using demo_books_reads(1) [of 9] demo_books_reads(1) [of 12] by (simp_all add: per_batch_def floor_per_token_def)
  then show "report_gas [0, 7] 6 (per_batch wide_hash demo_l1 demo_books) (floor_per_token wide_hash demo_l1 demo_books) = 40062"
    by (simp add: report_gas_def batch_cost_def nonzeros_def)
  have q: "pr_due (ensure_poster 7 demo_l1_pricing) = (\<lambda>_. 0)"
    by (simp add: ensure_poster_def add_poster_def demo_l1_pricing_fields fun_eq_iff)
  have s: "batch_spent (1, 1) 40062 1 demo_l1_pricing = 40062" "batch_reward (1, 1) demo_l1_pricing = 20"
    by (simp_all add: batch_spent_def batch_reward_def demo_batch(2) capped_def demo_l1_pricing_fields)
  have p: "reward_payment (1, 1) demo_l1_pricing = 20" "poster_payment (1, 1) 7 40062 1 demo_l1_pricing = 30"
    by (simp_all add: reward_payment_def poster_payment_def s q demo_l1_pricing_fields)
  have "pr_price (batch_update (1, 1) 7 40062 1 5 demo_l1_pricing) < 2 ^ 256"
    by (simp add: batch_update_def adjust_def batch_settle_def Let_def demo_batch(2) s p q demo_l1_pricing_fields price_step_def)
  then show "batch_fits (1, 1) 7 40062 1 5 demo_l1_pricing"
    by (simp add: batch_fits_def s q demo_l1_pricing_fields inS_def twoToThe256_def)
qed


lemma batch_report_reaches_pricing_witness:
  "\<exists>tx p' w'. ParseL2Transactions demo_signed demo_acts wide_hash demo_batch_report 1 50 = Ok [InternalTx tx]
    \<and> ApplyInternalTxUpdate wide_hash demo_acts demo_env demo_block tx demo_state demo_evm demo_books = (Ok demo_state, w')
    \<and> represents wide_hash demo_l1 {7} 2 p' w' \<and> surplus p' = - 40032"
proof -
  have r: "slot_read demo_books (l1_word wide_hash demo_l1 9) = 0" "slot_read demo_books (l1_word wide_hash demo_l1 12) = 0"
    using demo_books_reads(1) [of 9] demo_books_reads(1) [of 12] by simp_all
  have s: "surplus demo_l1_pricing - capped (pr_capBips demo_l1_pricing) 40062 1 (batch_units (1, 1) demo_l1_pricing)
      - uint (batch_units (1, 1) demo_l1_pricing) * uint (pr_perUnitReward demo_l1_pricing) = - 40032"
    by (simp add: demo_batch capped_def demo_l1_pricing_fields)
  have "\<exists>tx p' w'. ParseL2Transactions demo_signed demo_acts wide_hash demo_batch_report 1 50 = Ok [InternalTx tx]
    \<and> ApplyInternalTxUpdate wide_hash demo_acts demo_env demo_block tx demo_state demo_evm demo_books = (Ok demo_state, w')
    \<and> represents wide_hash demo_l1 {7} 2 p' w'
    \<and> surplus p' = surplus demo_l1_pricing - capped (pr_capBips demo_l1_pricing) (uint (1 :: hash) * int 40062) (uint (1 :: hash)) (batch_units (1, 1) demo_l1_pricing)
        - uint (batch_units (1, 1) demo_l1_pricing) * uint (pr_perUnitReward demo_l1_pricing)
    \<and> balanced p' \<and> total_supply w' = total_supply demo_books"
  proof (rule batch_report_reaches_pricing [where ts = 5 and a = 7 and dataHash = 0 and num = 4 and extra = "Some 6" and data = "[0, 7]"])
    show "acts_ok demo_acts" by (rule demo_acts_ok)
    show "represents wide_hash demo_l1 {7} 2 demo_l1_pricing demo_books" by (rule demo_l1_pricing_fields(1))
    show "40062 = report_gas [0, 7] (case Some 6 of None \<Rightarrow> 0 | Some g \<Rightarrow> g) (per_batch wide_hash demo_l1 demo_books)
        (floor_per_token wide_hash demo_l1 demo_books)" using demo_report_fits(1) by simp
    show "fraction (pr_updated demo_l1_pricing) (ucast (5 :: hash)) (blk_Time demo_block) = Some (1, 1)"
      using demo_batch(1) by (simp add: demo_block_def)
    show "batch_fits (1, 1) 7 (uint (1 :: hash) * int 40062) (uint (1 :: hash)) (ucast (5 :: hash)) demo_l1_pricing"
      using demo_report_fits(2) by simp
  qed (simp_all add: demo_batch_report_def demo_report_def demo_state_def demo_l1_def OpenL1PricingState_def r [unfolded demo_l1_def OpenL1PricingState_def] fits_def
      demo_l1_pricing_fields demo_books_funds demo_evm_ok demo_batch(4))
  with s show ?thesis by auto
qed

end
